(* ===== verification/Prelude.thy ===== *)
theory Prelude
  imports Main "HOL-Library.Word" "HOL-Library.Monad_Syntax"
begin

text \<open>
  Shared vocabulary of the development: the machine integers of the Rust sources as words of their
  width, the values an asynchronous operation returns, tasks, the contents of a slab, and the
  generic lemmas on words, lists and division that several components use.

  Conventions.
  \<^item> A panic (a failed \<open>assert!\<close>, an \<open>unwrap\<close> of \<open>None\<close>, an index out of range, an invalid slab
    key) is the value \<open>None\<close> of an operation whose result type is an option.
  \<^item> \<open>Result<T, E>\<close> is the sum type with \<open>Inl\<close> for \<open>Err\<close> and \<open>Inr\<close> for \<open>Ok\<close>.
  \<^item> A task is a number; waking tasks is returning the list of the tasks that were woken, in order.
  \<^item> The \<open>slab\<close> crate is not part of the sources. Its contents are a finite map from keys to values;
    the key a slab hands out for a new value is an argument of the operations that insert, and the
    documented fact that it is vacant is a hypothesis where it is needed.
\<close>

unbundle bit_operations_syntax

type_synonym u8 = "8 word"
type_synonym u16 = "16 word"
type_synonym u32 = "32 word"
type_synonym u64 = "64 word"

text \<open>Nanoseconds on the monotonic clock: \<open>std::time::Instant\<close> and \<open>std::time::Duration\<close>.\<close>

type_synonym instant = nat
type_synonym duration = nat

type_synonym task = nat

datatype 'a poll = Pending | Ready 'a

fun is_ready :: "'a poll \<Rightarrow> bool" where
  "is_ready Pending = False"
| "is_ready (Ready _) = True"

named_theorems unat_simps

section \<open>Words read as natural numbers\<close>

lemma unat_lt_u64 [simp]: "unat (w :: u64) < 18446744073709551616"
  using unsigned_less [of w, where ?'a = nat] by simp

lemma unat_drop_bit_div [unat_simps]: "unat (drop_bit n (w :: 'a::len word)) = unat w div 2 ^ n"
  by (rule trans [OF unat_drop_bit_eq drop_bit_eq_div])

lemma unat_push_bit_mod:
  "unat (push_bit n (w :: 'a::len word)) = (unat w * 2 ^ n) mod 2 ^ LENGTH('a)"
  unfolding unsigned_push_bit_eq by (simp add: take_bit_eq_mod push_bit_eq_mult)

lemma unat_push_bit_no_overflow [unat_simps]:
  "unat w * 2 ^ n < 2 ^ LENGTH('a) \<Longrightarrow> unat (push_bit n (w :: 'a::len word)) = unat w * 2 ^ n"
  by (simp only: unat_push_bit_mod mod_less)

lemma unat_and_mask_mod:
  "unat (w AND mask n) = unat (w :: 'a::len word) mod 2 ^ n"
  unfolding take_bit_eq_mask [symmetric] unsigned_take_bit_eq by (simp only: take_bit_eq_mod)

lemma unat_add_no_overflow [unat_simps]:
  "unat a + unat b < 2 ^ LENGTH('a) \<Longrightarrow> unat (a + b :: 'a::len word) = unat a + unat b"
  by (simp only: unat_word_ariths mod_less)

lemma unat_sub_no_underflow:
  "unat b \<le> unat a \<Longrightarrow> unat (a - b :: 'a::len word) = unat a - unat b"
  by (simp add: unat_sub word_le_nat_alt)

section \<open>Rounding up to a multiple\<close>

definition cdiv :: "nat \<Rightarrow> nat \<Rightarrow> nat" where
  "cdiv a b = (a + b - 1) div b"

lemma cdiv_mult_ge: "0 < b \<Longrightarrow> a \<le> cdiv a b * b"
proof -
  assume b: "0 < b"
  have "a + b - 1 = cdiv a b * b + (a + b - 1) mod b"
    by (simp add: cdiv_def)
  moreover have "(a + b - 1) mod b < b" using b by simp
  ultimately show ?thesis using b by linarith
qed

lemma cdiv_mult_lt: "0 < b \<Longrightarrow> cdiv a b * b < a + b"
proof -
  assume b: "0 < b"
  have "cdiv a b * b \<le> a + b - 1"
    by (simp add: cdiv_def)
  with b show ?thesis by linarith
qed

lemma cdiv_le_iff: "0 < b \<Longrightarrow> cdiv a b \<le> k \<longleftrightarrow> a \<le> k * b"
proof
  assume b: "0 < b" and "cdiv a b \<le> k"
  then have "cdiv a b * b \<le> k * b" by simp
  with cdiv_mult_ge [OF b, of a] show "a \<le> k * b" by linarith
next
  assume b: "0 < b" and le: "a \<le> k * b"
  have "cdiv a b * b < k * b + b"
    using cdiv_mult_lt [OF b, of a] le by linarith
  then have "cdiv a b * b < Suc k * b" by simp
  then show "cdiv a b \<le> k" by (metis less_Suc_eq_le mult_less_cancel2)
qed

lemma cdiv_cdiv: "0 < a \<Longrightarrow> 0 < b \<Longrightarrow> cdiv (cdiv n a) b = cdiv n (a * b)"
proof (rule antisym)
  assume "0 < a" "0 < b"
  then have "\<And>k. cdiv (cdiv n a) b \<le> k \<longleftrightarrow> cdiv n (a * b) \<le> k"
    by (simp add: cdiv_le_iff mult.assoc mult.commute [of a])
  then show "cdiv (cdiv n a) b \<le> cdiv n (a * b)" and "cdiv n (a * b) \<le> cdiv (cdiv n a) b"
    by auto
qed

section \<open>Flag sets\<close>

text \<open>
  The flag types of the sources are declared with the \<open>bitflags\<close> crate: a set of named bits in one
  machine word, with the documented set operations. A flag of the sources is \<open>flag n\<close>, the word with
  bit \<open>n\<close> set.
\<close>

definition flag :: "nat \<Rightarrow> 'a::len word" where
  "flag n = push_bit n 1"

definition fl_contains :: "'a::len word \<Rightarrow> 'a word \<Rightarrow> bool" where
  "fl_contains f x \<longleftrightarrow> f AND x = x"

definition fl_intersects :: "'a::len word \<Rightarrow> 'a word \<Rightarrow> bool" where
  "fl_intersects f x \<longleftrightarrow> f AND x \<noteq> 0"

definition fl_insert :: "'a::len word \<Rightarrow> 'a word \<Rightarrow> 'a word" where
  "fl_insert f x = f OR x"

definition fl_remove :: "'a::len word \<Rightarrow> 'a word \<Rightarrow> 'a word" where
  "fl_remove f x = f AND NOT x"

named_theorems flag_simps

lemma bit_flag [flag_simps]: "bit (flag n :: 'a::len word) m \<longleftrightarrow> n = m \<and> m < LENGTH('a)"
  by (auto simp: flag_def bit_simps)

lemma bit_fl_insert [flag_simps]: "bit (fl_insert f x) n \<longleftrightarrow> bit f n \<or> bit x n"
  by (simp add: fl_insert_def bit_simps)

lemma bit_fl_remove [flag_simps]: "bit (fl_remove f x) n \<longleftrightarrow> bit f n \<and> \<not> bit x n"
  by (auto simp: fl_remove_def bit_simps dest: bit_imp_le_length)

lemma fl_contains_iff: "fl_contains f x \<longleftrightarrow> (\<forall>n. bit x n \<longrightarrow> bit f n)"
  by (auto simp: fl_contains_def bit_eq_iff bit_simps dest: bit_imp_le_length)

lemma fl_intersects_iff: "fl_intersects f x \<longleftrightarrow> (\<exists>n. bit x n \<and> bit f n)"
  by (auto simp: fl_intersects_def bit_eq_iff bit_simps intro: bit_imp_le_length)

lemma fl_contains_flag [flag_simps]:
  "n < LENGTH('a) \<Longrightarrow> fl_contains (f :: 'a::len word) (flag n) \<longleftrightarrow> bit f n"
  by (auto simp: fl_contains_iff bit_flag)

lemma fl_intersects_flag [flag_simps]:
  "n < LENGTH('a) \<Longrightarrow> fl_intersects (f :: 'a::len word) (flag n) \<longleftrightarrow> bit f n"
  by (auto simp: fl_intersects_iff bit_flag)

lemma fl_contains_or [flag_simps]:
  "fl_contains f (x OR y) \<longleftrightarrow> fl_contains f x \<and> fl_contains f y"
  by (auto simp: fl_contains_iff bit_simps)

lemma fl_intersects_or [flag_simps]:
  "fl_intersects f (x OR y) \<longleftrightarrow> fl_intersects f x \<or> fl_intersects f y"
  by (auto simp: fl_intersects_iff bit_simps)

lemma bit_flag_or [flag_simps]: "bit (x OR y :: 'a::len word) n \<longleftrightarrow> bit x n \<or> bit y n"
  by (simp add: bit_simps)

lemma bit_zero_word [flag_simps]: "\<not> bit (0 :: 'a::len word) n"
  by simp

section \<open>The contents of a slab\<close>

type_synonym 'a slab = "'a option list"

definition slab_get :: "'a slab \<Rightarrow> nat \<Rightarrow> 'a option" where
  "slab_get s k = (if k < length s then s ! k else None)"

definition slab_put :: "'a slab \<Rightarrow> nat \<Rightarrow> 'a \<Rightarrow> 'a slab" where
  "slab_put s k v = (s @ replicate (Suc k - length s) None)[k := Some v]"

definition slab_del :: "'a slab \<Rightarrow> nat \<Rightarrow> 'a slab" where
  "slab_del s k = s[k := None]"

definition slab_values :: "'a slab \<Rightarrow> 'a list" where
  "slab_values s = List.map_filter id s"

definition slab_is_empty :: "'a slab \<Rightarrow> bool" where
  "slab_is_empty s \<longleftrightarrow> list_all (\<lambda>e. e = None) s"

definition slab_map :: "('a \<Rightarrow> 'b) \<Rightarrow> 'a slab \<Rightarrow> 'b slab" where
  "slab_map f s = map (map_option f) s"

lemma slab_get_nil [simp]: "slab_get [] k = None"
  by (simp add: slab_get_def)

lemma slab_get_put [simp]: "slab_get (slab_put s k v) j = (if j = k then Some v else slab_get s j)"
  by (auto simp: slab_get_def slab_put_def nth_append nth_list_update)

lemma slab_get_del [simp]: "slab_get (slab_del s k) j = (if j = k then None else slab_get s j)"
  by (auto simp: slab_get_def slab_del_def nth_list_update)

lemma slab_get_map [simp]: "slab_get (slab_map f s) k = map_option f (slab_get s k)"
  by (simp add: slab_get_def slab_map_def)

lemma slab_values_iff: "v \<in> set (slab_values s) \<longleftrightarrow> (\<exists>k. slab_get s k = Some v)"
  by (force simp: slab_values_def slab_get_def map_filter_def in_set_conv_nth image_iff)

lemma slab_is_empty_iff: "slab_is_empty s \<longleftrightarrow> (\<forall>k. slab_get s k = None)"
  by (auto simp: slab_is_empty_def slab_get_def list_all_length)

lemma slab_values_empty_iff: "slab_values s = [] \<longleftrightarrow> slab_is_empty s"
proof -
  have "slab_values s = [] \<longleftrightarrow> (\<forall>v. v \<notin> set (slab_values s))"
    by (auto simp flip: set_empty)
  also have "\<dots> \<longleftrightarrow> (\<forall>k. slab_get s k = None)"
    unfolding slab_values_iff by (metis not_Some_eq)
  finally show ?thesis by (simp only: slab_is_empty_iff)
qed

end
