(* ===== verification/Time_Types.thy ===== *)
theory Time_Types
  imports Prelude
begin

text \<open>
  The timeout types \<open>Millis\<close> (a \<open>u32\<close>) and \<open>Seconds\<close> (a \<open>u16\<close>) of
  \<open>geario/src/util/time/types.rs\<close>: constructors, saturating additions and the conversions from
  and to the standard integers and \<open>Duration\<close> (nanoseconds). Signed arguments are words read with
  \<open>sint\<close>; \<open>usize\<close> is a 64-bit word. The lemmas show where the arithmetic is exact, that it saturates
  instead of wrapping, which conversions are monotone, and the round trip through \<open>Duration\<close>.
\<close>

section \<open>Saturating arithmetic of the standard library\<close>

definition saturating_add :: "'a::len word \<Rightarrow> 'a word \<Rightarrow> 'a word" where
  "saturating_add a b = (if unat a + unat b < 2 ^ LENGTH('a) then a + b else - 1)"

definition saturating_mul :: "'a::len word \<Rightarrow> 'a word \<Rightarrow> 'a word" where
  "saturating_mul a b = (if unat a * unat b < 2 ^ LENGTH('a) then a * b else - 1)"

definition saturating_sub :: "'a::len word \<Rightarrow> 'a word \<Rightarrow> 'a word" where
  "saturating_sub a b = (if b \<le> a then a - b else 0)"

lemma unat_minus_1: "unat (- 1 :: 'a::len word) = 2 ^ LENGTH('a) - 1"
  by (simp add: unsigned_minus_1_eq_mask mask_eq_exp_minus_1)

lemma unat_saturating_add [unat_simps]:
  "unat (saturating_add a b :: 'a::len word) = min (unat a + unat b) (2 ^ LENGTH('a) - 1)"
  by (simp add: saturating_add_def unat_minus_1 unat_add_no_overflow)

lemma unat_saturating_mul [unat_simps]:
  "unat (saturating_mul a b :: 'a::len word) = min (unat a * unat b) (2 ^ LENGTH('a) - 1)"
  by (simp add: saturating_mul_def unat_minus_1 unat_word_ariths)

lemma unat_saturating_sub [unat_simps]:
  "unat (saturating_sub a b :: 'a::len word) = unat a - unat b"
  by (simp add: saturating_sub_def unat_sub word_le_nat_alt)

section \<open>Millis\<close>

datatype millis = Millis (millis_val: u32)

datatype seconds = Seconds (seconds_val: u16)

definition MILLIS_ZERO :: millis where "MILLIS_ZERO = Millis 0"

definition ONE_SEC :: millis where "ONE_SEC = Millis 1000"

definition millis_from_secs :: "u32 \<Rightarrow> millis" where
  "millis_from_secs secs = Millis (secs * 1000)"

definition millis_is_zero :: "millis \<Rightarrow> bool" where
  "millis_is_zero m \<longleftrightarrow> millis_val m = 0"

definition millis_non_zero :: "millis \<Rightarrow> bool" where
  "millis_non_zero m \<longleftrightarrow> millis_val m \<noteq> 0"

definition millis_map :: "(millis \<Rightarrow> 'r) \<Rightarrow> millis \<Rightarrow> 'r option" where
  "millis_map f m = (if millis_val m = 0 then None else Some (f m))"

definition millis_add :: "millis \<Rightarrow> millis \<Rightarrow> millis" where
  "millis_add a b = Millis (saturating_add (millis_val a) (millis_val b))"

definition millis_add_seconds :: "millis \<Rightarrow> seconds \<Rightarrow> millis" where
  "millis_add_seconds a s =
     Millis (saturating_add (millis_val a) (saturating_mul (ucast (seconds_val s)) 1000))"

definition millis_from_u32 :: "u32 \<Rightarrow> millis" where
  "millis_from_u32 s = Millis s"

definition millis_from_i32 :: "u32 \<Rightarrow> millis" where
  "millis_from_i32 i = Millis (if sint i < 0 then 0 else i)"

definition millis_from_usize :: "u64 \<Rightarrow> millis" where
  "millis_from_usize s = Millis (if unat s < 2 ^ 32 then ucast s else - 1)"

definition millis_from_seconds :: "seconds \<Rightarrow> millis" where
  "millis_from_seconds s = Millis (saturating_mul (ucast (seconds_val s)) 1000)"

text \<open>\<open>Duration::as_millis\<close> truncates to whole milliseconds.\<close>

definition duration_as_millis :: "duration \<Rightarrow> nat" where
  "duration_as_millis d = d div 1000000"

definition duration_from_millis :: "u64 \<Rightarrow> duration" where
  "duration_from_millis m = unat m * 1000000"

definition duration_from_secs :: "u64 \<Rightarrow> duration" where
  "duration_from_secs s = unat s * 1000000000"

definition millis_from_duration :: "duration \<Rightarrow> millis" where
  "millis_from_duration d =
     (let m = duration_as_millis d in Millis (if m < 2 ^ 32 then of_nat m else push_bit 31 1))"

definition duration_from_millis_type :: "millis \<Rightarrow> duration" where
  "duration_from_millis_type m = duration_from_millis (ucast (millis_val m))"

definition millis_add_duration :: "millis \<Rightarrow> duration \<Rightarrow> millis" where
  "millis_add_duration m d = millis_add m (millis_from_duration d)"

definition duration_add_millis :: "duration \<Rightarrow> millis \<Rightarrow> duration" where
  "duration_add_millis d m = d + duration_from_millis_type m"

section \<open>Seconds\<close>

definition seconds_new :: "u16 \<Rightarrow> seconds" where
  "seconds_new s = Seconds s"

definition seconds_checked_new :: "u64 \<Rightarrow> seconds" where
  "seconds_checked_new s = Seconds (if 65535 < s then 65535 else ucast s)"

definition seconds_is_zero :: "seconds \<Rightarrow> bool" where
  "seconds_is_zero s \<longleftrightarrow> seconds_val s = 0"

definition seconds_non_zero :: "seconds \<Rightarrow> bool" where
  "seconds_non_zero s \<longleftrightarrow> seconds_val s \<noteq> 0"

definition seconds_seconds :: "seconds \<Rightarrow> u64" where
  "seconds_seconds s = ucast (seconds_val s)"

definition seconds_map :: "(millis \<Rightarrow> 'r) \<Rightarrow> seconds \<Rightarrow> 'r option" where
  "seconds_map f s = (if seconds_val s = 0 then None else Some (f (millis_from_seconds s)))"

definition seconds_add :: "seconds \<Rightarrow> seconds \<Rightarrow> seconds" where
  "seconds_add a b = Seconds (saturating_add (seconds_val a) (seconds_val b))"

definition duration_from_seconds_type :: "seconds \<Rightarrow> duration" where
  "duration_from_seconds_type s = duration_from_secs (ucast (seconds_val s))"

definition seconds_from_u16 :: "u16 \<Rightarrow> seconds" where
  "seconds_from_u16 s = Seconds s"

definition seconds_from_i32 :: "u32 \<Rightarrow> seconds" where
  "seconds_from_i32 i = Seconds (if sint i < 0 then 0 else ucast i)"

definition seconds_from_usize :: "u64 \<Rightarrow> seconds" where
  "seconds_from_usize s = Seconds (if unat s < 2 ^ 16 then ucast s else - 1)"

section \<open>Lemmas\<close>

lemma unat_ucast_up:
  "LENGTH('a) \<le> LENGTH('b) \<Longrightarrow> unat (ucast (w :: 'a::len word) :: 'b::len word) = unat w"
  by (simp add: unsigned_ucast_eq take_bit_nat_eq_self order.strict_trans2 [OF unsigned_less])

lemma unat_u16_bound: "unat (w :: u16) \<le> 65535"
  using unsigned_less [of w, where ?'a = nat] by simp

lemma unat_u32_bound: "unat (w :: u32) \<le> 4294967295"
  using unsigned_less [of w, where ?'a = nat] by simp

lemma unat_millis_from_seconds:
  "unat (millis_val (millis_from_seconds s)) = 1000 * unat (seconds_val s)"
  using unat_u16_bound [of "seconds_val s"]
  by (simp add: millis_from_seconds_def unat_saturating_mul unat_ucast_up min_def)


text \<open>Converting a timeout to a \<open>Duration\<close> and back gives the timeout, \<open>Seconds\<close> and the \<open>Millis\<close>
  it converts to denote the same \<open>Duration\<close>, and adding a timeout to a \<open>Duration\<close> is undone by
  subtracting its \<open>Duration\<close>.\<close>

theorem timeout_duration_roundtrip:
  "millis_from_duration (duration_from_millis_type m) = m
   \<and> duration_from_millis_type (millis_from_seconds s) = duration_from_seconds_type s
   \<and> duration_add_millis d m - duration_from_millis_type m = d"
proof (intro conjI)
  have "millis_val (millis_from_duration (duration_from_millis_type m)) = millis_val m"
    using unat_u32_bound [of "millis_val m"]
    by (simp add: millis_from_duration_def duration_from_millis_type_def duration_from_millis_def
        duration_as_millis_def unat_ucast_up)
  then show "millis_from_duration (duration_from_millis_type m) = m"
    by (simp add: millis.expand)
next
  show "duration_from_millis_type (millis_from_seconds s) = duration_from_seconds_type s"
    by (simp add: duration_from_millis_type_def duration_from_seconds_type_def duration_from_millis_def
        duration_from_secs_def unat_ucast_up unat_millis_from_seconds)
qed (simp add: duration_add_millis_def)

text \<open>\<open>Seconds::from(i32)\<close> keeps the low 16 bits of a non-negative argument, where
  \<open>Seconds::from(usize)\<close> and \<open>Seconds::checked_new\<close> saturate at \<open>u16::MAX\<close>. A timeout of 65536
  seconds given as an \<open>i32\<close> becomes \<open>Seconds(0)\<close>, the value that disables a timeout.\<close>

theorem seconds_from_i32_truncates:
  assumes "0 \<le> sint i"
  shows "unat (seconds_val (seconds_from_i32 i)) = unat i mod 65536
    \<and> unat (seconds_val (seconds_from_usize n)) = min (unat n) 65535
    \<and> unat (seconds_val (seconds_checked_new n)) = min (unat n) 65535"
  using assms
  by (auto simp: seconds_from_i32_def seconds_from_usize_def seconds_checked_new_def unsigned_ucast_eq
      take_bit_eq_mod word_less_nat_alt unat_minus_1 min_def)

theorem seconds_from_i32_truncates_witness:
  "0 \<le> sint (65536 :: u32) \<and> seconds_is_zero (seconds_from_i32 65536)
   \<and> \<not> seconds_is_zero (seconds_from_usize 65536)"
proof -
  have h: "0 \<le> sint (65536 :: u32)" by simp
  have "unat (seconds_val (seconds_from_i32 65536)) = 0
    \<and> unat (seconds_val (seconds_from_usize 65536)) = 65535"
    using seconds_from_i32_truncates [OF h, of 65536] by simp
  then show ?thesis
    by (auto simp: seconds_is_zero_def unat_eq_0)
qed

end
