(* ===== verification/Local_Waker.thy ===== *)
theory Local_Waker
  imports Prelude
begin

text \<open>
  \<open>LocalWaker\<close> of \<open>geario/src/util/task.rs\<close>: a slot that holds at most one task. Registering
  replaces the task and says whether there was one; waking takes it out. The locale \<open>wait_slot\<close> is the
  contract the channels and the timers rely on: a registered task is woken exactly once, by the next
  wake, whatever was registered before it.
\<close>

type_synonym local_waker = "task option"

definition lw_new :: local_waker where
  "lw_new = None"

definition lw_with :: "task option \<Rightarrow> local_waker" where
  "lw_with w = w"

definition lw_register :: "local_waker \<Rightarrow> task \<Rightarrow> local_waker \<times> bool" where
  "lw_register lw w = (Some w, lw \<noteq> None)"

definition lw_take :: "local_waker \<Rightarrow> local_waker \<times> task option" where
  "lw_take lw = (None, lw)"

definition lw_wake :: "local_waker \<Rightarrow> local_waker \<times> task list" where
  "lw_wake lw = (case lw_take lw of (lw', Some w) \<Rightarrow> (lw', [w]) | (lw', None) \<Rightarrow> (lw', []))"

definition lw_wake_checked :: "local_waker \<Rightarrow> local_waker \<times> task list \<times> bool" where
  "lw_wake_checked lw =
     (case lw_take lw of (lw', Some w) \<Rightarrow> (lw', [w], True) | (lw', None) \<Rightarrow> (lw', [], False))"

definition lw_is_set :: "local_waker \<Rightarrow> local_waker \<times> bool" where
  "lw_is_set lw = (let (_, w) = lw_take lw in (w, w \<noteq> None))"

definition lw_clone :: "local_waker \<Rightarrow> local_waker" where
  "lw_clone lw = lw_new"

text \<open>The future behind \<open>yield_to\<close>: wakes its own task and is pending once, then ready.\<close>

definition yield_poll :: "bool \<Rightarrow> task \<Rightarrow> bool \<times> unit poll \<times> task list" where
  "yield_poll completed cx = (if completed then (completed, Ready (), []) else (True, Pending, [cx]))"

abbreviation lw_woken :: "local_waker \<Rightarrow> task list" where
  "lw_woken lw \<equiv> snd (lw_wake lw)"

lemma lw_wake_simps [simp]:
  "lw_wake None = (None, [])"
  "lw_wake (Some w) = (None, [w])"
  by (simp_all add: lw_wake_def lw_take_def)

lemma lw_wake_fst [simp]: "fst (lw_wake lw) = None"
  by (cases lw) simp_all

lemma lw_wake_checked_simps [simp]:
  "lw_wake_checked None = (None, [], False)"
  "lw_wake_checked (Some w) = (None, [w], True)"
  by (simp_all add: lw_wake_checked_def lw_take_def)

lemma lw_register_fst [simp]: "fst (lw_register lw w) = Some w"
  by (simp add: lw_register_def)

lemma lw_is_set_simps [simp]: "lw_is_set lw = (lw, lw \<noteq> None)"
  by (simp add: lw_is_set_def lw_take_def)

lemma lw_new_eq [simp]: "lw_new = None"
  by (simp add: lw_new_def)

section \<open>The contract of a waker slot\<close>

locale wait_slot =
  fixes register :: "'s \<Rightarrow> task \<Rightarrow> 's \<times> bool"
    and wake :: "'s \<Rightarrow> 's \<times> task list"
    and fresh :: 's
    and holds :: "'s \<Rightarrow> task option"
  assumes holds_fresh: "holds fresh = None"
    and holds_register: "holds (fst (register s w)) = Some w"
    and register_old: "snd (register s w) \<longleftrightarrow> holds s \<noteq> None"
    and wake_holds: "snd (wake s) = (case holds s of None \<Rightarrow> [] | Some w \<Rightarrow> [w])"
    and holds_wake: "holds (fst (wake s)) = None"
begin

lemma wake_twice: "snd (wake (fst (wake s))) = []"
  by (simp add: wake_holds holds_wake)

lemma wake_registered: "snd (wake (fst (register s w))) = [w]"
  by (simp add: wake_holds holds_register)

lemma register_after_wake: "\<not> snd (register (fst (wake s)) w)"
  by (simp add: register_old holds_wake)

lemma last_register_wins: "snd (wake (fst (register (fst (register s v)) w))) = [w]"
  by (simp add: wake_holds holds_register)

end

interpretation lw: wait_slot lw_register lw_wake lw_new "\<lambda>s. s"
  by unfold_locales (simp_all add: lw_register_def split: option.split)

text \<open>A \<open>LocalWaker\<close> wakes the task registered last, once: after registering \<open>w\<close> over any earlier
  registration, the next \<open>wake\<close> wakes exactly \<open>w\<close>, a second \<open>wake\<close> wakes nothing, a registration after
  a wake reports that nothing was registered before, and \<open>wake_checked\<close> agrees with \<open>wake\<close>.\<close>

theorem local_waker_wakes_last_once:
  "lw_woken (fst (lw_register (fst (lw_register lw v)) w)) = [w]
   \<and> lw_woken (fst (lw_wake lw)) = []
   \<and> \<not> snd (lw_register (fst (lw_wake lw)) w)
   \<and> (fst (lw_wake_checked lw), fst (snd (lw_wake_checked lw))) = lw_wake lw
   \<and> (snd (snd (lw_wake_checked lw)) \<longleftrightarrow> lw_woken lw \<noteq> [])"
  using lw.last_register_wins lw.wake_twice lw.register_after_wake by (cases lw) auto

end
