(* ===== verification/Timer_Wheel.thy ===== *)
theory Timer_Wheel
  imports Local_Waker Time_Types
begin

text \<open>
  The hierarchical timer wheel of \<open>geario/src/util/time/wheel.rs\<close>: its constants, the bucket
  arithmetic, the wheel's data (\<open>TimerMod\<close>, \<open>TimerInner\<close>) and every operation that changes it. Ticks are
  units of \<open>2 ^ UNITS = 16\<close> milliseconds kept in a \<open>u64\<close>; levels, slots and bucket indices are numbers.

  Code outside the sources enters as arguments. The two slabs hand out keys (\<open>k\<close> for a timer, \<open>kb\<close> for
  an entry of a bucket), the clock gives the readings (\<open>t1\<close>, \<open>t2\<close>, \<open>t3\<close> in the order of the calls), and a
  \<open>Delay\<close> is the instant at which it becomes ready. \<open>u64\<close> addition wraps here, as in a release build.
  Spawning a driver task and waking a task are effects that an operation returns.
\<close>

section \<open>Constants and level arithmetic\<close>

definition LVL_CLK_SHIFT :: nat where "LVL_CLK_SHIFT = 3"

definition LVL_CLK_DIV :: u64 where "LVL_CLK_DIV = push_bit LVL_CLK_SHIFT 1"

definition LVL_CLK_MASK :: u64 where "LVL_CLK_MASK = LVL_CLK_DIV - 1"

definition lvl_shift :: "nat \<Rightarrow> nat" where
  "lvl_shift n = n * LVL_CLK_SHIFT"

definition lvl_gran :: "nat \<Rightarrow> u64" where
  "lvl_gran n = push_bit (lvl_shift n) 1"

definition UNITS :: nat where "UNITS = 4"

definition to_units :: "u64 \<Rightarrow> u64" where
  "to_units n = drop_bit UNITS n"

definition to_millis :: "u64 \<Rightarrow> u64" where
  "to_millis n = push_bit UNITS n"

definition LVL_BITS :: nat where "LVL_BITS = 6"

definition LVL_SIZE :: u64 where "LVL_SIZE = push_bit LVL_BITS 1"

definition LVL_MASK :: u64 where "LVL_MASK = LVL_SIZE - 1"

definition lvl_start :: "nat \<Rightarrow> u64" where
  "lvl_start lvl = push_bit ((lvl - 1) * LVL_CLK_SHIFT) (LVL_SIZE - 1)"

definition LVL_DEPTH :: nat where "LVL_DEPTH = 8"

definition lvl_offs :: "nat \<Rightarrow> u64" where
  "lvl_offs n = of_nat n * LVL_SIZE"

definition WHEEL_TIMEOUT_CUTOFF :: u64 where
  "WHEEL_TIMEOUT_CUTOFF = lvl_start LVL_DEPTH"

definition WHEEL_TIMEOUT_MAX :: u64 where
  "WHEEL_TIMEOUT_MAX = WHEEL_TIMEOUT_CUTOFF - lvl_gran (LVL_DEPTH - 1)"

definition WHEEL_SIZE :: nat where
  "WHEEL_SIZE = unat LVL_SIZE * LVL_DEPTH"

definition LOWRES_RESOLUTION :: duration where
  "LOWRES_RESOLUTION = 5 * 1000000"

definition U64_MAX :: u64 where "U64_MAX = - 1"

definition as_millis :: "duration \<Rightarrow> u64" where
  "as_millis dur = of_nat (dur div 1000000000) * 1000 + of_nat (dur mod 1000000000 div 1000000)"

definition calc_index :: "u64 \<Rightarrow> nat \<Rightarrow> nat \<times> u64" where
  "calc_index expires lvl =
     (let expires = drop_bit (lvl_shift lvl) (expires + lvl_gran lvl)
      in (unat (lvl_offs lvl + (expires AND LVL_MASK)), push_bit (lvl_shift lvl) expires))"

definition calc_wheel_index :: "u64 \<Rightarrow> u64 \<Rightarrow> u64 \<Rightarrow> nat \<times> u64" where
  "calc_wheel_index elapsed expires delta =
     (if delta < lvl_start 1 then calc_index expires 0
      else if delta < lvl_start 2 then calc_index expires 1
      else if delta < lvl_start 3 then calc_index expires 2
      else if delta < lvl_start 4 then calc_index expires 3
      else if delta < lvl_start 5 then calc_index expires 4
      else if delta < lvl_start 6 then calc_index expires 5
      else if delta < lvl_start 7 then calc_index expires 6
      else if delta < lvl_start 8 then calc_index expires 7
      else if delta \<ge> WHEEL_TIMEOUT_CUTOFF
           then calc_index (elapsed + WHEEL_TIMEOUT_MAX) (LVL_DEPTH - 1)
           else calc_index expires (LVL_DEPTH - 1))"

section \<open>Wheel data\<close>

record timer_entry =
  te_bucket :: "nat option"
  te_bucket_entry :: nat
  te_task :: local_waker

record bucket =
  b_lvl :: nat
  b_bit :: u64
  b_bit_n :: u64
  b_entries :: "nat slab"

record timer_mod =
  tm_timers :: "timer_entry slab"
  tm_driver_sleep :: instant
  tm_buckets :: "bucket list"
  tm_occupied :: "u64 list"
  tm_lowres_driver_sleep :: instant

record timer_inner =
  ti_elapsed :: u64
  ti_elapsed_time :: "instant option"
  ti_next_expiry :: u64
  ti_flags :: u8
  ti_driver :: local_waker
  ti_lowres_time :: "instant option"
  ti_lowres_stime :: "instant option"
  ti_lowres_driver :: local_waker
  ti_inner :: timer_mod

definition DRIVER_STARTED :: u8 where "DRIVER_STARTED = flag 0"
definition DRIVER_RECALC :: u8 where "DRIVER_RECALC = flag 1"
definition LOWRES_TIMER :: u8 where "LOWRES_TIMER = flag 3"
definition LOWRES_DRIVER :: u8 where "LOWRES_DRIVER = flag 4"
definition RUNNING :: u8 where "RUNNING = flag 5"

datatype effect = Wake task | SpawnDriver | SpawnLowres

definition bucket_new :: "nat \<Rightarrow> nat \<Rightarrow> bucket" where
  "bucket_new lvl offs =
     (let bit = push_bit offs 1 in \<lparr>b_lvl = lvl, b_bit = bit, b_bit_n = NOT bit, b_entries = []\<rparr>)"

definition create_buckets :: "bucket list" where
  "create_buckets =
     map (\<lambda>idx. bucket_new (idx div unat LVL_SIZE) (idx mod unat LVL_SIZE)) [0..<WHEEL_SIZE]"

definition timer_new :: "instant \<Rightarrow> timer_inner" where
  "timer_new t =
     \<lparr>ti_elapsed = 0, ti_elapsed_time = None, ti_next_expiry = U64_MAX, ti_flags = 0,
      ti_driver = lw_new, ti_lowres_time = None, ti_lowres_stime = None, ti_lowres_driver = lw_new,
      ti_inner = \<lparr>tm_timers = [Some \<lparr>te_bucket = None, te_bucket_entry = 0, te_task = lw_new\<rparr>],
        tm_driver_sleep = t, tm_buckets = create_buckets, tm_occupied = replicate WHEEL_SIZE 0,
        tm_lowres_driver_sleep = t\<rparr>\<rparr>"

definition te_complete :: "timer_entry \<Rightarrow> timer_entry \<times> task list" where
  "te_complete e =
     (if te_bucket e \<noteq> None
      then let (w, woken) = lw_wake (te_task e) in (e\<lparr>te_bucket := None, te_task := w\<rparr>, woken)
      else (e, []))"

section \<open>Operations on the buckets\<close>

text \<open>Draining a bucket completes the timers it names, in the order of the slab.\<close>

fun complete_all :: "timer_entry slab \<Rightarrow> nat list \<Rightarrow> timer_entry slab \<times> task list" where
  "complete_all ts [] = (ts, [])"
| "complete_all ts (no # nos) =
     (case slab_get ts no of
        None \<Rightarrow> complete_all ts nos
      | Some e \<Rightarrow> let (e', w) = te_complete e; (ts', ws) = complete_all (slab_put ts no e') nos
                  in (ts', w @ ws))"

definition clear_bit :: "u64 list \<Rightarrow> bucket \<Rightarrow> u64 list" where
  "clear_bit occ b = occ[b_lvl b := (occ ! b_lvl b) AND b_bit_n b]"

definition set_occ_bit :: "u64 list \<Rightarrow> bucket \<Rightarrow> u64 list" where
  "set_occ_bit occ b = occ[b_lvl b := (occ ! b_lvl b) OR b_bit b]"

definition drain_bucket :: "timer_mod \<Rightarrow> nat \<Rightarrow> timer_mod \<times> task list" where
  "drain_bucket m idx =
     (let b = tm_buckets m ! idx in
      if slab_is_empty (b_entries b) then (m, [])
      else let (ts, woken) = complete_all (tm_timers m) (slab_values (b_entries b))
           in (m\<lparr>tm_timers := ts, tm_occupied := clear_bit (tm_occupied m) b,
                 tm_buckets := (tm_buckets m)[idx := b\<lparr>b_entries := []\<rparr>]\<rparr>, woken))"

fun execute_levels :: "nat \<Rightarrow> nat \<Rightarrow> u64 \<Rightarrow> timer_mod \<Rightarrow> timer_mod \<times> task list" where
  "execute_levels 0 lvl clk m = (m, [])"
| "execute_levels (Suc n) lvl clk m =
     (let idx = unat ((clk AND LVL_MASK) + of_nat lvl * LVL_SIZE);
          (m1, w) = drain_bucket m idx
      in if clk AND LVL_CLK_MASK \<noteq> 0 then (m1, w)
         else let (m2, w2) = execute_levels n (Suc lvl) (drop_bit LVL_CLK_SHIFT clk) m1
              in (m2, w @ w2))"

definition execute_expired_timers :: "timer_mod \<Rightarrow> u64 \<Rightarrow> timer_mod \<times> task list" where
  "execute_expired_timers m clk = execute_levels LVL_DEPTH 0 clk m"

definition remove_timer_bucket :: "timer_mod \<Rightarrow> nat \<Rightarrow> bool \<Rightarrow> timer_mod option" where
  "remove_timer_bucket m handle remove_handle = do {
     entry \<leftarrow> slab_get (tm_timers m) handle;
     m1 \<leftarrow> (case te_bucket entry of
        None \<Rightarrow> Some m
      | Some bucket \<Rightarrow> do {
          b \<leftarrow> (if bucket < length (tm_buckets m) then Some (tm_buckets m ! bucket) else None);
          _ \<leftarrow> slab_get (b_entries b) (te_bucket_entry entry);
          let b1 = b\<lparr>b_entries := slab_del (b_entries b) (te_bucket_entry entry)\<rparr>;
          Some (m\<lparr>tm_buckets := (tm_buckets m)[bucket := b1],
                  tm_occupied := (if slab_is_empty (b_entries b1) then clear_bit (tm_occupied m) b1
                                  else tm_occupied m)\<rparr>)
        });
     Some (if remove_handle then m1\<lparr>tm_timers := slab_del (tm_timers m1) handle\<rparr> else m1)
   }"

definition bucket_add_entry :: "bucket \<Rightarrow> nat \<Rightarrow> nat \<Rightarrow> bucket \<times> nat" where
  "bucket_add_entry b kb no = (b\<lparr>b_entries := slab_put (b_entries b) kb no\<rparr>, kb)"

definition add_entry :: "timer_mod \<Rightarrow> nat \<Rightarrow> nat \<Rightarrow> nat \<Rightarrow> (timer_mod \<times> nat) option" where
  "add_entry m k kb idx =
     (if idx < length (tm_buckets m)
      then let (b, be) = bucket_add_entry (tm_buckets m ! idx) kb k in
           Some (m\<lparr>tm_buckets := (tm_buckets m)[idx := b],
             tm_timers := slab_put (tm_timers m) k
                \<lparr>te_bucket = Some idx, te_bucket_entry = be, te_task = lw_new\<rparr>,
             tm_occupied := set_occ_bit (tm_occupied m) b\<rparr>, k)
      else None)"

definition update_entry :: "timer_mod \<Rightarrow> nat \<Rightarrow> nat \<Rightarrow> nat \<Rightarrow> timer_mod option" where
  "update_entry m hnd kb idx = do {
     entry \<leftarrow> slab_get (tm_timers m) hnd;
     if te_bucket entry = Some idx then Some m
     else do {
       m1 \<leftarrow> remove_timer_bucket m hnd False;
       if idx < length (tm_buckets m1)
       then let (b, be) = bucket_add_entry (tm_buckets m1 ! idx) kb hnd in
            Some (m1\<lparr>tm_buckets := (tm_buckets m1)[idx := b],
              tm_timers := slab_put (tm_timers m1) hnd
                (entry\<lparr>te_bucket := Some idx, te_bucket_entry := be\<rparr>),
              tm_occupied := set_occ_bit (tm_occupied m1) b\<rparr>)
       else None
     }
   }"

section \<open>The next pending bucket\<close>

text \<open>\<open>u64::trailing_zeros\<close>: the number of clear bits below the lowest set bit.\<close>

definition trailing_zeros :: "u64 \<Rightarrow> nat" where
  "trailing_zeros w = length (takeWhile (\<lambda>i. \<not> bit w i) [0..<64])"

fun next_pending_levels :: "u64 list \<Rightarrow> nat \<Rightarrow> nat \<Rightarrow> u64 \<Rightarrow> u64 \<Rightarrow> u64" where
  "next_pending_levels occ 0 lvl clk nxt = nxt"
| "next_pending_levels occ (Suc n) lvl clk nxt =
     (let lvl_clk = clk AND LVL_CLK_MASK;
          occupied = occ ! lvl;
          clk' = drop_bit LVL_CLK_SHIFT clk + (if lvl_clk \<noteq> 0 then 1 else 0)
      in if occupied = 0 then next_pending_levels occ n (Suc lvl) clk' nxt
         else let pos = trailing_zeros (word_rotr (unat (clk AND LVL_MASK)) occupied);
                  tmp = push_bit (lvl_shift lvl) (clk + of_nat pos);
                  nxt' = (if tmp < nxt then tmp else nxt)
              in if (of_nat pos :: u64) \<le> (LVL_CLK_DIV - lvl_clk) AND LVL_CLK_MASK then nxt'
                 else next_pending_levels occ n (Suc lvl) clk' nxt')"

definition next_pending_bucket :: "timer_inner \<Rightarrow> u64 option" where
  "next_pending_bucket ti =
     (let nxt = next_pending_levels (tm_occupied (ti_inner ti)) LVL_DEPTH 0 (ti_elapsed ti) U64_MAX
      in if nxt < U64_MAX then Some nxt else None)"

definition next_expiry_ms :: "timer_inner \<Rightarrow> u64" where
  "next_expiry_ms ti = to_millis (saturating_sub (ti_next_expiry ti) (ti_elapsed ti))"

section \<open>The timer\<close>

definition ti_contains :: "timer_inner \<Rightarrow> u8 \<Rightarrow> bool" where
  "ti_contains ti f = fl_contains (ti_flags ti) f"

definition ti_set_flag :: "timer_inner \<Rightarrow> u8 \<Rightarrow> timer_inner" where
  "ti_set_flag ti f = ti\<lparr>ti_flags := fl_insert (ti_flags ti) f\<rparr>"

definition elapsed_time :: "instant \<Rightarrow> timer_inner \<Rightarrow> timer_inner \<times> instant" where
  "elapsed_time t ti =
     (case ti_elapsed_time ti of
        Some et \<Rightarrow> (ti, et)
      | None \<Rightarrow> (ti\<lparr>ti_elapsed_time := Some t\<rparr>, t))"

definition driver_start :: "instant \<Rightarrow> timer_inner \<Rightarrow> timer_inner \<times> effect list" where
  "driver_start t ti =
     (let ti1 = ti_set_flag ti DRIVER_STARTED
      in (ti1\<lparr>ti_inner := (ti_inner ti1)\<lparr>tm_driver_sleep := t + duration_from_millis (next_expiry_ms ti1)\<rparr>\<rparr>,
          [SpawnDriver]))"

definition lowres_start :: "instant \<Rightarrow> timer_inner \<Rightarrow> timer_inner \<times> effect list" where
  "lowres_start t ti =
     (let ti1 = ti_set_flag ti LOWRES_DRIVER
      in (ti1\<lparr>ti_inner := (ti_inner ti1)\<lparr>tm_lowres_driver_sleep := t + LOWRES_RESOLUTION\<rparr>\<rparr>,
          [SpawnLowres]))"

definition lowres_touch :: "instant \<Rightarrow> timer_inner \<Rightarrow> timer_inner \<times> effect list" where
  "lowres_touch t ti =
     (if ti_contains ti LOWRES_DRIVER
      then let (w, woken) = lw_wake (ti_lowres_driver ti)
           in (ti\<lparr>ti_lowres_driver := w\<rparr>, map Wake woken)
      else lowres_start t ti)"

definition timer_now :: "instant \<Rightarrow> timer_inner \<Rightarrow> timer_inner \<times> instant \<times> effect list" where
  "timer_now t ti =
     (case ti_lowres_time ti of
        Some cur \<Rightarrow> (ti, cur, [])
      | None \<Rightarrow>
          if ti_contains ti RUNNING
          then let (ti1, eff) = lowres_touch t (ti\<lparr>ti_lowres_time := Some t\<rparr>) in (ti1, t, eff)
          else (ti, t, []))"

definition timer_system_time :: "instant \<Rightarrow> instant \<Rightarrow> timer_inner \<Rightarrow> timer_inner \<times> instant \<times> effect list" where
  "timer_system_time st t ti =
     (case ti_lowres_stime ti of
        Some cur \<Rightarrow> (ti, cur, [])
      | None \<Rightarrow>
          if ti_contains ti RUNNING
          then let (ti1, eff) = lowres_touch t (ti\<lparr>ti_lowres_stime := Some st\<rparr>) in (ti1, st, eff)
          else (ti, st, []))"

text \<open>The shared tail of \<open>add_timer\<close> and \<open>update_timer\<close>: a bucket that expires earlier than the one the
  driver waits for makes the driver recalculate its delay, or starts the driver. \<open>fl\<close> is the local copy of
  the flags that the caller holds; it is written back whole.\<close>

definition note_expiry :: "instant \<Rightarrow> u64 \<Rightarrow> u8 \<Rightarrow> timer_inner \<Rightarrow> timer_inner \<times> effect list" where
  "note_expiry t bucket_expiry fl ti =
     (if bucket_expiry < ti_next_expiry ti
      then let ti1 = ti\<lparr>ti_next_expiry := bucket_expiry\<rparr> in
           if fl_contains fl DRIVER_STARTED
           then let (w, woken) = lw_wake (ti_driver ti1)
                in (ti1\<lparr>ti_flags := fl_insert fl DRIVER_RECALC, ti_driver := w\<rparr>, map Wake woken)
           else driver_start t ti1
      else (ti, []))"

definition timer_delta :: "instant \<Rightarrow> instant \<Rightarrow> u64 \<Rightarrow> u64" where
  "timer_delta now et millis =
     (if now \<ge> et then to_units (as_millis (now - et) + millis) else to_units millis)"

definition add_timer ::
  "instant \<Rightarrow> instant \<Rightarrow> instant \<Rightarrow> nat \<Rightarrow> nat \<Rightarrow> u64 \<Rightarrow> timer_inner
     \<Rightarrow> (timer_inner \<times> nat \<times> effect list) option" where
  "add_timer t1 t2 t3 k kb millis ti =
     (if millis = 0
      then let m = ti_inner ti in
           Some (ti\<lparr>ti_inner := m\<lparr>tm_timers := slab_put (tm_timers m) k
                   \<lparr>te_bucket = None, te_bucket_entry = 0, te_task = lw_new\<rparr>\<rparr>\<rparr>, k, [])
      else do {
        let fl = fl_insert (ti_flags ti) RUNNING;
        let (ti1, now, eff1) = timer_now t1 (ti\<lparr>ti_flags := fl\<rparr>);
        let (ti2, et) = elapsed_time t2 ti1;
        let delta = timer_delta now et millis;
        let (idx, bucket_expiry) = calc_wheel_index (ti_elapsed ti2) (ti_elapsed ti2 + delta) delta;
        (m, no) \<leftarrow> add_entry (ti_inner ti2) k kb idx;
        let (ti3, eff2) = note_expiry t3 bucket_expiry fl (ti2\<lparr>ti_inner := m\<rparr>);
        Some (ti3, no, eff1 @ eff2)
      })"

definition remove_timer :: "nat \<Rightarrow> timer_inner \<Rightarrow> (timer_inner \<times> effect list) option" where
  "remove_timer hnd ti = do {
     m \<leftarrow> remove_timer_bucket (ti_inner ti) hnd False;
     entry \<leftarrow> slab_get (tm_timers m) hnd;
     let (e, woken) = te_complete entry;
     Some (ti\<lparr>ti_inner := m\<lparr>tm_timers := slab_put (tm_timers m) hnd e\<rparr>\<rparr>, map Wake woken)
   }"

definition update_timer ::
  "instant \<Rightarrow> instant \<Rightarrow> instant \<Rightarrow> nat \<Rightarrow> nat \<Rightarrow> u64 \<Rightarrow> timer_inner
     \<Rightarrow> (timer_inner \<times> effect list) option" where
  "update_timer t1 t2 t3 kb hnd millis ti =
     (if millis = 0
      then do {
        m \<leftarrow> remove_timer_bucket (ti_inner ti) hnd False;
        entry \<leftarrow> slab_get (tm_timers m) hnd;
        Some (ti\<lparr>ti_inner := m\<lparr>tm_timers := slab_put (tm_timers m) hnd (entry\<lparr>te_bucket := None\<rparr>)\<rparr>\<rparr>, [])
      }
      else do {
        let (ti1, now, eff1) = timer_now t1 ti;
        let (ti2, et) = elapsed_time t2 ti1;
        let delta = max (timer_delta now et millis) 1;
        let (idx, bucket_expiry) = calc_wheel_index (ti_elapsed ti2) (ti_elapsed ti2 + delta) delta;
        m \<leftarrow> update_entry (ti_inner ti2) hnd kb idx;
        let (ti3, eff2) = note_expiry t3 bucket_expiry (ti_flags ti2) (ti2\<lparr>ti_inner := m\<rparr>);
        Some (ti3, eff1 @ eff2)
      })"

definition drop_timer :: "nat \<Rightarrow> timer_inner \<Rightarrow> timer_inner option" where
  "drop_timer hnd ti = do {
     m \<leftarrow> remove_timer_bucket (ti_inner ti) hnd True;
     Some (ti\<lparr>ti_inner := m\<rparr>)
   }"

definition timer_is_elapsed :: "nat \<Rightarrow> timer_inner \<Rightarrow> bool option" where
  "timer_is_elapsed hnd ti = map_option (\<lambda>e. te_bucket e = None) (slab_get (tm_timers (ti_inner ti)) hnd)"

definition timer_poll_elapsed :: "nat \<Rightarrow> task \<Rightarrow> timer_inner \<Rightarrow> (timer_inner \<times> unit poll) option" where
  "timer_poll_elapsed hnd cx ti = do {
     entry \<leftarrow> slab_get (tm_timers (ti_inner ti)) hnd;
     Some (if te_bucket entry = None then (ti, Ready ())
           else let m = ti_inner ti in
                (ti\<lparr>ti_inner := m\<lparr>tm_timers := slab_put (tm_timers m) hnd
                      (entry\<lparr>te_task := fst (lw_register (te_task entry) cx)\<rparr>)\<rparr>\<rparr>, Pending))
   }"

section \<open>The drivers\<close>

fun stop_timers :: "timer_entry slab \<Rightarrow> nat list \<Rightarrow> timer_entry slab option" where
  "stop_timers ts [] = Some ts"
| "stop_timers ts (no # nos) = do {
     e \<leftarrow> slab_get ts no;
     stop_timers (slab_put ts no (e\<lparr>te_bucket := None\<rparr>)) nos
   }"

definition stop_wheel :: "timer_inner \<Rightarrow> timer_inner option" where
  "stop_wheel ti = do {
     let m = ti_inner ti;
     ts \<leftarrow> stop_timers (tm_timers m) (concat (map (\<lambda>b. slab_values (b_entries b)) (tm_buckets m)));
     Some (ti\<lparr>ti_flags := 0, ti_next_expiry := U64_MAX, ti_elapsed := 0, ti_elapsed_time := None,
              ti_lowres_time := None, ti_lowres_stime := None,
              ti_inner := m\<lparr>tm_timers := ts, tm_buckets := map (\<lambda>b. b\<lparr>b_entries := []\<rparr>) (tm_buckets m),
                            tm_occupied := replicate WHEEL_SIZE 0\<rparr>\<rparr>)
   }"

definition driver_recalc :: "instant \<Rightarrow> instant \<Rightarrow> instant \<Rightarrow> timer_inner \<Rightarrow> timer_inner" where
  "driver_recalc now t2 t3 ti =
     (if ti_contains ti DRIVER_RECALC
      then let ti1 = ti\<lparr>ti_flags := fl_remove (ti_flags ti) DRIVER_RECALC\<rparr>;
               (ti2, et) = elapsed_time t2 ti1;
               dur = duration_from_millis (next_expiry_ms ti2);
               deadline = (if et \<le> now then dur - (now - et) else dur)
           in ti2\<lparr>ti_inner := (ti_inner ti2)\<lparr>tm_driver_sleep := t3 + deadline\<rparr>\<rparr>
      else ti)"

text \<open>One turn of the driver's loop. \<open>ready\<close> is what polling the delay answers, \<open>now\<close> and \<open>t\<close> are the
  clock when the delay was ready and when it is set again. When it is ready the wheel advances to
  \<open>next_expiry\<close>, the expired timers run and the delay is set for the next bucket; the flag in the result
  says whether the loop continues.\<close>

definition driver_turn :: "bool \<Rightarrow> instant \<Rightarrow> instant \<Rightarrow> timer_inner \<Rightarrow> timer_inner \<times> task list \<times> bool" where
  "driver_turn ready now t ti =
     (if ready
      then let ti1 = ti\<lparr>ti_elapsed := ti_next_expiry ti, ti_elapsed_time := Some now\<rparr>;
               (m, woken) = execute_expired_timers (ti_inner ti1) (ti_next_expiry ti1);
               ti2 = ti1\<lparr>ti_inner := m\<rparr>
           in case next_pending_bucket ti2 of
                Some nx \<Rightarrow>
                  let ti3 = ti2\<lparr>ti_next_expiry := nx\<rparr>
                  in (ti3\<lparr>ti_inner := (ti_inner ti3)\<lparr>tm_driver_sleep :=
                        t + duration_from_millis (next_expiry_ms ti3)\<rparr>\<rparr>, woken, True)
              | None \<Rightarrow> (ti2\<lparr>ti_next_expiry := U64_MAX, ti_elapsed_time := None\<rparr>, woken, False)
      else (ti, [], False))"

text \<open>The loop, over what the delay and the clock answer in its turns; it stops at the first turn that
  does not set the delay again.\<close>

fun driver_loop :: "(bool \<times> instant \<times> instant) list \<Rightarrow> timer_inner \<Rightarrow> timer_inner \<times> task list" where
  "driver_loop [] ti = (ti, [])"
| "driver_loop ((ready, now, t) # rs) ti =
     (let (ti1, w, again) = driver_turn ready now t ti
      in if again then let (ti2, w2) = driver_loop rs ti1 in (ti2, w @ w2) else (ti1, w))"

definition driver_poll ::
  "task \<Rightarrow> instant \<Rightarrow> instant \<Rightarrow> instant \<Rightarrow> (bool \<times> instant \<times> instant) list \<Rightarrow> timer_inner
     \<Rightarrow> timer_inner \<times> task list" where
  "driver_poll cx now t2 t3 rs ti =
     driver_loop rs (driver_recalc now t2 t3 (ti\<lparr>ti_driver := fst (lw_register (ti_driver ti) cx)\<rparr>))"

definition lowres_poll :: "task \<Rightarrow> instant \<Rightarrow> bool \<Rightarrow> timer_inner \<Rightarrow> timer_inner" where
  "lowres_poll cx t ready ti0 =
     (let ti = ti0\<lparr>ti_lowres_driver := fst (lw_register (ti_lowres_driver ti0) cx)\<rparr>;
          ti1 = (if \<not> ti_contains ti LOWRES_TIMER
                 then let ti' = ti_set_flag ti LOWRES_TIMER
                      in ti'\<lparr>ti_inner := (ti_inner ti')\<lparr>tm_lowres_driver_sleep := t + LOWRES_RESOLUTION\<rparr>\<rparr>
                 else ti)
      in if ready
         then ti1\<lparr>ti_lowres_time := None, ti_lowres_stime := None,
                  ti_flags := fl_remove (ti_flags ti1) LOWRES_TIMER\<rparr>
         else ti1)"

end
