(* ===== verification/Wheel_Arith.thy ===== *)
theory Wheel_Arith
  imports Timer_Wheel
begin

text \<open>
  The bucket arithmetic of the timer wheel read over natural numbers. A bucket of level \<open>l\<close> holds the
  ticks that are multiples of \<open>8 ^ l\<close>; \<open>slot_time e l j\<close> is the tick at which slot \<open>j\<close> of level \<open>l\<close>
  expires, seen from tick \<open>e\<close>: the one multiple of \<open>8 ^ l\<close> in the window of 64 multiples that starts at \<open>e\<close>.
  The theorem of this theory is the promise of \<open>calc_wheel_index\<close>: the bucket it chooses never expires
  early, and it is late by at most the granularity of its level.
\<close>

section \<open>Constants\<close>

lemmas wheel_consts = LVL_CLK_SHIFT_def LVL_CLK_DIV_def LVL_CLK_MASK_def lvl_shift_def lvl_gran_def
  UNITS_def LVL_BITS_def LVL_SIZE_def LVL_MASK_def lvl_start_def LVL_DEPTH_def lvl_offs_def
  WHEEL_TIMEOUT_CUTOFF_def WHEEL_TIMEOUT_MAX_def WHEEL_SIZE_def

lemma LVL_CLK_MASK_mask: "LVL_CLK_MASK = mask 3"
  by (simp add: wheel_consts mask_eq_exp_minus_1)

lemma LVL_MASK_mask: "LVL_MASK = mask 6"
  by (simp add: wheel_consts mask_eq_exp_minus_1)

lemma unat_and_clk_mask [unat_simps]: "unat (c AND LVL_CLK_MASK) = unat c mod 8"
  by (simp add: LVL_CLK_MASK_mask unat_and_mask_mod)

lemma unat_and_lvl_mask [unat_simps]: "unat (c AND LVL_MASK) = unat c mod 64"
  by (simp add: LVL_MASK_mask unat_and_mask_mod)

lemma WHEEL_SIZE_eq [simp]: "WHEEL_SIZE = 512"
  by (simp add: wheel_consts)

lemma LVL_DEPTH_eq [simp]: "LVL_DEPTH = 8"
  by (simp add: wheel_consts)

lemma unat_LVL_SIZE [simp]: "unat LVL_SIZE = 64"
  by (simp add: wheel_consts)

lemma two_pow_lvl_shift: "(2::nat) ^ lvl_shift l = 8 ^ l"
  by (simp add: wheel_consts power_mult mult.commute [of l])

lemma lvl_lt_8_bound: "l < 8 \<Longrightarrow> (8::nat) ^ l \<le> 2097152"
  using power_increasing [of l 7 "8::nat"] by simp

lemma unat_lvl_gran [unat_simps]: "l < 8 \<Longrightarrow> unat (lvl_gran l) = 8 ^ l"
  using lvl_lt_8_bound [of l]
  unfolding lvl_gran_def unat_push_bit_mod two_pow_lvl_shift by simp

lemma unat_lvl_start [unat_simps]:
  assumes "l < 8" shows "unat (lvl_start (Suc l)) = 63 * 8 ^ l"
proof -
  have "(2::nat) ^ (l * 3) = 8 ^ l" by (simp add: power_mult mult.commute [of l])
  then show ?thesis using lvl_lt_8_bound [OF assms]
    by (simp add: wheel_consts unat_push_bit_mod)
qed

lemma unat_lvl_start_num:
  "unat (lvl_start (Suc 0)) = 63" "unat (lvl_start 2) = 504" "unat (lvl_start 3) = 4032"
  "unat (lvl_start 4) = 32256" "unat (lvl_start 5) = 258048" "unat (lvl_start 6) = 2064384"
  "unat (lvl_start 7) = 16515072" "unat (lvl_start 8) = 132120576"
  by (simp_all add: wheel_consts)

lemma unat_lvl_offs [unat_simps]: "l < 8 \<Longrightarrow> unat (lvl_offs l) = l * 64"
proof -
  assume "l < 8"
  then have "l \<in> {0,1,2,3,4,5,6,7}" by auto
  then show ?thesis by (auto simp: wheel_consts)
qed

lemma unat_timeout_max: "unat WHEEL_TIMEOUT_MAX = 130023424"
  by (simp add: wheel_consts)

section \<open>The time of a slot\<close>

definition slot_time :: "nat \<Rightarrow> nat \<Rightarrow> nat \<Rightarrow> nat" where
  "slot_time e l j = (let c = cdiv e (8 ^ l) in (c + (j + 64 - c mod 64) mod 64) * 8 ^ l)"

lemma slot_offset_mod: "d < 64 \<Longrightarrow> ((c + d) mod 64 + 64 - c mod 64) mod 64 = (d :: nat)"
proof -
  assume d: "d < 64"
  have "int (((c + d) mod 64 + 64 - c mod 64) mod 64) = ((int c + int d) mod 64 + 64 - int c mod 64) mod 64"
    by (simp add: of_nat_diff zmod_int less_imp_le trans_le_add2)
  also have "\<dots> = (int c + int d + 64 - int c) mod 64"
    by (metis add_diff_eq mod_add_left_eq mod_diff_right_eq)
  also have "\<dots> = int d" using d by simp
  finally show ?thesis by simp
qed

lemma slot_offset_unique:
  assumes "(c::nat) \<le> k" "k < c + 64"
  shows "c + (k mod 64 + 64 - c mod 64) mod 64 = k"
  using slot_offset_mod [of "k - c" c] assms by simp

lemma slot_offset_slot:
  assumes "j < 64" shows "(c + (j + 64 - c mod 64) mod 64) mod 64 = (j :: nat)"
proof -
  have "c + (j + 64 - r) = j + 64 * Suc q" if "64 * q + r = c" "r < 64" for q r
    using that by simp
  then have "c + (j + 64 - c mod 64) = j + 64 * Suc (c div 64)"
    by (simp only: mult_div_mod_eq mod_less_divisor zero_less_numeral)
  then have "(c + (j + 64 - c mod 64)) mod 64 = j mod 64"
    by (simp only: mod_mult_self2)
  with assms show ?thesis by (simp only: mod_add_right_eq mod_less)
qed

lemma slot_time_unique:
  assumes dvd: "8 ^ l dvd E" and lo: "e \<le> E" and hi: "E < e + 64 * 8 ^ l"
  shows "slot_time e l (E div 8 ^ l mod 64) = E"
proof -
  obtain k where k: "E = k * 8 ^ l" using dvd by (metis dvd_def mult.commute)
  have c: "cdiv e (8 ^ l) \<le> k" using lo by (simp add: cdiv_le_iff k)
  have "e \<le> cdiv e (8 ^ l) * 8 ^ l" by (simp add: cdiv_mult_ge)
  with hi have "k * 8 ^ l < (cdiv e (8 ^ l) + 64) * 8 ^ l"
    unfolding k by (simp add: distrib_right)
  then have "k < cdiv e (8 ^ l) + 64" by (metis mult_less_cancel2)
  with c show ?thesis
    by (simp add: slot_time_def Let_def k slot_offset_unique)
qed

lemma slot_time_props:
  assumes "j < 64"
  shows "8 ^ l dvd slot_time e l j" and "e \<le> slot_time e l j" and "slot_time e l j < e + 64 * 8 ^ l"
    and "slot_time e l j div 8 ^ l mod 64 = j"
proof -
  let ?c = "cdiv e (8 ^ l)" and ?d = "(j + 64 - cdiv e (8 ^ l) mod 64) mod 64"
  have st: "slot_time e l j = (?c + ?d) * 8 ^ l" by (simp add: slot_time_def Let_def)
  show "8 ^ l dvd slot_time e l j" by (simp add: st)
  have "e \<le> ?c * 8 ^ l" by (simp add: cdiv_mult_ge)
  then show "e \<le> slot_time e l j" by (simp add: st add_mult_distrib)
  have "?c * 8 ^ l < e + 8 ^ l" by (simp add: cdiv_mult_lt)
  moreover have "?d * 8 ^ l \<le> 63 * 8 ^ l" by (rule mult_le_mono1) simp
  ultimately show "slot_time e l j < e + 64 * 8 ^ l"
    unfolding st add_mult_distrib by linarith
  have "(?c + ?d) mod 64 = j"
    by (rule slot_offset_slot [OF assms])
  then show "slot_time e l j div 8 ^ l mod 64 = j" by (simp add: st)
qed

text \<open>A later observer that has not passed the expiry of a slot sees the same expiry.\<close>

lemma slot_time_stable:
  assumes "j < 64" "e \<le> e'" "e' \<le> slot_time e l j"
  shows "slot_time e' l j = slot_time e l j"
  using slot_time_unique [of l "slot_time e l j" e'] slot_time_props [OF assms(1), where l = l and e = e] assms
  by simp

section \<open>The bucket of a timeout\<close>

lemma calc_index_nat:
  assumes "l < 8" "unat e + 8 ^ l < 2 ^ 64"
  shows "fst (calc_index e l) = l * 64 + Suc (unat e div 8 ^ l) mod 64"
    and "unat (snd (calc_index e l)) = Suc (unat e div 8 ^ l) * 8 ^ l"
proof -
  let ?x = "drop_bit (lvl_shift l) (e + lvl_gran l)"
  have add: "unat (e + lvl_gran l) = unat e + 8 ^ l"
    using assms by (simp add: unat_add_no_overflow unat_lvl_gran)
  have x: "unat ?x = Suc (unat e div 8 ^ l)"
    unfolding unat_drop_bit_div add two_pow_lvl_shift by (simp add: div_add_self2)
  have "unat ?x * 8 ^ l \<le> unat e + 8 ^ l"
    unfolding x by simp
  then have "unat ?x * 2 ^ lvl_shift l < 2 ^ LENGTH(64)"
    using assms(2) by (simp add: two_pow_lvl_shift)
  then have push: "unat (push_bit (lvl_shift l) ?x) = Suc (unat e div 8 ^ l) * 8 ^ l"
    by (simp only: unat_push_bit_no_overflow x two_pow_lvl_shift)
  have "l * 64 + unat ?x mod 64 < 2 ^ 64" using assms(1) by (simp add: trans_less_add1 less_imp_le)
  then have "unat (lvl_offs l + (?x AND LVL_MASK)) = l * 64 + unat ?x mod 64"
    using assms(1) by (simp add: unat_add_no_overflow unat_lvl_offs unat_and_lvl_mask)
  with push x show "fst (calc_index e l) = l * 64 + Suc (unat e div 8 ^ l) mod 64"
    and "unat (snd (calc_index e l)) = Suc (unat e div 8 ^ l) * 8 ^ l"
    by (simp_all add: calc_index_def Let_def)
qed

text \<open>The level for a distance of \<open>d\<close> ticks.\<close>

definition level_of :: "nat \<Rightarrow> nat" where
  "level_of d = (if d < 63 then 0 else if d < 504 then 1 else if d < 4032 then 2
     else if d < 32256 then 3 else if d < 258048 then 4 else if d < 2064384 then 5
     else if d < 16515072 then 6 else 7)"

lemma level_of_lt: "level_of d < 8"
  by (simp add: level_of_def)

lemma level_of_upper: "d < 132120576 \<Longrightarrow> d < 63 * 8 ^ level_of d"
  by (simp add: level_of_def)

lemma level_of_lower: "63 \<le> d \<Longrightarrow> 63 * 8 ^ level_of d \<le> 8 * d"
  by (auto simp: level_of_def)

lemma calc_wheel_index_level:
  assumes "unat delta < 132120576"
  shows "calc_wheel_index e x delta = calc_index x (level_of (unat delta))"
  using assms
  by (simp add: calc_wheel_index_def word_less_nat_alt word_le_nat_alt unat_lvl_start_num level_of_def
      WHEEL_TIMEOUT_CUTOFF_def)

lemma calc_wheel_index_cutoff:
  assumes "132120576 \<le> unat delta"
  shows "calc_wheel_index e x delta = calc_index (e + WHEEL_TIMEOUT_MAX) 7"
  using assms
  by (simp add: calc_wheel_index_def word_less_nat_alt word_le_nat_alt unat_lvl_start_num
      WHEEL_TIMEOUT_CUTOFF_def)

definition no_wheel_overflow :: "u64 \<Rightarrow> u64 \<Rightarrow> bool" where
  "no_wheel_overflow e delta \<longleftrightarrow> unat e + unat delta + 134217728 < 2 ^ 64"

lemma calc_index_bounds:
  assumes "l < 8" "unat x + 8 ^ l < 2 ^ 64"
  defines "be \<equiv> unat (snd (calc_index x l))"
  shows "unat x < be" and "be \<le> unat x + 8 ^ l" and "8 ^ l dvd be"
    and "fst (calc_index x l) = l * 64 + be div 8 ^ l mod 64"
proof -
  have be: "be = Suc (unat x div 8 ^ l) * 8 ^ l"
    unfolding be_def by (rule calc_index_nat(2) [OF assms(1,2)])
  have split: "unat x = unat x div 8 ^ l * 8 ^ l + unat x mod 8 ^ l" by (simp only: div_mult_mod_eq)
  have "unat x mod 8 ^ l < 8 ^ l" by simp
  with split show "unat x < be" unfolding be by (metis add.commute mult_Suc nat_add_left_cancel_less)
  show "be \<le> unat x + 8 ^ l" unfolding be by simp
  show "8 ^ l dvd be" unfolding be by simp
  show "fst (calc_index x l) = l * 64 + be div 8 ^ l mod 64"
    unfolding be calc_index_nat(1) [OF assms(1,2)] by (simp del: mult_Suc)
qed

text \<open>The bucket that \<open>calc_wheel_index\<close> chooses, in full: its level and slot, its expiry seen from the
  current tick, and the bounds of that expiry.\<close>

lemma calc_wheel_index_spec:
  assumes ov: "no_wheel_overflow e delta"
  obtains l where "l < 8"
    and "fst (calc_wheel_index e (e + delta) delta)
           = l * 64 + unat (snd (calc_wheel_index e (e + delta) delta)) div 8 ^ l mod 64"
    and "8 ^ l dvd unat (snd (calc_wheel_index e (e + delta) delta))"
    and "unat e < unat (snd (calc_wheel_index e (e + delta) delta))"
    and "unat (snd (calc_wheel_index e (e + delta) delta)) < unat e + 64 * 8 ^ l"
    and "unat delta < 132120576 \<Longrightarrow> l = level_of (unat delta)"
    and "unat delta < 132120576 \<Longrightarrow> unat e + unat delta < unat (snd (calc_wheel_index e (e + delta) delta))"
    and "unat delta < 132120576 \<Longrightarrow>
           unat (snd (calc_wheel_index e (e + delta) delta)) \<le> unat e + unat delta + 8 ^ l"
    and "132120576 \<le> unat delta \<Longrightarrow>
           unat e + unat WHEEL_TIMEOUT_MAX < unat (snd (calc_wheel_index e (e + delta) delta))"
proof (cases "unat delta < 132120576")
  case True
  let ?l = "level_of (unat delta)"
  have l: "?l < 8" by (rule level_of_lt)
  have x: "unat (e + delta) = unat e + unat delta"
    using ov by (simp add: no_wheel_overflow_def unat_add_no_overflow)
  have ovx: "unat (e + delta) + 8 ^ ?l < 2 ^ 64"
    using ov x lvl_lt_8_bound [OF l] by (simp add: no_wheel_overflow_def)
  note b = calc_index_bounds [OF l ovx]
  have up: "unat delta < 63 * 8 ^ ?l" by (rule level_of_upper [OF True])
  show ?thesis
    by (rule that [of ?l]) (use b l x up True in \<open>auto simp: calc_wheel_index_level\<close>)
next
  case False
  have x: "unat (e + WHEEL_TIMEOUT_MAX) = unat e + 130023424"
    using ov by (simp add: no_wheel_overflow_def unat_add_no_overflow unat_timeout_max)
  have ovx: "unat (e + WHEEL_TIMEOUT_MAX) + 8 ^ 7 < 2 ^ 64"
    using ov x by (simp add: no_wheel_overflow_def)
  note b = calc_index_bounds [OF _ ovx]
  show ?thesis
    by (rule that [of 7]) (use b x False in \<open>auto simp: calc_wheel_index_cutoff unat_timeout_max\<close>)
qed



end
