(* ===== verification/Wheel_Inv.thy ===== *)
theory Wheel_Inv
  imports Wheel_Arith
begin

text \<open>
  The data invariant of the timer wheel and its preservation by the operations of \<open>TimerMod\<close>. A bit of
  \<open>occupied\<close> is set exactly when its bucket has entries, and timers and buckets agree: a timer that names a
  bucket is the entry of that bucket it points to, and every entry of a bucket points back. The operations
  on an invariant wheel never panic; each lemma states what they do to the timers.
\<close>

section \<open>More on slabs\<close>

lemma slab_put_put [simp]: "slab_put (slab_put s k v) k w = slab_put s k w"
  by (auto simp: slab_put_def)

lemma slab_values_distinct:
  assumes "\<And>k k' v. slab_get s k = Some v \<Longrightarrow> slab_get s k' = Some v \<Longrightarrow> k = k'"
  shows "distinct (slab_values s)"
  using assms
proof (induction s)
  case Nil
  then show ?case by (simp add: slab_values_def)
next
  case (Cons x s)
  have shift: "slab_get (x # s) (Suc k) = slab_get s k" for k by (simp add: slab_get_def)
  have "distinct (slab_values s)" by (rule Cons.IH) (metis Cons.prems shift Suc_inject)
  moreover have "v \<notin> set (slab_values s)" if "x = Some v" for v
  proof
    assume "v \<in> set (slab_values s)"
    then obtain k where "slab_get s k = Some v" by (auto simp: slab_values_iff)
    with that Cons.prems [of 0 v "Suc k"] show False by (auto simp: slab_get_def split: if_splits)
  qed
  ultimately show ?case by (auto simp: slab_values_def map_filter_simps split: option.split)
qed

lemma slab_is_empty_nil [simp]: "slab_is_empty []"
  by (simp add: slab_is_empty_def)

lemma slab_put_not_empty [simp]: "\<not> slab_is_empty (slab_put s k v)"
  unfolding slab_is_empty_iff by (metis option.distinct(1) slab_get_put)

section \<open>The invariant\<close>

definition buckets_wf :: "timer_mod \<Rightarrow> bool" where
  "buckets_wf m \<longleftrightarrow> length (tm_buckets m) = WHEEL_SIZE \<and> length (tm_occupied m) = WHEEL_SIZE
     \<and> (\<forall>i < WHEEL_SIZE. b_lvl (tm_buckets m ! i) = i div 64
          \<and> b_bit (tm_buckets m ! i) = push_bit (i mod 64) 1
          \<and> b_bit_n (tm_buckets m ! i) = NOT (push_bit (i mod 64) 1))"

definition occupied_wf :: "timer_mod \<Rightarrow> bool" where
  "occupied_wf m \<longleftrightarrow> (\<forall>i < WHEEL_SIZE.
     bit (tm_occupied m ! (i div 64)) (i mod 64) \<longleftrightarrow> \<not> slab_is_empty (b_entries (tm_buckets m ! i)))"

definition linked :: "timer_entry slab \<Rightarrow> nat \<Rightarrow> nat \<Rightarrow> nat \<Rightarrow> bool" where
  "linked ts no idx kb \<longleftrightarrow>
     (case slab_get ts no of None \<Rightarrow> False | Some e \<Rightarrow> te_bucket e = Some idx \<and> te_bucket_entry e = kb)"

definition links_wf :: "timer_mod \<Rightarrow> bool" where
  "links_wf m \<longleftrightarrow> (\<forall>no idx kb. linked (tm_timers m) no idx kb \<longleftrightarrow>
     idx < WHEEL_SIZE \<and> slab_get (b_entries (tm_buckets m ! idx)) kb = Some no)"

definition wheel_inv :: "timer_mod \<Rightarrow> bool" where
  "wheel_inv m \<longleftrightarrow> buckets_wf m \<and> occupied_wf m \<and> links_wf m"

text \<open>The bucket a timer waits in: \<open>None\<close> for a timer that has elapsed.\<close>

definition armed :: "timer_mod \<Rightarrow> nat \<Rightarrow> nat option" where
  "armed m no = Option.bind (slab_get (tm_timers m) no) te_bucket"

lemma armed_iff: "armed m no = Some idx \<longleftrightarrow> (\<exists>e. slab_get (tm_timers m) no = Some e \<and> te_bucket e = Some idx)"
  by (auto simp: armed_def bind_eq_Some_conv)

lemma wheel_inv_lengths:
  "wheel_inv m \<Longrightarrow> length (tm_buckets m) = 512" "wheel_inv m \<Longrightarrow> length (tm_occupied m) = 512"
  by (simp_all add: wheel_inv_def buckets_wf_def)

lemma linked_iff:
  "linked ts no idx kb \<longleftrightarrow> (\<exists>e. slab_get ts no = Some e \<and> te_bucket e = Some idx \<and> te_bucket_entry e = kb)"
  by (simp add: linked_def split: option.split)

lemma linked_put [simp]:
  "linked (slab_put ts h e) no i kb \<longleftrightarrow>
     (if no = h then te_bucket e = Some i \<and> te_bucket_entry e = kb else linked ts no i kb)"
  by (simp add: linked_def)

lemma links_iff:
  "wheel_inv m \<Longrightarrow> linked (tm_timers m) no idx kb \<longleftrightarrow>
     idx < 512 \<and> slab_get (b_entries (tm_buckets m ! idx)) kb = Some no"
  by (simp add: wheel_inv_def links_wf_def)

lemma links_timer:
  assumes "wheel_inv m" "slab_get (tm_timers m) no = Some e" "te_bucket e = Some idx"
  shows "idx < 512" and "slab_get (b_entries (tm_buckets m ! idx)) (te_bucket_entry e) = Some no"
  using links_iff [OF assms(1), of no idx "te_bucket_entry e"] assms by (simp_all add: linked_def)

lemma links_entry:
  assumes "wheel_inv m" "idx < 512" "slab_get (b_entries (tm_buckets m ! idx)) kb = Some no"
  obtains e where "slab_get (tm_timers m) no = Some e" "te_bucket e = Some idx" "te_bucket_entry e = kb"
  using links_iff [OF assms(1), of no idx kb] assms by (auto simp: linked_iff)

lemma armed_linked: "armed m no = None \<longleftrightarrow> (\<forall>idx kb. \<not> linked (tm_timers m) no idx kb)"
  by (auto simp: armed_def linked_def split: option.split bind_splits)

lemma occupied_iff_armed:
  assumes "wheel_inv m" "idx < 512"
  shows "bit (tm_occupied m ! (idx div 64)) (idx mod 64) \<longleftrightarrow> (\<exists>no. armed m no = Some idx)"
proof -
  have "bit (tm_occupied m ! (idx div 64)) (idx mod 64) \<longleftrightarrow> \<not> slab_is_empty (b_entries (tm_buckets m ! idx))"
    using assms by (simp add: wheel_inv_def occupied_wf_def)
  also have "\<dots> \<longleftrightarrow> (\<exists>kb no. slab_get (b_entries (tm_buckets m ! idx)) kb = Some no)"
    by (auto simp: slab_is_empty_iff)
  also have "\<dots> \<longleftrightarrow> (\<exists>no. armed m no = Some idx)"
    using links_timer [OF assms(1)] links_entry [OF assms] by (metis armed_iff)
  finally show ?thesis .
qed

lemma bucket_values:
  assumes "wheel_inv m" "idx < 512"
  shows "distinct (slab_values (b_entries (tm_buckets m ! idx)))"
    and "set (slab_values (b_entries (tm_buckets m ! idx))) = {no. armed m no = Some idx}"
proof -
  show "distinct (slab_values (b_entries (tm_buckets m ! idx)))"
    by (rule slab_values_distinct) (metis links_entry [OF assms] option.inject)
  show "set (slab_values (b_entries (tm_buckets m ! idx))) = {no. armed m no = Some idx}"
    using links_timer [OF assms(1)] links_entry [OF assms]
    by (auto simp: slab_values_iff armed_iff) (metis+)
qed

section \<open>Changing the entries of one bucket\<close>

lemma bit_push_bit_1: "bit (2 ^ n :: u64) j \<longleftrightarrow> n = j \<and> j < 64"
  by (auto simp: bit_exp_iff)

lemma div_mod_64_eq_iff: "i div 64 = idx div 64 \<and> i mod 64 = idx mod 64 \<longleftrightarrow> i = (idx :: nat)"
  by (metis div_mult_mod_eq)

lemma bit_clear_bit:
  assumes "buckets_wf m" "idx < 512" "i < 512"
  shows "bit (clear_bit (tm_occupied m) (tm_buckets m ! idx) ! (i div 64)) (i mod 64)
    \<longleftrightarrow> i \<noteq> idx \<and> bit (tm_occupied m ! (i div 64)) (i mod 64)"
proof -
  have "idx div 64 < 512" using assms(2) by simp
  then show ?thesis using assms div_mod_64_eq_iff [of i idx]
    by (auto simp: buckets_wf_def clear_bit_def nth_list_update bit_and_iff bit_not_iff bit_push_bit_1)
qed

lemma bit_set_occ_bit:
  assumes "buckets_wf m" "idx < 512" "i < 512"
  shows "bit (set_occ_bit (tm_occupied m) (tm_buckets m ! idx) ! (i div 64)) (i mod 64)
    \<longleftrightarrow> i = idx \<or> bit (tm_occupied m ! (i div 64)) (i mod 64)"
proof -
  have "idx div 64 < 512" using assms(2) by simp
  then show ?thesis using assms div_mod_64_eq_iff [of i idx]
    by (auto simp: buckets_wf_def set_occ_bit_def nth_list_update bit_or_iff bit_push_bit_1)
qed

lemma clear_bit_entries [simp]: "clear_bit occ (b\<lparr>b_entries := es\<rparr>) = clear_bit occ b"
  by (simp add: clear_bit_def)

lemma set_occ_bit_entries [simp]: "set_occ_bit occ (b\<lparr>b_entries := es\<rparr>) = set_occ_bit occ b"
  by (simp add: set_occ_bit_def)

text \<open>Replacing the entries of bucket \<open>idx\<close>, with the bit field brought up to date, keeps the layout.\<close>

lemma replace_bucket_wf:
  assumes "buckets_wf m" "occupied_wf m" "idx < 512"
    and "tm_buckets m' = (tm_buckets m)[idx := (tm_buckets m ! idx)\<lparr>b_entries := es\<rparr>]"
    and "tm_occupied m' = (if slab_is_empty es then clear_bit (tm_occupied m) (tm_buckets m ! idx)
           else set_occ_bit (tm_occupied m) (tm_buckets m ! idx))"
  shows "buckets_wf m'" and "occupied_wf m'"
proof -
  have len: "length (tm_buckets m) = 512" using assms(1) by (simp add: buckets_wf_def)
  show "buckets_wf m'"
    using assms(1,3) by (simp add: buckets_wf_def assms(4,5) nth_list_update clear_bit_def set_occ_bit_def)
  show "occupied_wf m'"
    using assms(2) len
    by (simp add: occupied_wf_def assms(3-5) nth_list_update bit_clear_bit [OF assms(1,3)]
        bit_set_occ_bit [OF assms(1,3)])
qed

text \<open>Setting the bit of a bucket that has entries changes nothing.\<close>

lemma set_occ_bit_idem:
  assumes "buckets_wf m" "occupied_wf m" "idx < 512" "\<not> slab_is_empty (b_entries (tm_buckets m ! idx))"
  shows "set_occ_bit (tm_occupied m) (tm_buckets m ! idx) = tm_occupied m"
proof -
  have "bit (tm_occupied m ! (idx div 64)) (idx mod 64)"
    using assms by (simp add: occupied_wf_def)
  then have "(tm_occupied m ! (idx div 64)) OR push_bit (idx mod 64) 1 = tm_occupied m ! (idx div 64)"
    by (intro bit_word_eqI) (auto simp: bit_or_iff bit_push_bit_1)
  then show ?thesis using assms(1,3) by (simp add: buckets_wf_def set_occ_bit_def)
qed

section \<open>Linking and unlinking a timer\<close>

lemma unlink_inv:
  assumes inv: "wheel_inv m" and e: "slab_get (tm_timers m) h = Some e" "te_bucket e = Some idx"
  defines "es \<equiv> slab_del (b_entries (tm_buckets m ! idx)) (te_bucket_entry e)"
  assumes m': "tm_timers m' = slab_put (tm_timers m) h (e\<lparr>te_bucket := None\<rparr>)"
    "tm_buckets m' = (tm_buckets m)[idx := (tm_buckets m ! idx)\<lparr>b_entries := es\<rparr>]"
    "tm_occupied m' = (if slab_is_empty es then clear_bit (tm_occupied m) (tm_buckets m ! idx)
       else set_occ_bit (tm_occupied m) (tm_buckets m ! idx))"
  shows "wheel_inv m'"
proof -
  note link = links_timer [OF inv e]
  have wf: "buckets_wf m" "occupied_wf m" using inv by (simp_all add: wheel_inv_def)
  have len: "length (tm_buckets m) = 512" by (rule wheel_inv_lengths [OF inv])
  have entries: "b_entries (tm_buckets m' ! i) = (if i = idx then es else b_entries (tm_buckets m ! i))" if "i < 512" for i
    using that len link(1) by (simp add: m'(2) nth_list_update)
  have h: "linked (tm_timers m) h i kb \<longleftrightarrow> i = idx \<and> kb = te_bucket_entry e" for i kb
    using e by (auto simp: linked_def)
  have "links_wf m'"
    unfolding links_wf_def WHEEL_SIZE_eq
  proof (intro allI)
    fix no i kb
    show "linked (tm_timers m') no i kb \<longleftrightarrow> i < 512 \<and> slab_get (b_entries (tm_buckets m' ! i)) kb = Some no"
      using h [of i kb] links_iff [OF inv, of no i kb] links_iff [OF inv, of h i kb]
      by (auto simp: m'(1) entries es_def)
  qed
  with replace_bucket_wf [OF wf link(1) m'(2,3)] show ?thesis by (simp add: wheel_inv_def)
qed

lemma link_inv:
  assumes inv: "wheel_inv m" and h: "armed m h = None" and idx: "idx < 512"
    and kb: "slab_get (b_entries (tm_buckets m ! idx)) kb = None"
    and e: "te_bucket e = Some idx" "te_bucket_entry e = kb"
    and m': "tm_timers m' = slab_put (tm_timers m) h e"
    "tm_buckets m' = (tm_buckets m)[idx := (tm_buckets m ! idx)\<lparr>b_entries := slab_put (b_entries (tm_buckets m ! idx)) kb h\<rparr>]"
    "tm_occupied m' = set_occ_bit (tm_occupied m) (tm_buckets m ! idx)"
  shows "wheel_inv m'"
proof -
  have wf: "buckets_wf m" "occupied_wf m" using inv by (simp_all add: wheel_inv_def)
  have len: "length (tm_buckets m) = 512" by (rule wheel_inv_lengths [OF inv])
  have entries: "b_entries (tm_buckets m' ! i) = (if i = idx then slab_put (b_entries (tm_buckets m ! idx)) kb h
      else b_entries (tm_buckets m ! i))" if "i < 512" for i
    using that len idx by (simp add: m'(2) nth_list_update)
  have "links_wf m'"
    unfolding links_wf_def WHEEL_SIZE_eq
  proof (intro allI)
    fix no i kb'
    show "linked (tm_timers m') no i kb' \<longleftrightarrow> i < 512 \<and> slab_get (b_entries (tm_buckets m' ! i)) kb' = Some no"
      using h links_iff [OF inv, of no i kb'] idx kb e by (auto simp: m'(1) entries armed_linked split: if_splits)
  qed
  with replace_bucket_wf [OF wf idx m'(2)] m'(3) show ?thesis by (simp add: wheel_inv_def)
qed

text \<open>Changes to the timers alone that keep the links.\<close>

lemma wheel_inv_timers:
  assumes "wheel_inv m" and "\<And>no i kb. linked ts no i kb \<longleftrightarrow> linked (tm_timers m) no i kb"
  shows "wheel_inv (m\<lparr>tm_timers := ts\<rparr>)"
  using assms by (simp add: wheel_inv_def buckets_wf_def occupied_wf_def links_wf_def)

lemma put_link_inv:
  assumes "wheel_inv m" "slab_get (tm_timers m) h = Some e"
    and "te_bucket e' = te_bucket e" "te_bucket_entry e' = te_bucket_entry e"
  shows "wheel_inv (m\<lparr>tm_timers := slab_put (tm_timers m) h e'\<rparr>)"
  by (rule wheel_inv_timers [OF assms(1)]) (use assms in \<open>auto simp: linked_def [of "tm_timers m" h]\<close>)

lemma put_unarmed_inv:
  assumes "wheel_inv m" "armed m h = None" "te_bucket e = None"
  shows "wheel_inv (m\<lparr>tm_timers := slab_put (tm_timers m) h e\<rparr>)"
  by (rule wheel_inv_timers [OF assms(1)]) (use assms in \<open>auto simp: armed_linked\<close>)

lemma del_unarmed_inv:
  assumes "wheel_inv m" "armed m h = None"
  shows "wheel_inv (m\<lparr>tm_timers := slab_del (tm_timers m) h\<rparr>)"
  by (rule wheel_inv_timers [OF assms(1)]) (use assms in \<open>auto simp: armed_linked linked_iff\<close>)

section \<open>Operations\<close>

text \<open>\<open>remove_timer_bucket\<close> without removing the handle: it never panics on a live timer and takes it out of
  its bucket; the caller then marks the timer as elapsed.\<close>

lemma remove_timer_bucket_spec:
  assumes inv: "wheel_inv m" and e: "slab_get (tm_timers m) h = Some e"
  obtains m1 where "remove_timer_bucket m h False = Some m1"
    and "tm_timers m1 = tm_timers m" and "tm_driver_sleep m1 = tm_driver_sleep m"
    and "tm_lowres_driver_sleep m1 = tm_lowres_driver_sleep m"
    and "wheel_inv (m1\<lparr>tm_timers := slab_put (tm_timers m) h (e\<lparr>te_bucket := None\<rparr>)\<rparr>)"
proof (cases "te_bucket e")
  case None
  then have "wheel_inv (m\<lparr>tm_timers := slab_put (tm_timers m) h (e\<lparr>te_bucket := None\<rparr>)\<rparr>)"
    by (intro put_link_inv [OF inv e]) simp_all
  with e None show ?thesis
    by (intro that [of m]) (simp_all add: remove_timer_bucket_def)
next
  case (Some idx)
  let ?b = "tm_buckets m ! idx"
  define es where "es = slab_del (b_entries ?b) (te_bucket_entry e)"
  define m1 where "m1 = m\<lparr>tm_buckets := (tm_buckets m)[idx := ?b\<lparr>b_entries := es\<rparr>],
     tm_occupied := (if slab_is_empty es then clear_bit (tm_occupied m) ?b else tm_occupied m)\<rparr>"
  note link = links_timer [OF inv e Some]
  have "\<not> slab_is_empty (b_entries ?b)" using link(2) by (auto simp: slab_is_empty_iff)
  with inv link(1) have idem: "set_occ_bit (tm_occupied m) ?b = tm_occupied m"
    by (intro set_occ_bit_idem) (simp_all add: wheel_inv_def)
  have "wheel_inv (m1\<lparr>tm_timers := slab_put (tm_timers m) h (e\<lparr>te_bucket := None\<rparr>)\<rparr>)"
    by (rule unlink_inv [OF inv e Some]) (simp_all add: m1_def es_def idem)
  moreover have "remove_timer_bucket m h False = Some m1"
    using e Some link wheel_inv_lengths(1) [OF inv]
    by (simp add: remove_timer_bucket_def m1_def es_def Let_def)
  ultimately show ?thesis by (intro that [of m1]) (simp_all add: m1_def)
qed

lemma remove_timer_bucket_handle:
  "remove_timer_bucket m h True
   = map_option (\<lambda>m1. m1\<lparr>tm_timers := slab_del (tm_timers m1) h\<rparr>) (remove_timer_bucket m h False)"
  by (simp add: remove_timer_bucket_def map_conv_bind_option Option.bind_assoc comp_def)

lemma add_entry_spec:
  assumes "wheel_inv m" "idx < 512" "slab_get (tm_timers m) k = None"
    and "slab_get (b_entries (tm_buckets m ! idx)) kb = None"
  obtains m' where "add_entry m k kb idx = Some (m', k)" and "wheel_inv m'"
    and "tm_timers m' = slab_put (tm_timers m) k \<lparr>te_bucket = Some idx, te_bucket_entry = kb, te_task = None\<rparr>"
    and "tm_driver_sleep m' = tm_driver_sleep m"
proof -
  let ?e = "\<lparr>te_bucket = Some idx, te_bucket_entry = kb, te_task = None\<rparr> :: timer_entry"
  define m' where "m' = m\<lparr>tm_buckets := (tm_buckets m)[idx := (tm_buckets m ! idx)
       \<lparr>b_entries := slab_put (b_entries (tm_buckets m ! idx)) kb k\<rparr>],
     tm_timers := slab_put (tm_timers m) k ?e, tm_occupied := set_occ_bit (tm_occupied m) (tm_buckets m ! idx)\<rparr>"
  have "wheel_inv m'"
    by (rule link_inv [where h = k and kb = kb and e = ?e, OF assms(1) _ assms(2,4)])
      (simp_all add: m'_def armed_def assms(3))
  moreover have "add_entry m k kb idx = Some (m', k)"
    using assms(2) wheel_inv_lengths(1) [OF assms(1)]
    by (simp add: add_entry_def bucket_add_entry_def m'_def Let_def)
  ultimately show ?thesis by (intro that [of m']) (simp_all add: m'_def)
qed

text \<open>\<open>update_entry\<close> leaves a timer that stays in its bucket alone and moves any other.\<close>

lemma update_entry_spec:
  assumes inv: "wheel_inv m" and idx: "idx < 512" and e: "slab_get (tm_timers m) h = Some e"
    and kb: "te_bucket e \<noteq> Some idx \<Longrightarrow> slab_get (b_entries (tm_buckets m ! idx)) kb = None"
  obtains m' e' where "update_entry m h kb idx = Some m'" and "wheel_inv m'"
    and "tm_timers m' = (if te_bucket e = Some idx then tm_timers m else slab_put (tm_timers m) h e')"
    and "te_bucket e' = Some idx" "te_task e' = te_task e"
    and "tm_driver_sleep m' = tm_driver_sleep m"
proof (cases "te_bucket e = Some idx")
  case True
  with inv e show ?thesis by (intro that [of m e]) (simp_all add: update_entry_def)
next
  case False
  obtain m1 where m1: "remove_timer_bucket m h False = Some m1" "tm_timers m1 = tm_timers m"
      "tm_driver_sleep m1 = tm_driver_sleep m"
      and inv1: "wheel_inv (m1\<lparr>tm_timers := slab_put (tm_timers m) h (e\<lparr>te_bucket := None\<rparr>)\<rparr>)" (is "wheel_inv ?m")
    by (rule remove_timer_bucket_spec [OF inv e])
  let ?e = "e\<lparr>te_bucket := Some idx, te_bucket_entry := kb\<rparr>"
  define m' where "m' = m1\<lparr>tm_buckets := (tm_buckets m1)[idx := (tm_buckets m1 ! idx)
       \<lparr>b_entries := slab_put (b_entries (tm_buckets m1 ! idx)) kb h\<rparr>],
     tm_timers := slab_put (tm_timers m1) h ?e, tm_occupied := set_occ_bit (tm_occupied m1) (tm_buckets m1 ! idx)\<rparr>"
  have same: "tm_buckets m1 ! idx = tm_buckets m ! idx"
    using m1(1) e False
    by (auto simp: remove_timer_bucket_def Let_def split: option.splits bind_splits if_splits)
  have "wheel_inv m'"
    by (rule link_inv [where h = h and kb = kb and e = ?e, OF inv1 _ idx])
      (use kb False in \<open>simp_all add: m'_def armed_def m1(2) same\<close>)
  moreover have "update_entry m h kb idx = Some m'"
    using e False idx m1(1) wheel_inv_lengths(1) [OF inv1]
    by (simp add: update_entry_def bucket_add_entry_def m'_def Let_def)
  ultimately show ?thesis using False m1 by (intro that [of m' ?e]) (simp_all add: m'_def)
qed

end
