(* ===== verification/Wheel_Next.thy ===== *)
theory Wheel_Next
  imports Wheel_Arith
begin

text \<open>
  The search for the next pending bucket. \<open>next_pending_bucket\<close> walks the levels with the tick rounded up
  to the granularity of the level, rotates the bit field of the level so that the current slot comes first
  and counts trailing zeros; it leaves the loop when the slot it found lies before the next tick of the
  level above. The theorem of this theory says that this is the minimum of the expiries of all
  occupied slots.
\<close>

section \<open>Trailing zeros of a rotated word\<close>

lemma trailing_zeros_least:
  assumes "w \<noteq> 0"
  shows "trailing_zeros w < 64" and "bit w (trailing_zeros w)"
    and "i < trailing_zeros w \<Longrightarrow> \<not> bit w i"
proof -
  let ?P = "\<lambda>i. \<not> bit w i"
  obtain n where n: "bit w n" "n < 64"
    using assms bit_imp_le_length [of w] by (auto simp: bit_eq_iff)
  then have "takeWhile ?P [0..<64] \<noteq> [0..<64]"
    unfolding takeWhile_eq_all_conv by auto
  then have "length (takeWhile ?P [0..<64]) < length [0..<64]"
    by (metis length_takeWhile_le le_neq_implies_less take_all_iff takeWhile_eq_take order_refl)
  then show lt: "trailing_zeros w < 64" by (simp add: trailing_zeros_def)
  have "\<not> ?P ([0..<64] ! length (takeWhile ?P [0..<64]))"
    using lt by (intro nth_length_takeWhile) (simp add: trailing_zeros_def)
  with lt show "bit w (trailing_zeros w)" by (simp add: trailing_zeros_def)
  show "i < trailing_zeros w \<Longrightarrow> \<not> bit w i"
    using lt takeWhile_nth [of i ?P "[0..<64]"] nth_mem [of i "takeWhile ?P [0..<64]"]
      set_takeWhileD [of "takeWhile ?P [0..<64] ! i" ?P "[0..<64]"]
    by (auto simp: trailing_zeros_def)
qed

text \<open>The rotation by the slot \<open>c mod 64\<close> makes the count the distance from \<open>c\<close> to the first occupied slot.\<close>

lemma trailing_zeros_rotated:
  fixes c j :: nat
  assumes w: "w \<noteq> (0 :: u64)"
  defines "pos \<equiv> trailing_zeros (word_rotr (c mod 64) w)"
  shows "pos < 64" and "bit w ((c + pos) mod 64)"
    and "j < 64 \<Longrightarrow> bit w j \<Longrightarrow> pos \<le> (j + 64 - c mod 64) mod 64"
proof -
  have bit_j: "bit (word_rotr (c mod 64) w) ((j + 64 - c mod 64) mod 64)" if "j < 64" "bit w j" for j
    using that slot_offset_slot [OF that(1), of "c mod 64"]
    by (simp add: bit_word_rotr_iff add.commute)
  obtain n where "bit w n" "n < 64"
    using w bit_imp_le_length [of w] by (auto simp: bit_eq_iff)
  from bit_j [OF this(2,1)] have nz: "word_rotr (c mod 64) w \<noteq> 0" by auto
  note tz = trailing_zeros_least [OF nz, folded pos_def]
  show "pos < 64" by (rule tz(1))
  from tz(2) show "bit w ((c + pos) mod 64)"
    by (simp add: bit_word_rotr_iff mod_add_right_eq add.commute)
  show "pos \<le> (j + 64 - c mod 64) mod 64" if "j < 64" "bit w j"
    using tz(3) bit_j [OF that] by (meson not_le)
qed

section \<open>Occupied slots\<close>

text \<open>The expiries of the occupied slots of the levels from \<open>l\<close> on, seen from tick \<open>e\<close>.\<close>

definition pending_from :: "u64 list \<Rightarrow> nat \<Rightarrow> nat \<Rightarrow> nat set" where
  "pending_from occ e l = {slot_time e l' j |l' j. l \<le> l' \<and> l' < 8 \<and> j < 64 \<and> bit (occ ! l') j}"

lemma pending_from_step:
  assumes "l < 8"
  shows "pending_from occ e l = {slot_time e l j |j. j < 64 \<and> bit (occ ! l) j} \<union> pending_from occ e (Suc l)"
proof (intro equalityI subsetI)
  fix x assume "x \<in> pending_from occ e l"
  then obtain l' j where x: "x = slot_time e l' j" "l \<le> l'" "l' < 8" "j < 64" "bit (occ ! l') j"
    unfolding pending_from_def by auto
  then show "x \<in> {slot_time e l j |j. j < 64 \<and> bit (occ ! l) j} \<union> pending_from occ e (Suc l)"
    unfolding pending_from_def by (cases "l' = l") auto
next
  fix x assume "x \<in> {slot_time e l j |j. j < 64 \<and> bit (occ ! l) j} \<union> pending_from occ e (Suc l)"
  then show "x \<in> pending_from occ e l"
    using assms unfolding pending_from_def by (force intro: Suc_leD)
qed

lemma pending_from_8 [simp]: "pending_from occ e 8 = {}"
  by (auto simp: pending_from_def)

lemma slot_time_ge_level_tick: "cdiv e (8 ^ l) * 8 ^ l \<le> slot_time e l j"
  by (simp add: slot_time_def Let_def)

lemma level_tick_mono: "l \<le> l' \<Longrightarrow> cdiv e (8 ^ l) * 8 ^ l \<le> cdiv e (8 ^ l') * 8 ^ l'"
proof (induction l' rule: dec_induct)
  case (step n)
  have "cdiv e (8 ^ n) \<le> cdiv (cdiv e (8 ^ n)) 8 * 8" by (rule cdiv_mult_ge) simp
  also have "\<dots> = cdiv e (8 ^ Suc n) * 8" by (simp add: cdiv_cdiv mult.commute)
  finally have "cdiv e (8 ^ n) * 8 ^ n \<le> cdiv e (8 ^ Suc n) * 8 * 8 ^ n" by (rule mult_le_mono1)
  then have "cdiv e (8 ^ n) * 8 ^ n \<le> cdiv e (8 ^ Suc n) * 8 ^ Suc n" by (simp only: mult.assoc power_Suc)
  with step.IH show ?case by (rule order_trans)
qed simp

lemma pending_from_ge:
  assumes "x \<in> pending_from occ e l" shows "cdiv e (8 ^ l) * 8 ^ l \<le> x"
proof -
  obtain l' j where "x = slot_time e l' j" "l \<le> l'" using assms by (auto simp: pending_from_def)
  then show ?thesis using level_tick_mono [of l l' e] slot_time_ge_level_tick [of e l' j] by simp
qed

text \<open>The first occupied slot of one level, as the loop computes it.\<close>

lemma level_first_pending:
  fixes e j :: nat
  assumes "occ ! l \<noteq> 0"
  defines "c \<equiv> cdiv e (8 ^ l)"
  defines "pos \<equiv> trailing_zeros (word_rotr (c mod 64) (occ ! l))"
  shows "(c + pos) * 8 ^ l = slot_time e l ((c + pos) mod 64)" and "bit (occ ! l) ((c + pos) mod 64)"
    and "j < 64 \<Longrightarrow> bit (occ ! l) j \<Longrightarrow> (c + pos) * 8 ^ l \<le> slot_time e l j"
proof -
  note tz = trailing_zeros_rotated [OF assms(1), where c = c, folded pos_def]
  show "(c + pos) * 8 ^ l = slot_time e l ((c + pos) mod 64)"
    using slot_offset_unique [of c "c + pos"] tz(1) by (simp add: slot_time_def c_def Let_def)
  show "bit (occ ! l) ((c + pos) mod 64)" by (rule tz(2))
  show "(c + pos) * 8 ^ l \<le> slot_time e l j" if "j < 64" "bit (occ ! l) j"
    using tz(3) [OF that] by (simp add: slot_time_def c_def Let_def)
qed

section \<open>The loop\<close>

lemma split_8: obtains q r where "c = 8 * q + r" "r < (8 :: nat)"
  using that [of "c div 8" "c mod 8"] by (simp only: mult_div_mod_eq mod_less_divisor zero_less_numeral)

lemma cdiv_8: "cdiv c 8 = c div 8 + (if c mod 8 \<noteq> 0 then 1 else 0)"
proof -
  obtain q r where c: "c = 8 * q + r" "r < 8" by (rule split_8)
  have "(r + 7) div 8 = (if r \<noteq> 0 then 1 else 0)" using c(2) by (auto simp: div_nat_eqI)
  moreover have "cdiv c 8 = q + (r + 7) div 8" by (simp add: cdiv_def c(1) add.assoc)
  ultimately show ?thesis using c by simp
qed

lemma unat_next_level_clk:
  assumes "unat clk = cdiv e (8 ^ l)"
  shows "unat (drop_bit LVL_CLK_SHIFT clk + (if clk AND LVL_CLK_MASK \<noteq> 0 then 1 else 0)) = cdiv e (8 ^ Suc l)"
proof -
  have mask: "clk AND LVL_CLK_MASK \<noteq> 0 \<longleftrightarrow> unat clk mod 8 \<noteq> 0"
    by (simp flip: unat_and_clk_mask add: unat_eq_0)
  have drop: "unat (drop_bit LVL_CLK_SHIFT clk) = unat clk div 8"
    by (simp add: unat_drop_bit_div LVL_CLK_SHIFT_def)
  have "unat clk div 8 + 1 < 18446744073709551616"
    using unat_lt_u64 [of clk] by linarith
  then have "unat (drop_bit LVL_CLK_SHIFT clk + (if clk AND LVL_CLK_MASK \<noteq> 0 then 1 else 0))
      = unat clk div 8 + (if unat clk mod 8 \<noteq> 0 then 1 else 0)"
    unfolding mask by (simp add: drop unat_add_no_overflow)
  also have "\<dots> = cdiv (unat clk) 8" by (rule cdiv_8 [symmetric])
  finally show ?thesis unfolding assms by (simp add: cdiv_cdiv mult.commute)
qed

lemma unat_early_exit:
  "unat ((LVL_CLK_DIV - (clk AND LVL_CLK_MASK)) AND LVL_CLK_MASK) = (8 - unat clk mod 8) mod 8"
proof -
  have "unat (LVL_CLK_DIV - (clk AND LVL_CLK_MASK)) = 8 - unat clk mod 8"
    using unat_and_clk_mask [of clk]
    by (subst unat_sub_no_underflow) (simp_all add: wheel_consts less_imp_le)
  then show ?thesis by (simp add: unat_and_clk_mask)
qed

lemma early_exit_bound:
  assumes "pos \<le> (8 - c mod 8) mod 8" shows "c + pos \<le> cdiv c 8 * (8::nat)"
proof -
  obtain q r where c: "c = 8 * q + r" "r < 8" by (rule split_8)
  with assms show ?thesis by (cases "r = 0") (simp_all add: cdiv_8)
qed

lemma unat_level_tick:
  fixes clk :: u64
  assumes l: "l < 8" and clk: "unat clk = cdiv e (8 ^ l)" and pos: "pos < 64"
    and ov: "e + 134217728 < 2 ^ 64"
  shows "unat (push_bit (lvl_shift l) (clk + of_nat pos)) = (cdiv e (8 ^ l) + pos) * 8 ^ l"
proof -
  let ?c = "cdiv e (8 ^ l)"
  have "?c * 8 ^ l < e + 8 ^ l" by (rule cdiv_mult_lt) simp
  moreover have "pos * 8 ^ l \<le> 63 * 8 ^ l" using pos by (intro mult_le_mono1) simp
  ultimately have bound: "(?c + pos) * 8 ^ l < 2 ^ 64"
    using lvl_lt_8_bound [OF l] ov unfolding add_mult_distrib by linarith
  have "(?c + pos) * 1 \<le> (?c + pos) * 8 ^ l" by (intro mult_le_mono2) simp
  then have sum: "?c + pos < 2 ^ 64" using bound unfolding mult_1_right by (rule le_less_trans)
  have upos: "unat (of_nat pos :: u64) = pos" using pos by (simp add: unat_of_nat)
  have add: "unat (clk + of_nat pos) = ?c + pos"
    using sum unat_add_no_overflow [of clk "of_nat pos"] by (simp add: clk upos)
  show ?thesis
    using bound unat_push_bit_no_overflow [of "clk + of_nat pos" "lvl_shift l"]
    by (simp add: add two_pow_lvl_shift)
qed

definition is_min_pending :: "nat \<Rightarrow> nat \<Rightarrow> nat set \<Rightarrow> bool" where
  "is_min_pending r n P \<longleftrightarrow> r \<le> n \<and> (r = n \<or> r \<in> P) \<and> (\<forall>x\<in>P. r \<le> x)"

lemma next_pending_levels_min:
  assumes "n + l = 8" and "unat clk = cdiv e (8 ^ l)" and "e + 134217728 < 2 ^ 64"
  shows "is_min_pending (unat (next_pending_levels occ n l clk nxt)) (unat nxt) (pending_from occ e l)"
  using assms
proof (induction n arbitrary: l clk nxt)
  case 0
  then show ?case by (simp add: is_min_pending_def)
next
  case (Suc n)
  let ?c = "cdiv e (8 ^ l)" and ?w = "occ ! l"
  let ?clk = "drop_bit LVL_CLK_SHIFT clk + (if clk AND LVL_CLK_MASK \<noteq> 0 then 1 else 0)"
  have l: "l < 8" "n + Suc l = 8" using Suc.prems(1) by auto
  have IH: "is_min_pending (unat (next_pending_levels occ n (Suc l) ?clk nx)) (unat nx) (pending_from occ e (Suc l))" for nx
    by (rule Suc.IH [OF l(2) unat_next_level_clk [OF Suc.prems(2)] Suc.prems(3)])
  note P = pending_from_step [OF l(1), of occ e]
  show ?case
  proof (cases "?w = 0")
    case True
    then show ?thesis using IH [of nxt] by (simp add: P Let_def)
  next
    case False
    define pos where "pos = trailing_zeros (word_rotr (?c mod 64) ?w)"
    define tmp where "tmp = push_bit (lvl_shift l) (clk + of_nat pos)"
    define nx where "nx = (if tmp < nxt then tmp else nxt)"
    have pos: "pos < 64" unfolding pos_def by (rule trailing_zeros_rotated(1) [OF False])
    have tmp: "unat tmp = (?c + pos) * 8 ^ l"
      unfolding tmp_def by (rule unat_level_tick [OF l(1) Suc.prems(2) pos Suc.prems(3)])
    note first = level_first_pending [OF False, where e = e, folded pos_def, folded tmp]
    have nx: "is_min_pending (unat nx) (unat nxt) {slot_time e l j |j. j < 64 \<and> bit ?w j}"
      using first by (fastforce simp: is_min_pending_def nx_def word_less_nat_alt)
    show ?thesis
    proof (cases "pos \<le> (8 - ?c mod 8) mod 8")
      case True
      have "unat tmp \<le> cdiv ?c 8 * 8 * 8 ^ l"
        unfolding tmp by (intro mult_le_mono1 early_exit_bound True)
      then have "unat tmp \<le> cdiv e (8 ^ Suc l) * 8 ^ Suc l"
        by (simp add: cdiv_cdiv mult.commute mult.left_commute)
      then have "\<forall>x\<in>pending_from occ e (Suc l). unat nx \<le> x"
        using pending_from_ge [of _ occ e "Suc l"] by (fastforce simp: nx_def word_less_nat_alt)
      moreover have "next_pending_levels occ (Suc n) l clk nxt = nx"
        using False True pos
        by (simp add: Let_def word_le_nat_alt unat_early_exit unat_and_lvl_mask Suc.prems(2) unat_of_nat
            nx_def tmp_def flip: pos_def)
      ultimately show ?thesis using nx by (auto simp: is_min_pending_def P)
    next
      case contd: False
      have "next_pending_levels occ (Suc n) l clk nxt = next_pending_levels occ n (Suc l) ?clk nx"
        using False contd pos
        by (simp add: Let_def word_le_nat_alt unat_early_exit unat_and_lvl_mask Suc.prems(2) unat_of_nat
            nx_def tmp_def flip: pos_def)
      then show ?thesis using nx IH [of nx] by (auto simp: is_min_pending_def P intro: order_trans)
    qed
  qed
qed

lemma finite_pending_from: "finite (pending_from occ e l)"
proof -
  have "pending_from occ e l \<subseteq> (\<lambda>(l', j). slot_time e l' j) ` ({..<8} \<times> {..<64})"
    by (force simp: pending_from_def)
  then show ?thesis by (rule finite_subset) simp
qed

lemma pending_from_lt:
  assumes "x \<in> pending_from occ e l" shows "x < e + 134217728"
proof -
  obtain l' j where x: "x = slot_time e l' j" "l' < 8" "j < 64" using assms by (auto simp: pending_from_def)
  then show ?thesis using slot_time_props(3) [OF x(3), of e l'] lvl_lt_8_bound [OF x(2)] by simp
qed

lemma next_pending_bucket_least:
  assumes "unat (ti_elapsed ti) + 134217728 < 2 ^ 64"
  shows "map_option unat (next_pending_bucket ti) =
    (let P = pending_from (tm_occupied (ti_inner ti)) (unat (ti_elapsed ti)) 0
     in if P = {} then None else Some (Min P))"
proof -
  let ?P = "pending_from (tm_occupied (ti_inner ti)) (unat (ti_elapsed ti)) 0"
  let ?r = "next_pending_levels (tm_occupied (ti_inner ti)) LVL_DEPTH 0 (ti_elapsed ti) U64_MAX"
  have min: "is_min_pending (unat ?r) (unat U64_MAX) ?P"
    using next_pending_levels_min [of LVL_DEPTH 0 "ti_elapsed ti" "unat (ti_elapsed ti)"] assms
    by (simp add: cdiv_def)
  have max: "x < unat U64_MAX" if "x \<in> ?P" for x
    using pending_from_lt [OF that] assms by (simp add: U64_MAX_def unat_minus_1)
  show ?thesis
  proof (cases "?P = {}")
    case True
    then show ?thesis using min by (simp add: is_min_pending_def next_pending_bucket_def word_less_nat_alt Let_def)
  next
    case False
    with min max have "unat ?r \<in> ?P" "unat ?r < unat U64_MAX"
      unfolding is_min_pending_def by (metis all_not_in_conv leD)+
    moreover from this have "Min ?P = unat ?r"
      using min finite_pending_from by (intro Min_eqI) (auto simp: is_min_pending_def)
    ultimately show ?thesis
      using False by (simp add: next_pending_bucket_def word_less_nat_alt Let_def)
  qed
qed

text \<open>C25. \<open>next_pending_bucket\<close> is the minimum: when any slot of the wheel is occupied it returns the least
  expiry of all occupied slots, over all eight levels, although its loop leaves early; it returns
  \<open>None\<close> only for an empty wheel.\<close>

theorem next_pending_bucket_min:
  assumes "unat (ti_elapsed ti) + 134217728 < 2 ^ 64"
  shows "map_option unat (next_pending_bucket ti) =
    (let P = pending_from (tm_occupied (ti_inner ti)) (unat (ti_elapsed ti)) 0
     in if P = {} then None else Some (Min P))"
  using assms by (rule next_pending_bucket_least)

text \<open>At tick 100 with slot 3 of level 0 and slot 2 of level 1 occupied the next expiry is tick 131.\<close>

definition two_slots :: timer_inner where
  "two_slots = (let t = timer_new 0 in t\<lparr>ti_elapsed := 100,
     ti_inner := (ti_inner t)\<lparr>tm_occupied := 8 # 4 # replicate 6 0\<rparr>\<rparr>)"

theorem next_pending_bucket_min_witness:
  "next_pending_bucket two_slots = Some 131
   \<and> Min (pending_from (tm_occupied (ti_inner two_slots)) 100 0) = 131"
proof -
  have "next_pending_levels (8 # 4 # replicate 6 0) LVL_DEPTH 0 100 U64_MAX = 131" by code_simp
  then have eval: "next_pending_bucket two_slots = Some 131"
    by (simp add: next_pending_bucket_def two_slots_def U64_MAX_def Let_def)
  then show ?thesis
    using next_pending_bucket_min [of two_slots] by (simp add: two_slots_def Let_def split: if_splits)
qed

end
