(* ===== verification/Wheel_Fire.thy ===== *)
theory Wheel_Fire
  imports Wheel_Inv Wheel_Next
begin

text \<open>
  Firing: which timers \<open>execute_expired_timers\<close> completes and which tasks it wakes. \<open>drained P m m' ws\<close> says
  that a step took the timers of the buckets in \<open>P\<close>, and no others, out of the wheel, marked them elapsed
  and woke the task of each that had one, once.
\<close>

section \<open>Draining buckets\<close>

definition completed :: "timer_entry \<Rightarrow> timer_entry" where
  "completed e = e\<lparr>te_bucket := None, te_task := None\<rparr>"

definition waiter :: "timer_entry slab \<Rightarrow> nat \<Rightarrow> task option" where
  "waiter ts no = Option.bind (slab_get ts no) te_task"

lemma completed_simps [simp]:
  "te_bucket (completed e) = None" "te_bucket_entry (completed e) = te_bucket_entry e" "te_task (completed e) = None"
  by (simp_all add: completed_def)

lemma te_complete_armed:
  "te_bucket e \<noteq> None \<Longrightarrow> te_complete e = (completed e, case te_task e of None \<Rightarrow> [] | Some w \<Rightarrow> [w])"
  by (simp add: te_complete_def completed_def split: option.split)

lemma complete_all_spec:
  assumes "distinct nos" and "\<And>no. no \<in> set nos \<Longrightarrow> \<exists>e. slab_get ts no = Some e \<and> te_bucket e \<noteq> None"
  shows "(\<forall>no. slab_get (fst (complete_all ts nos)) no
            = (if no \<in> set nos then map_option completed (slab_get ts no) else slab_get ts no))
       \<and> snd (complete_all ts nos) = List.map_filter (waiter ts) nos"
  using assms
proof (induction nos arbitrary: ts)
  case (Cons no nos)
  obtain e where e: "slab_get ts no = Some e" "te_bucket e \<noteq> None" using Cons.prems(2) [of no] by auto
  let ?ts = "slab_put ts no (completed e)"
  have IH: "(\<forall>n. slab_get (fst (complete_all ?ts nos)) n
            = (if n \<in> set nos then map_option completed (slab_get ?ts n) else slab_get ?ts n))
       \<and> snd (complete_all ?ts nos) = List.map_filter (waiter ?ts) nos"
    by (rule Cons.IH) (use Cons.prems in \<open>auto\<close>)
  moreover have "List.map_filter (waiter ?ts) nos = List.map_filter (waiter ts) nos"
    using Cons.prems(1) by (auto simp: map_filter_def waiter_def intro!: map_cong filter_cong)
  moreover have "waiter ts no = te_task e" by (simp add: waiter_def e)
  ultimately show ?case using Cons.prems(1) e
    by (auto simp: te_complete_armed map_filter_simps split: prod.split option.split)
qed (simp add: map_filter_simps)

definition drained :: "nat set \<Rightarrow> timer_mod \<Rightarrow> timer_mod \<Rightarrow> task list \<Rightarrow> bool" where
  "drained P m m' ws \<longleftrightarrow> wheel_inv m'
     \<and> (\<forall>no. slab_get (tm_timers m') no
          = map_option (\<lambda>e. if \<exists>i\<in>P. te_bucket e = Some i then completed e else e) (slab_get (tm_timers m) no))
     \<and> (\<exists>nos. distinct nos \<and> set nos = {no. \<exists>i\<in>P. armed m no = Some i}
              \<and> ws = List.map_filter (waiter (tm_timers m)) nos)
     \<and> tm_driver_sleep m' = tm_driver_sleep m"

lemma drained_refl: "wheel_inv m \<Longrightarrow> drained {} m m []"
  by (auto simp: drained_def map_filter_simps option.map_ident intro!: exI [of _ "[]"])

lemma drained_armed:
  "drained P m m' ws \<Longrightarrow> armed m' no = (if \<exists>i\<in>P. armed m no = Some i then None else armed m no)"
  by (cases "slab_get (tm_timers m) no") (auto simp: drained_def armed_def)

lemma drained_trans:
  assumes 1: "drained P m m1 w1" and 2: "drained Q m1 m2 w2" and disj: "P \<inter> Q = {}"
  shows "drained (P \<union> Q) m m2 (w1 @ w2)"
proof -
  obtain n1 where n1: "distinct n1" "set n1 = {no. \<exists>i\<in>P. armed m no = Some i}"
      "w1 = List.map_filter (waiter (tm_timers m)) n1" using 1 by (auto simp: drained_def)
  obtain n2 where n2: "distinct n2" "set n2 = {no. \<exists>i\<in>Q. armed m1 no = Some i}"
      "w2 = List.map_filter (waiter (tm_timers m1)) n2" using 2 by (auto simp: drained_def)
  have Q: "set n2 = {no. \<exists>i\<in>Q. armed m no = Some i}"
    using disj by (auto simp: n2(2) drained_armed [OF 1])
  have "waiter (tm_timers m1) no = waiter (tm_timers m) no" if "no \<in> set n2" for no
    using that 1 disj by (auto simp: Q waiter_def drained_def armed_iff)
  then have "w2 = List.map_filter (waiter (tm_timers m)) n2"
    by (auto simp: n2(3) map_filter_def intro!: map_cong filter_cong)
  moreover have "distinct (n1 @ n2)" using n1(1,2) n2(1) Q disj by auto
  moreover have "set (n1 @ n2) = {no. \<exists>i\<in>P \<union> Q. armed m no = Some i}" using n1(2) Q by auto
  ultimately have "\<exists>nos. distinct nos \<and> set nos = {no. \<exists>i\<in>P \<union> Q. armed m no = Some i}
      \<and> w1 @ w2 = List.map_filter (waiter (tm_timers m)) nos"
    using n1(3) by (intro exI [of _ "n1 @ n2"]) (simp add: map_filter_def)
  moreover have "slab_get (tm_timers m2) no = map_option
      (\<lambda>e. if \<exists>i\<in>P \<union> Q. te_bucket e = Some i then completed e else e) (slab_get (tm_timers m) no)" for no
    using 1 2 by (cases "slab_get (tm_timers m) no") (auto simp: drained_def)
  ultimately show ?thesis using 1 2 by (simp add: drained_def)
qed

lemma drain_bucket_spec:
  assumes inv: "wheel_inv m" and idx: "idx < 512"
  shows "drained {idx} m (fst (drain_bucket m idx)) (snd (drain_bucket m idx))"
proof (cases "slab_is_empty (b_entries (tm_buckets m ! idx))")
  case True
  then have "armed m no \<noteq> Some idx" for no
    using bucket_values(2) [OF inv idx] slab_values_empty_iff by force
  then have "{no. \<exists>i\<in>{idx}. armed m no = Some i} = {}"
    and "\<And>e no. slab_get (tm_timers m) no = Some e \<Longrightarrow> te_bucket e \<noteq> Some idx" by (auto simp: armed_iff)
  then show ?thesis using True inv
    by (auto simp: drain_bucket_def drained_def map_filter_simps split: option.split intro!: option.map_ident_strong [symmetric] exI [of _ "[]"])
next
  case False
  let ?b = "tm_buckets m ! idx" and ?nos = "slab_values (b_entries (tm_buckets m ! idx))"
  define ts where "ts = fst (complete_all (tm_timers m) ?nos)"
  define m' where "m' = m\<lparr>tm_timers := ts, tm_occupied := clear_bit (tm_occupied m) ?b,
     tm_buckets := (tm_buckets m)[idx := ?b\<lparr>b_entries := []\<rparr>]\<rparr>"
  note vals = bucket_values [OF inv idx]
  have ca: "(\<forall>no. slab_get ts no = (if no \<in> set ?nos then map_option completed (slab_get (tm_timers m) no)
      else slab_get (tm_timers m) no)) \<and> snd (complete_all (tm_timers m) ?nos) = List.map_filter (waiter (tm_timers m)) ?nos"
    unfolding ts_def by (rule complete_all_spec) (use vals in \<open>auto simp: armed_iff\<close>)
  then have ts: "slab_get ts no = map_option (\<lambda>e. if te_bucket e = Some idx then completed e else e)
      (slab_get (tm_timers m) no)" for no
    by (cases "slab_get (tm_timers m) no") (auto simp: vals(2) armed_def)
  have drain: "drain_bucket m idx = (m', List.map_filter (waiter (tm_timers m)) ?nos)"
    using False ca by (simp add: drain_bucket_def m'_def ts_def Let_def case_prod_beta)
  have "linked ts no i kb \<longleftrightarrow> i \<noteq> idx \<and> linked (tm_timers m) no i kb" for no i kb
    by (cases "slab_get (tm_timers m) no") (auto simp: linked_def ts)
  then have "links_wf m'"
    using inv idx wheel_inv_lengths(1) [OF inv]
    by (auto simp: links_wf_def wheel_inv_def m'_def nth_list_update)
  moreover have "buckets_wf m' \<and> occupied_wf m'"
    using replace_bucket_wf [of m idx m' "[]"] inv idx by (simp add: wheel_inv_def m'_def)
  ultimately have "wheel_inv m'" by (simp add: wheel_inv_def)
  then show ?thesis
    using ts vals by (auto simp: drained_def drain intro!: exI [of _ ?nos]) (simp_all add: m'_def)
qed

section \<open>The level loop\<close>

text \<open>The buckets whose time has come at tick \<open>clk\<close>: those of the levels whose granularity divides it.\<close>

definition due_buckets :: "nat \<Rightarrow> nat \<Rightarrow> nat \<Rightarrow> nat set" where
  "due_buckets n lvl clk = (\<lambda>i. 64 * (lvl + i) + clk div 8 ^ i mod 64) ` {i. i < n \<and> 8 ^ i dvd clk}"

lemma due_buckets_Suc:
  "due_buckets (Suc n) lvl clk = insert (64 * lvl + clk mod 64)
     (if 8 dvd clk then due_buckets n (Suc lvl) (clk div 8) else {})"
proof (cases "8 dvd clk")
  case True
  then obtain k where k: "clk = 8 * k" by (elim dvdE)
  have "i < Suc n \<and> 8 ^ i dvd clk \<longleftrightarrow> i = 0 \<or> i \<in> Suc ` {j. j < n \<and> 8 ^ j dvd k}" for i
    by (cases i) (auto simp: k)
  then have "{i. i < Suc n \<and> 8 ^ i dvd clk} = insert 0 (Suc ` {j. j < n \<and> 8 ^ j dvd k})" by auto
  then show ?thesis by (simp add: due_buckets_def image_image k ac_simps)
next
  case False
  then have "8 ^ i dvd clk \<longleftrightarrow> i = 0" for i
    by (cases i) (auto dest: dvd_mult_left)
  then have "{i. i < Suc n \<and> 8 ^ i dvd clk} = {0}" by auto
  then show ?thesis using False by (simp add: due_buckets_def)
qed

lemma unat_level_index:
  assumes "lvl < 8" shows "unat ((clk AND LVL_MASK) + of_nat lvl * LVL_SIZE) = 64 * lvl + unat clk mod 64"
proof -
  have offs: "unat (of_nat lvl * LVL_SIZE) = lvl * 64"
    using unat_lvl_offs [OF assms] by (simp add: lvl_offs_def)
  have "unat clk mod 64 < 64" by simp
  then show ?thesis
    using assms by (subst unat_add_no_overflow) (auto simp: offs unat_and_lvl_mask)
qed

lemma due_buckets_level: "idx \<in> due_buckets n lvl clk \<Longrightarrow> lvl \<le> idx div 64 \<and> idx div 64 < lvl + n"
  by (auto simp: due_buckets_def)

lemma execute_levels_spec:
  assumes "wheel_inv m" "n + lvl \<le> 8"
  shows "drained (due_buckets n lvl (unat clk)) m
    (fst (execute_levels n lvl clk m)) (snd (execute_levels n lvl clk m))"
  using assms
proof (induction n arbitrary: lvl clk m)
  case 0
  then show ?case by (simp add: due_buckets_def drained_refl)
next
  case (Suc n)
  let ?idx = "64 * lvl + unat clk mod 64"
  have idx: "?idx < 512" and dlvl: "?idx div 64 = lvl" using Suc.prems(2) by auto
  define m1 w where "m1 = fst (drain_bucket m ?idx)" and "w = snd (drain_bucket m ?idx)"
  have d1: "drained {?idx} m m1 w"
    unfolding m1_def w_def by (rule drain_bucket_spec [OF Suc.prems(1) idx])
  have mask: "clk AND LVL_CLK_MASK \<noteq> 0 \<longleftrightarrow> \<not> 8 dvd unat clk"
    by (simp flip: unat_and_clk_mask unat_eq_0 add: dvd_eq_mod_eq_0)
  have drop: "unat (drop_bit LVL_CLK_SHIFT clk) = unat clk div 8"
    by (simp add: unat_drop_bit_div LVL_CLK_SHIFT_def)
  have step: "execute_levels (Suc n) lvl clk m = (if \<not> 8 dvd unat clk then (m1, w)
      else let (m2, w2) = execute_levels n (Suc lvl) (drop_bit LVL_CLK_SHIFT clk) m1 in (m2, w @ w2))"
    using Suc.prems(2) mask unat_level_index [of lvl clk] by (simp add: Let_def case_prod_beta m1_def w_def)
  show ?case
  proof (cases "8 dvd unat clk")
    case True
    have "drained (due_buckets n (Suc lvl) (unat clk div 8)) m1
        (fst (execute_levels n (Suc lvl) (drop_bit LVL_CLK_SHIFT clk) m1))
        (snd (execute_levels n (Suc lvl) (drop_bit LVL_CLK_SHIFT clk) m1))"
      using Suc.IH [of m1 "Suc lvl" "drop_bit LVL_CLK_SHIFT clk"] d1 Suc.prems(2) by (simp add: drop drained_def)
    moreover have "{?idx} \<inter> due_buckets n (Suc lvl) (unat clk div 8) = {}"
      using due_buckets_level [of ?idx n "Suc lvl"] dlvl by auto
    ultimately show ?thesis
      using drained_trans [OF d1] True unfolding step by (simp add: due_buckets_Suc case_prod_beta Let_def)
  next
    case False
    then show ?thesis using d1 unfolding step by (simp add: due_buckets_Suc)
  qed
qed

text \<open>Seen from a tick at or before \<open>clk\<close>, the due buckets are those whose slot expires exactly at \<open>clk\<close>.\<close>

lemma due_buckets_slot_time:
  assumes "idx < 512" "e \<le> clk" "clk \<le> slot_time e (idx div 64) (idx mod 64)"
  shows "idx \<in> due_buckets 8 0 clk \<longleftrightarrow> slot_time e (idx div 64) (idx mod 64) = clk"
proof -
  let ?l = "idx div 64" and ?j = "idx mod 64"
  have j: "?j < 64" and l: "?l < 8" using assms(1) by auto
  note st = slot_time_props [OF j, where l = ?l and e = e]
  have "idx \<in> due_buckets 8 0 clk \<longleftrightarrow> 8 ^ ?l dvd clk \<and> clk div 8 ^ ?l mod 64 = ?j"
  proof
    assume "idx \<in> due_buckets 8 0 clk"
    then obtain i where "idx = 64 * i + clk div 8 ^ i mod 64" "8 ^ i dvd clk" by (auto simp: due_buckets_def)
    moreover from this(1) have "i = ?l" by simp
    ultimately show "8 ^ ?l dvd clk \<and> clk div 8 ^ ?l mod 64 = ?j" by (metis mod_mod_trivial mod_mult_self4)
  next
    assume "8 ^ ?l dvd clk \<and> clk div 8 ^ ?l mod 64 = ?j"
    then show "idx \<in> due_buckets 8 0 clk"
      using l by (auto simp: due_buckets_def intro!: image_eqI [of _ _ ?l])
  qed
  also have "\<dots> \<longleftrightarrow> slot_time e ?l ?j = clk"
    using st slot_time_unique [of ?l clk e] assms(2,3) by auto
  finally show ?thesis .
qed

end
