(* ===== verification/Wheel_Timer.thy ===== *)
theory Wheel_Timer
  imports Wheel_Fire
begin

text \<open>
  The whole timer in time. \<open>tinv due clk ti\<close> is the invariant of the wheel at clock reading \<open>clk\<close> when every
  armed timer \<open>no\<close> has been promised not to fire before instant \<open>due no\<close>: the data invariant, the next expiry
  is a lower bound of all expiries, the driver runs and sleeps long enough whenever anything is pending, and
  the expiry of every armed timer, converted to time, lies at or after its promise. Every operation keeps it.

  Time is bounded by \<open>CLOCK_MAX\<close> and timeouts by \<open>MILLIS_MAX\<close> (2^60 milliseconds each), so that the \<open>u64\<close>
  arithmetic of the wheel does not overflow.
\<close>

section \<open>Reading the fields of the timer\<close>

definition TICK :: nat where "TICK = 16000000"

definition CLOCK_MAX :: instant where "CLOCK_MAX = 1000000 * 2 ^ 60"

definition MILLIS_MAX :: nat where "MILLIS_MAX = 2 ^ 60"

definition low_now :: "instant \<Rightarrow> timer_inner \<Rightarrow> instant" where
  "low_now t ti = (case ti_lowres_time ti of Some c \<Rightarrow> c | None \<Rightarrow> t)"

definition base_time :: "instant \<Rightarrow> timer_inner \<Rightarrow> instant" where
  "base_time t ti = (case ti_elapsed_time ti of Some et \<Rightarrow> et | None \<Rightarrow> t)"

definition expiry :: "timer_inner \<Rightarrow> nat \<Rightarrow> nat option" where
  "expiry ti no = map_option (\<lambda>idx. slot_time (unat (ti_elapsed ti)) (idx div 64) (idx mod 64)) (armed (ti_inner ti) no)"

definition is_pending :: "timer_inner \<Rightarrow> bool" where
  "is_pending ti \<longleftrightarrow> ti_next_expiry ti \<noteq> U64_MAX"

definition recalc :: "timer_inner \<Rightarrow> bool" where
  "recalc ti \<longleftrightarrow> ti_contains ti DRIVER_RECALC"

definition started :: "timer_inner \<Rightarrow> bool" where
  "started ti \<longleftrightarrow> ti_contains ti DRIVER_STARTED"

lemmas driver_flag_simps = recalc_def started_def ti_contains_def ti_set_flag_def DRIVER_STARTED_def
  DRIVER_RECALC_def LOWRES_TIMER_def LOWRES_DRIVER_def RUNNING_def flag_simps

text \<open>Two timers that agree on everything but the low-resolution clock and the wakers of the drivers.\<close>

definition same_core :: "timer_inner \<Rightarrow> timer_inner \<Rightarrow> bool" where
  "same_core a b \<longleftrightarrow> ti_elapsed a = ti_elapsed b \<and> ti_elapsed_time a = ti_elapsed_time b
     \<and> ti_next_expiry a = ti_next_expiry b \<and> recalc a = recalc b \<and> started a = started b
     \<and> tm_timers (ti_inner a) = tm_timers (ti_inner b) \<and> tm_buckets (ti_inner a) = tm_buckets (ti_inner b)
     \<and> tm_occupied (ti_inner a) = tm_occupied (ti_inner b)
     \<and> tm_driver_sleep (ti_inner a) = tm_driver_sleep (ti_inner b)"

lemma same_core_refl [simp]: "same_core ti ti"
  by (simp add: same_core_def)

lemma same_core_trans: "same_core a b \<Longrightarrow> same_core b c \<Longrightarrow> same_core a c"
  by (simp add: same_core_def)

lemma wheel_inv_cong:
  "tm_timers a = tm_timers b \<Longrightarrow> tm_buckets a = tm_buckets b \<Longrightarrow> tm_occupied a = tm_occupied b
   \<Longrightarrow> wheel_inv a = wheel_inv b"
  by (simp add: wheel_inv_def buckets_wf_def occupied_wf_def links_wf_def)

lemma armed_cong: "tm_timers a = tm_timers b \<Longrightarrow> armed a no = armed b no"
  by (simp add: armed_def)

lemma lowres_touch_core:
  "same_core (fst (lowres_touch t ti)) ti \<and> ti_lowres_time (fst (lowres_touch t ti)) = ti_lowres_time ti"
  by (auto simp: lowres_touch_def lowres_start_def same_core_def driver_flag_simps Let_def case_prod_beta)

lemma timer_now_spec:
  "same_core (fst (timer_now t ti)) ti \<and> fst (snd (timer_now t ti)) = low_now t ti
   \<and> ti_lowres_time (fst (timer_now t ti)) \<in> {ti_lowres_time ti, Some t}"
proof (cases "ti_lowres_time ti")
  case None
  have "same_core (ti\<lparr>ti_lowres_time := Some t\<rparr>) ti" by (simp add: same_core_def driver_flag_simps)
  with None lowres_touch_core [of t "ti\<lparr>ti_lowres_time := Some t\<rparr>"] show ?thesis
    by (auto simp: timer_now_def low_now_def case_prod_beta Let_def intro: same_core_trans)
qed (simp add: timer_now_def low_now_def)

section \<open>The invariant\<close>

definition data_inv :: "timer_inner \<Rightarrow> bool" where
  "data_inv ti \<longleftrightarrow> wheel_inv (ti_inner ti) \<and> slab_get (tm_timers (ti_inner ti)) 0 \<noteq> None
     \<and> (\<forall>no x. expiry ti no = Some x \<longrightarrow> unat (ti_elapsed ti) < x \<and> unat (ti_next_expiry ti) \<le> x)"

definition clock_inv :: "instant \<Rightarrow> timer_inner \<Rightarrow> bool" where
  "clock_inv clk ti \<longleftrightarrow> base_time clk ti \<le> clk \<and> low_now clk ti \<le> clk
     \<and> TICK * unat (ti_elapsed ti) \<le> base_time clk ti"

definition driver_inv :: "timer_inner \<Rightarrow> bool" where
  "driver_inv ti \<longleftrightarrow> ti_elapsed ti < ti_next_expiry ti \<and> (is_pending ti \<longrightarrow>
     ti_elapsed_time ti \<noteq> None \<and> started ti
     \<and> unat (ti_next_expiry ti) \<le> unat (ti_elapsed ti) + 134217728
     \<and> (\<not> recalc ti \<longrightarrow> base_time 0 ti + TICK * (unat (ti_next_expiry ti) - unat (ti_elapsed ti))
            \<le> tm_driver_sleep (ti_inner ti)))"

definition due_inv :: "(nat \<Rightarrow> instant) \<Rightarrow> timer_inner \<Rightarrow> bool" where
  "due_inv due ti \<longleftrightarrow> (\<forall>no x. expiry ti no = Some x \<longrightarrow>
     due no \<le> base_time 0 ti + TICK * (x - unat (ti_elapsed ti)))"

definition tinv :: "(nat \<Rightarrow> instant) \<Rightarrow> instant \<Rightarrow> timer_inner \<Rightarrow> bool" where
  "tinv due clk ti \<longleftrightarrow> clk < CLOCK_MAX \<and> data_inv ti \<and> clock_inv clk ti \<and> driver_inv ti \<and> due_inv due ti"

lemmas tinv_defs = tinv_def data_inv_def clock_inv_def driver_inv_def due_inv_def

lemma tinv_same_core:
  assumes "tinv due clk ti" "same_core ti' ti" "clk \<le> clk'" "clk' < CLOCK_MAX"
    and "ti_lowres_time ti' \<in> {ti_lowres_time ti, None, Some clk'}"
  shows "tinv due clk' ti'"
  using assms wheel_inv_cong [of "ti_inner ti'" "ti_inner ti"] armed_cong [of "ti_inner ti'" "ti_inner ti"]
  by (auto simp: tinv_defs same_core_def expiry_def base_time_def low_now_def is_pending_def split: option.splits)

lemma tinv_elapsed_bound:
  assumes "tinv due clk ti" shows "unat (ti_elapsed ti) < 2 ^ 56"
  using assms by (simp add: tinv_defs TICK_def CLOCK_MAX_def)

lemma expiry_lt:
  assumes "data_inv ti" "expiry ti no = Some x" shows "x < unat (ti_elapsed ti) + 134217728"
proof -
  obtain idx where idx: "armed (ti_inner ti) no = Some idx"
      and x: "x = slot_time (unat (ti_elapsed ti)) (idx div 64) (idx mod 64)"
    using assms(2) by (auto simp: expiry_def)
  have "idx < 512" using idx assms(1) links_timer(1) by (auto simp: data_inv_def armed_iff)
  then have l: "idx div 64 < 8" by auto
  have "idx mod 64 < 64" by simp
  from slot_time_props(3) [OF this, of "unat (ti_elapsed ti)" "idx div 64"] lvl_lt_8_bound [OF l]
  show ?thesis unfolding x by linarith
qed

lemma expiry_pending:
  assumes "tinv due clk ti" "expiry ti no = Some x" shows "is_pending ti"
proof -
  have "data_inv ti" using assms(1) by (simp add: tinv_def)
  then have "unat (ti_next_expiry ti) \<le> x" "x < unat (ti_elapsed ti) + 134217728"
    using assms(2) expiry_lt by (auto simp: data_inv_def)
  then have "unat (ti_next_expiry ti) < 2 ^ 57" using tinv_elapsed_bound [OF assms(1)] by simp
  then show ?thesis by (auto simp: is_pending_def U64_MAX_def unat_minus_1)
qed

section \<open>From milliseconds to buckets\<close>

lemma unat_as_millis:
  assumes "d < CLOCK_MAX" shows "unat (as_millis d) = d div 1000000"
proof -
  have "(r + 1000000 * (1000 * q)) div 1000000 = 1000 * q + r div 1000000" for q r :: nat
    by (rule div_mult_self2) simp
  from this [of "d mod 1000000000" "d div 1000000000"]
  have "d div 1000000000 * 1000 + d mod 1000000000 div 1000000 = d div 1000000"
    by (simp add: mult.commute)
  moreover have "as_millis d = of_nat (d div 1000000000 * 1000 + d mod 1000000000 div 1000000)"
    by (simp add: as_millis_def)
  ultimately have "as_millis d = of_nat (d div 1000000)" by (simp only:)
  moreover have "d div 1000000 < 2 ^ 64" using assms by (simp add: CLOCK_MAX_def div_less_iff_less_mult)
  ultimately show ?thesis by (simp add: unat_of_nat)
qed

lemma unat_to_units: "unat (to_units n) = unat n div 16"
  by (simp add: to_units_def UNITS_def unat_drop_bit_div)

lemma timer_delta_bounds:
  assumes "now < CLOCK_MAX" "unat millis < MILLIS_MAX"
  shows "unat (timer_delta now et millis) < 2 ^ 58"
    and "now + 1000000 * unat millis \<le> et + TICK * Suc (unat (timer_delta now et millis))"
proof -
  let ?a = "(now - et) div 1000000"
  have d: "now - et < CLOCK_MAX" using assms(1) by simp
  have a: "?a < 2 ^ 60" using d by (simp add: CLOCK_MAX_def div_less_iff_less_mult)
  have sum: "unat (as_millis (now - et) + millis) = ?a + unat millis"
    using a assms(2) unat_as_millis [OF d] by (subst unat_add_no_overflow) (simp_all add: MILLIS_MAX_def)
  have D: "unat (timer_delta now et millis) = (?a + unat millis) div 16"
    using sum by (cases "now \<ge> et") (simp_all add: timer_delta_def unat_to_units)
  show "unat (timer_delta now et millis) < 2 ^ 58"
    unfolding D using a assms(2) by (simp add: MILLIS_MAX_def)
  have "?a + unat millis < 16 + 16 * unat (timer_delta now et millis)"
    unfolding D by (rule dividend_less_times_div) simp
  moreover have "now - et < 1000000 + 1000000 * ?a" by (rule dividend_less_times_div) simp
  moreover have "now + 1000000 * m \<le> et + 16000000 * Suc q"
    if "a + m < 16 + 16 * q" "now - et < 1000000 + 1000000 * a" for a m q
  proof -
    have "1000000 * (a + m + 1) \<le> 1000000 * (16 + 16 * q)" using that(1) by (intro mult_le_mono2) simp
    then show ?thesis using that(2) by simp
  qed
  ultimately show "now + 1000000 * unat millis \<le> et + TICK * Suc (unat (timer_delta now et millis))"
    unfolding TICK_def by blast
qed

text \<open>What a timer asked for at \<open>now\<close> with \<open>millis\<close> is promised when the wheel last ticked at \<open>et\<close>: not to fire
  before its deadline, or before the capacity of the wheel (about 24 days) is used up.\<close>

definition promise :: "instant \<Rightarrow> instant \<Rightarrow> u64 \<Rightarrow> instant" where
  "promise now et millis = min (now + 1000000 * unat millis) (et + TICK * unat WHEEL_TIMEOUT_MAX)"

lemma armed_bucket:
  assumes now: "now < CLOCK_MAX" "unat millis < MILLIS_MAX" and e: "unat e < 2 ^ 56"
    and delta: "delta = timer_delta now et millis \<or> delta = max (timer_delta now et millis) 1"
    and calc: "calc_wheel_index e (e + delta) delta = (idx, be)"
  shows "idx < 512" and "slot_time (unat e) (idx div 64) (idx mod 64) = unat be"
    and "unat e < unat be" and "unat be \<le> unat e + 134217728"
    and "promise now et millis \<le> et + TICK * (unat be - unat e)"
proof -
  note td = timer_delta_bounds [OF now, of et]
  have d: "unat (timer_delta now et millis) \<le> unat delta" "unat delta < 2 ^ 58"
    using delta td(1) by (auto simp: max_def word_le_nat_alt)
  then have ov: "no_wheel_overflow e delta" using e by (simp add: no_wheel_overflow_def)
  obtain l where l: "l < 8" and idx: "idx = l * 64 + unat be div 8 ^ l mod 64"
    and dvd: "8 ^ l dvd unat be" and lo: "unat e < unat be" and hi: "unat be < unat e + 64 * 8 ^ l"
    and small: "unat delta < 132120576 \<Longrightarrow> unat e + unat delta < unat be"
    and big: "132120576 \<le> unat delta \<Longrightarrow> unat e + unat WHEEL_TIMEOUT_MAX < unat be"
    using calc_wheel_index_spec [OF ov, unfolded calc fst_conv snd_conv] by blast
  have lvl: "idx div 64 = l" "idx mod 64 = unat be div 8 ^ l mod 64" unfolding idx by simp_all
  show "idx < 512" using l unfolding idx by (simp add: less_imp_le trans_less_add1)
  show "slot_time (unat e) (idx div 64) (idx mod 64) = unat be"
    unfolding lvl by (rule slot_time_unique) (use dvd lo hi in auto)
  show "unat e < unat be" by (rule lo)
  show "unat be \<le> unat e + 134217728" using hi lvl_lt_8_bound [OF l] by simp
  show "promise now et millis \<le> et + TICK * (unat be - unat e)"
  proof (cases "unat delta < 132120576")
    case True
    then have "Suc (unat (timer_delta now et millis)) \<le> unat be - unat e" using small d(1) by simp
    then have "TICK * Suc (unat (timer_delta now et millis)) \<le> TICK * (unat be - unat e)"
      by (rule mult_le_mono2)
    with td(2) show ?thesis by (simp add: promise_def)
  next
    case False
    then have "unat WHEEL_TIMEOUT_MAX \<le> unat be - unat e" using big by simp
    then have "TICK * unat WHEEL_TIMEOUT_MAX \<le> TICK * (unat be - unat e)" by (rule mult_le_mono2)
    then show ?thesis unfolding promise_def by (intro min.coboundedI2) simp
  qed
qed

end
