(* ===== verification/Wheel_Steps.thy ===== *)
theory Wheel_Steps
  imports Wheel_Timer
begin

text \<open>
  Every operation of the timer keeps the timed invariant \<open>tinv\<close>, never panics on a live handle, and does
  to the timers what its name says; \<open>wheel_step\<close> collects the operations into one step relation and the
  theorems at the end hold in every reachable state.
\<close>

section \<open>Arming a timer\<close>

lemma next_expiry_ms_time:
  assumes "unat (ti_elapsed ti) \<le> unat (ti_next_expiry ti)"
    and "unat (ti_next_expiry ti) \<le> unat (ti_elapsed ti) + 134217728"
  shows "duration_from_millis (next_expiry_ms ti) = TICK * (unat (ti_next_expiry ti) - unat (ti_elapsed ti))"
proof -
  let ?d = "saturating_sub (ti_next_expiry ti) (ti_elapsed ti)"
  have d: "unat ?d = unat (ti_next_expiry ti) - unat (ti_elapsed ti)" by (rule unat_saturating_sub)
  then have "unat ?d * 2 ^ UNITS < 2 ^ LENGTH(64)" using assms by (simp add: UNITS_def)
  from unat_push_bit_no_overflow [OF this] show ?thesis
    by (simp add: duration_from_millis_def next_expiry_ms_def to_millis_def d TICK_def UNITS_def)
qed

lemma note_expiry_fields:
  fixes be :: u64 and t :: instant
  assumes "fl_contains fl DRIVER_STARTED = started ti"
  defines "ti' \<equiv> fst (note_expiry t be fl ti)"
  shows "ti_elapsed ti' = ti_elapsed ti" "ti_elapsed_time ti' = ti_elapsed_time ti"
    "ti_lowres_time ti' = ti_lowres_time ti"
    "ti_next_expiry ti' = (if be < ti_next_expiry ti then be else ti_next_expiry ti)"
    "tm_timers (ti_inner ti') = tm_timers (ti_inner ti)" "tm_buckets (ti_inner ti') = tm_buckets (ti_inner ti)"
    "tm_occupied (ti_inner ti') = tm_occupied (ti_inner ti)"
    "be < ti_next_expiry ti \<Longrightarrow> started ti'"
    "be < ti_next_expiry ti \<Longrightarrow> recalc ti' \<or>
       tm_driver_sleep (ti_inner ti') = t + duration_from_millis (next_expiry_ms (ti\<lparr>ti_next_expiry := be\<rparr>))"
    "\<not> be < ti_next_expiry ti \<Longrightarrow> ti' = ti"
  using assms(1)
  by (auto simp: ti'_def note_expiry_def driver_start_def driver_flag_simps next_expiry_ms_def Let_def case_prod_beta)

lemma note_expiry_inv:
  assumes inv: "tinv due clk ti" and et: "ti_elapsed_time ti = Some et" and clk: "clk \<le> t" "t < CLOCK_MAX"
    and fl: "fl_contains fl DRIVER_STARTED = started ti"
    and m: "wheel_inv m" "slab_get (tm_timers m) 0 \<noteq> None" "\<And>no. armed m no = (if no = k then Some idx else armed (ti_inner ti) no)"
      "tm_driver_sleep m = tm_driver_sleep (ti_inner ti)"
    and be: "slot_time (unat (ti_elapsed ti)) (idx div 64) (idx mod 64) = unat be"
      "unat (ti_elapsed ti) < unat be" "unat be \<le> unat (ti_elapsed ti) + 134217728"
    and dl: "dl \<le> et + TICK * (unat be - unat (ti_elapsed ti))"
  shows "tinv (due(k := dl)) t (fst (note_expiry t be fl (ti\<lparr>ti_inner := m\<rparr>)))" (is "tinv ?due t ?ti")
proof -
  let ?mid = "ti\<lparr>ti_inner := m\<rparr>"
  have fl': "fl_contains fl DRIVER_STARTED = started ?mid" using fl by (simp add: started_def ti_contains_def)
  note f = note_expiry_fields [OF fl', where t = t and be = be]
  have arm: "armed (ti_inner ?ti) no = (if no = k then Some idx else armed (ti_inner ti) no)" for no
    using f(5) m(3) by (simp add: armed_def)
  have ex: "expiry ?ti no = (if no = k then Some (unat be) else expiry ti no)" for no
    using be(1) f(1) by (simp add: expiry_def arm)
  have wi: "wheel_inv (ti_inner ?ti)" using f(5-7) m(1) wheel_inv_cong [of "ti_inner ?ti" m] by simp
  have data: "data_inv ?ti"
    using inv wi f(1,4,5) m(2) be(2) by (fastforce simp: tinv_def data_inv_def ex word_less_nat_alt)
  have clock: "clock_inv t ?ti"
    using inv f(1-3) et clk by (auto simp: tinv_def clock_inv_def base_time_def low_now_def split: option.splits)
  have due: "due_inv ?due ?ti"
    using inv f(1,2) et dl by (auto simp: tinv_def due_inv_def ex base_time_def)
  have "driver_inv ?ti"
  proof (cases "be < ti_next_expiry ti")
    case True
    have sleep: "recalc ?ti \<or> tm_driver_sleep (ti_inner ?ti) = t + TICK * (unat be - unat (ti_elapsed ti))"
      using f(9) True be next_expiry_ms_time [of "?mid\<lparr>ti_next_expiry := be\<rparr>"] by simp
    have "et \<le> t" using inv et clk by (simp add: tinv_def clock_inv_def base_time_def)
    with True sleep show ?thesis
      using f(1,2,4,8) be et by (auto simp: driver_inv_def base_time_def word_less_nat_alt)
  next
    case False
    then have "?ti = ?mid" using f(10) by simp
    then show ?thesis using inv m(4)
      by (simp add: tinv_def driver_inv_def is_pending_def base_time_def started_def recalc_def ti_contains_def)
  qed
  with data clock due clk show ?thesis by (simp add: tinv_def)
qed

lemma elapsed_time_spec:
  assumes "tinv due clk ti" "clk \<le> t" "t < CLOCK_MAX"
  obtains ti' where "elapsed_time t ti = (ti', base_time t ti)" and "tinv due t ti'"
    and "ti_elapsed_time ti' = Some (base_time t ti)" and "ti_elapsed ti' = ti_elapsed ti"
    and "ti_inner ti' = ti_inner ti" and "ti_flags ti' = ti_flags ti"
    and "ti_next_expiry ti' = ti_next_expiry ti" and "ti_lowres_time ti' = ti_lowres_time ti"
proof (cases "ti_elapsed_time ti")
  case None
  then have idle: "\<not> is_pending ti" using assms(1) by (auto simp: tinv_def driver_inv_def)
  with assms(1) have "expiry ti no = None" for no using expiry_pending by (metis not_Some_eq)
  then have ex: "expiry (ti\<lparr>ti_elapsed_time := Some t\<rparr>) no = None" for no by (simp add: expiry_def)
  have "tinv due t (ti\<lparr>ti_elapsed_time := Some t\<rparr>)"
    using assms None idle ex
    by (auto simp: tinv_defs is_pending_def base_time_def low_now_def split: option.splits)
  with None show ?thesis
    by (intro that [of "ti\<lparr>ti_elapsed_time := Some t\<rparr>"]) (simp_all add: elapsed_time_def base_time_def)
next
  case (Some et)
  then have "tinv due t ti" using tinv_same_core [OF assms(1) _ assms(2,3)] by simp
  with Some show ?thesis by (intro that [of ti]) (simp_all add: elapsed_time_def base_time_def)
qed

lemma timer_now_inv:
  assumes "tinv due clk ti" "clk \<le> t" "t < CLOCK_MAX"
  obtains ti' eff where "timer_now t ti = (ti', low_now t ti, eff)" and "tinv due t ti'" and "same_core ti' ti"
proof -
  obtain ti' now eff where tn: "timer_now t ti = (ti', now, eff)" by (cases "timer_now t ti")
  note spec = timer_now_spec [of t ti, unfolded tn fst_conv snd_conv]
  have "tinv due t ti'"
    by (rule tinv_same_core [OF assms(1) _ assms(2,3)]) (use spec in auto)
  with tn spec show ?thesis by (intro that [of ti' eff]) auto
qed

definition target_bucket :: "timer_inner \<Rightarrow> u64 \<Rightarrow> nat" where
  "target_bucket ti delta = fst (calc_wheel_index (ti_elapsed ti) (ti_elapsed ti + delta) delta)"

definition clock_ok :: "instant \<Rightarrow> instant \<Rightarrow> instant \<Rightarrow> instant \<Rightarrow> bool" where
  "clock_ok clk t1 t2 t3 \<longleftrightarrow> clk \<le> t1 \<and> t1 \<le> t2 \<and> t2 \<le> t3 \<and> t3 < CLOCK_MAX"

text \<open>The readings that \<open>add_timer\<close> and \<open>update_timer\<close> take before they choose a bucket.\<close>

lemma readings_spec:
  assumes inv: "tinv due clk ti" and clk: "clock_ok clk t1 t2 t3"
  obtains ti1 eff ti2 where "timer_now t1 ti = (ti1, low_now t1 ti, eff)"
    and "elapsed_time t2 ti1 = (ti2, base_time t2 ti)" and "tinv due t2 ti2"
    and "ti_elapsed_time ti2 = Some (base_time t2 ti)" and "ti_elapsed ti2 = ti_elapsed ti"
    and "tm_timers (ti_inner ti2) = tm_timers (ti_inner ti)" "tm_buckets (ti_inner ti2) = tm_buckets (ti_inner ti)"
    and "started ti2 = started ti" "low_now t1 ti < CLOCK_MAX"
proof -
  have t: "t1 < CLOCK_MAX" "t2 < CLOCK_MAX" "clk \<le> t1" "t1 \<le> t2" using clk by (auto simp: clock_ok_def)
  obtain ti1 eff where 1: "timer_now t1 ti = (ti1, low_now t1 ti, eff)" "tinv due t1 ti1" "same_core ti1 ti"
    by (rule timer_now_inv [OF inv t(3,1)])
  have base: "base_time t2 ti1 = base_time t2 ti" using 1(3) by (simp add: same_core_def base_time_def)
  obtain ti2 where 2: "elapsed_time t2 ti1 = (ti2, base_time t2 ti)" "tinv due t2 ti2"
      "ti_elapsed_time ti2 = Some (base_time t2 ti)" "ti_elapsed ti2 = ti_elapsed ti1"
      "ti_inner ti2 = ti_inner ti1" "ti_flags ti2 = ti_flags ti1"
    using elapsed_time_spec [OF 1(2) t(4,2)] unfolding base by metis
  have "low_now t1 ti < CLOCK_MAX"
    using inv t by (auto simp: tinv_def clock_inv_def low_now_def split: option.splits)
  with 1 2 show ?thesis
    by (intro that [of ti1 eff ti2]) (simp_all add: same_core_def started_def ti_contains_def)
qed

lemma add_timer_spec:
  assumes inv: "tinv due clk ti" and clk: "clock_ok clk t1 t2 t3"
    and millis: "millis \<noteq> 0" "unat millis < MILLIS_MAX"
    and k: "slab_get (tm_timers (ti_inner ti)) k = None"
    and kb: "slab_get (b_entries (tm_buckets (ti_inner ti) !
        target_bucket ti (timer_delta (low_now t1 ti) (base_time t2 ti) millis))) kb = None"
  obtains ti' eff e where "add_timer t1 t2 t3 k kb millis ti = Some (ti', k, eff)"
    and "tinv (due(k := promise (low_now t1 ti) (base_time t2 ti) millis)) t3 ti'"
    and "tm_timers (ti_inner ti') = slab_put (tm_timers (ti_inner ti)) k e"
    and "te_bucket e \<noteq> None" and "te_task e = None"
proof -
  let ?run = "ti\<lparr>ti_flags := fl_insert (ti_flags ti) RUNNING\<rparr>"
  let ?now = "low_now t1 ti" and ?et = "base_time t2 ti"
  let ?delta = "timer_delta ?now ?et millis"
  have sc: "same_core ?run ti" by (simp add: same_core_def driver_flag_simps)
  have "clk < CLOCK_MAX" using inv by (simp add: tinv_def)
  then have inv': "tinv due clk ?run" using tinv_same_core [OF inv sc] by simp
  have same: "low_now t1 ?run = ?now" "base_time t2 ?run = ?et" by (simp_all add: low_now_def base_time_def)
  obtain ti1 eff ti2 where 1: "timer_now t1 ?run = (ti1, ?now, eff)" "elapsed_time t2 ti1 = (ti2, ?et)"
      and inv2: "tinv due t2 ti2" and et2: "ti_elapsed_time ti2 = Some ?et" "ti_elapsed ti2 = ti_elapsed ti"
      and m2: "tm_timers (ti_inner ti2) = tm_timers (ti_inner ti)" "tm_buckets (ti_inner ti2) = tm_buckets (ti_inner ti)"
      and st: "started ti2 = started ?run" and now: "?now < CLOCK_MAX"
    by (rule readings_spec [OF inv' clk]) (simp add: same)
  obtain idx be where calc: "calc_wheel_index (ti_elapsed ti) (ti_elapsed ti + ?delta) ?delta = (idx, be)"
    by (cases "calc_wheel_index (ti_elapsed ti) (ti_elapsed ti + ?delta) ?delta")
  note b = armed_bucket [OF now millis(2) tinv_elapsed_bound [OF inv] disjI1 [OF refl] calc]
  have wi: "wheel_inv (ti_inner ti2)" "slab_get (tm_timers (ti_inner ti2)) 0 \<noteq> None"
    using inv2 by (simp_all add: tinv_def data_inv_def)
  obtain m where m: "add_entry (ti_inner ti2) k kb idx = Some (m, k)" "wheel_inv m"
      "tm_timers m = slab_put (tm_timers (ti_inner ti2)) k \<lparr>te_bucket = Some idx, te_bucket_entry = kb, te_task = None\<rparr>"
      "tm_driver_sleep m = tm_driver_sleep (ti_inner ti2)"
    by (rule add_entry_spec [OF wi(1) b(1)]) (use k kb calc m2 in \<open>simp_all add: target_bucket_def\<close>)
  let ?fl = "fl_insert (ti_flags ti) RUNNING"
  obtain ti3 eff3 where ne: "note_expiry t3 be ?fl (ti2\<lparr>ti_inner := m\<rparr>) = (ti3, eff3)"
    by (cases "note_expiry t3 be ?fl (ti2\<lparr>ti_inner := m\<rparr>)")
  have fl: "fl_contains ?fl DRIVER_STARTED = started ti2" using st by (simp add: started_def ti_contains_def)
  have "tinv (due(k := promise ?now ?et millis)) t3 ti3"
    using note_expiry_inv [OF inv2 et2(1) _ _ fl m(2), of t3 k idx be "promise ?now ?et millis"]
      clk b m(3,4) wi(2) unfolding et2(2) ne fst_conv
    by (simp add: clock_ok_def armed_def)
  moreover have "tm_timers (ti_inner ti3) = tm_timers m"
    using note_expiry_fields(5) [of ?fl "ti2\<lparr>ti_inner := m\<rparr>" t3 be] fl unfolding ne
    by (simp add: started_def ti_contains_def)
  moreover have "add_timer t1 t2 t3 k kb millis ti = Some (ti3, k, eff @ eff3)"
    using millis(1) 1 calc m(1) ne et2(2) by (simp add: add_timer_def Let_def)
  ultimately show ?thesis using m(3) m2(1)
    by (intro that [of ti3 "eff @ eff3" "\<lparr>te_bucket = Some idx, te_bucket_entry = kb, te_task = None\<rparr>"]) auto
qed

lemma update_timer_spec:
  assumes inv: "tinv due clk ti" and clk: "clock_ok clk t1 t2 t3"
    and millis: "millis \<noteq> 0" "unat millis < MILLIS_MAX"
    and e: "slab_get (tm_timers (ti_inner ti)) h = Some e"
    and kb: "te_bucket e \<noteq> Some idx \<Longrightarrow> slab_get (b_entries (tm_buckets (ti_inner ti) ! idx)) kb = None"
    and idx: "idx = target_bucket ti (max (timer_delta (low_now t1 ti) (base_time t2 ti) millis) 1)"
  obtains ti' eff e' where "update_timer t1 t2 t3 kb h millis ti = Some (ti', eff)"
    and "tinv (due(h := promise (low_now t1 ti) (base_time t2 ti) millis)) t3 ti'"
    and "\<And>no. slab_get (tm_timers (ti_inner ti')) no = (if no = h then Some e' else slab_get (tm_timers (ti_inner ti)) no)"
    and "te_bucket e' \<noteq> None" and "te_task e' = te_task e"
proof -
  let ?now = "low_now t1 ti" and ?et = "base_time t2 ti"
  let ?delta = "max (timer_delta ?now ?et millis) 1"
  obtain ti1 eff ti2 where 1: "timer_now t1 ti = (ti1, ?now, eff)" "elapsed_time t2 ti1 = (ti2, ?et)"
      and inv2: "tinv due t2 ti2" and et2: "ti_elapsed_time ti2 = Some ?et" "ti_elapsed ti2 = ti_elapsed ti"
      and m2: "tm_timers (ti_inner ti2) = tm_timers (ti_inner ti)" "tm_buckets (ti_inner ti2) = tm_buckets (ti_inner ti)"
      and now: "?now < CLOCK_MAX"
    by (rule readings_spec [OF inv clk])
  obtain be where calc: "calc_wheel_index (ti_elapsed ti) (ti_elapsed ti + ?delta) ?delta = (idx, be)"
    using idx by (cases "calc_wheel_index (ti_elapsed ti) (ti_elapsed ti + ?delta) ?delta") (simp add: target_bucket_def)
  note b = armed_bucket [OF now millis(2) tinv_elapsed_bound [OF inv] disjI2 [OF refl] calc]
  have wi: "wheel_inv (ti_inner ti2)" "slab_get (tm_timers (ti_inner ti2)) 0 \<noteq> None"
    using inv2 by (simp_all add: tinv_def data_inv_def)
  have e2: "slab_get (tm_timers (ti_inner ti2)) h = Some e" using e m2 by simp
  have kb2: "te_bucket e \<noteq> Some idx \<Longrightarrow> slab_get (b_entries (tm_buckets (ti_inner ti2) ! idx)) kb = None"
    using kb m2 by simp
  obtain m e' where m: "update_entry (ti_inner ti2) h kb idx = Some m" "wheel_inv m"
      "tm_timers m = (if te_bucket e = Some idx then tm_timers (ti_inner ti2) else slab_put (tm_timers (ti_inner ti2)) h e')"
      "te_bucket e' = Some idx" "te_task e' = te_task e" "tm_driver_sleep m = tm_driver_sleep (ti_inner ti2)"
    by (rule update_entry_spec [OF wi(1) b(1) e2 kb2])
  define e'' where "e'' = (if te_bucket e = Some idx then e else e')"
  have ts: "slab_get (tm_timers m) no = (if no = h then Some e'' else slab_get (tm_timers (ti_inner ti2)) no)" for no
    using m(3) e2 by (simp add: e''_def)
  have e'': "te_bucket e'' = Some idx" "te_task e'' = te_task e" using m(4,5) by (simp_all add: e''_def)
  obtain ti3 eff3 where ne: "note_expiry t3 be (ti_flags ti2) (ti2\<lparr>ti_inner := m\<rparr>) = (ti3, eff3)"
    by (cases "note_expiry t3 be (ti_flags ti2) (ti2\<lparr>ti_inner := m\<rparr>)")
  have fl: "fl_contains (ti_flags ti2) DRIVER_STARTED = started ti2" by (simp add: started_def ti_contains_def)
  have "tinv (due(h := promise ?now ?et millis)) t3 ti3"
    using note_expiry_inv [OF inv2 et2(1) _ _ fl m(2), of t3 h idx be "promise ?now ?et millis"]
      clk b m(6) wi(2) e'' unfolding et2(2) ne fst_conv
    by (simp add: clock_ok_def armed_def ts)
  moreover have "fl_contains (ti_flags ti2) DRIVER_STARTED = started (ti2\<lparr>ti_inner := m\<rparr>)"
    by (simp add: started_def ti_contains_def)
  from note_expiry_fields(5) [OF this, where t = t3 and be = be]
  have "tm_timers (ti_inner ti3) = tm_timers m" by (simp add: ne)
  moreover have "update_timer t1 t2 t3 kb h millis ti = Some (ti3, eff @ eff3)"
    using millis(1) 1 calc m(1) ne et2(2) by (simp add: update_timer_def Let_def)
  ultimately show ?thesis using ts e'' m2(1) by (intro that [of ti3 "eff @ eff3" e'']) auto
qed

section \<open>Disarming\<close>

lemma disarm_inv:
  assumes inv: "tinv due clk ti" and m: "wheel_inv m" "slab_get (tm_timers m) 0 \<noteq> None"
    "\<And>no. armed m no \<in> {None, armed (ti_inner ti) no}" "tm_driver_sleep m = tm_driver_sleep (ti_inner ti)"
  shows "tinv due clk (ti\<lparr>ti_inner := m\<rparr>)"
proof -
  have ex: "expiry (ti\<lparr>ti_inner := m\<rparr>) no = Some x \<Longrightarrow> expiry ti no = Some x" for no x
    using m(3) [of no] by (auto simp: expiry_def)
  show ?thesis using inv m(1,2,4) ex
    by (auto simp: tinv_defs is_pending_def base_time_def low_now_def started_def recalc_def ti_contains_def)
qed

lemma add_timer_zero:
  assumes inv: "tinv due clk ti" and k: "slab_get (tm_timers (ti_inner ti)) k = None"
  shows "\<exists>ti'. add_timer t1 t2 t3 k kb 0 ti = Some (ti', k, []) \<and> tinv due clk ti'
    \<and> armed (ti_inner ti') k = None"
proof -
  let ?e = "\<lparr>te_bucket = None, te_bucket_entry = 0, te_task = None\<rparr> :: timer_entry"
  let ?m = "(ti_inner ti)\<lparr>tm_timers := slab_put (tm_timers (ti_inner ti)) k ?e\<rparr>"
  have wi: "wheel_inv (ti_inner ti)" "slab_get (tm_timers (ti_inner ti)) 0 \<noteq> None" "armed (ti_inner ti) k = None"
    using inv k by (simp_all add: tinv_def data_inv_def armed_def)
  have "tinv due clk (ti\<lparr>ti_inner := ?m\<rparr>)"
    by (rule disarm_inv [OF inv put_unarmed_inv [OF wi(1,3)]]) (use wi in \<open>auto simp: armed_def\<close>)
  then show ?thesis by (simp add: add_timer_def Let_def armed_def)
qed

text \<open>Taking a timer out of its bucket and leaving it with any entry that names no bucket.\<close>

lemma unarm_spec:
  assumes inv: "tinv due clk ti" and e: "slab_get (tm_timers (ti_inner ti)) h = Some e"
  obtains m where "remove_timer_bucket (ti_inner ti) h False = Some m"
    and "tm_timers m = tm_timers (ti_inner ti)"
    and "\<And>e'. te_bucket e' = None \<Longrightarrow> tinv due clk (ti\<lparr>ti_inner := m\<lparr>tm_timers := slab_put (tm_timers (ti_inner ti)) h e'\<rparr>\<rparr>)"
    and "h \<noteq> 0 \<Longrightarrow> tinv due clk (ti\<lparr>ti_inner := m\<lparr>tm_timers := slab_del (tm_timers (ti_inner ti)) h\<rparr>\<rparr>)"
proof -
  have wi: "wheel_inv (ti_inner ti)" "slab_get (tm_timers (ti_inner ti)) 0 \<noteq> None"
    using inv by (simp_all add: tinv_def data_inv_def)
  let ?ts = "slab_put (tm_timers (ti_inner ti)) h (e\<lparr>te_bucket := None\<rparr>)"
  obtain m where m: "remove_timer_bucket (ti_inner ti) h False = Some m" "tm_timers m = tm_timers (ti_inner ti)"
      "tm_driver_sleep m = tm_driver_sleep (ti_inner ti)" and wm: "wheel_inv (m\<lparr>tm_timers := ?ts\<rparr>)"
    by (rule remove_timer_bucket_spec [OF wi(1) e])
  have un: "armed (m\<lparr>tm_timers := ?ts\<rparr>) h = None" by (simp add: armed_def)
  have put: "wheel_inv (m\<lparr>tm_timers := slab_put (tm_timers (ti_inner ti)) h e'\<rparr>)" if "te_bucket e' = None" for e'
    using put_unarmed_inv [OF wm un that] by simp
  have "wheel_inv (m\<lparr>tm_timers := slab_del ?ts h\<rparr>)"
    using del_unarmed_inv [OF wm un] by simp
  then have del: "wheel_inv (m\<lparr>tm_timers := slab_del (tm_timers (ti_inner ti)) h\<rparr>)"
    using wheel_inv_timers [of "m\<lparr>tm_timers := slab_del ?ts h\<rparr>" "slab_del (tm_timers (ti_inner ti)) h"]
    by (simp add: linked_def)
  show ?thesis
    by (rule that [OF m(1,2)])
      (rule disarm_inv [OF inv]; use put del wi m in \<open>auto simp: armed_def\<close>)+
qed

lemma remove_timer_spec:
  assumes inv: "tinv due clk ti" and e: "slab_get (tm_timers (ti_inner ti)) h = Some e"
  obtains ti' where "remove_timer h ti = Some (ti', if te_bucket e = None then [] else map Wake (lw_woken (te_task e)))"
    and "tinv due clk ti'" and "timer_is_elapsed h ti' = Some True"
proof -
  obtain m where m: "remove_timer_bucket (ti_inner ti) h False = Some m" "tm_timers m = tm_timers (ti_inner ti)"
      "\<And>e'. te_bucket e' = None \<Longrightarrow> tinv due clk (ti\<lparr>ti_inner := m\<lparr>tm_timers := slab_put (tm_timers (ti_inner ti)) h e'\<rparr>\<rparr>)"
    by (rule unarm_spec [OF inv e]) blast
  let ?e = "fst (te_complete e)" and ?ti = "ti\<lparr>ti_inner := m\<lparr>tm_timers := slab_put (tm_timers m) h (fst (te_complete e))\<rparr>\<rparr>"
  have c: "te_bucket ?e = None" "snd (te_complete e) = (if te_bucket e = None then [] else lw_woken (te_task e))"
    by (auto simp: te_complete_def case_prod_beta Let_def)
  have "remove_timer h ti = Some (?ti, map Wake (snd (te_complete e)))"
    using m(1,2) e by (simp add: remove_timer_def case_prod_beta)
  with m(2,3) c show ?thesis by (intro that [of ?ti]) (auto simp: timer_is_elapsed_def)
qed

lemma update_timer_zero:
  assumes inv: "tinv due clk ti" and e: "slab_get (tm_timers (ti_inner ti)) h = Some e"
  obtains ti' where "update_timer t1 t2 t3 kb h 0 ti = Some (ti', [])" and "tinv due clk ti'"
    and "slab_get (tm_timers (ti_inner ti')) h = Some (e\<lparr>te_bucket := None\<rparr>)"
proof -
  obtain m where m: "remove_timer_bucket (ti_inner ti) h False = Some m" "tm_timers m = tm_timers (ti_inner ti)"
      "\<And>e'. te_bucket e' = None \<Longrightarrow> tinv due clk (ti\<lparr>ti_inner := m\<lparr>tm_timers := slab_put (tm_timers (ti_inner ti)) h e'\<rparr>\<rparr>)"
    by (rule unarm_spec [OF inv e]) blast
  let ?ti = "ti\<lparr>ti_inner := m\<lparr>tm_timers := slab_put (tm_timers m) h (e\<lparr>te_bucket := None\<rparr>)\<rparr>\<rparr>"
  from m e show ?thesis by (intro that [of ?ti]) (simp_all add: update_timer_def)
qed

lemma drop_timer_spec:
  assumes inv: "tinv due clk ti" and e: "slab_get (tm_timers (ti_inner ti)) h = Some e" and h: "h \<noteq> 0"
  obtains ti' where "drop_timer h ti = Some ti'" and "tinv due clk ti'"
    and "tm_timers (ti_inner ti') = slab_del (tm_timers (ti_inner ti)) h"
proof -
  obtain m where m: "remove_timer_bucket (ti_inner ti) h False = Some m" "tm_timers m = tm_timers (ti_inner ti)"
      "tinv due clk (ti\<lparr>ti_inner := m\<lparr>tm_timers := slab_del (tm_timers (ti_inner ti)) h\<rparr>\<rparr>)"
    using unarm_spec [OF inv e] h by metis
  let ?ti = "ti\<lparr>ti_inner := m\<lparr>tm_timers := slab_del (tm_timers m) h\<rparr>\<rparr>"
  from m show ?thesis by (intro that [of ?ti]) (simp_all add: drop_timer_def remove_timer_bucket_handle)
qed

lemma poll_elapsed_spec:
  assumes inv: "tinv due clk ti" and e: "slab_get (tm_timers (ti_inner ti)) h = Some e"
  obtains ti' where "timer_poll_elapsed h cx ti = Some (ti', if te_bucket e = None then Ready () else Pending)"
    and "tinv due clk ti'"
    and "tm_timers (ti_inner ti') = (if te_bucket e = None then tm_timers (ti_inner ti)
           else slab_put (tm_timers (ti_inner ti)) h (e\<lparr>te_task := Some cx\<rparr>))"
proof (cases "te_bucket e")
  case None
  with e inv show ?thesis by (intro that [of ti]) (simp_all add: timer_poll_elapsed_def)
next
  case (Some idx)
  let ?m = "(ti_inner ti)\<lparr>tm_timers := slab_put (tm_timers (ti_inner ti)) h (e\<lparr>te_task := Some cx\<rparr>)\<rparr>"
  have wi: "wheel_inv (ti_inner ti)" "slab_get (tm_timers (ti_inner ti)) 0 \<noteq> None"
    using inv by (simp_all add: tinv_def data_inv_def)
  have "tinv due clk (ti\<lparr>ti_inner := ?m\<rparr>)"
    by (rule disarm_inv [OF inv put_link_inv [OF wi(1) e]]) (use wi e in \<open>auto simp: armed_def\<close>)
  with e Some show ?thesis
    by (intro that [of "ti\<lparr>ti_inner := ?m\<rparr>"]) (simp_all add: timer_poll_elapsed_def Let_def lw_register_def)
qed

section \<open>The driver\<close>

lemma driver_recalc_inv:
  assumes inv: "tinv due clk ti" and clk: "clock_ok clk now t2 t3"
  shows "tinv due t3 (driver_recalc now t2 t3 ti) \<and> \<not> recalc (driver_recalc now t2 t3 ti)
    \<and> tm_timers (ti_inner (driver_recalc now t2 t3 ti)) = tm_timers (ti_inner ti)
    \<and> ti_elapsed (driver_recalc now t2 t3 ti) = ti_elapsed ti
    \<and> ti_next_expiry (driver_recalc now t2 t3 ti) = ti_next_expiry ti"
proof (cases "recalc ti")
  case False
  have "tinv due t3 ti" using tinv_same_core [OF inv, of ti t3] clk by (simp add: clock_ok_def)
  with False show ?thesis by (simp add: driver_recalc_def recalc_def)
next
  case True
  let ?fl = "fl_remove (ti_flags ti) DRIVER_RECALC" and ?et = "base_time t2 ti"
  have t: "clk \<le> t2" "t2 < CLOCK_MAX" "now \<le> t3" "t2 \<le> t3" "t3 < CLOCK_MAX" using clk by (auto simp: clock_ok_def)
  obtain ti2 where el: "elapsed_time t2 ti = (ti2, ?et)" and inv2: "tinv due t2 ti2"
      and f: "ti_elapsed_time ti2 = Some ?et" "ti_elapsed ti2 = ti_elapsed ti" "ti_inner ti2 = ti_inner ti"
        "ti_flags ti2 = ti_flags ti" "ti_next_expiry ti2 = ti_next_expiry ti"
    by (rule elapsed_time_spec [OF inv t(1,2)]) blast
  have el': "elapsed_time t2 (ti\<lparr>ti_flags := ?fl\<rparr>) = (ti2\<lparr>ti_flags := ?fl\<rparr>, ?et)"
    using el by (auto simp: elapsed_time_def split: option.splits)
  define dl where "dl = (let dur = duration_from_millis (next_expiry_ms ti2) in if ?et \<le> now then dur - (now - ?et) else dur)"
  define ti' where "ti' = ti2\<lparr>ti_flags := ?fl, ti_inner := (ti_inner ti2)\<lparr>tm_driver_sleep := t3 + dl\<rparr>\<rparr>"
  have ti': "driver_recalc now t2 t3 ti = ti'"
    using True el' by (simp add: driver_recalc_def recalc_def ti'_def dl_def Let_def next_expiry_ms_def)
  have st: "started ti' = started ti2" "\<not> recalc ti'" using f(4) by (simp_all add: ti'_def driver_flag_simps)
  have ex: "expiry ti' no = expiry ti2 no" for no by (simp add: expiry_def ti'_def armed_def)
  have et: "?et \<le> t2" using inv2 f(1) by (simp add: tinv_def clock_inv_def base_time_def)
  have "?et + TICK * (unat (ti_next_expiry ti2) - unat (ti_elapsed ti2)) \<le> t3 + dl" if "is_pending ti2"
    using that inv2 next_expiry_ms_time [of ti2] t et
    by (auto simp: tinv_def driver_inv_def dl_def Let_def word_less_nat_alt)
  then have "driver_inv ti'"
    using inv2 f(1) st by (auto simp: tinv_def driver_inv_def ti'_def is_pending_def base_time_def)
  moreover have "data_inv ti'"
    using inv2 wheel_inv_cong [of "ti_inner ti'" "ti_inner ti2"] by (simp add: tinv_def data_inv_def ex) (simp add: ti'_def)
  moreover have "due_inv due ti'"
    using inv2 by (simp add: tinv_def due_inv_def ex) (simp add: ti'_def base_time_def)
  moreover have "clock_inv t3 ti'"
    using inv2 f(1) t by (auto simp: tinv_def clock_inv_def base_time_def low_now_def ti'_def split: option.splits)
  ultimately show ?thesis using st t f unfolding ti' by (simp add: tinv_def) (simp add: ti'_def)
qed

text \<open>The occupied slots of an invariant wheel are the expiries of its armed timers.\<close>

lemma pending_from_expiry:
  assumes "wheel_inv (ti_inner ti)"
  shows "pending_from (tm_occupied (ti_inner ti)) (unat (ti_elapsed ti)) 0 = {x. \<exists>no. expiry ti no = Some x}"
proof (intro equalityI subsetI)
  fix x assume "x \<in> pending_from (tm_occupied (ti_inner ti)) (unat (ti_elapsed ti)) 0"
  then obtain l j where x: "x = slot_time (unat (ti_elapsed ti)) l j" "l < 8" "j < 64" "bit (tm_occupied (ti_inner ti) ! l) j"
    by (auto simp: pending_from_def)
  let ?idx = "64 * l + j"
  have idx: "?idx < 512" "?idx div 64 = l" "?idx mod 64 = j" using x by auto
  then obtain no where "armed (ti_inner ti) no = Some ?idx"
    using occupied_iff_armed [OF assms idx(1)] x(4) by auto
  then have "expiry ti no = Some x" by (simp only: expiry_def x(1) idx(2,3) option.map)
  then show "x \<in> {x. \<exists>no. expiry ti no = Some x}" by auto
next
  fix x assume "x \<in> {x. \<exists>no. expiry ti no = Some x}"
  then obtain no idx where idx: "armed (ti_inner ti) no = Some idx"
      and x: "x = slot_time (unat (ti_elapsed ti)) (idx div 64) (idx mod 64)" by (auto simp: expiry_def)
  have lt: "idx < 512" using idx assms links_timer(1) by (auto simp: armed_iff)
  have "bit (tm_occupied (ti_inner ti) ! (idx div 64)) (idx mod 64)"
    using idx occupied_iff_armed [OF assms lt] by auto
  moreover have "idx div 64 < 8" using lt by auto
  ultimately show "x \<in> pending_from (tm_occupied (ti_inner ti)) (unat (ti_elapsed ti)) 0"
    unfolding pending_from_def x by (intro CollectI exI conjI) (rule refl, simp_all)
qed

text \<open>Advancing to the next expiry fires exactly the timers whose expiry it is, and the others keep theirs.\<close>

lemma fire_spec:
  assumes inv: "tinv due clk ti"
  defines "N \<equiv> ti_next_expiry ti"
  obtains m ws where "execute_expired_timers (ti_inner ti) N = (m, ws)" and "wheel_inv m"
    and "\<And>no. slab_get (tm_timers m) no = map_option
          (\<lambda>e. if expiry ti no = Some (unat N) then completed e else e) (slab_get (tm_timers (ti_inner ti)) no)"
    and "\<And>no t. expiry (ti\<lparr>ti_elapsed := N, ti_elapsed_time := t, ti_inner := m\<rparr>) no
          = (if expiry ti no = Some (unat N) then None else expiry ti no)"
    and "\<exists>nos. distinct nos \<and> set nos = {no. expiry ti no = Some (unat N)}
           \<and> ws = List.map_filter (waiter (tm_timers (ti_inner ti))) nos"
    and "tm_driver_sleep m = tm_driver_sleep (ti_inner ti)"
proof -
  let ?e = "unat (ti_elapsed ti)" and ?D = "due_buckets 8 0 (unat N)" and ?ts = "tm_timers (ti_inner ti)"
  have wi: "wheel_inv (ti_inner ti)" and le: "?e \<le> unat N"
    using inv by (auto simp: tinv_defs N_def word_less_nat_alt)
  obtain m ws where ex: "execute_expired_timers (ti_inner ti) N = (m, ws)"
    by (cases "execute_expired_timers (ti_inner ti) N")
  have dr: "drained ?D (ti_inner ti) m ws"
    using execute_levels_spec [OF wi, of 8 0 N] ex by (simp add: execute_expired_timers_def)
  have slot: "idx < 512 \<and> unat N \<le> slot_time ?e (idx div 64) (idx mod 64)" if "armed (ti_inner ti) no = Some idx" for no idx
  proof -
    have "expiry ti no = Some (slot_time ?e (idx div 64) (idx mod 64))" using that by (simp add: expiry_def)
    moreover have "idx < 512" using that links_timer(1) [OF wi] by (auto simp: armed_iff)
    ultimately show ?thesis using inv by (simp add: tinv_def data_inv_def N_def)
  qed
  have due: "(\<exists>i\<in>?D. armed (ti_inner ti) no = Some i) \<longleftrightarrow> expiry ti no = Some (unat N)" for no
    using slot [of no] due_buckets_slot_time [OF _ le] by (auto simp: expiry_def)
  have "slab_get (tm_timers m) no = map_option (\<lambda>e. if expiry ti no = Some (unat N) then completed e else e) (slab_get ?ts no)" for no
    using dr due [of no] by (cases "slab_get ?ts no") (auto simp: drained_def armed_def)
  moreover have "expiry (ti\<lparr>ti_elapsed := N, ti_elapsed_time := t, ti_inner := m\<rparr>) no
      = (if expiry ti no = Some (unat N) then None else expiry ti no)" for no t
  proof -
    have "slot_time (unat N) (idx div 64) (idx mod 64) = slot_time ?e (idx div 64) (idx mod 64)"
      if "armed (ti_inner ti) no = Some idx" for idx
      using slot [OF that] le by (intro slot_time_stable) auto
    then show ?thesis using due [of no]
      by (cases "armed (ti_inner ti) no") (auto simp: expiry_def drained_armed [OF dr])
  qed
  moreover have "\<exists>nos. distinct nos \<and> set nos = {no. expiry ti no = Some (unat N)} \<and> ws = List.map_filter (waiter ?ts) nos"
    using dr unfolding drained_def due by blast
  ultimately show ?thesis using ex dr by (intro that [of m ws]) (auto simp: drained_def)
qed

end
