(* ===== verification/Wheel_Driver.thy ===== *)
theory Wheel_Driver
  imports Wheel_Steps
begin

text \<open>
  The driver of the wheel and the step relation of the whole timer. A step is one call of an operation, with
  the clock readings and slab keys it gets; the driver is polled with the answers of its delay. The documented
  contract of the delay enters as a hypothesis: it answers ready only at or after its deadline. The theorems
  hold in every state that the steps reach from a new timer.
\<close>

section \<open>One turn of the driver\<close>

text \<open>When the delay is ready, real time has caught up with the next expiry.\<close>

lemma ready_facts:
  assumes inv: "tinv due clk ti" and nr: "\<not> recalc ti" and pend: "is_pending ti"
    and ready: "tm_driver_sleep (ti_inner ti) \<le> now"
  shows "unat (ti_elapsed ti) < unat (ti_next_expiry ti)" and "unat (ti_next_expiry ti) < 2 ^ 57" and "started ti"
    and "TICK * unat (ti_next_expiry ti) \<le> now"
    and "expiry ti no = Some x \<Longrightarrow> unat (ti_next_expiry ti) \<le> x \<and> x < unat (ti_next_expiry ti) + 134217728
           \<and> due no \<le> now + TICK * (x - unat (ti_next_expiry ti))"
proof -
  let ?e = "unat (ti_elapsed ti)" and ?N = "unat (ti_next_expiry ti)"
  obtain et where et: "ti_elapsed_time ti = Some et" using inv pend by (auto simp: tinv_def driver_inv_def)
  show N: "?e < ?N" and "started ti" using inv pend by (auto simp: tinv_def driver_inv_def word_less_nat_alt)
  have now: "et + TICK * (?N - ?e) \<le> now" "?N \<le> ?e + 134217728"
    using inv pend nr ready et by (auto simp: tinv_def driver_inv_def base_time_def)
  then show "?N < 2 ^ 57" using tinv_elapsed_bound [OF inv] by simp
  have "TICK * ?N = TICK * ?e + TICK * (?N - ?e)" using N by (simp flip: add_mult_distrib2)
  then show "TICK * ?N \<le> now"
    using inv et now(1) by (simp add: tinv_def clock_inv_def base_time_def)
  show "?N \<le> x \<and> x < ?N + 134217728 \<and> due no \<le> now + TICK * (x - ?N)" if x: "expiry ti no = Some x"
  proof -
    have "?N \<le> x" "due no \<le> et + TICK * (x - ?e)"
      using x inv et by (auto simp: tinv_def data_inv_def due_inv_def base_time_def)
    moreover from this(1) have "TICK * (x - ?e) = TICK * (?N - ?e) + TICK * (x - ?N)"
      using N by (simp flip: add_mult_distrib2)
    moreover have "x < ?e + 134217728" using expiry_lt [OF _ x] inv by (simp add: tinv_def)
    ultimately show ?thesis using now(1) N by linarith
  qed
qed

text \<open>The state after a turn: the wheel advanced to \<open>N\<close>, with everything left expiring at \<open>nx\<close> or later.\<close>

lemma advanced_inv:
  assumes m: "wheel_inv m" "slab_get (tm_timers m) 0 \<noteq> None" and st: "started ti" "\<not> recalc ti"
    and low: "low_now t ti \<le> t" and t: "now \<le> t" "t < CLOCK_MAX" and tick: "TICK * unat N \<le> now"
    and nx: "unat N < unat nx" "unat nx \<le> unat N + 134217728" "now + TICK * (unat nx - unat N) \<le> s"
    and ex: "\<And>no x. expiry (ti\<lparr>ti_elapsed := N, ti_elapsed_time := Some now, ti_inner := m\<rparr>) no = Some x \<Longrightarrow>
        unat nx \<le> x \<and> due no \<le> now + TICK * (x - unat N)"
  shows "tinv due t (ti\<lparr>ti_elapsed := N, ti_elapsed_time := Some now, ti_inner := m\<lparr>tm_driver_sleep := s\<rparr>, ti_next_expiry := nx\<rparr>)"
    (is "tinv due t ?ti")
proof -
  have e: "expiry ?ti no = expiry (ti\<lparr>ti_elapsed := N, ti_elapsed_time := Some now, ti_inner := m\<rparr>) no" for no
    by (simp add: expiry_def armed_def)
  have "wheel_inv (ti_inner ?ti)" using m(1) wheel_inv_cong [of "ti_inner ?ti" m] by simp
  then have "data_inv ?ti" using m(2) nx(1) ex by (fastforce simp: data_inv_def e)
  moreover have "due_inv due ?ti" using ex by (auto simp: due_inv_def e base_time_def)
  moreover have "driver_inv ?ti"
    using st nx by (simp add: driver_inv_def base_time_def word_less_nat_alt started_def recalc_def ti_contains_def)
  moreover have "clock_inv t ?ti"
    using low t tick by (simp add: clock_inv_def base_time_def low_now_def)
  ultimately show ?thesis using t by (simp add: tinv_def)
qed

lemma drained_inv:
  assumes m: "wheel_inv m" "slab_get (tm_timers m) 0 \<noteq> None"
    and low: "low_now t ti \<le> t" and t: "t < CLOCK_MAX" and tick: "TICK * unat N \<le> t" and N: "unat N < 2 ^ 57"
    and ex: "\<And>no. expiry (ti\<lparr>ti_elapsed := N, ti_elapsed_time := None, ti_inner := m\<rparr>) no = None"
  shows "tinv due t (ti\<lparr>ti_elapsed := N, ti_elapsed_time := None, ti_inner := m, ti_next_expiry := U64_MAX\<rparr>)"
    (is "tinv due t ?ti")
proof -
  have e: "expiry ?ti no = None" for no using ex [of no] by (simp add: expiry_def)
  moreover have "N < U64_MAX" using N by (simp add: word_less_nat_alt U64_MAX_def unat_minus_1)
  ultimately show ?thesis
    using m low t tick by (simp add: tinv_defs is_pending_def base_time_def low_now_def)
qed

lemma driver_turn_spec:
  assumes inv: "tinv due clk ti" and nr: "\<not> recalc ti" and pend: "is_pending ti"
    and clk: "clk \<le> now" "now \<le> t" "t < CLOCK_MAX" and ready: "tm_driver_sleep (ti_inner ti) \<le> now"
  obtains ti' ws where "driver_turn True now t ti = (ti', ws, is_pending ti')"
    and "tinv due t ti'" and "\<not> recalc ti'"
    and "\<And>no. slab_get (tm_timers (ti_inner ti')) no = map_option
          (\<lambda>e. if expiry ti no = Some (unat (ti_next_expiry ti)) then completed e else e)
          (slab_get (tm_timers (ti_inner ti)) no)"
    and "\<exists>nos. distinct nos \<and> set nos = {no. expiry ti no = Some (unat (ti_next_expiry ti))}
           \<and> ws = List.map_filter (waiter (tm_timers (ti_inner ti))) nos"
    and "is_pending ti' \<longleftrightarrow> (\<exists>no x. expiry ti' no = Some x)"
    and "is_pending ti' \<Longrightarrow> unat (ti_next_expiry ti') = Min {x. \<exists>no. expiry ti' no = Some x}"
proof -
  define N where "N = ti_next_expiry ti"
  note r = ready_facts [OF inv nr pend ready, folded N_def]
  obtain m ws where m: "execute_expired_timers (ti_inner ti) N = (m, ws)" "wheel_inv m"
      and ts: "\<And>no. slab_get (tm_timers m) no = map_option
          (\<lambda>e. if expiry ti no = Some (unat N) then completed e else e) (slab_get (tm_timers (ti_inner ti)) no)"
      and ex: "\<And>no t. expiry (ti\<lparr>ti_elapsed := N, ti_elapsed_time := t, ti_inner := m\<rparr>) no
          = (if expiry ti no = Some (unat N) then None else expiry ti no)"
      and ws: "\<exists>nos. distinct nos \<and> set nos = {no. expiry ti no = Some (unat N)}
           \<and> ws = List.map_filter (waiter (tm_timers (ti_inner ti))) nos"
    unfolding N_def by (rule fire_spec [OF inv]) blast
  have m0: "slab_get (tm_timers m) 0 \<noteq> None" using inv ts by (auto simp: tinv_def data_inv_def)
  have low: "low_now t ti \<le> t" using inv clk by (auto simp: tinv_def clock_inv_def low_now_def split: option.splits)
  let ?ti2 = "ti\<lparr>ti_elapsed := N, ti_elapsed_time := Some now, ti_inner := m\<rparr>"
  let ?P = "{x. \<exists>no. expiry ?ti2 no = Some x}"
  have P: "pending_from (tm_occupied m) (unat N) 0 = ?P" using pending_from_expiry [of ?ti2] m(2) by simp
  have npb: "map_option unat (next_pending_bucket ?ti2) = (if ?P = {} then None else Some (Min ?P))"
    using next_pending_bucket_least [of ?ti2] P r(2) by (simp add: Let_def)
  have fin: "finite ?P" unfolding P [symmetric] by (rule finite_pending_from)
  have left: "unat N < x \<and> x \<le> unat N + 134217728 \<and> due no \<le> now + TICK * (x - unat N)" if "expiry ?ti2 no = Some x" for no x
    using that r(5) [of no x] by (auto simp: ex split: if_splits)
  show ?thesis
  proof (cases "next_pending_bucket ?ti2")
    case None
    let ?ti3 = "ti\<lparr>ti_elapsed := N, ti_elapsed_time := None, ti_inner := m, ti_next_expiry := U64_MAX\<rparr>"
    have "expiry ?ti2 no = None" for no using npb None by (cases "expiry ?ti2 no") (auto split: if_splits)
    then have "tinv due t ?ti3"
      using drained_inv [OF m(2) m0 low clk(3) _ r(2)] r(4) clk by (simp add: ex)
    moreover have "driver_turn True now t ti = (?ti3, ws, is_pending ?ti3)"
      using None m(1) by (simp add: driver_turn_def Let_def is_pending_def flip: N_def)
    moreover have "\<not> is_pending ?ti3" "\<And>no. expiry ?ti3 no = None"
      using \<open>\<And>no. expiry ?ti2 no = None\<close> by (simp_all add: is_pending_def expiry_def)
    ultimately show ?thesis
      using ts ws nr by (intro that [of ?ti3 ws]) (simp_all add: N_def recalc_def ti_contains_def)
  next
    case (Some nx)
    let ?s = "t + TICK * (unat nx - unat N)"
    let ?ti3 = "ti\<lparr>ti_elapsed := N, ti_elapsed_time := Some now, ti_inner := m\<lparr>tm_driver_sleep := ?s\<rparr>, ti_next_expiry := nx\<rparr>"
    have min: "?P \<noteq> {}" "unat nx = Min ?P" using npb Some by (simp_all split: if_splits)
    then have nx: "unat nx \<in> ?P" "\<And>x. x \<in> ?P \<Longrightarrow> unat nx \<le> x"
      using Min_in [OF fin] Min_le [OF fin] by simp_all
    then have b: "unat N < unat nx" "unat nx \<le> unat N + 134217728" using left by auto
    have ex3: "expiry ?ti3 no = expiry ?ti2 no" for no by (simp add: expiry_def armed_def)
    have pend3: "is_pending ?ti3" using b r(2) by (auto simp: is_pending_def U64_MAX_def unat_minus_1)
    have turn: "driver_turn True now t ti = (?ti3, ws, True)"
      using Some m(1) b next_expiry_ms_time [of "?ti2\<lparr>ti_next_expiry := nx\<rparr>"]
      by (simp add: driver_turn_def Let_def flip: N_def)
    show ?thesis
    proof (rule that [of ?ti3 ws])
      show "tinv due t ?ti3"
        by (rule advanced_inv [OF m(2) m0 r(3) nr low clk(2,3) r(4) b]) (use left nx clk in auto)
      show "driver_turn True now t ti = (?ti3, ws, is_pending ?ti3)" using turn pend3 by simp
      show "unat (ti_next_expiry ?ti3) = Min {x. \<exists>no. expiry ?ti3 no = Some x}" unfolding ex3 using min(2) by simp
      show "is_pending ?ti3 \<longleftrightarrow> (\<exists>no x. expiry ?ti3 no = Some x)" unfolding ex3 using min(1) pend3 by auto
    qed (use ts ws nr in \<open>simp_all add: N_def recalc_def ti_contains_def\<close>)
  qed
qed

section \<open>A poll of the driver\<close>

text \<open>The contract of the delay over the turns of one poll: the clock is monotone, the delay is ready only
  from its deadline on, and the driver does not find its delay ready while the wheel is idle.\<close>

fun delay_ok :: "instant \<Rightarrow> (bool \<times> instant \<times> instant) list \<Rightarrow> timer_inner \<Rightarrow> bool" where
  "delay_ok clk [] ti \<longleftrightarrow> True"
| "delay_ok clk ((ready, now, t) # rs) ti \<longleftrightarrow>
     clk \<le> now \<and> now \<le> t \<and> t < CLOCK_MAX
     \<and> (ready \<longrightarrow> tm_driver_sleep (ti_inner ti) \<le> now \<and> is_pending ti)
     \<and> (case driver_turn ready now t ti of (ti1, _, again) \<Rightarrow> again \<longrightarrow> delay_ok t rs ti1)"

text \<open>The timers that a poll fires, with the instant of the turn that fired them.\<close>

fun driver_fired :: "(bool \<times> instant \<times> instant) list \<Rightarrow> timer_inner \<Rightarrow> (nat \<times> instant) set" where
  "driver_fired [] ti = {}"
| "driver_fired ((ready, now, t) # rs) ti =
     (case driver_turn ready now t ti of (ti1, _, again) \<Rightarrow>
        {(no, now) |no. armed (ti_inner ti) no \<noteq> None \<and> armed (ti_inner ti1) no = None}
        \<union> (if again then driver_fired rs ti1 else {}))"

lemma driver_loop_spec:
  assumes "tinv due clk ti" "\<not> recalc ti" "delay_ok clk rs ti"
  shows "(clk \<le> clk' \<longrightarrow> clk' < CLOCK_MAX \<longrightarrow> list_all (\<lambda>(_, _, t). t \<le> clk') rs \<longrightarrow> tinv due clk' (fst (driver_loop rs ti)))
    \<and> (\<forall>(no, now) \<in> driver_fired rs ti. due no \<le> now)"
  using assms
proof (induction rs arbitrary: clk ti)
  case (Cons r rs)
  obtain ready now t where r: "r = (ready, now, t)" by (cases r)
  show ?case
  proof (cases ready)
    case False
    then have "driver_turn ready now t ti = (ti, [], False)" by (simp add: driver_turn_def)
    with Cons.prems tinv_same_core [of due clk ti ti clk'] show ?thesis by (auto simp: r)
  next
    case True
    have ok: "clk \<le> now" "now \<le> t" "t < CLOCK_MAX" "tm_driver_sleep (ti_inner ti) \<le> now" "is_pending ti"
      using Cons.prems(3) True by (simp_all add: r)
    obtain ti' ws where turn: "driver_turn True now t ti = (ti', ws, is_pending ti')" "tinv due t ti'" "\<not> recalc ti'"
        and ts: "\<And>no. slab_get (tm_timers (ti_inner ti')) no = map_option
          (\<lambda>e. if expiry ti no = Some (unat (ti_next_expiry ti)) then completed e else e)
          (slab_get (tm_timers (ti_inner ti)) no)"
      by (rule driver_turn_spec [OF Cons.prems(1,2) ok(5,1-4)]) blast
    have fired: "due no \<le> now" if "armed (ti_inner ti) no \<noteq> None" "armed (ti_inner ti') no = None" for no
    proof -
      have "expiry ti no = Some (unat (ti_next_expiry ti))"
        using that ts [of no] by (auto simp: armed_def split: if_splits bind_splits)
      from ready_facts(5) [OF Cons.prems(1,2) ok(5,4) this] show ?thesis by simp
    qed
    show ?thesis
    proof (cases "is_pending ti'")
      case True
      then have "delay_ok t rs ti'" using Cons.prems(3) \<open>ready\<close> turn(1) by (simp add: r)
      from Cons.IH [OF turn(2,3) this] show ?thesis
        using True \<open>ready\<close> turn(1) fired by (auto simp: r case_prod_beta)
    next
      case False
      then show ?thesis
        using \<open>ready\<close> turn fired tinv_same_core [OF turn(2), of ti' clk'] by (auto simp: r)
    qed
  qed
qed (use tinv_same_core [of due _ _ _ clk'] in auto)

section \<open>Stopping the wheel\<close>

lemma stop_timers_spec:
  assumes "\<And>no. no \<in> set nos \<Longrightarrow> slab_get ts no \<noteq> None"
  shows "\<exists>ts'. stop_timers ts nos = Some ts' \<and> (\<forall>no. slab_get ts' no
    = (if no \<in> set nos then map_option (\<lambda>e. e\<lparr>te_bucket := None\<rparr>) (slab_get ts no) else slab_get ts no))"
  using assms
proof (induction nos arbitrary: ts)
  case (Cons no nos)
  obtain e where e: "slab_get ts no = Some e" using Cons.prems [of no] by auto
  let ?ts = "slab_put ts no (e\<lparr>te_bucket := None\<rparr>)"
  have "\<exists>ts'. stop_timers ?ts nos = Some ts' \<and> (\<forall>n. slab_get ts' n
      = (if n \<in> set nos then map_option (\<lambda>e. e\<lparr>te_bucket := None\<rparr>) (slab_get ?ts n) else slab_get ?ts n))"
    by (rule Cons.IH) (use Cons.prems in auto)
  with e show ?case by auto
qed simp

lemma stop_wheel_spec:
  assumes inv: "tinv due clk ti"
  obtains ti' where "stop_wheel ti = Some ti'" and "tinv due clk ti'" and "\<And>no. armed (ti_inner ti') no = None"
    and "\<And>no. map_option te_task (slab_get (tm_timers (ti_inner ti')) no) = map_option te_task (slab_get (tm_timers (ti_inner ti)) no)"
proof -
  let ?m = "ti_inner ti"
  define nos where "nos = concat (map (\<lambda>b. slab_values (b_entries b)) (tm_buckets ?m))"
  have wi: "wheel_inv ?m" "slab_get (tm_timers ?m) 0 \<noteq> None" using inv by (simp_all add: tinv_def data_inv_def)
  have len: "length (tm_buckets ?m) = 512" by (rule wheel_inv_lengths [OF wi(1)])
  have nos: "set nos = {no. armed ?m no \<noteq> None}"
  proof -
    have "set (tm_buckets ?m) = (!) (tm_buckets ?m) ` {..<512}" by (auto simp: set_conv_nth len)
    then have "set nos = (\<Union>i<512. set (slab_values (b_entries (tm_buckets ?m ! i))))"
      by (simp add: nos_def)
    also have "\<dots> = (\<Union>i<512. {no. armed ?m no = Some i})" using bucket_values(2) [OF wi(1)] by simp
    also have "\<dots> = {no. armed ?m no \<noteq> None}"
      using links_timer(1) [OF wi(1)] by (auto simp: armed_iff)
    finally show ?thesis .
  qed
  then have "\<And>no. no \<in> set nos \<Longrightarrow> slab_get (tm_timers ?m) no \<noteq> None" by (auto simp: armed_iff)
  from stop_timers_spec [OF this] obtain ts where ts: "stop_timers (tm_timers ?m) nos = Some ts"
    and get: "\<And>no. slab_get ts no = (if no \<in> set nos then map_option (\<lambda>e. e\<lparr>te_bucket := None\<rparr>) (slab_get (tm_timers ?m) no)
      else slab_get (tm_timers ?m) no)" by auto
  define m' where "m' = ?m\<lparr>tm_timers := ts, tm_buckets := map (\<lambda>b. b\<lparr>b_entries := []\<rparr>) (tm_buckets ?m),
    tm_occupied := replicate WHEEL_SIZE 0\<rparr>"
  define ti' where "ti' = ti\<lparr>ti_flags := 0, ti_next_expiry := U64_MAX, ti_elapsed := 0, ti_elapsed_time := None,
    ti_lowres_time := None, ti_lowres_stime := None, ti_inner := m'\<rparr>"
  have un: "armed m' no = None" for no
    using get [of no] nos by (auto simp: m'_def armed_def split: if_splits bind_splits)
  have "wheel_inv m'"
    using wi(1) un len
    by (auto simp: wheel_inv_def buckets_wf_def occupied_wf_def links_wf_def armed_linked m'_def)
  moreover have "slab_get ts 0 \<noteq> None" using wi(2) get by auto
  ultimately have "tinv due clk ti'"
    using inv un by (simp add: tinv_defs ti'_def m'_def is_pending_def expiry_def base_time_def low_now_def
        U64_MAX_def word_less_nat_alt unat_minus_1)
  moreover have "stop_wheel ti = Some ti'"
    using ts by (simp add: stop_wheel_def Let_def ti'_def m'_def nos_def)
  moreover have "map_option te_task (slab_get (tm_timers (ti_inner ti')) no) = map_option te_task (slab_get (tm_timers ?m) no)" for no
    using get [of no] by (cases "slab_get (tm_timers ?m) no") (simp_all add: ti'_def m'_def)
  ultimately show ?thesis using un by (intro that [of ti']) (simp_all add: ti'_def)
qed

section \<open>The step relation\<close>

type_synonym timer_state = "(nat \<Rightarrow> instant) \<times> instant \<times> timer_inner"

definition vacant :: "'a slab \<Rightarrow> nat \<Rightarrow> bool" where
  "vacant s k \<longleftrightarrow> slab_get s k = None"

definition live :: "timer_inner \<Rightarrow> nat \<Rightarrow> bool" where
  "live ti h \<longleftrightarrow> h \<noteq> 0 \<and> slab_get (tm_timers (ti_inner ti)) h \<noteq> None"

text \<open>A call of an operation: the promises, the clock after the call and the new state. The slabs hand out
  vacant keys and the clock is monotone; a handle is used only while it is alive.\<close>

inductive timer_step :: "timer_state \<Rightarrow> timer_state \<Rightarrow> bool" where
  new_timer: "\<lbrakk>clock_ok clk t1 t2 t3; unat millis < MILLIS_MAX; vacant (tm_timers (ti_inner ti)) k;
      vacant (b_entries (tm_buckets (ti_inner ti) ! target_bucket ti (timer_delta (low_now t1 ti) (base_time t2 ti) millis))) kb;
      add_timer t1 t2 t3 k kb millis ti = Some (ti', no, eff)\<rbrakk>
    \<Longrightarrow> timer_step (due, clk, ti)
      (if millis = 0 then due else due(no := promise (low_now t1 ti) (base_time t2 ti) millis), t3, ti')"
| reset_timer: "\<lbrakk>clock_ok clk t1 t2 t3; unat millis < MILLIS_MAX; live ti h;
      idx = target_bucket ti (max (timer_delta (low_now t1 ti) (base_time t2 ti) millis) 1);
      armed (ti_inner ti) h \<noteq> Some idx \<longrightarrow> vacant (b_entries (tm_buckets (ti_inner ti) ! idx)) kb;
      update_timer t1 t2 t3 kb h millis ti = Some (ti', eff)\<rbrakk>
    \<Longrightarrow> timer_step (due, clk, ti)
      (if millis = 0 then due else due(h := promise (low_now t1 ti) (base_time t2 ti) millis), t3, ti')"
| elapse_timer: "\<lbrakk>live ti h; remove_timer h ti = Some (ti', eff)\<rbrakk> \<Longrightarrow> timer_step (due, clk, ti) (due, clk, ti')"
| drop_handle: "\<lbrakk>live ti h; drop_timer h ti = Some ti'\<rbrakk> \<Longrightarrow> timer_step (due, clk, ti) (due, clk, ti')"
| poll_handle: "\<lbrakk>live ti h; timer_poll_elapsed h cx ti = Some (ti', r)\<rbrakk> \<Longrightarrow> timer_step (due, clk, ti) (due, clk, ti')"
| read_now: "\<lbrakk>clk \<le> t; t < CLOCK_MAX; timer_now t ti = (ti', now, eff)\<rbrakk> \<Longrightarrow> timer_step (due, clk, ti) (due, t, ti')"
| read_system_time: "\<lbrakk>clk \<le> t; t < CLOCK_MAX; timer_system_time st t ti = (ti', now, eff)\<rbrakk>
    \<Longrightarrow> timer_step (due, clk, ti) (due, t, ti')"
| poll_driver: "\<lbrakk>clock_ok clk now t2 t3; delay_ok t3 rs (driver_recalc now t2 t3 (ti\<lparr>ti_driver := Some cx\<rparr>));
      t3 \<le> t; t < CLOCK_MAX; list_all (\<lambda>(_, _, t'). t' \<le> t) rs; driver_poll cx now t2 t3 rs ti = (ti', ws)\<rbrakk>
    \<Longrightarrow> timer_step (due, clk, ti) (due, t, ti')"
| poll_lowres: "\<lbrakk>clk \<le> t; t < CLOCK_MAX; lowres_poll cx t ready ti = ti'\<rbrakk> \<Longrightarrow> timer_step (due, clk, ti) (due, t, ti')"
| drop_driver: "stop_wheel ti = Some ti' \<Longrightarrow> timer_step (due, clk, ti) (due, clk, ti')"

definition timer_reachable :: "timer_state \<Rightarrow> bool" where
  "timer_reachable s \<longleftrightarrow> (\<exists>due t. t < CLOCK_MAX \<and> timer_step\<^sup>*\<^sup>* (due, t, timer_new t) s)"

lemma timer_new_inv: "t < CLOCK_MAX \<Longrightarrow> tinv due t (timer_new t)"
proof -
  assume t: "t < CLOCK_MAX"
  have "wheel_inv (ti_inner (timer_new t))"
    by (auto simp: timer_new_def wheel_inv_def buckets_wf_def occupied_wf_def links_wf_def create_buckets_def
        bucket_new_def linked_def slab_get_def Let_def)
  moreover have "expiry (timer_new t) no = None" for no
    by (simp add: expiry_def armed_def timer_new_def slab_get_def)
  ultimately show ?thesis using t
    by (simp add: tinv_defs is_pending_def) (simp add: timer_new_def slab_get_def base_time_def low_now_def U64_MAX_def
        word_less_nat_alt unat_minus_1)
qed

lemma system_time_core:
  "same_core (fst (timer_system_time st t ti)) ti \<and> ti_lowres_time (fst (timer_system_time st t ti)) = ti_lowres_time ti"
proof (cases "ti_lowres_stime ti")
  case None
  have "same_core (ti\<lparr>ti_lowres_stime := Some st\<rparr>) ti" by (simp add: same_core_def driver_flag_simps)
  with None lowres_touch_core [of t "ti\<lparr>ti_lowres_stime := Some st\<rparr>"] show ?thesis
    by (auto simp: timer_system_time_def case_prod_beta Let_def intro: same_core_trans)
qed (simp add: timer_system_time_def)

lemma lowres_poll_core:
  "same_core (lowres_poll cx t ready ti) ti \<and> ti_lowres_time (lowres_poll cx t ready ti) \<in> {ti_lowres_time ti, None}"
  by (auto simp: lowres_poll_def same_core_def driver_flag_simps Let_def)

lemma driver_poll_inv:
  assumes inv: "tinv due clk ti" and clk: "clock_ok clk now t2 t3"
    and ok: "delay_ok t3 rs (driver_recalc now t2 t3 (ti\<lparr>ti_driver := Some cx\<rparr>))"
  shows "t3 \<le> t \<Longrightarrow> t < CLOCK_MAX \<Longrightarrow> list_all (\<lambda>(_, _, t'). t' \<le> t) rs \<Longrightarrow>
      tinv due t (fst (driver_poll cx now t2 t3 rs ti))"
    and "\<forall>(no, at) \<in> driver_fired rs (driver_recalc now t2 t3 (ti\<lparr>ti_driver := Some cx\<rparr>)). due no \<le> at"
proof -
  let ?ti = "ti\<lparr>ti_driver := Some cx\<rparr>"
  have "clk < CLOCK_MAX" using inv by (simp add: tinv_def)
  moreover have "same_core ?ti ti" by (simp add: same_core_def driver_flag_simps)
  ultimately have "tinv due clk ?ti" using tinv_same_core [OF inv, of ?ti clk] by simp
  note d = driver_recalc_inv [OF this clk] driver_loop_spec [OF _ _ ok]
  show "t3 \<le> t \<Longrightarrow> t < CLOCK_MAX \<Longrightarrow> list_all (\<lambda>(_, _, t'). t' \<le> t) rs \<Longrightarrow>
      tinv due t (fst (driver_poll cx now t2 t3 rs ti))"
    using d by (simp add: driver_poll_def lw_register_def)
  show "\<forall>(no, at) \<in> driver_fired rs (driver_recalc now t2 t3 ?ti). due no \<le> at" using d by blast
qed

lemma new_timer_inv:
  assumes inv: "tinv due clk ti" and clk: "clock_ok clk t1 t2 t3" and millis: "unat millis < MILLIS_MAX"
    and k: "vacant (tm_timers (ti_inner ti)) k"
      "vacant (b_entries (tm_buckets (ti_inner ti) ! target_bucket ti (timer_delta (low_now t1 ti) (base_time t2 ti) millis))) kb"
  shows "\<exists>ti' eff. add_timer t1 t2 t3 k kb millis ti = Some (ti', k, eff) \<and>
    tinv (if millis = 0 then due else due(k := promise (low_now t1 ti) (base_time t2 ti) millis)) t3 ti'"
proof (cases "millis = 0")
  case True
  obtain ti' where "add_timer t1 t2 t3 k kb 0 ti = Some (ti', k, [])" "tinv due clk ti'"
    using add_timer_zero [OF inv k(1) [unfolded vacant_def]] by blast
  moreover from this have "tinv due t3 ti'" using tinv_same_core [of due clk ti' ti' t3] clk by (simp add: clock_ok_def)
  ultimately show ?thesis using True by simp
next
  case False
  from add_timer_spec [OF inv clk False millis k [unfolded vacant_def]] False show ?thesis by simp blast
qed

lemma reset_timer_inv:
  assumes inv: "tinv due clk ti" and clk: "clock_ok clk t1 t2 t3" and millis: "unat millis < MILLIS_MAX"
    and h: "slab_get (tm_timers (ti_inner ti)) h = Some e"
    and idx: "idx = target_bucket ti (max (timer_delta (low_now t1 ti) (base_time t2 ti) millis) 1)"
    and kb: "armed (ti_inner ti) h \<noteq> Some idx \<Longrightarrow> vacant (b_entries (tm_buckets (ti_inner ti) ! idx)) kb"
  shows "\<exists>ti' eff. update_timer t1 t2 t3 kb h millis ti = Some (ti', eff) \<and>
    tinv (if millis = 0 then due else due(h := promise (low_now t1 ti) (base_time t2 ti) millis)) t3 ti'"
proof (cases "millis = 0")
  case True
  obtain ti' where "update_timer t1 t2 t3 kb h 0 ti = Some (ti', [])" "tinv due clk ti'"
    by (rule update_timer_zero [OF inv h])
  moreover from this have "tinv due t3 ti'" using tinv_same_core [of due clk ti' ti' t3] clk by (simp add: clock_ok_def)
  ultimately show ?thesis using True by simp
next
  case False
  have "te_bucket e \<noteq> Some idx \<Longrightarrow> slab_get (b_entries (tm_buckets (ti_inner ti) ! idx)) kb = None"
    using kb h by (simp add: armed_def vacant_def)
  from update_timer_spec [OF inv clk False millis h this idx] False show ?thesis by simp blast
qed

lemma timer_step_inv:
  assumes "timer_step s s'" and "case s of (due, clk, ti) \<Rightarrow> tinv due clk ti"
  shows "case s' of (due, clk, ti) \<Rightarrow> tinv due clk ti"
  using assms
proof (induction rule: timer_step.induct)
  case (new_timer clk t1 t2 t3 millis ti k kb ti' no eff due)
  then show ?case using new_timer_inv [of due clk ti t1 t2 t3 millis k kb] by auto
next
  case (reset_timer clk t1 t2 t3 millis ti h idx kb ti' eff due)
  then obtain e where "slab_get (tm_timers (ti_inner ti)) h = Some e" by (auto simp: live_def)
  with reset_timer show ?case using reset_timer_inv [of due clk ti t1 t2 t3 millis h e idx kb] by auto
next
  case (elapse_timer ti h ti' eff due clk)
  then obtain e where "slab_get (tm_timers (ti_inner ti)) h = Some e" by (auto simp: live_def)
  with elapse_timer show ?case using remove_timer_spec [of due clk ti h e] by simp blast
next
  case (drop_handle ti h ti' due clk)
  then obtain e where "slab_get (tm_timers (ti_inner ti)) h = Some e" "h \<noteq> 0" by (auto simp: live_def)
  with drop_handle show ?case using drop_timer_spec [of due clk ti h e] by simp blast
next
  case (poll_handle ti h cx ti' r due clk)
  then obtain e where "slab_get (tm_timers (ti_inner ti)) h = Some e" by (auto simp: live_def)
  with poll_handle show ?case using poll_elapsed_spec [of due clk ti h e cx] by simp blast
next
  case (read_now clk t ti ti' now eff due)
  then show ?case using timer_now_inv [of due clk ti t] by simp blast
next
  case (read_system_time clk t st ti ti' now eff due)
  then show ?case using tinv_same_core [of due clk ti ti' t] system_time_core [of st t ti] by simp
next
  case (poll_driver clk now t2 t3 rs cx ti t ti' ws due)
  then show ?case using driver_poll_inv(1) [of due clk ti now t2 t3 rs cx t] by simp
next
  case (poll_lowres clk t cx ready ti ti' due)
  then show ?case using tinv_same_core [of due clk ti ti' t] lowres_poll_core [of cx t ready ti] by auto
next
  case (drop_driver ti ti' due clk)
  then show ?case using stop_wheel_spec [of due clk ti] by simp blast
qed

lemma timer_reachable_inv:
  assumes "timer_reachable (due, clk, ti)" shows "tinv due clk ti"
proof -
  obtain due0 t where t: "t < CLOCK_MAX" and run: "timer_step\<^sup>*\<^sup>* (due0, t, timer_new t) (due, clk, ti)"
    using assms by (auto simp: timer_reachable_def)
  from run have "case (due, clk, ti) of (due, clk, ti) \<Rightarrow> tinv due clk ti"
    by (induction rule: rtranclp_induct) (use timer_new_inv [OF t] timer_step_inv in auto)
  then show ?thesis by simp
qed

end
