(* ===== verification/Wheel_Props.thy ===== *)
theory Wheel_Props
  imports Wheel_Driver
begin

text \<open>
  The properties of the timer wheel: timers never fire early, the operations never panic, a turn of the driver
  fires exactly what is due, and the behaviours in which the code departs from what its comments promise.
\<close>

section \<open>A concrete run\<close>

text \<open>A new timer in which handle 1 was armed for 100 milliseconds at instant 0.\<close>

definition one_timer :: timer_inner where
  "one_timer = (case add_timer 0 0 0 1 0 100 (timer_new 0) of Some (ti, _) \<Rightarrow> ti | None \<Rightarrow> timer_new 0)"

lemma create_buckets_nth: "i < 512 \<Longrightarrow> create_buckets ! i = bucket_new (i div 64) (i mod 64)"
  by (simp add: create_buckets_def)

lemma create_buckets_length [simp]: "length create_buckets = 512"
  by (simp add: create_buckets_def)

lemmas add_run_defs = add_timer_def timer_new_def timer_now_def lowres_touch_def lowres_start_def
  elapsed_time_def timer_delta_def as_millis_def to_units_def calc_wheel_index_def calc_index_def wheel_consts
  add_entry_def create_buckets_nth bucket_new_def bucket_add_entry_def note_expiry_def driver_start_def
  driver_flag_simps U64_MAX_def Let_def

lemma one_timer_run: "\<exists>eff. add_timer 0 0 0 1 0 100 (timer_new 0) = Some (one_timer, 1, eff)"
  by (simp add: one_timer_def add_run_defs)

lemma one_timer_fields:
  "ti_elapsed one_timer = 0" "ti_next_expiry one_timer = 7" "ti_elapsed_time one_timer = Some 0"
  "tm_driver_sleep (ti_inner one_timer) = 112000000" "\<not> recalc one_timer"
  "armed (ti_inner one_timer) (Suc 0) = Some 7"
  by (simp_all add: one_timer_def add_run_defs next_expiry_ms_def to_millis_def saturating_sub_def duration_from_millis_def
      armed_def)

definition one_due :: "nat \<Rightarrow> instant" where
  "one_due = (\<lambda>_. 0)(1 := 100000000)"

lemma one_timer_reachable: "timer_reachable (one_due, 0, one_timer)"
proof -
  have p: "promise (low_now 0 (timer_new 0)) (base_time 0 (timer_new 0)) 100 = 100000000"
    by (simp add: promise_def low_now_def base_time_def timer_new_def TICK_def unat_timeout_max)
  have "vacant (tm_timers (ti_inner (timer_new 0))) 1"
    by (simp add: vacant_def timer_new_def slab_get_def)
  moreover have "vacant (b_entries (tm_buckets (ti_inner (timer_new 0)) ! target_bucket (timer_new 0)
      (timer_delta (low_now 0 (timer_new 0)) (base_time 0 (timer_new 0)) 100))) 0"
    by (simp add: vacant_def target_bucket_def low_now_def base_time_def add_run_defs)
  moreover have "clock_ok 0 0 0 0" by (simp add: clock_ok_def CLOCK_MAX_def)
  moreover have "unat (100 :: u64) < MILLIS_MAX" by (simp add: MILLIS_MAX_def)
  ultimately have "timer_step (\<lambda>_. 0, 0, timer_new 0) (one_due, 0, one_timer)"
    using one_timer_run timer_step.new_timer [of 0 0 0 0 100 "timer_new 0" 1 0 one_timer 1 _ "\<lambda>_. 0"]
    by (auto simp: p one_due_def)
  then show ?thesis
    unfolding timer_reachable_def by (intro exI [of _ "\<lambda>_. 0"] exI [of _ 0]) (auto simp: CLOCK_MAX_def)
qed

lemma one_timer_expiry: "expiry one_timer 1 = Some 7"
  by (simp add: expiry_def one_timer_fields slot_time_def cdiv_def)

lemma one_timer_inv: "tinv one_due 0 one_timer"
  by (rule timer_reachable_inv [OF one_timer_reachable])

section \<open>Properties\<close>



text \<open>C2. A turn of the driver fires exactly what is due. When its delay is ready in a reachable state with timers
  pending, exactly the timers whose expiry is \<open>next_expiry\<close> become elapsed, the task waiting for each of them is
  woken once and no other task is, and the loop goes on exactly when timers are left, with \<open>next_expiry\<close> set to
  the least of their expiries.\<close>

theorem driver_turn_fires_due:
  assumes "timer_reachable (due, clk, ti)" and "\<not> ti_contains ti DRIVER_RECALC" and "ti_next_expiry ti \<noteq> U64_MAX"
    and "clk \<le> now" "now \<le> t" "t < CLOCK_MAX" and "tm_driver_sleep (ti_inner ti) \<le> now"
    and "driver_turn True now t ti = (ti', ws, again)"
  shows "(\<forall>no. armed (ti_inner ti') no =
            (if expiry ti no = Some (unat (ti_next_expiry ti)) then None else armed (ti_inner ti) no))
    \<and> (\<exists>nos. distinct nos \<and> set nos = {no. expiry ti no = Some (unat (ti_next_expiry ti))}
            \<and> ws = List.map_filter (waiter (tm_timers (ti_inner ti))) nos)
    \<and> (again \<longleftrightarrow> (\<exists>no. armed (ti_inner ti') no \<noteq> None))
    \<and> (again \<longrightarrow> unat (ti_next_expiry ti') = Min {x. \<exists>no. expiry ti' no = Some x})"
proof -
  note inv = timer_reachable_inv [OF assms(1)]
  have pre: "\<not> recalc ti" "is_pending ti" using assms(2,3) by (simp_all add: recalc_def is_pending_def)
  obtain ti2 ws2 where turn: "driver_turn True now t ti = (ti2, ws2, is_pending ti2)"
      and ts: "\<And>no. slab_get (tm_timers (ti_inner ti2)) no = map_option
          (\<lambda>e. if expiry ti no = Some (unat (ti_next_expiry ti)) then completed e else e) (slab_get (tm_timers (ti_inner ti)) no)"
      and ws: "\<exists>nos. distinct nos \<and> set nos = {no. expiry ti no = Some (unat (ti_next_expiry ti))}
            \<and> ws2 = List.map_filter (waiter (tm_timers (ti_inner ti))) nos"
      and pend: "is_pending ti2 \<longleftrightarrow> (\<exists>no x. expiry ti2 no = Some x)"
      and min: "is_pending ti2 \<Longrightarrow> unat (ti_next_expiry ti2) = Min {x. \<exists>no. expiry ti2 no = Some x}"
    by (rule driver_turn_spec [OF inv pre assms(4-7)]) blast
  have "armed (ti_inner ti2) no = (if expiry ti no = Some (unat (ti_next_expiry ti)) then None else armed (ti_inner ti) no)" for no
    using ts [of no] by (cases "slab_get (tm_timers (ti_inner ti)) no") (auto simp: armed_def)
  moreover have "(\<exists>no x. expiry ti2 no = Some x) \<longleftrightarrow> (\<exists>no. armed (ti_inner ti2) no \<noteq> None)"
    by (auto simp: expiry_def)
  moreover have "ti' = ti2" "ws = ws2" "again = is_pending ti2" using assms(8) turn by auto
  ultimately show ?thesis using ws pend min by simp
qed

theorem driver_turn_fires_due_witness:
  "let (ti', ws, again) = driver_turn True 112000000 112000000 one_timer
   in armed (ti_inner ti') 1 = None \<and> armed (ti_inner one_timer) 1 \<noteq> None"
proof -
  obtain ti' ws again where turn: "driver_turn True 112000000 112000000 one_timer = (ti', ws, again)"
    by (cases "driver_turn True 112000000 112000000 one_timer")
  have "\<not> ti_contains one_timer DRIVER_RECALC" "ti_next_expiry one_timer \<noteq> U64_MAX"
      "tm_driver_sleep (ti_inner one_timer) \<le> 112000000" "112000000 < CLOCK_MAX"
    using one_timer_fields by (simp_all add: recalc_def U64_MAX_def CLOCK_MAX_def)
  from driver_turn_fires_due [OF one_timer_reachable this(1,2) zero_le order_refl this(4,3) turn]
  have "armed (ti_inner ti') 1 = None"
    using one_timer_expiry one_timer_fields(2) by auto
  then show ?thesis using turn one_timer_fields(6) by simp
qed



text \<open>C14. The operations never panic. In every reachable state, creating a timer, resetting, elapsing, polling and
  dropping a live handle and stopping the wheel all return, for any keys the slabs may hand out. A new handle is never
  zero, which is what the unchecked \<open>NonZeroUsize\<close> of the code relies on, and it is armed unless its timeout is zero.\<close>

theorem timer_ops_never_panic:
  assumes "timer_reachable (due, clk, ti)" and "live ti h" and "clock_ok clk t1 t2 t3" and "unat millis < MILLIS_MAX"
    and "vacant (tm_timers (ti_inner ti)) k"
    and "vacant (b_entries (tm_buckets (ti_inner ti) ! target_bucket ti (timer_delta (low_now t1 ti) (base_time t2 ti) millis))) kb"
    and "vacant (b_entries (tm_buckets (ti_inner ti) !
           target_bucket ti (max (timer_delta (low_now t1 ti) (base_time t2 ti) millis) 1))) kb'"
  shows "(\<exists>ti' eff. add_timer t1 t2 t3 k kb millis ti = Some (ti', k, eff) \<and> k \<noteq> 0
            \<and> (armed (ti_inner ti') k \<noteq> None \<longleftrightarrow> millis \<noteq> 0))
    \<and> update_timer t1 t2 t3 kb' h millis ti \<noteq> None \<and> remove_timer h ti \<noteq> None \<and> drop_timer h ti \<noteq> None
    \<and> timer_poll_elapsed h cx ti \<noteq> None \<and> timer_is_elapsed h ti \<noteq> None \<and> stop_wheel ti \<noteq> None"
proof -
  note inv = timer_reachable_inv [OF assms(1)]
  obtain e where h: "h \<noteq> 0" "slab_get (tm_timers (ti_inner ti)) h = Some e" using assms(2) by (auto simp: live_def)
  note k = assms(5,6) [unfolded vacant_def]
  have "k \<noteq> 0" using inv k(1) by (cases "k = 0") (simp_all add: tinv_def data_inv_def)
  moreover have "\<exists>ti' eff. add_timer t1 t2 t3 k kb millis ti = Some (ti', k, eff) \<and> (armed (ti_inner ti') k \<noteq> None \<longleftrightarrow> millis \<noteq> 0)"
  proof (cases "millis = 0")
    case True
    then show ?thesis using add_timer_zero [OF inv k(1), of t1 t2 t3 kb] by auto
  next
    case False
    obtain ti' eff e' where "add_timer t1 t2 t3 k kb millis ti = Some (ti', k, eff)"
        "tm_timers (ti_inner ti') = slab_put (tm_timers (ti_inner ti)) k e'" "te_bucket e' \<noteq> None"
      by (rule add_timer_spec [OF inv assms(3) False assms(4) k])
    then show ?thesis using False by (auto simp: armed_def)
  qed
  moreover have "update_timer t1 t2 t3 kb' h millis ti \<noteq> None"
    using reset_timer_inv [OF inv assms(3,4) h(2) refl, of kb'] assms(7) by blast
  moreover have "remove_timer h ti \<noteq> None" by (rule remove_timer_spec [OF inv h(2)]) simp
  moreover have "drop_timer h ti \<noteq> None" by (rule drop_timer_spec [OF inv h(2,1)]) simp
  moreover have "timer_poll_elapsed h cx ti \<noteq> None" by (rule poll_elapsed_spec [OF inv h(2), of cx]) simp
  moreover have "stop_wheel ti \<noteq> None" by (rule stop_wheel_spec [OF inv]) simp
  ultimately show ?thesis using h by (auto simp: timer_is_elapsed_def)
qed

theorem timer_ops_never_panic_witness:
  "\<exists>ti' eff. add_timer 0 0 0 2 0 0 one_timer = Some (ti', 2, eff) \<and> armed (ti_inner ti') 2 = None"
proof -
  have b: "b_entries (tm_buckets (ti_inner one_timer) ! i) = []" if "i < 512" "i \<noteq> 7" for i
    using that by (simp add: one_timer_def add_run_defs)
  have "tm_timers (ti_inner one_timer) = slab_put (tm_timers (ti_inner (timer_new 0))) 1
      \<lparr>te_bucket = Some 7, te_bucket_entry = 0, te_task = None\<rparr>"
    by (simp add: one_timer_def add_run_defs)
  then have t: "live one_timer 1" "vacant (tm_timers (ti_inner one_timer)) 2"
    by (simp_all add: live_def vacant_def timer_new_def slab_get_def [of "[_]"])
  have "ti_lowres_time one_timer = Some 0" by (simp add: one_timer_def add_run_defs)
  then have "timer_delta (low_now 0 one_timer) (base_time 0 one_timer) 0 = 0"
    by (simp add: low_now_def base_time_def one_timer_fields timer_delta_def as_millis_def to_units_def)
  then have tb: "target_bucket one_timer (timer_delta (low_now 0 one_timer) (base_time 0 one_timer) 0) = 1"
      "target_bucket one_timer (max (timer_delta (low_now 0 one_timer) (base_time 0 one_timer) 0) 1) = 2"
    by (simp_all add: target_bucket_def one_timer_fields calc_wheel_index_def calc_index_def wheel_consts)
  have c: "clock_ok 0 0 0 0" "unat (0 :: u64) < MILLIS_MAX" by (simp_all add: clock_ok_def CLOCK_MAX_def MILLIS_MAX_def)
  show ?thesis
    using timer_ops_never_panic [OF one_timer_reachable t(1) c t(2), of 0 0] b [of 1] b [of 2]
    by (auto simp: tb vacant_def)
qed

section \<open>Departures from the contract\<close>

lemma next_pending_levels_empty:
  assumes "\<And>l. l < 8 \<Longrightarrow> occ ! l = 0" "n + lvl \<le> 8"
  shows "next_pending_levels occ n lvl clk nxt = nxt"
  using assms(2) by (induction n arbitrary: lvl clk) (simp_all add: assms(1) Let_def)

lemma idle_occupied:
  assumes "tinv due clk ti" "\<not> is_pending ti"
  shows "armed (ti_inner ti) no = None" and "l < 8 \<Longrightarrow> tm_occupied (ti_inner ti) ! l = 0"
proof -
  have none: "armed (ti_inner ti) no = None" for no
    using expiry_pending [OF assms(1)] assms(2) by (cases "armed (ti_inner ti) no") (auto simp: expiry_def)
  then show "armed (ti_inner ti) no = None" .
  assume l: "l < 8"
  have "\<not> bit (tm_occupied (ti_inner ti) ! l) j" if "j < 64" for j
    using occupied_iff_armed [of "ti_inner ti" "64 * l + j"] assms(1) none that l by (simp add: tinv_def data_inv_def)
  then show "tm_occupied (ti_inner ti) ! l = 0" by (intro bit_word_eqI) simp
qed

lemma add_timer_elapsed:
  assumes "add_timer t1 t2 t3 k kb millis ti = Some (ti', no, eff)" shows "ti_elapsed ti' = ti_elapsed ti"
proof -
  have note_expiry: "ti_elapsed (fst (note_expiry t be fl x)) = ti_elapsed x" for t be fl x
    by (simp add: note_expiry_def driver_start_def ti_set_flag_def Let_def case_prod_beta)
  have et: "ti_elapsed (fst (elapsed_time t x)) = ti_elapsed x" for t x
    by (simp add: elapsed_time_def split: option.split)
  have now: "ti_elapsed (fst (timer_now t x)) = ti_elapsed x" for t x
    using timer_now_spec [of t x] by (simp add: same_core_def)
  show ?thesis using assms
    by (auto simp: add_timer_def Let_def case_prod_beta note_expiry et now split: if_splits bind_splits)
qed



text \<open>Resetting a timer to zero milliseconds elapses it silently. In a reachable state with a task waiting for an
  armed timer, \<open>elapse\<close> wakes that task, while \<open>reset(0)\<close> marks the timer as elapsed, wakes nobody and leaves the
  task registered.\<close>

theorem reset_zero_wakes_nobody:
  assumes "timer_reachable (due, clk, ti)" and "slab_get (tm_timers (ti_inner ti)) h = Some e"
    and "te_bucket e \<noteq> None" "te_task e = Some w"
  shows "\<exists>ti1 ti2. remove_timer h ti = Some (ti1, [Wake w]) \<and> timer_is_elapsed h ti1 = Some True
    \<and> update_timer t1 t2 t3 kb h 0 ti = Some (ti2, []) \<and> timer_is_elapsed h ti2 = Some True
    \<and> waiter (tm_timers (ti_inner ti2)) h = Some w"
proof -
  note inv = timer_reachable_inv [OF assms(1)]
  obtain ti1 where 1: "remove_timer h ti = Some (ti1, if te_bucket e = None then [] else map Wake (lw_woken (te_task e)))"
      "timer_is_elapsed h ti1 = Some True"
    by (rule remove_timer_spec [OF inv assms(2)])
  obtain ti2 where 2: "update_timer t1 t2 t3 kb h 0 ti = Some (ti2, [])"
      "slab_get (tm_timers (ti_inner ti2)) h = Some (e\<lparr>te_bucket := None\<rparr>)"
    by (rule update_timer_zero [OF inv assms(2)])
  show ?thesis using 1 2 assms(3,4)
    by (auto simp: timer_is_elapsed_def [of h ti2] waiter_def)
qed

theorem reset_zero_wakes_nobody_witness:
  "\<exists>ti1 ti2. remove_timer 1 (fst (the (timer_poll_elapsed 1 9 one_timer))) = Some (ti1, [Wake 9])
     \<and> update_timer 0 0 0 0 1 0 (fst (the (timer_poll_elapsed 1 9 one_timer))) = Some (ti2, [])"
proof -
  obtain e where e: "slab_get (tm_timers (ti_inner one_timer)) 1 = Some e" "te_bucket e = Some 7"
    using one_timer_fields(6) by (auto simp: armed_iff)
  obtain ti where p: "timer_poll_elapsed 1 9 one_timer = Some (ti, Pending)"
      and ts: "tm_timers (ti_inner ti) = slab_put (tm_timers (ti_inner one_timer)) 1 (e\<lparr>te_task := Some 9\<rparr>)"
    by (rule poll_elapsed_spec [OF one_timer_inv e(1), of 9]) (simp add: e(2))
  have "timer_step (one_due, 0, one_timer) (one_due, 0, ti)"
    by (rule timer_step.poll_handle [OF _ p]) (simp add: live_def e [simplified])
  then have r: "timer_reachable (one_due, 0, ti)"
    using one_timer_reachable unfolding timer_reachable_def by (meson rtranclp.rtrancl_into_rtrancl)
  have "slab_get (tm_timers (ti_inner ti)) 1 = Some (e\<lparr>te_task := Some 9\<rparr>)" by (simp add: ts)
  from reset_zero_wakes_nobody [OF r this, of 9 0 0 0 0] e(2) show ?thesis by (auto simp: p [simplified])
qed

text \<open>The low-resolution driver can be spawned twice. A handle created with a zero timeout and reset afterwards
  starts the timer driver without the \<open>RUNNING\<close> flag; the next \<open>add_timer\<close> that shortens the next expiry starts the
  low-resolution driver and then writes back a copy of the flags taken before, which clears \<open>LOWRES_DRIVER\<close>; the next
  reading of the clock after the cached time has been dropped spawns a second driver.\<close>

theorem lowres_driver_spawned_twice:
  "\<exists>ti1 ti2 ti3 ti4.
     add_timer 0 0 0 1 0 0 (timer_new 0) = Some (ti1, 1, [])
     \<and> update_timer 0 0 0 0 1 1000 ti1 = Some (ti2, [SpawnDriver])
     \<and> add_timer 0 0 0 2 0 100 ti2 = Some (ti3, 2, [SpawnLowres])
     \<and> timer_now 6000000 (lowres_poll 9 6000000 True ti3) = (ti4, 6000000, [SpawnLowres])"
  by (simp add: add_run_defs update_timer_def update_entry_def remove_timer_bucket_def lowres_poll_def)

end
