(* ===== verification/Timers.thy ===== *)
theory Timers
  imports Wheel_Props
begin

text \<open>
  The timer futures of \<open>geario/src/util/time/mod.rs\<close> on top of the wheel: \<open>Sleep\<close>, \<open>Deadline\<close>, \<open>Timeout\<close>, \<open>TimeoutChecked\<close> and
  \<open>Interval\<close>. A future is the handle of a timer; the wheel is the state. What a call that creates or resets a timer
  gets from outside is collected in \<open>timer_env\<close>: the three readings of the clock and the keys of the two slabs. The
  future inside a timeout is an input: the result of its poll.
\<close>

record timer_env =
  tx_t1 :: instant
  tx_t2 :: instant
  tx_t3 :: instant
  tx_key :: nat
  tx_bucket_key :: nat

definition handle_new :: "timer_env \<Rightarrow> u64 \<Rightarrow> timer_inner \<Rightarrow> (timer_inner \<times> nat \<times> effect list) option" where
  "handle_new x ms ti = add_timer (tx_t1 x) (tx_t2 x) (tx_t3 x) (tx_key x) (tx_bucket_key x) ms ti"

definition handle_reset :: "timer_env \<Rightarrow> nat \<Rightarrow> u64 \<Rightarrow> timer_inner \<Rightarrow> (timer_inner \<times> effect list) option" where
  "handle_reset x h ms ti = update_timer (tx_t1 x) (tx_t2 x) (tx_t3 x) (tx_bucket_key x) h ms ti"

definition u64_of_millis :: "millis \<Rightarrow> u64" where
  "u64_of_millis m = ucast (millis_val m)"

section \<open>Sleep\<close>

definition sleep_new :: "timer_env \<Rightarrow> millis \<Rightarrow> timer_inner \<Rightarrow> (timer_inner \<times> nat \<times> effect list) option" where
  "sleep_new x dur ti = handle_new x (ucast (max (millis_val dur) 1)) ti"

definition sleep_is_elapsed :: "nat \<Rightarrow> timer_inner \<Rightarrow> bool option" where
  "sleep_is_elapsed h ti = timer_is_elapsed h ti"

definition sleep_elapse :: "nat \<Rightarrow> timer_inner \<Rightarrow> (timer_inner \<times> effect list) option" where
  "sleep_elapse h ti = remove_timer h ti"

definition sleep_reset :: "timer_env \<Rightarrow> nat \<Rightarrow> millis \<Rightarrow> timer_inner \<Rightarrow> (timer_inner \<times> effect list) option" where
  "sleep_reset x h ms ti = handle_reset x h (u64_of_millis ms) ti"

definition sleep_poll_elapsed :: "nat \<Rightarrow> task \<Rightarrow> timer_inner \<Rightarrow> (timer_inner \<times> unit poll) option" where
  "sleep_poll_elapsed h cx ti = timer_poll_elapsed h cx ti"

section \<open>Deadline\<close>

type_synonym deadline = "nat option"

definition deadline_new :: "timer_env \<Rightarrow> millis \<Rightarrow> timer_inner \<Rightarrow> (timer_inner \<times> deadline \<times> effect list) option" where
  "deadline_new x dur ti =
     (if millis_val dur \<noteq> 0
      then do { (ti1, h, eff) \<leftarrow> handle_new x (u64_of_millis dur) ti; Some (ti1, Some h, eff) }
      else Some (ti, None, []))"

definition deadline_reset ::
  "timer_env \<Rightarrow> deadline \<Rightarrow> millis \<Rightarrow> timer_inner \<Rightarrow> (timer_inner \<times> deadline \<times> effect list) option" where
  "deadline_reset x dl ms ti =
     (if millis_val ms \<noteq> 0
      then (case dl of
              Some h \<Rightarrow> do { (ti1, eff) \<leftarrow> handle_reset x h (u64_of_millis ms) ti; Some (ti1, Some h, eff) }
            | None \<Rightarrow> do { (ti1, h, eff) \<leftarrow> handle_new x (u64_of_millis ms) ti; Some (ti1, Some h, eff) })
      else (case dl of
              Some h \<Rightarrow> do { ti1 \<leftarrow> drop_timer h ti; Some (ti1, None, []) }
            | None \<Rightarrow> Some (ti, None, [])))"

definition deadline_is_elapsed :: "deadline \<Rightarrow> timer_inner \<Rightarrow> bool option" where
  "deadline_is_elapsed dl ti = (case dl of None \<Rightarrow> Some True | Some h \<Rightarrow> timer_is_elapsed h ti)"

definition deadline_poll_elapsed :: "deadline \<Rightarrow> task \<Rightarrow> timer_inner \<Rightarrow> (timer_inner \<times> unit poll) option" where
  "deadline_poll_elapsed dl cx ti = (case dl of None \<Rightarrow> Some (ti, Pending) | Some h \<Rightarrow> timer_poll_elapsed h cx ti)"

section \<open>Timeout\<close>

definition timeout_poll ::
  "nat \<Rightarrow> task \<Rightarrow> 'v poll \<Rightarrow> timer_inner \<Rightarrow> (timer_inner \<times> (unit + 'v) poll) option" where
  "timeout_poll h cx r ti =
     (case r of
        Ready v \<Rightarrow> Some (ti, Ready (Inr v))
      | Pending \<Rightarrow> do {
          (ti1, p) \<leftarrow> sleep_poll_elapsed h cx ti;
          Some (ti1, case p of Ready _ \<Rightarrow> Ready (Inl ()) | Pending \<Rightarrow> Pending)
        })"

datatype timeout_checked = WithTimeout nat | NoTimeout

definition timeout_checked_new ::
  "timer_env \<Rightarrow> millis \<Rightarrow> timer_inner \<Rightarrow> (timer_inner \<times> timeout_checked \<times> effect list) option" where
  "timeout_checked_new x delay ti =
     (if millis_is_zero delay then Some (ti, NoTimeout, [])
      else do { (ti1, h, eff) \<leftarrow> sleep_new x delay ti; Some (ti1, WithTimeout h, eff) })"

definition timeout_checked_poll ::
  "timeout_checked \<Rightarrow> task \<Rightarrow> 'v poll \<Rightarrow> timer_inner \<Rightarrow> (timer_inner \<times> (unit + 'v) poll) option" where
  "timeout_checked_poll t cx r ti =
     (case t of
        WithTimeout h \<Rightarrow> timeout_poll h cx r ti
      | NoTimeout \<Rightarrow> Some (ti, case r of Ready v \<Rightarrow> Ready (Inr v) | Pending \<Rightarrow> Pending))"

section \<open>Interval\<close>

record interval =
  iv_hnd :: nat
  iv_period :: u32

definition interval_new :: "timer_env \<Rightarrow> millis \<Rightarrow> timer_inner \<Rightarrow> (timer_inner \<times> interval \<times> effect list) option" where
  "interval_new x period ti = do {
     (ti1, h, eff) \<leftarrow> handle_new x (u64_of_millis period) ti;
     Some (ti1, \<lparr>iv_hnd = h, iv_period = millis_val period\<rparr>, eff)
   }"

definition interval_poll_tick ::
  "timer_env \<Rightarrow> interval \<Rightarrow> task \<Rightarrow> timer_inner \<Rightarrow> (timer_inner \<times> unit poll \<times> effect list) option" where
  "interval_poll_tick x iv cx ti = do {
     (ti1, p) \<leftarrow> timer_poll_elapsed (iv_hnd iv) cx ti;
     (case p of
        Ready _ \<Rightarrow> do { (ti2, eff) \<leftarrow> handle_reset x (iv_hnd iv) (ucast (iv_period iv)) ti1; Some (ti2, Ready (), eff) }
      | Pending \<Rightarrow> Some (ti1, Pending, []))
   }"

section \<open>What the futures need of a timer\<close>

text \<open>The contract of a source of timers: a poll of a live handle tells whether it has elapsed and registers the task if
  it has not, and changes nothing else about any handle.\<close>

locale timer_source =
  fixes good :: "'s \<Rightarrow> bool"
    and alive :: "'s \<Rightarrow> nat \<Rightarrow> bool"
    and elapsed :: "nat \<Rightarrow> 's \<Rightarrow> bool option"
    and registered :: "'s \<Rightarrow> nat \<Rightarrow> task option"
    and poll :: "nat \<Rightarrow> task \<Rightarrow> 's \<Rightarrow> ('s \<times> unit poll) option"
  assumes alive_elapsed: "good s \<Longrightarrow> alive s h \<Longrightarrow> elapsed h s \<noteq> None"
    and poll_ready: "good s \<Longrightarrow> alive s h \<Longrightarrow> elapsed h s = Some True \<Longrightarrow> poll h cx s = Some (s, Ready ())"
    and poll_pending: "good s \<Longrightarrow> alive s h \<Longrightarrow> elapsed h s = Some False \<Longrightarrow>
      \<exists>s'. poll h cx s = Some (s', Pending) \<and> good s' \<and> alive s' = alive s \<and> (\<forall>k. elapsed k s' = elapsed k s)
        \<and> registered s' h = Some cx"
begin

lemma poll_total:
  assumes "good s" "alive s h"
  obtains s' where "poll h cx s = Some (s', if elapsed h s = Some True then Ready () else Pending)" "good s'" "alive s' = alive s"
    "\<And>k. elapsed k s' = elapsed k s" "elapsed h s = Some False \<Longrightarrow> registered s' h = Some cx"
proof (cases "elapsed h s")
  case None
  then show thesis using alive_elapsed [OF assms] by simp
next
  case (Some b)
  show thesis
  proof (cases b)
    case True
    with Some that [of s] poll_ready [OF assms] assms show thesis by simp
  next
    case False
    then have f: "elapsed h s = Some False" using Some by simp
    obtain s' where "poll h cx s = Some (s', Pending)" "good s'" "alive s' = alive s" "\<forall>k. elapsed k s' = elapsed k s" "registered s' h = Some cx"
      using poll_pending [OF assms f] by blast
    with f that [of s'] show thesis by simp
  qed
qed

text \<open>Racing a future against a timer, as a timeout does.\<close>

lemma race:
  assumes "good s" "alive s h"
  obtains s' where
    "(case r of Ready v \<Rightarrow> Some (s, Ready (Inr v))
      | Pending \<Rightarrow> do { (s1, p) \<leftarrow> poll h cx s; Some (s1, case p of Ready _ \<Rightarrow> Ready (Inl ()) | Pending \<Rightarrow> Pending) })
     = Some (s', case r of Ready v \<Rightarrow> Ready (Inr v) | Pending \<Rightarrow> if elapsed h s = Some True then Ready (Inl ()) else Pending)"
    and "good s'" "alive s' = alive s" "\<And>k. elapsed k s' = elapsed k s"
    and "r = Pending \<Longrightarrow> elapsed h s = Some False \<Longrightarrow> registered s' h = Some cx"
proof (cases r)
  case Pending
  obtain s' where "poll h cx s = Some (s', if elapsed h s = Some True then Ready () else Pending)" "good s'" "alive s' = alive s"
    "\<And>k. elapsed k s' = elapsed k s" "elapsed h s = Some False \<Longrightarrow> registered s' h = Some cx"
    by (rule poll_total [OF assms, where cx = cx]) blast
  with Pending that [of s'] show thesis by simp
next
  case (Ready v)
  with that [of s] assms show thesis by simp
qed

end

definition wheel_good :: "timer_inner \<Rightarrow> bool" where
  "wheel_good ti \<longleftrightarrow> (\<exists>due clk. tinv due clk ti)"

definition wheel_registered :: "timer_inner \<Rightarrow> nat \<Rightarrow> task option" where
  "wheel_registered ti h = (case slab_get (tm_timers (ti_inner ti)) h of Some e \<Rightarrow> te_task e | None \<Rightarrow> None)"

interpretation wheel: timer_source wheel_good live timer_is_elapsed wheel_registered timer_poll_elapsed
proof
  fix s h cx
  assume s: "wheel_good s" "live s h"
  then obtain due clk e where i: "tinv due clk s" "slab_get (tm_timers (ti_inner s)) h = Some e"
    by (auto simp: wheel_good_def live_def)
  show "timer_is_elapsed h s \<noteq> None" using i by (simp add: timer_is_elapsed_def)
  show "timer_poll_elapsed h cx s = Some (s, Ready ())" if "timer_is_elapsed h s = Some True"
    using that i(2) by (simp add: timer_is_elapsed_def timer_poll_elapsed_def)
  assume "timer_is_elapsed h s = Some False"
  then have b: "te_bucket e \<noteq> None" using i(2) by (simp add: timer_is_elapsed_def)
  obtain s' where s': "timer_poll_elapsed h cx s = Some (s', Pending)" "tinv due clk s'"
    "tm_timers (ti_inner s') = slab_put (tm_timers (ti_inner s)) h (e\<lparr>te_task := Some cx\<rparr>)"
    using poll_elapsed_spec [OF i, of cx] b by (metis (full_types))
  have "live s' = live s" using s'(3) i(2) by (auto simp: live_def fun_eq_iff)
  moreover have "timer_is_elapsed k s' = timer_is_elapsed k s" for k using s'(3) i(2) by (simp add: timer_is_elapsed_def)
  moreover have "wheel_registered s' h = Some cx" using s'(3) by (simp add: wheel_registered_def)
  ultimately show "\<exists>s'. timer_poll_elapsed h cx s = Some (s', Pending) \<and> wheel_good s' \<and> live s' = live s
      \<and> (\<forall>k. timer_is_elapsed k s' = timer_is_elapsed k s) \<and> wheel_registered s' h = Some cx"
    using s' by (auto simp: wheel_good_def)
qed

lemma reachable_good: "timer_reachable (due, clk, ti) \<Longrightarrow> wheel_good ti"
  using timer_reachable_inv unfolding wheel_good_def by blast

lemma timer_reachable_step: "timer_reachable s \<Longrightarrow> timer_step s s' \<Longrightarrow> timer_reachable s'"
  by (auto simp: timer_reachable_def intro: rtranclp.rtrancl_into_rtrancl)

lemma unat_u64_of_u32: "unat (ucast (w :: u32) :: u64) = unat w"
  by (simp add: unat_ucast_up)

lemma u64_of_u32_bound: "unat (ucast (w :: u32) :: u64) < MILLIS_MAX"
  using unsigned_less [of w, where ?'a = nat] by (simp add: unat_u64_of_u32 MILLIS_MAX_def)

section \<open>Properties\<close>



lemma one_timer_live: "live one_timer 1" "timer_is_elapsed 1 one_timer = Some False"
proof -
  have "tm_timers (ti_inner one_timer) = slab_put (tm_timers (ti_inner (timer_new 0))) 1
      \<lparr>te_bucket = Some 7, te_bucket_entry = 0, te_task = None\<rparr>"
    by (simp add: one_timer_def add_run_defs)
  then show "live one_timer 1" "timer_is_elapsed 1 one_timer = Some False"
    by (simp_all add: live_def timer_is_elapsed_def)
qed


text \<open>An interval ticks only when its timer has elapsed, and each tick arms the timer again for a full period counted
  from the clock reading of that poll, in a state that is again reachable: the next tick is never early. A period of
  zero leaves the timer elapsed, so that every poll ticks.\<close>

theorem interval_tick_rearms:
  assumes "timer_reachable (due, clk, ti)" and "live ti (iv_hnd iv)" and "clock_ok clk (tx_t1 x) (tx_t2 x) (tx_t3 x)"
    and "vacant (b_entries (tm_buckets (ti_inner ti) ! target_bucket ti
           (max (timer_delta (low_now (tx_t1 x) ti) (base_time (tx_t2 x) ti) (ucast (iv_period iv))) 1))) (tx_bucket_key x)"
    and "interval_poll_tick x iv cx ti = Some (ti', r, eff)"
  shows "timer_is_elapsed (iv_hnd iv) ti = Some (r = Ready ())
    \<and> timer_is_elapsed (iv_hnd iv) ti' = Some (r = Ready () \<and> iv_period iv = 0)
    \<and> (\<exists>due' clk'. timer_reachable (due', clk', ti')
         \<and> (r = Ready () \<and> iv_period iv \<noteq> 0 \<longrightarrow>
              due' (iv_hnd iv) = promise (low_now (tx_t1 x) ti) (base_time (tx_t2 x) ti) (ucast (iv_period iv))))"
proof -
  note inv = timer_reachable_inv [OF assms(1)]
  obtain e where e: "slab_get (tm_timers (ti_inner ti)) (iv_hnd iv) = Some e" using assms(2) by (auto simp: live_def)
  let ?ms = "ucast (iv_period iv) :: u64"
  have z: "?ms = 0 \<longleftrightarrow> iv_period iv = 0"
    by (simp only: unat_eq_zero [symmetric] unat_u64_of_u32)
  have el: "timer_is_elapsed (iv_hnd iv) ti = Some (te_bucket e = None)" using e by (simp add: timer_is_elapsed_def)
  show ?thesis
  proof (cases "te_bucket e = None")
    case True
    then have poll: "timer_poll_elapsed (iv_hnd iv) cx ti = Some (ti, Ready ())" using e by (simp add: timer_poll_elapsed_def)
    obtain eff' where u: "update_timer (tx_t1 x) (tx_t2 x) (tx_t3 x) (tx_bucket_key x) (iv_hnd iv) ?ms ti = Some (ti', eff')"
      and r: "r = Ready ()"
      using assms(5) poll by (auto simp: interval_poll_tick_def handle_reset_def split: bind_splits)
    from timer_reachable_step [OF assms(1) timer_step.reset_timer [OF assms(3) u64_of_u32_bound assms(2) refl _ u]] assms(4)
    have reach: "timer_reachable (if ?ms = 0 then due else due(iv_hnd iv := promise (low_now (tx_t1 x) ti) (base_time (tx_t2 x) ti) ?ms),
        tx_t3 x, ti')" by simp
    have "timer_is_elapsed (iv_hnd iv) ti' = Some (iv_period iv = 0)"
    proof (cases "?ms = 0")
      case True
      obtain t2 where "update_timer (tx_t1 x) (tx_t2 x) (tx_t3 x) (tx_bucket_key x) (iv_hnd iv) 0 ti = Some (t2, [])"
        "slab_get (tm_timers (ti_inner t2)) (iv_hnd iv) = Some (e\<lparr>te_bucket := None\<rparr>)"
        by (rule update_timer_zero [OF inv e])
      with u z True show ?thesis by (simp add: timer_is_elapsed_def)
    next
      case False
      have kb: "slab_get (b_entries (tm_buckets (ti_inner ti) ! target_bucket ti
          (max (timer_delta (low_now (tx_t1 x) ti) (base_time (tx_t2 x) ti) ?ms) 1))) (tx_bucket_key x) = None"
        using assms(4) by (simp add: vacant_def)
      obtain t2 eff2 e' where "update_timer (tx_t1 x) (tx_t2 x) (tx_t3 x) (tx_bucket_key x) (iv_hnd iv) ?ms ti = Some (t2, eff2)"
        "\<And>no. slab_get (tm_timers (ti_inner t2)) no = (if no = iv_hnd iv then Some e' else slab_get (tm_timers (ti_inner ti)) no)"
        "te_bucket e' \<noteq> None"
        by (rule update_timer_spec [OF inv assms(3) False u64_of_u32_bound e kb refl]) blast
      with u z False show ?thesis by (simp add: timer_is_elapsed_def)
    qed
    moreover have "\<exists>due' clk'. timer_reachable (due', clk', ti') \<and> (iv_period iv \<noteq> 0 \<longrightarrow>
        due' (iv_hnd iv) = promise (low_now (tx_t1 x) ti) (base_time (tx_t2 x) ti) ?ms)"
      by (intro exI conjI, rule reach) (simp add: z)
    ultimately show ?thesis using el True by (simp add: r)
  next
    case False
    let ?t = "ti\<lparr>ti_inner := (ti_inner ti)\<lparr>tm_timers := slab_put (tm_timers (ti_inner ti)) (iv_hnd iv) (e\<lparr>te_task := Some cx\<rparr>)\<rparr>\<rparr>"
    have poll: "timer_poll_elapsed (iv_hnd iv) cx ti = Some (?t, Pending)"
      using False e by (simp add: timer_poll_elapsed_def Let_def)
    then have r: "r = Pending" "ti' = ?t" using assms(5) by (simp_all add: interval_poll_tick_def)
    have "timer_reachable (due, clk, ti')"
      using timer_reachable_step [OF assms(1) timer_step.poll_handle [OF assms(2) poll]] r(2) by simp
    moreover have "timer_is_elapsed (iv_hnd iv) ti' = Some False" using r(2) False by (simp add: timer_is_elapsed_def)
    ultimately show ?thesis using r(1) el False by auto
  qed
qed

text \<open>A wheel whose handle 1 was created with a zero timeout: elapsed from the start.\<close>

definition zero_timer :: timer_inner where
  "zero_timer = (timer_new 0)\<lparr>ti_inner := (ti_inner (timer_new 0))\<lparr>tm_timers :=
     slab_put (tm_timers (ti_inner (timer_new 0))) 1 \<lparr>te_bucket = None, te_bucket_entry = 0, te_task = None\<rparr>\<rparr>\<rparr>"

lemma zero_timer_reachable: "timer_reachable (\<lambda>_. 0, 0, zero_timer)"
proof -
  have new: "timer_reachable (\<lambda>_. 0, 0, timer_new 0)"
    unfolding timer_reachable_def by (intro exI [of _ "\<lambda>_. 0"] exI [of _ 0]) (simp add: CLOCK_MAX_def)
  have c: "clock_ok 0 0 0 0" "unat (0 :: u64) < MILLIS_MAX" by (simp_all add: clock_ok_def CLOCK_MAX_def MILLIS_MAX_def)
  have v: "vacant (tm_timers (ti_inner (timer_new 0))) 1" by (simp add: vacant_def timer_new_def slab_get_def)
  have b: "vacant (b_entries (tm_buckets (ti_inner (timer_new 0)) ! target_bucket (timer_new 0)
      (timer_delta (low_now 0 (timer_new 0)) (base_time 0 (timer_new 0)) 0))) 0"
    by (simp add: vacant_def target_bucket_def low_now_def base_time_def add_run_defs)
  have "add_timer 0 0 0 1 0 0 (timer_new 0) = Some (zero_timer, 1, [])"
    by (simp add: add_timer_def zero_timer_def Let_def)
  from timer_reachable_step [OF new timer_step.new_timer [OF c v b this]] show ?thesis by simp
qed

definition every_100ms :: interval where
  "every_100ms = \<lparr>iv_hnd = 1, iv_period = 100\<rparr>"

definition env_0 :: timer_env where
  "env_0 = \<lparr>tx_t1 = 0, tx_t2 = 0, tx_t3 = 0, tx_key = 2, tx_bucket_key = 0\<rparr>"

theorem interval_tick_rearms_witness:
  "\<exists>ti' eff due' clk'. interval_poll_tick env_0 every_100ms 9 zero_timer = Some (ti', Ready (), eff)
     \<and> timer_is_elapsed 1 ti' = Some False \<and> timer_reachable (due', clk', ti') \<and> due' 1 = 100000000"
proof -
  have l: "live zero_timer (iv_hnd every_100ms)" by (simp add: live_def zero_timer_def every_100ms_def)
  have c: "clock_ok 0 (tx_t1 env_0) (tx_t2 env_0) (tx_t3 env_0)" by (simp add: clock_ok_def CLOCK_MAX_def env_0_def)
  have t: "ti_elapsed zero_timer = 0" "ti_lowres_time zero_timer = None" "ti_elapsed_time zero_timer = None"
    "tm_buckets (ti_inner zero_timer) = create_buckets"
    by (simp_all add: zero_timer_def timer_new_def)
  have tb: "target_bucket zero_timer
      (max (timer_delta (low_now (tx_t1 env_0) zero_timer) (base_time (tx_t2 env_0) zero_timer) (ucast (iv_period every_100ms))) 1) = 7"
    by (simp add: target_bucket_def low_now_def base_time_def t env_0_def every_100ms_def add_run_defs)
  have v: "vacant (b_entries (tm_buckets (ti_inner zero_timer) ! target_bucket zero_timer
      (max (timer_delta (low_now (tx_t1 env_0) zero_timer) (base_time (tx_t2 env_0) zero_timer) (ucast (iv_period every_100ms))) 1)))
      (tx_bucket_key env_0)"
    unfolding tb t(4) by (simp add: vacant_def create_buckets_nth bucket_new_def)
  obtain ti' eff where r: "interval_poll_tick env_0 every_100ms 9 zero_timer = Some (ti', Ready (), eff)"
    by (simp add: interval_poll_tick_def handle_reset_def timer_poll_elapsed_def update_timer_def update_entry_def
        remove_timer_bucket_def zero_timer_def env_0_def every_100ms_def add_run_defs)
  have p: "promise (low_now (tx_t1 env_0) zero_timer) (base_time (tx_t2 env_0) zero_timer) (ucast (iv_period every_100ms)) = 100000000"
    by (simp add: promise_def low_now_def base_time_def t env_0_def every_100ms_def TICK_def unat_timeout_max)
  show ?thesis
    using interval_tick_rearms [OF zero_timer_reachable l c v r] r unfolding p by (auto simp: every_100ms_def)
qed

text \<open>Zero durations. \<open>Sleep\<close> turns a zero duration into one millisecond, so its new timer is armed, never elapsed at
  once, whatever the duration. A \<open>Deadline\<close> of zero has no timer: its poll is always pending, it never completes, and yet
  \<open>is_elapsed\<close> says that it has elapsed; resetting it to a positive duration gives it a timer and resetting it to zero
  drops the timer again.\<close>

theorem zero_durations:
  assumes "timer_reachable (due, clk, ti)" and "clock_ok clk (tx_t1 x) (tx_t2 x) (tx_t3 x)" and "vacant (tm_timers (ti_inner ti)) (tx_key x)"
    and "vacant (b_entries (tm_buckets (ti_inner ti) ! target_bucket ti
           (timer_delta (low_now (tx_t1 x) ti) (base_time (tx_t2 x) ti) (ucast (max (millis_val dur) 1))))) (tx_bucket_key x)"
  shows "(\<exists>ti' eff. sleep_new x dur ti = Some (ti', tx_key x, eff) \<and> sleep_is_elapsed (tx_key x) ti' = Some False)
    \<and> deadline_new x (Millis 0) ti = Some (ti, None, [])
    \<and> deadline_is_elapsed None ti = Some True \<and> deadline_poll_elapsed None cx ti = Some (ti, Pending)
    \<and> (\<forall>h. live ti h \<longrightarrow> (\<exists>ti'. deadline_reset x (Some h) (Millis 0) ti = Some (ti', None, []) \<and> \<not> live ti' h))"
proof -
  note inv = timer_reachable_inv [OF assms(1)]
  let ?ms = "ucast (max (millis_val dur) 1) :: u64"
  have nz: "?ms \<noteq> 0"
  proof -
    have "unat ?ms \<noteq> 0" unfolding unat_u64_of_u32 by (auto simp: max_def word_le_nat_alt)
    then show ?thesis by auto
  qed
  obtain ti' eff e where a: "handle_new x ?ms ti = Some (ti', tx_key x, eff)"
    "tm_timers (ti_inner ti') = slab_put (tm_timers (ti_inner ti)) (tx_key x) e" "te_bucket e \<noteq> None"
    unfolding handle_new_def
    by (rule add_timer_spec [OF inv assms(2) nz u64_of_u32_bound assms(3,4) [unfolded vacant_def]]) blast
  have "\<exists>ti'. deadline_reset x (Some h) (Millis 0) ti = Some (ti', None, []) \<and> \<not> live ti' h" if "live ti h" for h
  proof -
    obtain d where d: "slab_get (tm_timers (ti_inner ti)) h = Some d" "h \<noteq> 0" using \<open>live ti h\<close> by (auto simp: live_def)
    show ?thesis by (rule drop_timer_spec [OF inv d]) (auto simp: live_def deadline_reset_def)
  qed
  with a show ?thesis
    by (auto simp: sleep_new_def sleep_is_elapsed_def timer_is_elapsed_def deadline_new_def deadline_is_elapsed_def
        deadline_poll_elapsed_def)
qed

theorem zero_durations_witness:
  "\<exists>ti' eff. sleep_new env_0 (Millis 0) zero_timer = Some (ti', 2, eff) \<and> sleep_is_elapsed 2 ti' = Some False
     \<and> deadline_is_elapsed None zero_timer = Some True \<and> deadline_poll_elapsed None 5 zero_timer = Some (zero_timer, Pending)"
proof -
  have c: "clock_ok 0 (tx_t1 env_0) (tx_t2 env_0) (tx_t3 env_0)" by (simp add: clock_ok_def CLOCK_MAX_def env_0_def)
  have k: "vacant (tm_timers (ti_inner zero_timer)) (tx_key env_0)"
    by (simp add: vacant_def zero_timer_def env_0_def timer_new_def slab_get_def [of "[_]"])
  have t: "ti_elapsed zero_timer = 0" "ti_lowres_time zero_timer = None" "ti_elapsed_time zero_timer = None"
    "tm_buckets (ti_inner zero_timer) = create_buckets"
    by (simp_all add: zero_timer_def timer_new_def)
  have tb: "target_bucket zero_timer
      (timer_delta (low_now (tx_t1 env_0) zero_timer) (base_time (tx_t2 env_0) zero_timer) (ucast (max (millis_val (Millis 0)) 1))) = 1"
    by (simp add: target_bucket_def low_now_def base_time_def t env_0_def add_run_defs)
  have b: "vacant (b_entries (tm_buckets (ti_inner zero_timer) ! target_bucket zero_timer
      (timer_delta (low_now (tx_t1 env_0) zero_timer) (base_time (tx_t2 env_0) zero_timer) (ucast (max (millis_val (Millis 0)) 1)))))
      (tx_bucket_key env_0)"
    unfolding tb t(4) by (simp add: vacant_def create_buckets_nth bucket_new_def)
  show ?thesis using zero_durations [OF zero_timer_reachable c k b, where cx = 5] by (auto simp: env_0_def)
qed

end
