(* ===== verification/Wakeup.thy ===== *)
theory Wakeup
  imports Local_Waker
begin

text \<open>
  The contract that every waiting operation of the channels shares: no wake-up is lost. A component has
  steps of its other handles, which wake tasks, a task that waits, and a condition under which the next poll
  of the waiting side would return. If each step either leaves the task waiting for a condition that still
  does not hold or wakes the task, then after any run in which the condition came to hold the task has been
  woken. The locale is interpreted on each channel.
\<close>

inductive wake_run :: "('s \<Rightarrow> 's \<Rightarrow> task list \<Rightarrow> bool) \<Rightarrow> 's \<Rightarrow> 's \<Rightarrow> task list \<Rightarrow> bool" for step where
  run_refl: "wake_run step s s []"
| run_step: "step s s1 ws1 \<Longrightarrow> wake_run step s1 s2 ws2 \<Longrightarrow> wake_run step s s2 (ws1 @ ws2)"

lemma wake_run_single: "step s s' ws \<Longrightarrow> wake_run step s s' ws"
  using run_step [OF _ run_refl, of step s s' ws] by simp

lemma wake_run_snoc:
  assumes "wake_run step s s1 ws1" "step s1 s2 ws2" shows "wake_run step s s2 (ws1 @ ws2)"
  using assms by (induction rule: wake_run.induct) (auto intro: wake_run_single run_step)

locale wake_safe =
  fixes step :: "'s \<Rightarrow> 's \<Rightarrow> task list \<Rightarrow> bool"
    and waiting :: "'s \<Rightarrow> task option"
    and ready :: "'s \<Rightarrow> bool"
  assumes keeps_or_wakes:
    "\<lbrakk>step s s' ws; waiting s = Some w; \<not> ready s\<rbrakk> \<Longrightarrow> (waiting s' = Some w \<and> \<not> ready s') \<or> w \<in> set ws"
begin

lemma waits_or_woken:
  assumes "wake_run step s s' ws" "waiting s = Some w" "\<not> ready s"
  shows "(waiting s' = Some w \<and> \<not> ready s') \<or> w \<in> set ws"
  using assms by (induction rule: wake_run.induct) (auto dest: keeps_or_wakes)

lemma no_lost_wakeup:
  assumes "wake_run step s s' ws" "waiting s = Some w" "\<not> ready s" "ready s'"
  shows "w \<in> set ws"
  using waits_or_woken [OF assms(1-3)] assms(4) by blast

end

end
