(* ===== verification/Oneshot.thy ===== *)
theory Oneshot
  imports Wakeup
begin

text \<open>
  The one-shot channel (\<open>geario/src/util/channel/oneshot.rs\<close>) and the one-place channel (\<open>inplace.rs\<close>). The
  halves of a one-shot share its state through a reference count, modelled by which halves are alive: the
  \<open>strong_count\<close> of the code is the number of live halves. \<open>send\<close> consumes the sender, so its model ends with
  the drop of the sender; waking happens before the count goes down, and woken tasks run later.
\<close>

datatype canceled = Canceled

section \<open>One-shot\<close>

record 'a oneshot =
  os_value :: "'a option"
  os_rx_task :: local_waker
  os_tx :: bool
  os_rx :: bool

definition oneshot_strong_count :: "'a oneshot \<Rightarrow> nat" where
  "oneshot_strong_count s = of_bool (os_tx s) + of_bool (os_rx s)"

definition oneshot_channel :: "'a oneshot" where
  "oneshot_channel = \<lparr>os_value = None, os_rx_task = lw_new, os_tx = True, os_rx = True\<rparr>"

definition oneshot_drop_sender :: "'a oneshot \<Rightarrow> 'a oneshot \<times> task list" where
  "oneshot_drop_sender s =
     (let (w, woken) = lw_wake (os_rx_task s) in (s\<lparr>os_rx_task := w, os_tx := False\<rparr>, woken))"

definition oneshot_send :: "'a oneshot \<Rightarrow> 'a \<Rightarrow> 'a oneshot \<times> ('a + unit) \<times> task list" where
  "oneshot_send s val =
     (if oneshot_strong_count s = 2
      then let (w, woken) = lw_wake (os_rx_task s);
               (s1, woken1) = oneshot_drop_sender (s\<lparr>os_value := Some val, os_rx_task := w\<rparr>)
           in (s1, Inr (), woken @ woken1)
      else let (s1, woken) = oneshot_drop_sender s in (s1, Inl val, woken))"

definition oneshot_is_canceled :: "'a oneshot \<Rightarrow> bool" where
  "oneshot_is_canceled s \<longleftrightarrow> oneshot_strong_count s = 1"

definition oneshot_poll_recv :: "'a oneshot \<Rightarrow> task \<Rightarrow> 'a oneshot \<times> (canceled + 'a) poll" where
  "oneshot_poll_recv s cx =
     (case os_value s of
        Some val \<Rightarrow> (s\<lparr>os_value := None\<rparr>, Ready (Inr val))
      | None \<Rightarrow> if oneshot_strong_count s = 1 then (s, Ready (Inl Canceled))
                else (s\<lparr>os_rx_task := fst (lw_register (os_rx_task s) cx)\<rparr>, Pending))"

definition oneshot_drop_receiver :: "'a oneshot \<Rightarrow> 'a oneshot" where
  "oneshot_drop_receiver s = s\<lparr>os_rx := False\<rparr>"

lemmas oneshot_defs = oneshot_strong_count_def oneshot_drop_sender_def oneshot_send_def oneshot_poll_recv_def
  oneshot_drop_receiver_def oneshot_is_canceled_def

text \<open>What the sending side may do while the receiver waits.\<close>

inductive oneshot_step :: "'a oneshot \<Rightarrow> 'a oneshot \<Rightarrow> task list \<Rightarrow> bool" where
  send: "os_tx s \<Longrightarrow> oneshot_send s val = (s', r, ws) \<Longrightarrow> oneshot_step s s' ws"
| drop_sender: "os_tx s \<Longrightarrow> oneshot_drop_sender s = (s', ws) \<Longrightarrow> oneshot_step s s' ws"

definition oneshot_ready :: "'a oneshot \<Rightarrow> bool" where
  "oneshot_ready s \<longleftrightarrow> os_value s \<noteq> None \<or> oneshot_strong_count s = 1"

interpretation os: wake_safe oneshot_step os_rx_task oneshot_ready
proof
  fix s s' :: "'a oneshot" and ws w
  assume "oneshot_step s s' ws" "os_rx_task s = Some w" "\<not> oneshot_ready s"
  then show "os_rx_task s' = Some w \<and> \<not> oneshot_ready s' \<or> w \<in> set ws"
    by cases (auto simp: oneshot_defs split: if_splits)
qed

lemma oneshot_poll_pending:
  assumes "oneshot_poll_recv s cx = (s1, Pending)"
  shows "os_rx_task s1 = Some cx \<and> \<not> oneshot_ready s1"
  using assms by (auto simp: oneshot_poll_recv_def oneshot_ready_def oneshot_strong_count_def split: option.splits if_splits)

lemma oneshot_poll_ready_iff:
  "snd (oneshot_poll_recv s cx) \<noteq> Pending \<longleftrightarrow> oneshot_ready s"
  by (auto simp: oneshot_poll_recv_def oneshot_ready_def split: option.splits)

text \<open>C27. The one-shot channel delivers its value exactly once. While both halves are alive, \<open>send\<close> succeeds and
  wakes the waiting receiver, the next poll yields the value and every poll after that reports \<open>Canceled\<close>. With
  the receiver gone \<open>send\<close> gives the value back; with the sender dropped the receiver is woken and sees \<open>Canceled\<close>.\<close>

theorem oneshot_delivers_once:
  assumes "os_tx s" and "os_value s = None"
  shows "if os_rx s
    then (\<exists>s1. oneshot_send s val = (s1, Inr (), lw_woken (os_rx_task s))
            \<and> snd (oneshot_poll_recv s1 cx) = Ready (Inr val)
            \<and> snd (oneshot_poll_recv (fst (oneshot_poll_recv s1 cx)) cx') = Ready (Inl Canceled))
         \<and> snd (oneshot_drop_sender s) = lw_woken (os_rx_task s)
         \<and> snd (oneshot_poll_recv (fst (oneshot_drop_sender s)) cx) = Ready (Inl Canceled)
    else oneshot_is_canceled s \<and> fst (snd (oneshot_send s val)) = Inl val"
  using assms by (auto simp: oneshot_defs case_prod_beta)

theorem oneshot_delivers_once_witness:
  "\<exists>s1. oneshot_send (fst (oneshot_poll_recv oneshot_channel 3)) (42 :: nat) = (s1, Inr (), [3])
    \<and> snd (oneshot_poll_recv s1 4) = Ready (Inr 42)"
proof -
  let ?s = "fst (oneshot_poll_recv oneshot_channel 3) :: nat oneshot"
  have "os_tx ?s" "os_value ?s = None" "os_rx ?s" "lw_woken (os_rx_task ?s) = [3]"
    by (simp_all add: oneshot_channel_def oneshot_defs)
  with oneshot_delivers_once [of ?s 42 4] show ?thesis by auto
qed

text \<open>C22. The one-shot channel loses no wake-up. When a poll of the receiver was pending for task \<open>cx\<close> and, after
  anything the sender did since, a poll would return, then \<open>cx\<close> has been woken.\<close>

theorem oneshot_no_lost_wakeup:
  assumes "oneshot_poll_recv s cx = (s1, Pending)" and "wake_run oneshot_step s1 s2 ws"
    and "snd (oneshot_poll_recv s2 cx') \<noteq> Pending"
  shows "cx \<in> set ws"
  using os.no_lost_wakeup [OF assms(2)] oneshot_poll_pending [OF assms(1)] assms(3)
  by (simp add: oneshot_poll_ready_iff)

theorem oneshot_no_lost_wakeup_witness:
  "snd (oneshot_poll_recv (fst (oneshot_drop_sender (fst (oneshot_poll_recv oneshot_channel 3)))) 4) = Ready (Inl Canceled :: canceled + nat)
   \<and> 3 \<in> set (snd (oneshot_drop_sender (fst (oneshot_poll_recv (oneshot_channel :: nat oneshot) 3))))"
proof -
  let ?s1 = "fst (oneshot_poll_recv oneshot_channel 3) :: nat oneshot"
  have p: "oneshot_poll_recv oneshot_channel 3 = (?s1, Pending)" and "os_tx ?s1"
    by (simp_all add: oneshot_channel_def oneshot_defs)
  then have run: "wake_run oneshot_step ?s1 (fst (oneshot_drop_sender ?s1)) (snd (oneshot_drop_sender ?s1))"
    by (intro wake_run_single oneshot_step.drop_sender) simp_all
  have r: "snd (oneshot_poll_recv (fst (oneshot_drop_sender ?s1)) 4) = Ready (Inl Canceled)"
    by (simp add: oneshot_channel_def oneshot_defs)
  then show ?thesis using oneshot_no_lost_wakeup [OF p run, of 4] by simp
qed

section \<open>One-place channel\<close>

record 'a inplace =
  ip_value :: "'a option"
  ip_rx_task :: local_waker

definition inplace_channel :: "'a inplace" where
  "inplace_channel = \<lparr>ip_value = None, ip_rx_task = lw_new\<rparr>"

definition inplace_send :: "'a inplace \<Rightarrow> 'a \<Rightarrow> 'a inplace \<times> ('a + unit) \<times> task list" where
  "inplace_send s val =
     (case ip_value s of
        Some v \<Rightarrow> (s\<lparr>ip_value := Some v\<rparr>, Inl val, [])
      | None \<Rightarrow> let (w, woken) = lw_wake (ip_rx_task s)
                in (s\<lparr>ip_value := Some val, ip_rx_task := w\<rparr>, Inr (), woken))"

definition inplace_poll_recv :: "'a inplace \<Rightarrow> task \<Rightarrow> 'a inplace \<times> 'a poll" where
  "inplace_poll_recv s cx =
     (case ip_value s of
        Some val \<Rightarrow> (s\<lparr>ip_value := None\<rparr>, Ready val)
      | None \<Rightarrow> (s\<lparr>ip_rx_task := fst (lw_register (ip_rx_task s) cx)\<rparr>, Pending))"

definition inplace_step :: "'a inplace \<Rightarrow> 'a inplace \<Rightarrow> task list \<Rightarrow> bool" where
  "inplace_step s s' ws \<longleftrightarrow> (\<exists>val r. inplace_send s val = (s', r, ws))"

interpretation ip: wake_safe inplace_step ip_rx_task "\<lambda>s. ip_value s \<noteq> None"
  by unfold_locales (auto simp: inplace_step_def inplace_send_def)

text \<open>The one-place channel holds at most one value and drops none: a \<open>send\<close> into a full channel returns its value
  and leaves the stored one to be received; a \<open>send\<close> into an empty one stores its value for the next poll; and a task
  whose poll was pending is woken before a poll can return.\<close>

theorem inplace_bounded_one:
  assumes "inplace_poll_recv s0 cx0 = (s1, Pending)" and "wake_run inplace_step s1 s ws"
  shows "(case ip_value s of
       Some v \<Rightarrow> inplace_send s val = (s, Inl val, []) \<and> snd (inplace_poll_recv s cx) = Ready v \<and> cx0 \<in> set ws
     | None \<Rightarrow> snd (inplace_poll_recv (fst (inplace_send s val)) cx) = Ready val
         \<and> snd (inplace_poll_recv s cx) = Pending)"
proof -
  have "ip_rx_task s1 = Some cx0" "ip_value s1 = None"
    using assms(1) by (auto simp: inplace_poll_recv_def split: option.splits)
  with ip.no_lost_wakeup [OF assms(2)] show ?thesis
    by (auto simp: inplace_send_def inplace_poll_recv_def case_prod_beta split: option.split)
qed

theorem inplace_bounded_one_witness:
  "inplace_send (fst (inplace_send (fst (inplace_poll_recv inplace_channel 3)) (1 :: nat))) 2
     = (fst (inplace_send (fst (inplace_poll_recv inplace_channel 3)) 1), Inl 2, [])"
proof -
  let ?s1 = "fst (inplace_poll_recv inplace_channel 3) :: nat inplace" and ?s = "fst (inplace_send (fst (inplace_poll_recv inplace_channel 3)) (1 :: nat))"
  have p: "inplace_poll_recv inplace_channel 3 = (?s1, Pending)" and v: "ip_value ?s = Some 1"
    by (simp_all add: inplace_channel_def inplace_poll_recv_def inplace_send_def)
  have "wake_run inplace_step ?s1 ?s (snd (snd (inplace_send ?s1 1)))"
    by (intro wake_run_single) (auto simp: inplace_step_def intro!: exI [of _ 1] prod_eqI)
  from inplace_bounded_one [OF p this, of 2] v show ?thesis by simp
qed

end
