(* ===== verification/Mpsc.thy ===== *)
theory Mpsc
  imports Wakeup "HOL-Library.Sublist"
begin

text \<open>
  The unbounded multi-producer, single-consumer queue of \<open>geario/src/util/channel/mpsc.rs\<close>. The handles share
  the queue through a reference count, modelled by the number of live senders and the flag of the receiver:
  their sum is the \<open>strong_count\<close> of the code. Results are returned together with the tasks that were woken.
\<close>

section \<open>The queue\<close>

record 'a mpsc =
  mp_buffer :: "'a list"
  mp_blocked_recv :: local_waker
  mp_has_receiver :: bool
  mp_senders :: nat
  mp_receiver :: bool

definition mpsc_strong_count :: "'a mpsc \<Rightarrow> nat" where
  "mpsc_strong_count s = mp_senders s + of_bool (mp_receiver s)"

definition mpsc_channel :: "'a mpsc" where
  "mpsc_channel = \<lparr>mp_buffer = [], mp_blocked_recv = lw_new, mp_has_receiver = True, mp_senders = 1, mp_receiver = True\<rparr>"

definition mpsc_send :: "'a mpsc \<Rightarrow> 'a \<Rightarrow> 'a mpsc \<times> ('a + unit) \<times> task list" where
  "mpsc_send s item =
     (if \<not> mp_has_receiver s then (s, Inl item, [])
      else let (w, woken) = lw_wake (mp_blocked_recv s)
           in (s\<lparr>mp_buffer := mp_buffer s @ [item], mp_blocked_recv := w\<rparr>, Inr (), woken))"

definition mpsc_sender_close :: "'a mpsc \<Rightarrow> 'a mpsc \<times> task list" where
  "mpsc_sender_close s =
     (let (w, woken) = lw_wake (mp_blocked_recv s)
      in (s\<lparr>mp_has_receiver := False, mp_blocked_recv := w\<rparr>, woken))"

definition mpsc_is_closed :: "'a mpsc \<Rightarrow> bool" where
  "mpsc_is_closed s \<longleftrightarrow> mpsc_strong_count s = 1 \<or> \<not> mp_has_receiver s"

definition mpsc_clone_sender :: "'a mpsc \<Rightarrow> 'a mpsc" where
  "mpsc_clone_sender s = s\<lparr>mp_senders := Suc (mp_senders s)\<rparr>"

definition mpsc_drop_sender :: "'a mpsc \<Rightarrow> 'a mpsc \<times> task list" where
  "mpsc_drop_sender s =
     (if mp_has_receiver s \<and> mpsc_strong_count s = 2
      then let (w, woken) = lw_wake (mp_blocked_recv s)
           in (s\<lparr>mp_blocked_recv := w, mp_senders := mp_senders s - 1\<rparr>, woken)
      else (s\<lparr>mp_senders := mp_senders s - 1\<rparr>, []))"

definition mpsc_sender :: "'a mpsc \<Rightarrow> 'a mpsc" where
  "mpsc_sender s = s\<lparr>mp_senders := Suc (mp_senders s)\<rparr>"

definition mpsc_receiver_close :: "'a mpsc \<Rightarrow> 'a mpsc" where
  "mpsc_receiver_close s = s\<lparr>mp_has_receiver := False\<rparr>"

definition mpsc_poll_recv :: "'a mpsc \<Rightarrow> task \<Rightarrow> 'a mpsc \<times> 'a option poll" where
  "mpsc_poll_recv s cx =
     (case mp_buffer s of
        msg # rest \<Rightarrow> (s\<lparr>mp_buffer := rest\<rparr>, Ready (Some msg))
      | [] \<Rightarrow>
          if mp_has_receiver s
          then let s1 = s\<lparr>mp_blocked_recv := fst (lw_register (mp_blocked_recv s) cx)\<rparr>
               in if mpsc_strong_count s1 = 1 then (s1, Ready None) else (s1, Pending)
          else (s, Ready None))"

definition mpsc_drop_receiver :: "'a mpsc \<Rightarrow> 'a mpsc" where
  "mpsc_drop_receiver s = s\<lparr>mp_buffer := [], mp_has_receiver := False, mp_receiver := False\<rparr>"

lemmas mpsc_defs = mpsc_strong_count_def mpsc_send_def mpsc_sender_close_def mpsc_clone_sender_def mpsc_drop_sender_def
  mpsc_sender_def mpsc_receiver_close_def mpsc_poll_recv_def mpsc_drop_receiver_def

section \<open>First in, first out\<close>

text \<open>A history of the channel: the calls in their order, over all handles. The log holds the items that \<open>send\<close>
  accepted and the items that polls returned.\<close>

datatype 'a mpsc_call = Send 'a | CloseSender | CloneSender | DropSender | NewSender | CloseReceiver | PollRecv task
  | DropReceiver

fun mpsc_do :: "'a mpsc_call \<Rightarrow> 'a mpsc \<Rightarrow> 'a mpsc \<times> 'a list \<times> 'a list" where
  "mpsc_do (Send x) s = (case mpsc_send s x of (s', Inr _, _) \<Rightarrow> (s', [x], []) | (s', Inl _, _) \<Rightarrow> (s', [], []))"
| "mpsc_do CloseSender s = (fst (mpsc_sender_close s), [], [])"
| "mpsc_do CloneSender s = (mpsc_clone_sender s, [], [])"
| "mpsc_do DropSender s = (fst (mpsc_drop_sender s), [], [])"
| "mpsc_do NewSender s = (mpsc_sender s, [], [])"
| "mpsc_do CloseReceiver s = (mpsc_receiver_close s, [], [])"
| "mpsc_do (PollRecv cx) s =
     (case mpsc_poll_recv s cx of (s', Ready (Some x)) \<Rightarrow> (s', [], [x]) | (s', _) \<Rightarrow> (s', [], []))"
| "mpsc_do DropReceiver s = (mpsc_drop_receiver s, [], [])"

fun mpsc_calls :: "'a mpsc_call list \<Rightarrow> 'a mpsc \<Rightarrow> 'a mpsc \<times> 'a list \<times> 'a list" where
  "mpsc_calls [] s = (s, [], [])"
| "mpsc_calls (c # cs) s =
     (let (s1, acc1, rcv1) = mpsc_do c s; (s2, acc2, rcv2) = mpsc_calls cs s1 in (s2, acc1 @ acc2, rcv1 @ rcv2))"

lemma mpsc_do_fifo:
  assumes "mpsc_do c s = (s', acc, rcv)"
  shows "if c = DropReceiver then acc = [] \<and> rcv = [] \<and> mp_buffer s' = [] \<and> \<not> mp_has_receiver s'
    else mp_buffer s @ acc = rcv @ mp_buffer s' \<and> (\<not> mp_has_receiver s \<longrightarrow> acc = [] \<and> \<not> mp_has_receiver s')"
  using assms
  by (cases c) (auto simp: mpsc_defs case_prod_beta Let_def split: if_splits list.splits)

lemma mpsc_calls_closed:
  assumes "mpsc_calls cs s = (s', acc, rcv)" "\<not> mp_has_receiver s" shows "acc = [] \<and> prefix rcv (mp_buffer s)"
  using assms
proof (induction cs arbitrary: s s' acc rcv)
  case (Cons c cs)
  obtain s1 acc1 rcv1 where 1: "mpsc_do c s = (s1, acc1, rcv1)" by (cases "mpsc_do c s")
  obtain s2 acc2 rcv2 where 2: "mpsc_calls cs s1 = (s2, acc2, rcv2)" by (cases "mpsc_calls cs s1")
  have "\<not> mp_has_receiver s1" using mpsc_do_fifo [OF 1] Cons.prems(2) by (auto split: if_splits)
  from Cons.IH [OF 2 this] mpsc_do_fifo [OF 1] Cons.prems 1 2 show ?case
    by (auto simp: prefix_def split: if_splits)
qed simp

lemma mpsc_calls_fifo:
  assumes "mpsc_calls cs s = (s', acc, rcv)"
  shows "prefix rcv (mp_buffer s @ acc) \<and> (DropReceiver \<notin> set cs \<longrightarrow> mp_buffer s @ acc = rcv @ mp_buffer s')"
  using assms
proof (induction cs arbitrary: s s' acc rcv)
  case (Cons c cs)
  obtain s1 acc1 rcv1 where 1: "mpsc_do c s = (s1, acc1, rcv1)" by (cases "mpsc_do c s")
  obtain s2 acc2 rcv2 where 2: "mpsc_calls cs s1 = (s2, acc2, rcv2)" by (cases "mpsc_calls cs s1")
  have eq: "acc = acc1 @ acc2" "rcv = rcv1 @ rcv2" "s' = s2" using Cons.prems 1 2 by simp_all
  show ?case
  proof (cases "c = DropReceiver")
    case True
    then have "acc1 = [] \<and> rcv1 = [] \<and> mp_buffer s1 = [] \<and> \<not> mp_has_receiver s1" using mpsc_do_fifo [OF 1] by simp
    with mpsc_calls_closed [OF 2] True show ?thesis by (simp add: eq)
  next
    case False
    then have "mp_buffer s @ acc1 = rcv1 @ mp_buffer s1" using mpsc_do_fifo [OF 1] by simp
    then have f: "mp_buffer s @ acc = rcv1 @ mp_buffer s1 @ acc2" by (simp add: eq(1) flip: append_assoc)
    show ?thesis unfolding f eq(2,3) using Cons.IH [OF 2] False by auto
  qed
qed simp

text \<open>C23. The queue is first in, first out and loses nothing. Over any history of calls on any number of senders, the
  items received are a prefix of the items \<open>send\<close> accepted, in the same order; until the receiver is dropped the
  rest of them is exactly what the buffer holds.\<close>

theorem mpsc_fifo:
  "let (s, acc, rcv) = mpsc_calls cs mpsc_channel
   in prefix rcv acc \<and> (DropReceiver \<in> set cs \<or> acc = rcv @ mp_buffer s)"
  using mpsc_calls_fifo [of cs mpsc_channel] by (cases "mpsc_calls cs mpsc_channel") (auto simp: mpsc_channel_def)

section \<open>Wake-ups\<close>

text \<open>What happens on other handles while the receiver waits.\<close>

inductive mpsc_step :: "'a mpsc \<Rightarrow> 'a mpsc \<Rightarrow> task list \<Rightarrow> bool" where
  send: "mpsc_send s x = (s', r, ws) \<Longrightarrow> mp_senders s > 0 \<Longrightarrow> mpsc_step s s' ws"
| sender_close: "mpsc_sender_close s = (s', ws) \<Longrightarrow> mp_senders s > 0 \<Longrightarrow> mpsc_step s s' ws"
| clone_sender: "mpsc_clone_sender s = s' \<Longrightarrow> mp_senders s > 0 \<Longrightarrow> mpsc_step s s' []"
| drop_sender: "mpsc_drop_sender s = (s', ws) \<Longrightarrow> mp_senders s > 0 \<Longrightarrow> mpsc_step s s' ws"
| new_sender: "mpsc_sender s = s' \<Longrightarrow> mpsc_step s s' []"

definition mpsc_ready :: "'a mpsc \<Rightarrow> bool" where
  "mpsc_ready s \<longleftrightarrow> mp_buffer s \<noteq> [] \<or> \<not> mp_has_receiver s \<or> mpsc_strong_count s = 1"

text \<open>The count is exact only while the receiver exists, so the waiting task counts as waiting then.\<close>

definition mpsc_waiting :: "'a mpsc \<Rightarrow> task option" where
  "mpsc_waiting s = (if mp_receiver s then mp_blocked_recv s else None)"

interpretation mpsc_rx: wake_safe mpsc_step mpsc_waiting mpsc_ready
proof
  fix s s' :: "'a mpsc" and ws w
  assume "mpsc_step s s' ws" "mpsc_waiting s = Some w" "\<not> mpsc_ready s"
  then show "mpsc_waiting s' = Some w \<and> \<not> mpsc_ready s' \<or> w \<in> set ws"
    by cases (auto simp: mpsc_defs mpsc_ready_def mpsc_waiting_def split: if_splits)
qed

lemma mpsc_poll_ready_iff: "snd (mpsc_poll_recv s cx) \<noteq> Pending \<longleftrightarrow> mpsc_ready s"
  by (auto simp: mpsc_defs mpsc_ready_def Let_def split: list.split)

lemma mpsc_poll_pending:
  assumes "mpsc_poll_recv s cx = (s1, Pending)" "mp_receiver s"
  shows "mpsc_waiting s1 = Some cx \<and> \<not> mpsc_ready s1"
  using assms by (auto simp: mpsc_defs mpsc_ready_def mpsc_waiting_def Let_def split: list.splits if_splits)

text \<open>C16. The queue loses no wake-up from its senders: when a poll of the receiver was pending for task \<open>cx\<close> and after
  any sends, closes, clones and drops of senders a poll would return, then \<open>cx\<close> has been woken.\<close>

theorem mpsc_no_lost_wakeup:
  assumes "mpsc_poll_recv s cx = (s1, Pending)" and "mp_receiver s" and "wake_run mpsc_step s1 s2 ws"
    and "snd (mpsc_poll_recv s2 cx') \<noteq> Pending"
  shows "cx \<in> set ws"
  using mpsc_rx.no_lost_wakeup [OF assms(3)] mpsc_poll_pending [OF assms(1,2)] assms(4)
  by (simp add: mpsc_poll_ready_iff)

theorem mpsc_no_lost_wakeup_witness:
  "let s1 = fst (mpsc_poll_recv (mpsc_channel :: nat mpsc) 3); (s2, ws) = mpsc_drop_sender s1
   in snd (mpsc_poll_recv s2 4) = Ready None \<and> 3 \<in> set ws"
proof -
  let ?s1 = "fst (mpsc_poll_recv (mpsc_channel :: nat mpsc) 3)"
  have p: "mpsc_poll_recv mpsc_channel 3 = (?s1, Pending)" "mp_receiver (mpsc_channel :: nat mpsc)" "mp_senders ?s1 > 0"
    and r: "snd (mpsc_poll_recv (fst (mpsc_drop_sender ?s1)) 4) = Ready None"
    by (simp_all add: mpsc_channel_def mpsc_defs)
  have run: "wake_run mpsc_step ?s1 (fst (mpsc_drop_sender ?s1)) (snd (mpsc_drop_sender ?s1))"
    by (intro wake_run_single mpsc_step.drop_sender) (simp_all add: p(3))
  from mpsc_no_lost_wakeup [OF p(1,2) run, of 4] r show ?thesis by (simp add: case_prod_beta Let_def)
qed

text \<open>\<open>Receiver::close\<close> is the exception: it ends the stream without waking a receive that is pending, and after it
  neither a \<open>send\<close> nor the drop of any sender wakes that task, although a poll would now return.\<close>

theorem mpsc_receiver_close_wakes_nobody:
  assumes "mpsc_poll_recv s cx = (s1, Pending)"
  shows "let s2 = mpsc_receiver_close s1
    in mp_blocked_recv s2 = Some cx \<and> snd (mpsc_poll_recv s2 cx') = Ready None
       \<and> snd (snd (mpsc_send s2 x)) = [] \<and> snd (mpsc_drop_sender s2) = []"
  using assms by (auto simp: mpsc_defs Let_def split: list.splits if_splits)

theorem mpsc_receiver_close_wakes_nobody_witness:
  "snd (mpsc_poll_recv (mpsc_receiver_close (fst (mpsc_poll_recv (mpsc_channel :: nat mpsc) 3))) 4) = Ready None
   \<and> snd (mpsc_drop_sender (mpsc_receiver_close (fst (mpsc_poll_recv (mpsc_channel :: nat mpsc) 3)))) = []"
proof -
  have "mpsc_poll_recv mpsc_channel 3 = (fst (mpsc_poll_recv (mpsc_channel :: nat mpsc) 3), Pending)"
    by (simp add: mpsc_channel_def mpsc_defs)
  from mpsc_receiver_close_wakes_nobody [OF this, of 4] show ?thesis by (simp add: Let_def)
qed

end
