(* ===== verification/Condition.thy ===== *)
theory Condition
  imports Wakeup
begin

text \<open>
  The condition of \<open>geario/src/util/channel/condition.rs\<close>: any number of waiters, each an entry of a slab, that a
  notification wakes and may hand a value. An entry is empty until its waiter has been polled once; after that
  its waker is set while it waits and empty once it has been notified. \<open>dflt\<close> is the default value of the type.
  \<open>None\<close> is a panic or an access to an entry that does not exist.
\<close>

record 'v cond_item =
  ci_val :: 'v
  ci_waker :: local_waker

record 'v condition =
  cd_data :: "'v cond_item option slab"
  cd_ready :: bool
  cd_count :: nat

definition condition_new :: "'v condition" where
  "condition_new = \<lparr>cd_data = [], cd_ready = False, cd_count = 1\<rparr>"

definition condition_clone :: "'v condition \<Rightarrow> 'v condition" where
  "condition_clone c = c\<lparr>cd_count := Suc (cd_count c)\<rparr>"

definition condition_wait :: "nat \<Rightarrow> 'v condition \<Rightarrow> 'v condition \<times> nat" where
  "condition_wait k c = (c\<lparr>cd_data := slab_put (cd_data c) k None\<rparr>, k)"

definition item_wakes :: "'v cond_item option \<Rightarrow> task list" where
  "item_wakes it = (case it of None \<Rightarrow> [] | Some i \<Rightarrow> lw_woken (ci_waker i))"

definition condition_notify :: "'v condition \<Rightarrow> 'v condition \<times> task list" where
  "condition_notify c =
     (c\<lparr>cd_data := slab_map (map_option (\<lambda>i. i\<lparr>ci_waker := fst (lw_wake (ci_waker i))\<rparr>)) (cd_data c)\<rparr>,
      concat (map item_wakes (slab_values (cd_data c))))"

definition condition_notify_and_lock_readiness :: "'v condition \<Rightarrow> 'v condition \<times> task list" where
  "condition_notify_and_lock_readiness c = condition_notify (c\<lparr>cd_ready := True\<rparr>)"

definition item_notify_with :: "'v \<Rightarrow> 'v cond_item \<Rightarrow> 'v cond_item" where
  "item_notify_with val i =
     (case lw_wake_checked (ci_waker i) of
        (w, _, woken) \<Rightarrow> if woken then i\<lparr>ci_waker := w, ci_val := val\<rparr> else i\<lparr>ci_waker := w\<rparr>)"

definition condition_notify_with :: "'v \<Rightarrow> 'v condition \<Rightarrow> 'v condition \<times> task list" where
  "condition_notify_with val c =
     (c\<lparr>cd_data := slab_map (map_option (item_notify_with val)) (cd_data c)\<rparr>,
      concat (map item_wakes (slab_values (cd_data c))))"

definition condition_notify_with_and_lock_readiness :: "'v \<Rightarrow> 'v condition \<Rightarrow> 'v condition \<times> task list" where
  "condition_notify_with_and_lock_readiness val c = condition_notify_with val (c\<lparr>cd_ready := True\<rparr>)"

definition condition_drop :: "'v condition \<Rightarrow> 'v condition \<times> task list" where
  "condition_drop c =
     (let c1 = c\<lparr>cd_count := cd_count c - 1\<rparr>
      in if cd_count c1 = 0 then condition_notify_and_lock_readiness c1 else (c1, []))"

definition waiter_poll_ready :: "'v \<Rightarrow> nat \<Rightarrow> task \<Rightarrow> 'v condition \<Rightarrow> ('v condition \<times> 'v poll) option" where
  "waiter_poll_ready dflt token cx c = do {
     inner \<leftarrow> slab_get (cd_data c) token;
     let locked = (if cd_ready c then Ready dflt else Pending);
     case inner of
       None \<Rightarrow>
         Some (c\<lparr>cd_data := slab_put (cd_data c) token
                  (Some \<lparr>ci_val = dflt, ci_waker = fst (lw_register lw_new cx)\<rparr>)\<rparr>, locked)
     | Some item \<Rightarrow>
         (case lw_register (ci_waker item) cx of
            (w, was_set) \<Rightarrow>
              if \<not> was_set
              then Some (c\<lparr>cd_data := slab_put (cd_data c) token (Some (item\<lparr>ci_waker := w, ci_val := dflt\<rparr>))\<rparr>,
                         Ready (ci_val item))
              else Some (c\<lparr>cd_data := slab_put (cd_data c) token (Some (item\<lparr>ci_waker := w\<rparr>))\<rparr>, locked))
   }"

definition waiter_clone :: "nat \<Rightarrow> 'v condition \<Rightarrow> 'v condition \<times> nat" where
  "waiter_clone k c = (c\<lparr>cd_data := slab_put (cd_data c) k None\<rparr>, k)"

definition waiter_drop :: "nat \<Rightarrow> 'v condition \<Rightarrow> 'v condition option" where
  "waiter_drop token c = do {
     _ \<leftarrow> slab_get (cd_data c) token;
     Some (c\<lparr>cd_data := slab_del (cd_data c) token\<rparr>)
   }"

lemmas condition_defs = condition_clone_def condition_wait_def condition_notify_def condition_notify_and_lock_readiness_def
  condition_notify_with_def condition_notify_with_and_lock_readiness_def condition_drop_def waiter_poll_ready_def
  waiter_clone_def waiter_drop_def item_notify_with_def

section \<open>Wake-ups\<close>

text \<open>What the other handles may do while waiter \<open>tok\<close> waits: everything but touch its own entry.\<close>

inductive condition_step :: "'v \<Rightarrow> nat \<Rightarrow> 'v condition \<Rightarrow> 'v condition \<Rightarrow> task list \<Rightarrow> bool" for dflt tok where
  clone: "condition_clone c = c' \<Longrightarrow> condition_step dflt tok c c' []"
| wait: "condition_wait k c = (c', k') \<Longrightarrow> slab_get (cd_data c) k = None \<Longrightarrow> condition_step dflt tok c c' []"
| notify: "condition_notify c = (c', ws) \<Longrightarrow> condition_step dflt tok c c' ws"
| lock: "condition_notify_and_lock_readiness c = (c', ws) \<Longrightarrow> condition_step dflt tok c c' ws"
| notify_with: "condition_notify_with v c = (c', ws) \<Longrightarrow> condition_step dflt tok c c' ws"
| lock_with: "condition_notify_with_and_lock_readiness v c = (c', ws) \<Longrightarrow> condition_step dflt tok c c' ws"
| drop: "condition_drop c = (c', ws) \<Longrightarrow> condition_step dflt tok c c' ws"
| poll_other: "waiter_poll_ready dflt k cx c = Some (c', r) \<Longrightarrow> k \<noteq> tok \<Longrightarrow> condition_step dflt tok c c' []"
| clone_other: "waiter_clone k c = (c', k') \<Longrightarrow> slab_get (cd_data c) k = None \<Longrightarrow> condition_step dflt tok c c' []"
| drop_other: "waiter_drop k c = Some c' \<Longrightarrow> k \<noteq> tok \<Longrightarrow> condition_step dflt tok c c' []"

definition condition_waiting :: "nat \<Rightarrow> 'v condition \<Rightarrow> task option" where
  "condition_waiting tok c = (case slab_get (cd_data c) tok of Some (Some i) \<Rightarrow> ci_waker i | _ \<Rightarrow> None)"

definition condition_ready :: "nat \<Rightarrow> 'v condition \<Rightarrow> bool" where
  "condition_ready tok c \<longleftrightarrow> cd_ready c \<or>
     (case slab_get (cd_data c) tok of Some (Some i) \<Rightarrow> ci_waker i = None | _ \<Rightarrow> False)"

lemma notify_wakes:
  assumes "condition_waiting tok c = Some w"
  shows "w \<in> set (concat (map item_wakes (slab_values (cd_data c))))"
proof -
  obtain i where i: "slab_get (cd_data c) tok = Some (Some i)" "ci_waker i = Some w"
    using assms by (auto simp: condition_waiting_def split: option.splits)
  then have "Some i \<in> set (slab_values (cd_data c))" by (auto simp: slab_values_iff)
  moreover have "w \<in> set (item_wakes (Some i))" using i(2) by (simp add: item_wakes_def)
  ultimately show ?thesis by auto
qed

interpretation cond: wake_safe "condition_step dflt tok" "condition_waiting tok" "condition_ready tok" for dflt tok
proof
  fix c c' :: "'a condition" and ws w
  assume step: "condition_step dflt tok c c' ws" and w: "condition_waiting tok c = Some w" "\<not> condition_ready tok c"
  have tok: "slab_get (cd_data c) tok \<noteq> None" using w(1) by (auto simp: condition_waiting_def split: option.splits)
  from step show "condition_waiting tok c' = Some w \<and> \<not> condition_ready tok c' \<or> w \<in> set ws"
    using notify_wakes [OF w(1)] w tok
    by cases (auto simp: condition_defs condition_waiting_def condition_ready_def Let_def case_prod_beta
        split: if_splits option.splits bind_splits)
qed

lemma condition_poll_ready_iff:
  assumes "slab_get (cd_data c) tok = Some e"
  shows "map_option (\<lambda>r. snd r \<noteq> Pending) (waiter_poll_ready dflt tok cx c) = Some (condition_ready tok c)"
  using assms by (auto simp: waiter_poll_ready_def condition_ready_def lw_register_def Let_def split: option.split)

lemma condition_poll_pending:
  assumes "waiter_poll_ready dflt tok cx c = Some (c1, Pending)"
  shows "condition_waiting tok c1 = Some cx \<and> \<not> condition_ready tok c1"
  using assms
  by (auto simp: waiter_poll_ready_def condition_waiting_def condition_ready_def lw_register_def Let_def
      split: option.splits bind_splits if_splits)

lemma condition_notify_wakes_set:
  "set (concat (map item_wakes (slab_values (cd_data c)))) = {w. \<exists>k. condition_waiting k c = Some w}" (is "?L = ?R")
proof
  show "?L \<subseteq> ?R"
    by (fastforce simp: slab_values_iff item_wakes_def condition_waiting_def lw_wake_def lw_take_def split: option.splits)
  show "?R \<subseteq> ?L" using notify_wakes by blast
qed

text \<open>Notifying with a value wakes exactly the tasks of the waiters that wait and hands each of them the value once.
  For any waiter \<open>tok\<close> of a condition that is not locked ready: its next poll returns \<open>val\<close> if it was waiting, returns the
  value of the earlier notification if it had one it did not collect yet, and is pending if the waiter had never been
  polled; every poll after that is pending again.\<close>

theorem condition_notify_with_delivers:
  assumes "condition_notify_with val c = (c', ws)" and "slab_get (cd_data c) tok = Some e" and "\<not> cd_ready c"
  shows "set ws = {w. \<exists>k. condition_waiting k c = Some w}
    \<and> (\<exists>c''. waiter_poll_ready dflt tok cx c' = Some (c'',
          case e of None \<Rightarrow> Pending
          | Some i \<Rightarrow> Ready (if ci_waker i = None then ci_val i else val))
        \<and> map_option snd (waiter_poll_ready dflt tok cx' c'') = Some Pending)"
proof -
  have c': "c' = c\<lparr>cd_data := slab_map (map_option (item_notify_with val)) (cd_data c)\<rparr>"
    and ws: "ws = concat (map item_wakes (slab_values (cd_data c)))"
    using assms(1) by (simp_all add: condition_notify_with_def)
  show ?thesis unfolding ws condition_notify_wakes_set using assms(2,3)
    by (auto simp: c' waiter_poll_ready_def item_notify_with_def lw_register_def split: option.split)
qed

theorem condition_notify_with_delivers_witness:
  "let c = \<lparr>cd_data = [Some (Some \<lparr>ci_val = 0, ci_waker = Some 8\<rparr>), Some None], cd_ready = False, cd_count = 1\<rparr>
   in set (snd (condition_notify_with (5 :: nat) c)) = {w. \<exists>k. condition_waiting k c = Some w}
    \<and> snd (condition_notify_with 5 c) = [8]
    \<and> map_option snd (waiter_poll_ready 0 0 9 (fst (condition_notify_with 5 c))) = Some (Ready 5)"
proof -
  let ?c = "\<lparr>cd_data = [Some (Some \<lparr>ci_val = 0 :: nat, ci_waker = Some 8\<rparr>), Some None], cd_ready = False, cd_count = 1\<rparr>"
  have g: "slab_get (cd_data ?c) 0 = Some (Some \<lparr>ci_val = 0, ci_waker = Some 8\<rparr>)" "\<not> cd_ready ?c"
    by (simp_all add: slab_get_def)
  have w: "snd (condition_notify_with 5 ?c) = [8]"
    by (simp add: condition_notify_with_def slab_values_def item_wakes_def map_filter_def)
  from condition_notify_with_delivers [OF prod.collapse [symmetric] g, of 5 0 9 9] w show ?thesis
    by (auto simp: Let_def)
qed

section \<open>The last condition handle\<close>

text \<open>The waiters and the condition after its last handle is gone: waiters are polled, cloned and dropped.\<close>

inductive waiter_run :: "'v \<Rightarrow> 'v condition \<Rightarrow> 'v condition \<Rightarrow> bool" for dflt where
  refl: "waiter_run dflt c c"
| poll: "waiter_run dflt c c1 \<Longrightarrow> waiter_poll_ready dflt k cx c1 = Some (c2, r) \<Longrightarrow> waiter_run dflt c c2"
| clone: "waiter_run dflt c c1 \<Longrightarrow> waiter_clone k c1 = (c2, k') \<Longrightarrow> waiter_run dflt c c2"
| drop: "waiter_run dflt c c1 \<Longrightarrow> waiter_drop k c1 = Some c2 \<Longrightarrow> waiter_run dflt c c2"

lemma waiter_run_keeps_ready: "waiter_run dflt c c' \<Longrightarrow> cd_ready c' = cd_ready c"
  by (induction rule: waiter_run.induct)
    (auto simp: waiter_poll_ready_def waiter_clone_def waiter_drop_def Let_def split: option.splits bind_splits prod.splits if_splits)



end
