(* ===== verification/Pool.thy ===== *)
theory Pool
  imports Oneshot
begin

text \<open>
  The pool of one-shot channels of \<open>geario/src/util/channel/pool.rs\<close>: all channels of a pool are entries of one slab, and
  a sender and a receiver are a token of it. The entries are read without a bounds check, so the results are
  options with \<open>None\<close> for an access to an entry that does not exist; the invariant shows that it never happens and that
  an entry lives exactly as long as one of its two handles.
\<close>

abbreviation POOL_SENDER :: u8 where "POOL_SENDER \<equiv> flag 0"
abbreviation POOL_RECEIVER :: u8 where "POOL_RECEIVER \<equiv> flag 1"

record 'a pool_inner =
  pi_flags :: u8
  pi_value :: "'a option"
  pi_tx_waker :: local_waker
  pi_rx_waker :: local_waker

type_synonym 'a pool = "'a pool_inner slab"

definition pool_new :: "'a pool" where
  "pool_new = []"

definition pool_channel :: "nat \<Rightarrow> 'a pool \<Rightarrow> 'a pool" where
  "pool_channel token p =
     slab_put p token \<lparr>pi_flags = POOL_SENDER OR POOL_RECEIVER, pi_value = None, pi_tx_waker = lw_new, pi_rx_waker = lw_new\<rparr>"

definition pool_is_canceled :: "nat \<Rightarrow> 'a pool \<Rightarrow> bool option" where
  "pool_is_canceled token p = map_option (\<lambda>i. \<not> fl_contains (pi_flags i) POOL_RECEIVER) (slab_get p token)"

definition pool_poll_canceled :: "nat \<Rightarrow> task \<Rightarrow> 'a pool \<Rightarrow> ('a pool \<times> unit poll) option" where
  "pool_poll_canceled token cx p = do {
     i \<leftarrow> slab_get p token;
     if fl_contains (pi_flags i) POOL_RECEIVER
     then Some (slab_put p token (i\<lparr>pi_tx_waker := fst (lw_register (pi_tx_waker i) cx)\<rparr>), Pending)
     else Some (p, Ready ())
   }"

definition pool_drop_sender :: "nat \<Rightarrow> 'a pool \<Rightarrow> ('a pool \<times> task list) option" where
  "pool_drop_sender token p = do {
     i \<leftarrow> slab_get p token;
     if fl_contains (pi_flags i) POOL_RECEIVER
     then case lw_wake (pi_rx_waker i) of
       (w, ws) \<Rightarrow> Some (slab_put p token (i\<lparr>pi_rx_waker := w, pi_flags := fl_remove (pi_flags i) POOL_SENDER\<rparr>), ws)
     else Some (slab_del p token, [])
   }"

text \<open>\<open>send\<close> consumes the sender: the drop of the sender is its last effect.\<close>

definition pool_send :: "nat \<Rightarrow> 'a \<Rightarrow> 'a pool \<Rightarrow> ('a pool \<times> ('a + unit) \<times> task list) option" where
  "pool_send token val p = do {
     i \<leftarrow> slab_get p token;
     let (p1, r, ws1) =
       (if fl_contains (pi_flags i) POOL_RECEIVER
        then case lw_wake (pi_rx_waker i) of
          (w, ws) \<Rightarrow> (slab_put p token (i\<lparr>pi_value := Some val, pi_rx_waker := w\<rparr>), Inr (), ws)
        else (p, Inl val, []));
     (p2, ws2) \<leftarrow> pool_drop_sender token p1;
     Some (p2, r, ws1 @ ws2)
   }"

definition pool_poll_recv :: "nat \<Rightarrow> task \<Rightarrow> 'a pool \<Rightarrow> ('a pool \<times> (canceled + 'a) poll) option" where
  "pool_poll_recv token cx p = do {
     i \<leftarrow> slab_get p token;
     case pi_value i of
       Some val \<Rightarrow> Some (slab_put p token (i\<lparr>pi_value := None\<rparr>), Ready (Inr val))
     | None \<Rightarrow>
         if fl_contains (pi_flags i) POOL_SENDER
         then Some (slab_put p token (i\<lparr>pi_rx_waker := fst (lw_register (pi_rx_waker i) cx)\<rparr>), Pending)
         else Some (p, Ready (Inl Canceled))
   }"

definition pool_drop_receiver :: "nat \<Rightarrow> 'a pool \<Rightarrow> ('a pool \<times> task list) option" where
  "pool_drop_receiver token p = do {
     i \<leftarrow> slab_get p token;
     if fl_contains (pi_flags i) POOL_SENDER
     then case lw_wake (pi_tx_waker i) of
       (w, ws) \<Rightarrow> Some (slab_put p token (i\<lparr>pi_tx_waker := w, pi_flags := fl_remove (pi_flags i) POOL_RECEIVER\<rparr>), ws)
     else Some (slab_del p token, [])
   }"

lemmas pool_defs = pool_channel_def pool_poll_canceled_def pool_drop_sender_def pool_send_def pool_poll_recv_def
  pool_drop_receiver_def

section \<open>Entries and handles\<close>

text \<open>A pool with the tokens of the live senders and of the live receivers, and what a program may do with them. \<open>channel\<close>
  gets a token that the slab does not use; the other operations need a live handle.\<close>

inductive pool_reachable :: "'a pool \<Rightarrow> nat set \<Rightarrow> nat set \<Rightarrow> bool" where
  new: "pool_reachable pool_new {} {}"
| channel: "\<lbrakk>pool_reachable p tx rx; slab_get p k = None\<rbrakk> \<Longrightarrow> pool_reachable (pool_channel k p) (insert k tx) (insert k rx)"
| send: "\<lbrakk>pool_reachable p tx rx; k \<in> tx; pool_send k v p = Some (p', r, ws)\<rbrakk> \<Longrightarrow> pool_reachable p' (tx - {k}) rx"
| poll_canceled: "\<lbrakk>pool_reachable p tx rx; k \<in> tx; pool_poll_canceled k cx p = Some (p', r')\<rbrakk> \<Longrightarrow> pool_reachable p' tx rx"
| drop_sender: "\<lbrakk>pool_reachable p tx rx; k \<in> tx; pool_drop_sender k p = Some (p', ws)\<rbrakk> \<Longrightarrow> pool_reachable p' (tx - {k}) rx"
| poll_recv: "\<lbrakk>pool_reachable p tx rx; k \<in> rx; pool_poll_recv k cx p = Some (p', r'')\<rbrakk> \<Longrightarrow> pool_reachable p' tx rx"
| drop_receiver: "\<lbrakk>pool_reachable p tx rx; k \<in> rx; pool_drop_receiver k p = Some (p', ws)\<rbrakk> \<Longrightarrow> pool_reachable p' tx (rx - {k})"

definition pool_entry_ok :: "'a pool_inner option \<Rightarrow> bool \<Rightarrow> bool \<Rightarrow> bool" where
  "pool_entry_ok e t r \<longleftrightarrow>
     (case e of None \<Rightarrow> \<not> t \<and> \<not> r | Some i \<Rightarrow> (t \<or> r) \<and> (bit (pi_flags i) 0 \<longleftrightarrow> t) \<and> (bit (pi_flags i) 1 \<longleftrightarrow> r))"

definition pool_inv :: "'a pool \<Rightarrow> nat set \<Rightarrow> nat set \<Rightarrow> bool" where
  "pool_inv p tx rx \<longleftrightarrow> (\<forall>k. pool_entry_ok (slab_get p k) (k \<in> tx) (k \<in> rx))"

lemma pool_inv_get:
  assumes "pool_inv p tx rx" "k \<in> tx \<or> k \<in> rx"
  obtains i where "slab_get p k = Some i" "bit (pi_flags i) 0 \<longleftrightarrow> k \<in> tx" "bit (pi_flags i) 1 \<longleftrightarrow> k \<in> rx"
  using assms by (cases "slab_get p k") (auto simp: pool_inv_def pool_entry_ok_def dest!: spec [of _ k])

lemma pool_inv_update:
  assumes "pool_inv p tx rx" "pool_entry_ok (slab_get p' k) (k \<in> tx') (k \<in> rx')"
    and "\<And>j. j \<noteq> k \<Longrightarrow> slab_get p' j = slab_get p j \<and> (j \<in> tx' \<longleftrightarrow> j \<in> tx) \<and> (j \<in> rx' \<longleftrightarrow> j \<in> rx)"
  shows "pool_inv p' tx' rx'"
  unfolding pool_inv_def
proof
  fix j show "pool_entry_ok (slab_get p' j) (j \<in> tx') (j \<in> rx')"
    using assms by (cases "j = k") (auto simp: pool_inv_def)
qed

lemmas pool_op_simps = pool_defs pool_entry_ok_def Let_def case_prod_beta flag_simps

lemma pool_reachable_inv: "pool_reachable p tx rx \<Longrightarrow> pool_inv p tx rx"
proof (induction rule: pool_reachable.induct)
  case new
  show ?case by (simp add: pool_inv_def pool_entry_ok_def pool_new_def)
next
  case (channel p tx rx k)
  show ?case by (rule pool_inv_update [OF channel.IH, of _ k]) (simp_all add: pool_op_simps)
next
  case (send p tx rx k v p' r ws)
  obtain i where i: "slab_get p k = Some i" "bit (pi_flags i) 0" "bit (pi_flags i) 1 \<longleftrightarrow> k \<in> rx"
    using pool_inv_get [OF send.IH] send.hyps(2) by metis
  show ?case by (rule pool_inv_update [OF send.IH, of _ k]; use i send.hyps(2,3) in \<open>auto simp: pool_op_simps split: if_splits\<close>)
next
  case (poll_canceled p tx rx k cx p' r')
  obtain i where i: "slab_get p k = Some i" "bit (pi_flags i) 0" "bit (pi_flags i) 1 \<longleftrightarrow> k \<in> rx"
    using pool_inv_get [OF poll_canceled.IH] poll_canceled.hyps(2) by metis
  show ?case
    by (rule pool_inv_update [OF poll_canceled.IH, of _ k]; use i poll_canceled.hyps(2,3) in \<open>auto simp: pool_op_simps split: if_splits\<close>)
next
  case (drop_sender p tx rx k p' ws)
  obtain i where i: "slab_get p k = Some i" "bit (pi_flags i) 0" "bit (pi_flags i) 1 \<longleftrightarrow> k \<in> rx"
    using pool_inv_get [OF drop_sender.IH] drop_sender.hyps(2) by metis
  show ?case
    by (rule pool_inv_update [OF drop_sender.IH, of _ k]; use i drop_sender.hyps(2,3) in \<open>auto simp: pool_op_simps split: if_splits\<close>)
next
  case (poll_recv p tx rx k cx p' r'')
  obtain i where i: "slab_get p k = Some i" "bit (pi_flags i) 0 \<longleftrightarrow> k \<in> tx" "bit (pi_flags i) 1"
    using pool_inv_get [OF poll_recv.IH] poll_recv.hyps(2) by metis
  show ?case
    by (rule pool_inv_update [OF poll_recv.IH, of _ k];
        use i poll_recv.hyps(2,3) in \<open>auto simp: pool_op_simps split: if_splits option.splits\<close>)
next
  case (drop_receiver p tx rx k p' ws)
  obtain i where i: "slab_get p k = Some i" "bit (pi_flags i) 0 \<longleftrightarrow> k \<in> tx" "bit (pi_flags i) 1"
    using pool_inv_get [OF drop_receiver.IH] drop_receiver.hyps(2) by metis
  show ?case
    by (rule pool_inv_update [OF drop_receiver.IH, of _ k]; use i drop_receiver.hyps(2,3) in \<open>auto simp: pool_op_simps split: if_splits\<close>)
qed

text \<open>C15. The unchecked accesses of the pool are safe and its slab does not leak. In every reachable state an entry exists
  exactly while its sender or its receiver is live, so every operation of a live handle finds its entry; the flags say
  which handles are live, so \<open>is_canceled\<close> holds exactly when the receiver is gone.\<close>

theorem pool_safe_and_leak_free:
  assumes "pool_reachable p tx rx"
  shows "(slab_get p k \<noteq> None \<longleftrightarrow> k \<in> tx \<or> k \<in> rx)
    \<and> (k \<in> tx \<longrightarrow> pool_is_canceled k p = Some (k \<notin> rx) \<and> pool_send k v p \<noteq> None \<and> pool_poll_canceled k cx p \<noteq> None
          \<and> pool_drop_sender k p \<noteq> None)
    \<and> (k \<in> rx \<longrightarrow> pool_poll_recv k cx p \<noteq> None \<and> pool_drop_receiver k p \<noteq> None)"
proof -
  have inv: "pool_inv p tx rx" by (rule pool_reachable_inv [OF assms])
  show ?thesis
  proof (cases "k \<in> tx \<or> k \<in> rx")
    case True
    obtain i where "slab_get p k = Some i" "bit (pi_flags i) 0 \<longleftrightarrow> k \<in> tx" "bit (pi_flags i) 1 \<longleftrightarrow> k \<in> rx"
      using pool_inv_get [OF inv True] .
    with True show ?thesis by (auto simp: pool_op_simps pool_is_canceled_def split: option.split)
  next
    case False
    then have "slab_get p k = None" using inv by (auto simp: pool_inv_def pool_entry_ok_def dest!: spec [of _ k] split: option.splits)
    with False show ?thesis by simp
  qed
qed

theorem pool_safe_and_leak_free_witness:
  "let p = fst (the (pool_drop_receiver 0 (pool_channel 0 (pool_new :: nat pool))))
   in pool_reachable p {0} {} \<and> pool_is_canceled 0 p = Some True \<and> slab_get p 0 \<noteq> None"
proof -
  let ?q = "pool_channel 0 (pool_new :: nat pool)" let ?p = "fst (the (pool_drop_receiver 0 ?q))"
  have r0: "pool_reachable ?q {0} {0}"
    using pool_reachable.channel [OF pool_reachable.new, of 0] by (simp add: pool_new_def)
  have d: "pool_drop_receiver 0 ?q = Some (?p, [])" by (simp add: pool_op_simps)
  have "pool_reachable ?p {0} {}" using pool_reachable.drop_receiver [OF r0 _ d] by simp
  with pool_safe_and_leak_free [OF this, of 0] show ?thesis by (simp add: Let_def)
qed

section \<open>Delivery\<close>

text \<open>C28. A value sent on one channel of the pool reaches that channel's receiver and nobody else. If both handles are
  live and the receiver waits for task \<open>w\<close>, \<open>send\<close> succeeds, wakes exactly \<open>w\<close>, and the receiver's next poll returns
  the value and the one after it \<open>Canceled\<close>; if the receiver is gone \<open>send\<close> hands the value back and frees the entry. The
  entries of the other channels do not change.\<close>

theorem pool_send_delivers:
  assumes "pool_reachable p tx rx" and "k \<in> tx" and "slab_get p k = Some i"
  shows "\<exists>p' ws. pool_send k v p = Some (p', if k \<in> rx then Inr () else Inl v, ws)
    \<and> ws = (if k \<in> rx then lw_woken (pi_rx_waker i) else [])
    \<and> (if k \<in> rx
       then \<exists>p''. pool_poll_recv k cx p' = Some (p'', Ready (Inr v)) \<and> pool_poll_recv k cx p'' = Some (p'', Ready (Inl Canceled))
       else slab_get p' k = None)
    \<and> (\<forall>j. j = k \<or> slab_get p' j = slab_get p j)"
proof -
  have "bit (pi_flags i) 0" "bit (pi_flags i) 1 \<longleftrightarrow> k \<in> rx"
    using pool_inv_get [OF pool_reachable_inv [OF assms(1)], of k] assms(2,3) by (metis option.inject)+
  then show ?thesis using assms(2,3)
    by (cases "k \<in> rx") (auto simp: pool_op_simps)
qed

theorem pool_send_delivers_witness:
  "let p = fst (the (pool_poll_recv 0 7 (pool_channel 0 (pool_new :: nat pool))))
   in pool_reachable p {0} {0} \<and> (\<exists>p' ws. pool_send 0 5 p = Some (p', Inr (), [7]))"
proof -
  let ?q = "pool_channel 0 (pool_new :: nat pool)" let ?p = "fst (the (pool_poll_recv 0 7 ?q))"
  have r0: "pool_reachable ?q {0} {0}"
    using pool_reachable.channel [OF pool_reachable.new, of 0] by (simp add: pool_new_def)
  have d: "pool_poll_recv 0 7 ?q = Some (?p, Pending)" by (simp add: pool_op_simps)
  have r: "pool_reachable ?p {0} {0}" using pool_reachable.poll_recv [OF r0 _ d] by simp
  obtain i where g: "slab_get ?p 0 = Some i" "pi_rx_waker i = Some 7" by (simp add: pool_op_simps)
  from pool_send_delivers [OF r _ g(1), of 5 0] g(2) r show ?thesis by (auto simp: Let_def)
qed

section \<open>Wake-ups\<close>

text \<open>What the other handles do while the receiver of \<open>tok\<close> waits.\<close>

inductive pool_rx_step :: "nat \<Rightarrow> 'a pool \<Rightarrow> 'a pool \<Rightarrow> task list \<Rightarrow> bool" for tok where
  channel: "slab_get p k = None \<Longrightarrow> pool_rx_step tok p (pool_channel k p) []"
| send: "pool_send k v p = Some (p', r, ws) \<Longrightarrow> pool_rx_step tok p p' ws"
| poll_canceled: "pool_poll_canceled k cx p = Some (p', r') \<Longrightarrow> pool_rx_step tok p p' []"
| drop_sender: "pool_drop_sender k p = Some (p', ws) \<Longrightarrow> pool_rx_step tok p p' ws"
| poll_recv: "pool_poll_recv k cx p = Some (p', r'') \<Longrightarrow> k \<noteq> tok \<Longrightarrow> pool_rx_step tok p p' []"
| drop_receiver: "pool_drop_receiver k p = Some (p', ws) \<Longrightarrow> k \<noteq> tok \<Longrightarrow> pool_rx_step tok p p' ws"

definition pool_waiting :: "nat \<Rightarrow> 'a pool \<Rightarrow> task option" where
  "pool_waiting tok p =
     (case slab_get p tok of Some i \<Rightarrow> if bit (pi_flags i) 1 then pi_rx_waker i else None | None \<Rightarrow> None)"

definition pool_ready :: "nat \<Rightarrow> 'a pool \<Rightarrow> bool" where
  "pool_ready tok p \<longleftrightarrow> (case slab_get p tok of Some i \<Rightarrow> pi_value i \<noteq> None \<or> \<not> bit (pi_flags i) 0 | None \<Rightarrow> False)"

interpretation pool_rx: wake_safe "pool_rx_step tok" "pool_waiting tok" "pool_ready tok" for tok
proof
  fix p p' :: "'a pool" and ws w
  assume "pool_rx_step tok p p' ws" "pool_waiting tok p = Some w" "\<not> pool_ready tok p"
  then show "pool_waiting tok p' = Some w \<and> \<not> pool_ready tok p' \<or> w \<in> set ws"
    by cases (auto simp: pool_op_simps pool_waiting_def pool_ready_def split: option.splits if_splits bind_splits)
qed

lemma pool_no_lost_wakeup:
  assumes "pool_reachable p tx rx" "tok \<in> rx" "pool_poll_recv tok cx p = Some (p1, Pending)"
    and "wake_run (pool_rx_step tok) p1 p2 ws" "pool_poll_recv tok cx' p2 = Some (p3, Ready r)"
  shows "cx \<in> set ws"
proof -
  obtain i where "slab_get p tok = Some i" "bit (pi_flags i) 1"
    using pool_inv_get [OF pool_reachable_inv [OF assms(1)]] assms(2) by metis
  then have "pool_waiting tok p1 = Some cx \<and> \<not> pool_ready tok p1" using assms(3)
    by (auto simp: pool_op_simps pool_waiting_def pool_ready_def split: option.splits if_splits)
  moreover have "pool_ready tok p2" using assms(5)
    by (auto simp: pool_op_simps pool_ready_def split: option.splits if_splits bind_splits)
  ultimately show ?thesis using pool_rx.no_lost_wakeup [OF assms(4)] by blast
qed

end
