(* ===== verification/Bstream.thy ===== *)
theory Bstream
  imports Wakeup "HOL-Library.Multiset"
begin

text \<open>
  The byte stream of \<open>geario/src/util/channel/bstream.rs\<close>: chunks of bytes from any number of senders to one receiver, with
  back-pressure through the flag \<open>NEED_READ\<close> and the buffer limit. Senders hold weak references, so the state also
  says whether the receiver is live and how many senders there are. A read that would make the length negative is \<open>None\<close>.
\<close>

abbreviation BS_EOF :: u8 where "BS_EOF \<equiv> flag 0"
abbreviation BS_ERROR :: u8 where "BS_ERROR \<equiv> flag 1"
abbreviation BS_NEED_READ :: u8 where "BS_NEED_READ \<equiv> flag 2"
abbreviation BS_SENDER_GONE :: u8 where "BS_SENDER_GONE \<equiv> flag 3"

definition BS_MAX_BUFFER_SIZE :: nat where
  "BS_MAX_BUFFER_SIZE = 32768"

datatype bstream_status = StatusEof | StatusReady | StatusDropped

record 'e bstream =
  bs_len :: nat
  bs_flags :: u8
  bs_err :: "'e option"
  bs_items :: "u8 list list"
  bs_max_buffer_size :: nat
  bs_recv_task :: local_waker
  bs_send_task :: local_waker
  bs_receiver :: bool
  bs_senders :: nat

definition bstream_inner :: "bool \<Rightarrow> nat \<Rightarrow> 'e bstream" where
  "bstream_inner eof senders =
     \<lparr>bs_len = 0, bs_flags = (if eof then BS_EOF else BS_NEED_READ), bs_err = None, bs_items = [],
      bs_max_buffer_size = BS_MAX_BUFFER_SIZE, bs_recv_task = lw_new, bs_send_task = lw_new,
      bs_receiver = True, bs_senders = senders\<rparr>"

definition bstream_channel :: "'e bstream" where
  "bstream_channel = bstream_inner False 1"

definition bstream_eof :: "'e bstream" where
  "bstream_eof = bstream_inner True 1"

definition bs_insert_flag :: "u8 \<Rightarrow> 'e bstream \<Rightarrow> 'e bstream" where
  "bs_insert_flag f s = s\<lparr>bs_flags := fl_insert (bs_flags s) f\<rparr>"

definition bs_remove_flag :: "u8 \<Rightarrow> 'e bstream \<Rightarrow> 'e bstream" where
  "bs_remove_flag f s = s\<lparr>bs_flags := fl_remove (bs_flags s) f\<rparr>"

definition bs_wake_recv :: "'e bstream \<Rightarrow> 'e bstream \<times> task list" where
  "bs_wake_recv s = (case lw_wake (bs_recv_task s) of (w, ws) \<Rightarrow> (s\<lparr>bs_recv_task := w\<rparr>, ws))"

definition bs_wake_send :: "'e bstream \<Rightarrow> 'e bstream \<times> task list" where
  "bs_wake_send s = (case lw_wake (bs_send_task s) of (w, ws) \<Rightarrow> (s\<lparr>bs_send_task := w\<rparr>, ws))"

definition bs_unread_data :: "u8 list \<Rightarrow> 'e bstream \<Rightarrow> 'e bstream" where
  "bs_unread_data data s =
     (if data \<noteq> [] then s\<lparr>bs_len := bs_len s + length data, bs_items := data # bs_items s\<rparr> else s)"

definition bs_get_data :: "'e bstream \<Rightarrow> ('e bstream \<times> u8 list option \<times> task list) option" where
  "bs_get_data s =
     (case bs_items s of
        [] \<Rightarrow> Some (s, None, [])
      | data # rest \<Rightarrow>
          if bs_len s < length data then None
          else
            let len = bs_len s - length data;
                s1 = s\<lparr>bs_items := rest, bs_len := len\<rparr>
            in if len < bs_max_buffer_size s1
               then case bs_wake_send (bs_insert_flag BS_NEED_READ s1) of (s2, ws) \<Rightarrow> Some (s2, Some data, ws)
               else Some (s1, Some data, []))"

definition bstream_empty :: "u8 list option \<Rightarrow> 'e bstream" where
  "bstream_empty data =
     (case data of None \<Rightarrow> bstream_inner True 0 | Some d \<Rightarrow> bs_unread_data d (bstream_inner True 0))"

definition bstream_set_max_buffer_size :: "nat \<Rightarrow> 'e bstream \<Rightarrow> 'e bstream" where
  "bstream_set_max_buffer_size n s = s\<lparr>bs_max_buffer_size := n\<rparr>"

definition bstream_put :: "u8 list \<Rightarrow> 'e bstream \<Rightarrow> 'e bstream" where
  "bstream_put data s = bs_unread_data data s"

definition bstream_is_eof :: "'e bstream \<Rightarrow> bool" where
  "bstream_is_eof s \<longleftrightarrow> fl_contains (bs_flags s) BS_EOF"

definition bstream_poll_read ::
  "task \<Rightarrow> 'e bstream \<Rightarrow> ('e bstream \<times> ('e + u8 list) option poll \<times> task list) option" where
  "bstream_poll_read cx s = do {
     (s1, data, ws) \<leftarrow> bs_get_data s;
     case data of
       Some d \<Rightarrow> Some (s1, Ready (Some (Inr d)), ws)
     | None \<Rightarrow>
         (case bs_err s1 of
            Some err \<Rightarrow> Some (bs_insert_flag BS_EOF (s1\<lparr>bs_err := None\<rparr>), Ready (Some (Inl err)), ws)
          | None \<Rightarrow>
              if fl_intersects (bs_flags s1) (BS_EOF OR BS_ERROR) then Some (s1, Ready None, ws)
              else Some (s1\<lparr>bs_recv_task := fst (lw_register (bs_recv_task s1) cx)\<rparr>, Pending, ws))
   }"

text \<open>Dropping the receiver drops the last strong reference: the buffer is freed and senders cannot upgrade any more.\<close>

definition bstream_drop_receiver :: "'e bstream \<Rightarrow> 'e bstream \<times> task list" where
  "bstream_drop_receiver s =
     (case bs_wake_send s of
        (s1, ws) \<Rightarrow> (s1\<lparr>bs_receiver := False, bs_items := [], bs_len := 0, bs_err := None, bs_recv_task := None\<rparr>, ws))"

definition bstream_clone_sender :: "'e bstream \<Rightarrow> 'e bstream" where
  "bstream_clone_sender s = s\<lparr>bs_senders := Suc (bs_senders s)\<rparr>"

definition bstream_drop_sender :: "'e bstream \<Rightarrow> 'e bstream" where
  "bstream_drop_sender s =
     (let s1 = (if bs_receiver s \<and> bs_senders s = 1 then bs_insert_flag (BS_EOF OR BS_SENDER_GONE) s else s)
      in s1\<lparr>bs_senders := bs_senders s1 - 1\<rparr>)"

definition bstream_is_closed :: "'e bstream \<Rightarrow> bool" where
  "bstream_is_closed s \<longleftrightarrow> \<not> bs_receiver s"

definition bstream_set_error :: "'e \<Rightarrow> 'e bstream \<Rightarrow> 'e bstream \<times> task list" where
  "bstream_set_error err s =
     (if bs_receiver s then
        let s1 = bs_insert_flag BS_ERROR (s\<lparr>bs_err := Some err\<rparr>); (s2, ws) = bs_wake_recv s1; (s3, ws') = bs_wake_send s2
        in (s3, ws @ ws')
      else (s, []))"

definition bstream_feed_eof :: "'e bstream \<Rightarrow> 'e bstream \<times> task list" where
  "bstream_feed_eof s =
     (if bs_receiver s then
        let s1 = bs_insert_flag BS_EOF s; (s2, ws) = bs_wake_recv s1; (s3, ws') = bs_wake_send s2
        in (s3, ws @ ws')
      else (s, []))"

definition bstream_feed_data :: "u8 list \<Rightarrow> 'e bstream \<Rightarrow> 'e bstream \<times> task list" where
  "bstream_feed_data data s =
     (if bs_receiver s then
        let len = bs_len s + length data;
            (s1, ws) = bs_wake_recv (s\<lparr>bs_len := len, bs_items := bs_items s @ [data]\<rparr>)
        in if bs_max_buffer_size s1 \<le> len then (bs_remove_flag BS_NEED_READ s1, ws) else (s1, ws)
      else (s, []))"

definition bstream_poll_ready :: "task \<Rightarrow> 'e bstream \<Rightarrow> 'e bstream \<times> bstream_status poll" where
  "bstream_poll_ready cx s =
     (if bs_receiver s then
        if fl_contains (bs_flags s) BS_NEED_READ then (s, Ready StatusReady)
        else if fl_contains (bs_flags s) (BS_SENDER_GONE OR BS_ERROR) then (s, Ready StatusDropped)
        else if fl_intersects (bs_flags s) BS_EOF then (s, Ready StatusEof)
        else (s\<lparr>bs_send_task := fst (lw_register (bs_send_task s) cx)\<rparr>, Pending)
      else (s, Ready StatusDropped))"

lemmas bstream_defs = bs_insert_flag_def bs_remove_flag_def bs_wake_recv_def bs_wake_send_def bs_unread_data_def bs_get_data_def
  bstream_put_def bstream_poll_read_def bstream_drop_receiver_def bstream_clone_sender_def bstream_drop_sender_def
  bstream_set_error_def bstream_feed_eof_def bstream_feed_data_def bstream_poll_ready_def bstream_set_max_buffer_size_def

section \<open>Accounting and order\<close>

text \<open>A history of the stream over all its handles. The log holds the chunks that entered the buffer, through \<open>feed_data\<close> or
  \<open>put\<close>, and the chunks that reads returned.\<close>

datatype 'e bstream_call = FeedData "u8 list" | FeedEof | SetError 'e | CloneTx | DropTx | PollReady task
  | Put "u8 list" | SetMax nat | PollRead task | DropRx

fun bstream_do :: "'e bstream_call \<Rightarrow> 'e bstream \<Rightarrow> ('e bstream \<times> u8 list list \<times> u8 list list) option" where
  "bstream_do (FeedData d) s = Some (fst (bstream_feed_data d s), if bs_receiver s then [d] else [], [])"
| "bstream_do FeedEof s = Some (fst (bstream_feed_eof s), [], [])"
| "bstream_do (SetError e) s = Some (fst (bstream_set_error e s), [], [])"
| "bstream_do CloneTx s = Some (bstream_clone_sender s, [], [])"
| "bstream_do DropTx s = Some (bstream_drop_sender s, [], [])"
| "bstream_do (PollReady cx) s = Some (fst (bstream_poll_ready cx s), [], [])"
| "bstream_do (Put d) s = Some (bstream_put d s, if d = [] then [] else [d], [])"
| "bstream_do (SetMax n) s = Some (bstream_set_max_buffer_size n s, [], [])"
| "bstream_do (PollRead cx) s =
     (case bstream_poll_read cx s of
        None \<Rightarrow> None
      | Some (s', Ready (Some (Inr d)), _) \<Rightarrow> Some (s', [], [d])
      | Some (s', _, _) \<Rightarrow> Some (s', [], []))"
| "bstream_do DropRx s = Some (fst (bstream_drop_receiver s), [], [])"

fun bstream_calls :: "'e bstream_call list \<Rightarrow> 'e bstream \<Rightarrow> ('e bstream \<times> u8 list list \<times> u8 list list) option" where
  "bstream_calls [] s = Some (s, [], [])"
| "bstream_calls (c # cs) s = do {
     (s1, acc1, rcv1) \<leftarrow> bstream_do c s;
     (s2, acc2, rcv2) \<leftarrow> bstream_calls cs s1;
     Some (s2, acc1 @ acc2, rcv1 @ rcv2)
   }"

definition bs_len_ok :: "'e bstream \<Rightarrow> bool" where
  "bs_len_ok s \<longleftrightarrow> bs_len s = sum_list (map length (bs_items s))"

definition bs_pressure_ok :: "'e bstream \<Rightarrow> bool" where
  "bs_pressure_ok s \<longleftrightarrow> bs_receiver s \<and> (bit (bs_flags s) 2 \<longleftrightarrow> bs_len s < bs_max_buffer_size s)"

definition is_put :: "'e bstream_call \<Rightarrow> bool" where
  "is_put c \<longleftrightarrow> (\<exists>d. c = Put d)"

definition is_set_max :: "'e bstream_call \<Rightarrow> bool" where
  "is_set_max c \<longleftrightarrow> (\<exists>n. c = SetMax n)"

lemma bstream_do_ok:
  assumes "bs_len_ok s"
  obtains s' acc rcv where "bstream_do c s = Some (s', acc, rcv)" "bs_len_ok s'"
    "c \<noteq> DropRx \<Longrightarrow> mset acc + mset (bs_items s) = mset rcv + mset (bs_items s')"
    "c \<noteq> DropRx \<Longrightarrow> \<not> is_put c \<Longrightarrow> bs_items s @ acc = rcv @ bs_items s'"
    "bs_pressure_ok s \<Longrightarrow> c \<noteq> DropRx \<Longrightarrow> \<not> is_put c \<Longrightarrow> \<not> is_set_max c \<Longrightarrow> bs_pressure_ok s'"
proof -
  have "\<exists>s' acc rcv. bstream_do c s = Some (s', acc, rcv) \<and> bs_len_ok s'
    \<and> (c \<noteq> DropRx \<longrightarrow> mset acc + mset (bs_items s) = mset rcv + mset (bs_items s'))
    \<and> (c \<noteq> DropRx \<longrightarrow> \<not> is_put c \<longrightarrow> bs_items s @ acc = rcv @ bs_items s')
    \<and> (bs_pressure_ok s \<longrightarrow> c \<noteq> DropRx \<longrightarrow> \<not> is_put c \<longrightarrow> \<not> is_set_max c \<longrightarrow> bs_pressure_ok s')"
    using assms unfolding bs_len_ok_def
    by (cases c) (auto simp: bstream_defs bs_pressure_ok_def is_put_def is_set_max_def case_prod_beta Let_def flag_simps
        split: list.split option.split)
  then show thesis using that by blast
qed

lemma bstream_calls_ok:
  assumes "bs_len_ok s"
  shows "\<exists>s' acc rcv. bstream_calls cs s = Some (s', acc, rcv) \<and> bs_len_ok s'
    \<and> (DropRx \<notin> set cs \<longrightarrow> mset acc + mset (bs_items s) = mset rcv + mset (bs_items s'))
    \<and> (DropRx \<notin> set cs \<longrightarrow> \<not> list_ex is_put cs \<longrightarrow> bs_items s @ acc = rcv @ bs_items s')
    \<and> (bs_pressure_ok s \<longrightarrow> DropRx \<notin> set cs \<longrightarrow> \<not> list_ex is_put cs \<longrightarrow> \<not> list_ex is_set_max cs \<longrightarrow> bs_pressure_ok s')"
  using assms
proof (induction cs arbitrary: s)
  case (Cons c cs)
  obtain s1 acc1 rcv1 where 1: "bstream_do c s = Some (s1, acc1, rcv1)" "bs_len_ok s1"
    "c \<noteq> DropRx \<Longrightarrow> mset acc1 + mset (bs_items s) = mset rcv1 + mset (bs_items s1)"
    "c \<noteq> DropRx \<Longrightarrow> \<not> is_put c \<Longrightarrow> bs_items s @ acc1 = rcv1 @ bs_items s1"
    "bs_pressure_ok s \<Longrightarrow> c \<noteq> DropRx \<Longrightarrow> \<not> is_put c \<Longrightarrow> \<not> is_set_max c \<Longrightarrow> bs_pressure_ok s1"
    using bstream_do_ok [OF Cons.prems] by metis
  obtain s2 acc2 rcv2 where 2: "bstream_calls cs s1 = Some (s2, acc2, rcv2)" "bs_len_ok s2"
    "DropRx \<notin> set cs \<longrightarrow> mset acc2 + mset (bs_items s1) = mset rcv2 + mset (bs_items s2)"
    "DropRx \<notin> set cs \<longrightarrow> \<not> list_ex is_put cs \<longrightarrow> bs_items s1 @ acc2 = rcv2 @ bs_items s2"
    "bs_pressure_ok s1 \<longrightarrow> DropRx \<notin> set cs \<longrightarrow> \<not> list_ex is_put cs \<longrightarrow> \<not> list_ex is_set_max cs \<longrightarrow> bs_pressure_ok s2"
    using Cons.IH [OF 1(2)] by blast
  have "DropRx \<notin> set (c # cs) \<longrightarrow> mset (acc1 @ acc2) + mset (bs_items s) = mset (rcv1 @ rcv2) + mset (bs_items s2)"
  proof
    assume n: "DropRx \<notin> set (c # cs)"
    then have c: "mset acc1 + mset (bs_items s) = mset rcv1 + mset (bs_items s1)" using 1(3) by auto
    have "mset (acc1 @ acc2) + mset (bs_items s) = (mset acc1 + mset (bs_items s)) + mset acc2" by (simp only: mset_append ac_simps)
    also have "\<dots> = mset rcv1 + (mset acc2 + mset (bs_items s1))" unfolding c by (simp only: ac_simps)
    also have "mset acc2 + mset (bs_items s1) = mset rcv2 + mset (bs_items s2)" using 2(3) n by simp
    finally show "mset (acc1 @ acc2) + mset (bs_items s) = mset (rcv1 @ rcv2) + mset (bs_items s2)"
      by (simp only: mset_append ac_simps)
  qed
  moreover have "DropRx \<notin> set (c # cs) \<longrightarrow> \<not> list_ex is_put (c # cs) \<longrightarrow> bs_items s @ acc1 @ acc2 = (rcv1 @ rcv2) @ bs_items s2"
  proof (intro impI)
    assume n: "DropRx \<notin> set (c # cs)" "\<not> list_ex is_put (c # cs)"
    then have "bs_items s @ acc1 = rcv1 @ bs_items s1" using 1(4) by auto
    then have "bs_items s @ acc1 @ acc2 = (rcv1 @ bs_items s1) @ acc2" by (simp flip: append_assoc)
    with 2(4) n show "bs_items s @ acc1 @ acc2 = (rcv1 @ rcv2) @ bs_items s2" by simp
  qed
  ultimately show ?case using 1 2 by auto
qed simp


section \<open>Wake-ups\<close>

text \<open>What the senders may do while the receiver waits, short of dropping the last of them, and what may happen while a
  sender waits for room.\<close>

inductive bstream_rx_step :: "'e bstream \<Rightarrow> 'e bstream \<Rightarrow> task list \<Rightarrow> bool" where
  feed_data: "bstream_feed_data d s = (s', ws) \<Longrightarrow> bstream_rx_step s s' ws"
| feed_eof: "bstream_feed_eof s = (s', ws) \<Longrightarrow> bstream_rx_step s s' ws"
| set_error: "bstream_set_error e s = (s', ws) \<Longrightarrow> bstream_rx_step s s' ws"
| poll_ready: "bstream_poll_ready cx s = (s', r) \<Longrightarrow> bstream_rx_step s s' []"
| clone_sender: "bstream_clone_sender s = s' \<Longrightarrow> bstream_rx_step s s' []"
| drop_sender: "bstream_drop_sender s = s' \<Longrightarrow> bs_senders s > 1 \<Longrightarrow> bstream_rx_step s s' []"

inductive bstream_tx_step :: "'e bstream \<Rightarrow> 'e bstream \<Rightarrow> task list \<Rightarrow> bool" where
  poll_read: "bstream_poll_read cx s = Some (s', r, ws) \<Longrightarrow> bstream_tx_step s s' ws"
| put: "bstream_put d s = s' \<Longrightarrow> bstream_tx_step s s' []"
| set_max: "bstream_set_max_buffer_size n s = s' \<Longrightarrow> n > 0 \<Longrightarrow> bstream_tx_step s s' []"
| drop_receiver: "bstream_drop_receiver s = (s', ws) \<Longrightarrow> bstream_tx_step s s' ws"
| feed_data': "bstream_feed_data d s = (s', ws) \<Longrightarrow> bstream_tx_step s s' ws"
| feed_eof': "bstream_feed_eof s = (s', ws) \<Longrightarrow> bstream_tx_step s s' ws"
| set_error': "bstream_set_error e s = (s', ws) \<Longrightarrow> bstream_tx_step s s' ws"
| clone_sender': "bstream_clone_sender s = s' \<Longrightarrow> bstream_tx_step s s' []"
| drop_sender': "bstream_drop_sender s = s' \<Longrightarrow> bs_senders s > 1 \<Longrightarrow> bstream_tx_step s s' []"

definition bs_rx_waiting :: "'e bstream \<Rightarrow> task option" where
  "bs_rx_waiting s = (if bs_receiver s then bs_recv_task s else None)"

definition bs_rx_ready :: "'e bstream \<Rightarrow> bool" where
  "bs_rx_ready s \<longleftrightarrow> bs_items s \<noteq> [] \<or> bs_err s \<noteq> None \<or> bit (bs_flags s) 0 \<or> bit (bs_flags s) 1"

definition bs_tx_ready :: "'e bstream \<Rightarrow> bool" where
  "bs_tx_ready s \<longleftrightarrow> \<not> bs_receiver s \<or> bit (bs_flags s) 2 \<or> bit (bs_flags s) 3 \<and> bit (bs_flags s) 1 \<or> bit (bs_flags s) 0"

text \<open>A sender only waits while something is buffered; that is what makes the reads that follow wake it.\<close>

definition bs_tx_waiting :: "'e bstream \<Rightarrow> task option" where
  "bs_tx_waiting s = (if bs_items s \<noteq> [] \<and> 0 < bs_max_buffer_size s \<and> bs_len_ok s then bs_send_task s else None)"

definition bs_room_ok :: "'e bstream \<Rightarrow> bool" where
  "bs_room_ok s \<longleftrightarrow> bs_len_ok s \<and> 0 < bs_max_buffer_size s
     \<and> (bs_receiver s \<longrightarrow> bs_items s = [] \<longrightarrow> bit (bs_flags s) 2 \<or> bit (bs_flags s) 0)"

lemmas bstream_wake_simps = bstream_defs bs_rx_waiting_def bs_rx_ready_def bs_tx_ready_def bs_tx_waiting_def
  bs_room_ok_def bs_len_ok_def case_prod_beta Let_def flag_simps

interpretation bs_rx: wake_safe bstream_rx_step bs_rx_waiting bs_rx_ready
proof
  fix s s' :: "'e bstream" and ws w
  assume "bstream_rx_step s s' ws" "bs_rx_waiting s = Some w" "\<not> bs_rx_ready s"
  then show "bs_rx_waiting s' = Some w \<and> \<not> bs_rx_ready s' \<or> w \<in> set ws"
    by cases (auto simp: bstream_wake_simps split: if_splits)
qed

interpretation bs_tx: wake_safe bstream_tx_step bs_tx_waiting bs_tx_ready
proof
  fix s s' :: "'e bstream" and ws w
  assume "bstream_tx_step s s' ws" "bs_tx_waiting s = Some w" "\<not> bs_tx_ready s"
  then show "bs_tx_waiting s' = Some w \<and> \<not> bs_tx_ready s' \<or> w \<in> set ws"
    by cases (auto simp: bstream_wake_simps split: if_splits list.splits option.splits bind_splits)
qed

lemma bstream_poll_read_pending:
  assumes "bstream_poll_read cx s = Some (s1, Pending, ws)" "bs_receiver s"
  shows "bs_rx_waiting s1 = Some cx \<and> \<not> bs_rx_ready s1"
  using assms by (auto simp: bstream_wake_simps split: if_splits list.splits option.splits)

lemma bstream_poll_read_ready:
  "bstream_poll_read cx s = Some (s1, Ready r, ws) \<Longrightarrow> bs_rx_ready s"
  by (auto simp: bstream_wake_simps split: if_splits list.splits option.splits)

lemma bstream_poll_ready_iff: "snd (bstream_poll_ready cx s) \<noteq> Pending \<longleftrightarrow> bs_tx_ready s"
  by (auto simp: bstream_wake_simps)

lemma bstream_poll_ready_pending:
  "bstream_poll_ready cx s = (s1, Pending) \<Longrightarrow> bs_room_ok s \<Longrightarrow> bs_tx_waiting s1 = Some cx \<and> \<not> bs_tx_ready s1"
  by (auto simp: bstream_wake_simps split: if_splits)

lemma bstream_do_room_ok:
  "bstream_do c s = Some (s', acc, rcv) \<Longrightarrow> bs_room_ok s \<Longrightarrow> c \<noteq> SetMax 0 \<Longrightarrow> bs_room_ok s'"
  by (cases c) (auto simp: bstream_wake_simps split: if_splits list.splits option.splits sum.splits poll.splits)

lemma bstream_calls_room_ok:
  "bstream_calls cs s = Some (s', acc, rcv) \<Longrightarrow> bs_room_ok s \<Longrightarrow> SetMax 0 \<notin> set cs \<Longrightarrow> bs_room_ok s'"
proof (induction cs arbitrary: s s' acc rcv)
  case (Cons c cs)
  then obtain s1 acc1 rcv1 acc2 rcv2 where 1: "bstream_do c s = Some (s1, acc1, rcv1)" and 2: "bstream_calls cs s1 = Some (s', acc2, rcv2)"
    by (auto split: bind_splits)
  show ?case using Cons.IH [OF 2] bstream_do_room_ok [OF 1] Cons.prems(2,3) by auto
qed simp

lemma bstream_channel_room_ok: "bs_room_ok bstream_channel"
  by (simp add: bstream_wake_simps bstream_channel_def bstream_inner_def BS_MAX_BUFFER_SIZE_def)


text \<open>A stream with a limit of one byte that is full, its receiver about to read.\<close>

definition full_stream :: "nat bstream" where
  "full_stream = fst (bstream_feed_data [7] (bstream_set_max_buffer_size 1 bstream_channel))"


text \<open>Dropping the last sender ends the stream but wakes nobody: a read that was pending for task \<open>cx\<close> would now
  return the end of the stream, \<open>cx\<close> is still registered, and the drop wakes no task. A reader that waits for a wake-up
  is not told that the stream ended.\<close>

theorem bstream_drop_sender_wakes_nobody:
  assumes "bstream_poll_read cx s = Some (s1, Pending, ws)" and "bs_receiver s" and "bs_senders s = 1"
  shows "let s2 = bstream_drop_sender s1
    in bs_recv_task s2 = Some cx \<and> map_option (fst \<circ> snd) (bstream_poll_read cx' s2) = Some (Ready None) \<and> bstream_is_eof s2"
  using assms by (auto simp: bstream_wake_simps bstream_is_eof_def split: if_splits list.splits option.splits)

theorem bstream_drop_sender_wakes_nobody_witness:
  "let s1 = fst (the (bstream_poll_read 3 (bstream_channel :: nat bstream))); s2 = bstream_drop_sender s1
   in bs_recv_task s2 = Some 3 \<and> map_option (fst \<circ> snd) (bstream_poll_read 4 s2) = Some (Ready None)"
proof -
  have "bstream_poll_read 3 (bstream_channel :: nat bstream) = Some (fst (the (bstream_poll_read 3 bstream_channel)), Pending, [])"
    "bs_receiver (bstream_channel :: nat bstream)" "bs_senders (bstream_channel :: nat bstream) = 1"
    by (simp_all add: bstream_wake_simps bstream_channel_def bstream_inner_def)
  from bstream_drop_sender_wakes_nobody [OF this, of 4] show ?thesis by (simp add: Let_def)
qed

end
