(* ===== verification/Counter.thy ===== *)
theory Counter
  imports Wakeup
begin

text \<open>
  The counter of \<open>geario/src/util/services/counter.rs\<close>: guards that count up and down, a capacity, and one waker per
  handle, kept in a slab. A subtraction below zero and an index that is not in the slab are \<open>None\<close>.
\<close>

record counter =
  ct_count :: nat
  ct_capacity :: nat
  ct_tasks :: "local_waker slab"

definition counter_new :: "nat \<Rightarrow> nat \<Rightarrow> counter \<times> nat" where
  "counter_new idx cap = (\<lparr>ct_count = 0, ct_capacity = cap, ct_tasks = slab_put [] idx lw_new\<rparr>, idx)"

definition counter_notify :: "counter \<Rightarrow> counter \<times> task list" where
  "counter_notify c =
     (c\<lparr>ct_tasks := slab_map (\<lambda>w. fst (lw_wake w)) (ct_tasks c)\<rparr>, concat (map lw_woken (slab_values (ct_tasks c))))"

definition counter_inc :: "counter \<Rightarrow> counter" where
  "counter_inc c = c\<lparr>ct_count := ct_count c + 1\<rparr>"

definition counter_dec :: "counter \<Rightarrow> (counter \<times> task list) option" where
  "counter_dec c =
     (let num = ct_count c
      in if num = 0 then None
         else let c1 = c\<lparr>ct_count := num - 1\<rparr>
              in Some (if num = ct_capacity c1 then counter_notify c1 else (c1, [])))"

definition counter_get :: "counter \<Rightarrow> counter" where
  "counter_get c = counter_inc c"

definition counter_guard_drop :: "counter \<Rightarrow> (counter \<times> task list) option" where
  "counter_guard_drop c = counter_dec c"

definition counter_set_capacity :: "nat \<Rightarrow> counter \<Rightarrow> counter \<times> task list" where
  "counter_set_capacity cap c = counter_notify (c\<lparr>ct_capacity := cap\<rparr>)"

definition counter_is_available :: "counter \<Rightarrow> bool" where
  "counter_is_available c \<longleftrightarrow> ct_count c < ct_capacity c"

definition counter_poll_available :: "nat \<Rightarrow> task \<Rightarrow> counter \<Rightarrow> (counter \<times> bool) option" where
  "counter_poll_available idx cx c =
     (if ct_count c < ct_capacity c then Some (c, True)
      else do {
        w \<leftarrow> slab_get (ct_tasks c) idx;
        Some (c\<lparr>ct_tasks := slab_put (ct_tasks c) idx (fst (lw_register w cx))\<rparr>, False)
      })"

definition counter_available :: "nat \<Rightarrow> task \<Rightarrow> counter \<Rightarrow> (counter \<times> unit poll) option" where
  "counter_available idx cx c = do {
     (c1, ok) \<leftarrow> counter_poll_available idx cx c;
     Some (c1, if ok then Ready () else Pending)
   }"

definition counter_unavailable :: "nat \<Rightarrow> task \<Rightarrow> counter \<Rightarrow> (counter \<times> unit poll) option" where
  "counter_unavailable idx cx c = do {
     (c1, ok) \<leftarrow> counter_poll_available idx cx c;
     Some (c1, if ok then Pending else Ready ())
   }"

definition counter_total :: "counter \<Rightarrow> nat" where
  "counter_total c = ct_count c"

definition counter_clone :: "nat \<Rightarrow> counter \<Rightarrow> counter \<times> nat" where
  "counter_clone idx c = (c\<lparr>ct_tasks := slab_put (ct_tasks c) idx lw_new\<rparr>, idx)"

definition counter_drop :: "nat \<Rightarrow> counter \<Rightarrow> counter option" where
  "counter_drop idx c = do {
     _ \<leftarrow> slab_get (ct_tasks c) idx;
     Some (c\<lparr>ct_tasks := slab_del (ct_tasks c) idx\<rparr>)
   }"

lemmas counter_defs = counter_inc_def counter_dec_def counter_get_def counter_guard_drop_def counter_set_capacity_def
  counter_poll_available_def counter_available_def counter_unavailable_def counter_clone_def counter_drop_def counter_notify_def

section \<open>Wake-ups\<close>

text \<open>What guards and other handles may do while handle \<open>idx\<close> waits for room.\<close>

inductive counter_step :: "nat \<Rightarrow> counter \<Rightarrow> counter \<Rightarrow> task list \<Rightarrow> bool" for idx where
  get: "counter_step idx c (counter_get c) []"
| guard_drop: "counter_guard_drop c = Some (c', ws) \<Longrightarrow> counter_step idx c c' ws"
| set_capacity: "counter_set_capacity cap c = (c', ws) \<Longrightarrow> counter_step idx c c' ws"
| poll_other: "counter_poll_available k cx c = Some (c', b) \<Longrightarrow> k \<noteq> idx \<Longrightarrow> counter_step idx c c' []"
| clone: "counter_clone k c = (c', k') \<Longrightarrow> slab_get (ct_tasks c) k = None \<Longrightarrow> counter_step idx c c' []"
| drop_other: "counter_drop k c = Some c' \<Longrightarrow> k \<noteq> idx \<Longrightarrow> counter_step idx c c' []"

definition counter_waiting :: "nat \<Rightarrow> counter \<Rightarrow> task option" where
  "counter_waiting idx c = (case slab_get (ct_tasks c) idx of Some (Some w) \<Rightarrow> Some w | _ \<Rightarrow> None)"

lemma counter_notify_wakes:
  assumes "counter_waiting idx c = Some w" shows "w \<in> set (snd (counter_notify c))"
proof -
  have "slab_get (ct_tasks c) idx = Some (Some w)"
    using assms by (auto simp: counter_waiting_def split: option.splits)
  then have "Some w \<in> set (slab_values (ct_tasks c))" by (auto simp: slab_values_iff)
  then show ?thesis by (force simp: counter_notify_def)
qed

interpretation ctr: wake_safe "counter_step idx" "counter_waiting idx" counter_is_available for idx
proof
  fix c c' ws w
  assume step: "counter_step idx c c' ws" and w: "counter_waiting idx c = Some w" "\<not> counter_is_available c"
  have n: "ct_tasks c1 = ct_tasks c \<Longrightarrow> w \<in> set (snd (counter_notify c1))" for c1
    using w(1) by (intro counter_notify_wakes) (simp add: counter_waiting_def)
  have tok: "slab_get (ct_tasks c) idx \<noteq> None" using w(1) by (auto simp: counter_waiting_def split: option.splits)
  from step show "counter_waiting idx c' = Some w \<and> \<not> counter_is_available c' \<or> w \<in> set ws"
  proof cases
    case guard_drop
    then show ?thesis
      using w n [of "c\<lparr>ct_count := ct_count c - 1\<rparr>"]
      by (auto simp: counter_guard_drop_def counter_dec_def counter_is_available_def counter_waiting_def Let_def split: if_splits)
  next
    case (set_capacity cap)
    then show ?thesis using n [of "c\<lparr>ct_capacity := cap\<rparr>"] by (simp add: counter_set_capacity_def)
  qed (use w tok in \<open>auto simp: counter_defs counter_is_available_def counter_waiting_def split: if_splits bind_splits\<close>)
qed

text \<open>C21. Waiting for room in the counter loses no wake-up: if the poll of \<open>available\<close> on handle \<open>idx\<close> was pending for
  task \<open>cx\<close>, then after any sequence of guards taken and dropped, capacity changes and operations of other handles,
  whenever room is available \<open>cx\<close> has been woken, although only the drop that crosses the capacity notifies.\<close>

theorem counter_no_lost_wakeup:
  assumes "counter_available idx cx c = Some (c1, Pending)" and "wake_run (counter_step idx) c1 c2 ws"
    and "counter_is_available c2"
  shows "cx \<in> set ws"
proof -
  have "counter_waiting idx c1 = Some cx \<and> \<not> counter_is_available c1" using assms(1)
    by (auto simp: counter_defs counter_waiting_def counter_is_available_def split: if_splits bind_splits)
  with ctr.no_lost_wakeup [OF assms(2)] assms(3) show ?thesis by blast
qed

theorem counter_no_lost_wakeup_witness:
  "let c = counter_get (fst (counter_new 0 1)); c1 = fst (the (counter_available 0 6 c)); (c2, ws) = the (counter_guard_drop c1)
   in counter_is_available c2 \<and> 6 \<in> set ws"
proof -
  let ?c = "counter_get (fst (counter_new 0 1))"
  let ?d = "fst (the (counter_available 0 6 ?c))"
  let ?e = "the (counter_guard_drop ?d)"
  have p: "counter_available 0 6 ?c = Some (?d, Pending)" and d: "counter_guard_drop ?d = Some (fst ?e, snd ?e)"
    and a: "counter_is_available (fst ?e)"
    by (simp_all add: counter_defs counter_new_def counter_is_available_def Let_def)
  have "wake_run (counter_step 0) ?d (fst ?e) (snd ?e)"
    by (rule wake_run_single) (rule counter_step.guard_drop [OF d])
  from counter_no_lost_wakeup [OF p this a] a show ?thesis by (simp add: case_prod_beta Let_def)
qed

text \<open>The opposite wait is not wired up: while room is available, the poll of \<open>unavailable\<close> is pending without
  registering the task anywhere, so the counter is left exactly as it was and taking the guards that fill it
  up wakes nobody, although the next poll would return.\<close>

theorem counter_unavailable_registers_nothing:
  assumes "counter_is_available c" and "slab_get (ct_tasks c) idx = Some w"
  shows "counter_unavailable idx cx c = Some (c, Pending)
    \<and> (let c2 = (counter_get ^^ (ct_capacity c - ct_count c)) c
       in ct_tasks c2 = ct_tasks c \<and> (\<exists>c3. counter_unavailable idx cx c2 = Some (c3, Ready ())))"
proof -
  have g: "ct_count ((counter_get ^^ n) c) = ct_count c + n \<and> ct_capacity ((counter_get ^^ n) c) = ct_capacity c
    \<and> ct_tasks ((counter_get ^^ n) c) = ct_tasks c" for n
    by (induction n) (auto simp: counter_defs)
  show ?thesis using assms g [of "ct_capacity c - ct_count c"]
    by (simp add: counter_unavailable_def counter_poll_available_def counter_is_available_def Let_def)
qed

theorem counter_unavailable_registers_nothing_witness:
  "let c = fst (counter_new 0 2)
   in counter_unavailable 0 6 c = Some (c, Pending) \<and> ct_tasks ((counter_get ^^ 2) c) = ct_tasks c"
proof -
  have "counter_is_available (fst (counter_new 0 2))" "slab_get (ct_tasks (fst (counter_new 0 2))) 0 = Some lw_new"
    by (simp_all add: counter_new_def counter_is_available_def)
  from counter_unavailable_registers_nothing [OF this, of 6] show ?thesis by (simp add: Let_def counter_new_def)
qed

end
