(* ===== verification/Readiness.thy ===== *)
theory Readiness
  imports Wakeup
begin

text \<open>
  The arbitration of readiness checks in \<open>geario/src/service/ctx.rs\<close>. All bindings of a pipeline share one service; a
  binding is an index of the slab of \<open>WaitersRef\<close>. Only one binding at a time owns the readiness check; the others
  queue their wakers and are woken when the owner is done. \<open>wt_cur\<close> is \<open>None\<close> for \<open>u32::MAX\<close>, no owner. The closure that
  \<open>run\<close> executes is a state transformer: it may itself go through \<open>run\<close> for a nested service, or through \<open>poll_fn\<close>. An index
  that is not in the slab is a panic, \<open>None\<close>.
\<close>

record waiters =
  wt_cur :: "nat option"
  wt_running :: bool
  wt_shutdown :: bool
  wt_wakers :: "nat list"
  wt_indexes :: "task option slab"

definition waiters_new :: "nat \<Rightarrow> waiters" where
  "waiters_new k = \<lparr>wt_cur = None, wt_running = False, wt_shutdown = False, wt_wakers = [], wt_indexes = slab_put [] k None\<rparr>"

definition waiters_insert :: "nat \<Rightarrow> waiters \<Rightarrow> waiters \<times> nat" where
  "waiters_insert k w = (w\<lparr>wt_indexes := slab_put (wt_indexes w) k None\<rparr>, k)"

fun drain_wakers :: "nat list \<Rightarrow> task option slab \<Rightarrow> task option slab \<times> task list" where
  "drain_wakers [] s = (s, [])"
| "drain_wakers (i # is) s =
     (case slab_get s i of
        Some (Some t) \<Rightarrow> (case drain_wakers is (slab_put s i None) of (s', ws) \<Rightarrow> (s', t # ws))
      | _ \<Rightarrow> drain_wakers is s)"

definition waiters_notify :: "waiters \<Rightarrow> waiters \<times> task list" where
  "waiters_notify w =
     (case drain_wakers (wt_wakers w) (wt_indexes w) of
        (s, ws) \<Rightarrow> (w\<lparr>wt_wakers := [], wt_indexes := s, wt_cur := None\<rparr>, ws))"

definition waiters_remove :: "nat \<Rightarrow> waiters \<Rightarrow> (waiters \<times> task list) option" where
  "waiters_remove idx w = do {
     _ \<leftarrow> slab_get (wt_indexes w) idx;
     let w1 = w\<lparr>wt_indexes := slab_del (wt_indexes w) idx\<rparr>;
     Some (if wt_cur w1 = Some idx then waiters_notify w1 else (w1, []))
   }"

type_synonym 'r waiters_fn = "waiters \<Rightarrow> (waiters \<times> 'r poll \<times> task list) option"

definition waiters_run :: "nat \<Rightarrow> task \<Rightarrow> 'r waiters_fn \<Rightarrow> 'r waiters_fn" where
  "waiters_run idx cx f w = do {
     _ \<leftarrow> slab_get (wt_indexes w) idx;
     let w1 = w\<lparr>wt_indexes := slab_put (wt_indexes w) idx (Some cx)\<rparr>;
     let can_check = (wt_cur w1 = Some idx \<or> wt_cur w1 = None);
     let w2 = (if wt_cur w1 = None then w1\<lparr>wt_cur := Some idx\<rparr> else w1);
     if can_check
     then do {
       let initial_run = (\<not> wt_running w2);
       let w3 = (if initial_run then w2\<lparr>wt_running := True\<rparr> else w2);
       (w4, result, ws) \<leftarrow> f w3;
       if initial_run
       then (let (w5, ws') = (if \<not> is_ready result then (w4\<lparr>wt_wakers := wt_wakers w4 @ [idx]\<rparr>, []) else waiters_notify w4)
             in Some (w5\<lparr>wt_running := False\<rparr>, result, ws @ ws'))
       else Some (w4, result, ws)
     }
     else Some (w2\<lparr>wt_wakers := wt_wakers w2 @ [idx]\<rparr>, Pending, [])
   }"

definition waiters_shutdown :: "waiters \<Rightarrow> waiters" where
  "waiters_shutdown w = w\<lparr>wt_shutdown := True\<rparr>"

definition waiters_is_shutdown :: "waiters \<Rightarrow> bool" where
  "waiters_is_shutdown w = wt_shutdown w"

text \<open>The future \<open>ReadyCall\<close>: its flag says whether the inner future has completed.\<close>

definition ready_call_poll ::
  "nat \<Rightarrow> task \<Rightarrow> 'r waiters_fn \<Rightarrow> bool \<Rightarrow> waiters \<Rightarrow> (waiters \<times> bool \<times> 'r poll \<times> task list) option" where
  "ready_call_poll idx cx fut completed w = do {
     (w1, result, ws) \<leftarrow> waiters_run idx cx fut w;
     Some (w1, completed \<or> is_ready result, result, ws)
   }"

definition ready_call_drop :: "nat \<Rightarrow> bool \<Rightarrow> waiters \<Rightarrow> waiters \<times> task list" where
  "ready_call_drop idx completed w = (if \<not> completed \<and> wt_cur w = Some idx then waiters_notify w else (w, []))"

text \<open>\<open>Ctx::poll_once\<close> and one poll of \<open>Ctx::poll_fn\<close>: the closure runs with the waker of the owner of the check, or with none;
  if the owner is not the main binding, index 0, that one is queued to be woken as well.\<close>

definition ctx_waker :: "waiters \<Rightarrow> task option" where
  "ctx_waker w = (case wt_cur w of None \<Rightarrow> None | Some i \<Rightarrow> (case slab_get (wt_indexes w) i of Some t \<Rightarrow> t | None \<Rightarrow> None))"

definition ctx_poll_fn :: "(task option \<Rightarrow> 'r poll) \<Rightarrow> 'r waiters_fn" where
  "ctx_poll_fn f w =
     (let ctx = ctx_waker w; w1 = (if wt_cur w \<noteq> Some 0 then w\<lparr>wt_wakers := wt_wakers w @ [0]\<rparr> else w)
      in Some (w1, f ctx, []))"

lemmas waiters_defs = waiters_insert_def waiters_remove_def waiters_run_def ready_call_poll_def ready_call_drop_def

section \<open>Draining the queue\<close>

lemma drain_wakers_wakes:
  assumes "slab_get s i = Some (Some t)" "i \<in> set is" shows "t \<in> set (snd (drain_wakers is s))"
  using assms
proof (induction "is" s rule: drain_wakers.induct)
  case (2 j "is" s)
  then show ?case by (cases "i = j") (auto split: option.split prod.split)
qed simp

lemma drain_wakers_get:
  "slab_get (fst (drain_wakers is s)) i = (if i \<in> set is then map_option (\<lambda>_. None) (slab_get s i) else slab_get s i)"
proof (induction "is" s rule: drain_wakers.induct)
  case (2 j "is" s)
  then show ?case by (auto split: option.split prod.split)
qed simp

lemma waiters_notify_fields [simp]:
  "wt_cur (fst (waiters_notify w)) = None"
  "wt_wakers (fst (waiters_notify w)) = []"
  "wt_running (fst (waiters_notify w)) = wt_running w"
  "(slab_get (wt_indexes (fst (waiters_notify w))) i = None) = (slab_get (wt_indexes w) i = None)"
  by (auto simp: waiters_notify_def drain_wakers_get split: prod.split)
    (metis drain_wakers_get fst_conv option.map_disc_iff)+

section \<open>What a nested check does\<close>

text \<open>What a readiness check of binding \<open>j\<close> does to the arbitration while it runs: it neither changes the owner nor
  drops queued wakers, and touches no entry but its own.\<close>

definition nested_ok :: "nat \<Rightarrow> waiters \<Rightarrow> waiters \<Rightarrow> bool" where
  "nested_ok j w w' \<longleftrightarrow> wt_cur w' = wt_cur w \<and> wt_running w' = wt_running w \<and> (\<exists>xs. wt_wakers w' = wt_wakers w @ xs)
     \<and> (\<forall>k. if k = j then slab_get (wt_indexes w') k \<noteq> None \<longleftrightarrow> slab_get (wt_indexes w) k \<noteq> None
            else slab_get (wt_indexes w') k = slab_get (wt_indexes w) k)"

definition well_nested :: "nat \<Rightarrow> 'r waiters_fn \<Rightarrow> bool" where
  "well_nested j f \<longleftrightarrow> (\<forall>w w' r ws. wt_running w \<longrightarrow> wt_cur w = Some j \<longrightarrow> f w = Some (w', r, ws) \<longrightarrow> nested_ok j w w')"

lemma nested_ok_refl: "nested_ok j w w"
  by (auto simp: nested_ok_def)

lemma nested_ok_trans: "nested_ok j w1 w2 \<Longrightarrow> nested_ok j w2 w3 \<Longrightarrow> nested_ok j w1 w3"
  unfolding nested_ok_def by (auto split: if_splits)

lemma well_nested_pure: "well_nested j (\<lambda>w. Some (w, r, ws))"
  by (auto simp: well_nested_def nested_ok_refl)

lemma well_nested_ctx_poll_fn: "well_nested j (ctx_poll_fn g)"
  by (auto simp: well_nested_def nested_ok_def ctx_poll_fn_def Let_def)

text \<open>The check of a service that checks another service is well behaved again.\<close>

lemma well_nested_run:
  assumes "well_nested j f" shows "well_nested j (waiters_run j cx f)"
  unfolding well_nested_def
proof (intro allI impI)
  fix w w' r ws
  assume run: "wt_running w" "wt_cur w = Some j" "waiters_run j cx f w = Some (w', r, ws)"
  let ?w = "w\<lparr>wt_indexes := slab_put (wt_indexes w) j (Some cx)\<rparr>"
  have ex: "slab_get (wt_indexes w) j \<noteq> None" and f: "f ?w = Some (w', r, ws)"
    using run by (auto simp: waiters_run_def Let_def split: bind_splits if_splits)
  have "nested_ok j ?w w'" using assms f run(1,2) by (auto simp: well_nested_def)
  moreover have "nested_ok j w ?w" using ex by (auto simp: nested_ok_def)
  ultimately show "nested_ok j w w'" by (rule nested_ok_trans [rotated])
qed

section \<open>One poll of a readiness check\<close>

abbreviation run_state :: "nat \<Rightarrow> task \<Rightarrow> waiters \<Rightarrow> waiters" where
  "run_state j cx w \<equiv> w\<lparr>wt_indexes := slab_put (wt_indexes w) j (Some cx), wt_cur := Some j, wt_running := True\<rparr>"

lemma waiters_run_cases:
  assumes "waiters_run j cx f w = Some (w', r, ws)" "\<not> wt_running w"
  obtains (queued) i where "wt_cur w = Some i" "i \<noteq> j" "r = Pending" "ws = []"
      "w' = w\<lparr>wt_indexes := slab_put (wt_indexes w) j (Some cx), wt_wakers := wt_wakers w @ [j]\<rparr>"
  | (pending) w4 where "wt_cur w = None \<or> wt_cur w = Some j" "f (run_state j cx w) = Some (w4, Pending, ws)" "r = Pending"
      "w' = w4\<lparr>wt_wakers := wt_wakers w4 @ [j], wt_running := False\<rparr>"
  | (ready) w4 ws0 v where "wt_cur w = None \<or> wt_cur w = Some j" "f (run_state j cx w) = Some (w4, Ready v, ws0)" "r = Ready v"
      "w' = (fst (waiters_notify w4))\<lparr>wt_running := False\<rparr>" "ws = ws0 @ snd (waiters_notify w4)"
proof -
  obtain e where e: "slab_get (wt_indexes w) j = Some e"
    using assms(1) by (auto simp: waiters_run_def split: bind_splits)
  show thesis
  proof (cases "wt_cur w = None \<or> wt_cur w = Some j")
    case True
    then have eq: "(if wt_cur w = None then w\<lparr>wt_indexes := slab_put (wt_indexes w) j (Some cx), wt_cur := Some j\<rparr>
        else w\<lparr>wt_indexes := slab_put (wt_indexes w) j (Some cx)\<rparr>)\<lparr>wt_running := True\<rparr> = run_state j cx w"
      by auto
    obtain w4 r0 ws0 where f: "f (run_state j cx w) = Some (w4, r0, ws0)"
      using assms e True eq by (auto simp: waiters_run_def Let_def split: bind_splits if_splits)
    show thesis
    proof (cases r0)
      case Pending
      have "w' = w4\<lparr>wt_wakers := wt_wakers w4 @ [j], wt_running := False\<rparr>" "r = Pending" "ws = ws0"
        using assms e True f Pending eq by (auto simp: waiters_run_def Let_def split: if_splits)
      with that(2) [OF True] f Pending show thesis by simp
    next
      case (Ready v)
      have "w' = (fst (waiters_notify w4))\<lparr>wt_running := False\<rparr>" "r = Ready v" "ws = ws0 @ snd (waiters_notify w4)"
        using assms e True f Ready eq by (auto simp: waiters_run_def Let_def case_prod_beta split: if_splits)
      with that(3) [OF True] f Ready show thesis by simp
    qed
  next
    case False
    then show thesis using assms e that(1) by (auto simp: waiters_run_def Let_def)
  qed
qed

section \<open>Wake-ups\<close>

text \<open>What the other bindings do while binding \<open>idx\<close> waits for its turn: they come and go, check readiness with any
  well-nested check, and drop checks that have not completed. Between two polls no check is running. The arbitration
  never looks at the error of a check, so errors are numbers here.\<close>

inductive waiters_step :: "nat \<Rightarrow> waiters \<Rightarrow> waiters \<Rightarrow> task list \<Rightarrow> bool" for idx where
  insert: "waiters_insert k w = (w', k') \<Longrightarrow> slab_get (wt_indexes w) k = None \<Longrightarrow> waiters_step idx w w' []"
| remove: "waiters_remove k w = Some (w', ws) \<Longrightarrow> k \<noteq> idx \<Longrightarrow> waiters_step idx w w' ws"
| run: "waiters_run j cx (f :: (nat + unit) waiters_fn) w = Some (w', r, ws) \<Longrightarrow> j \<noteq> idx \<Longrightarrow> well_nested j f \<Longrightarrow> waiters_step idx w w' ws"
| drop: "ready_call_drop j completed w = (w', ws) \<Longrightarrow> waiters_step idx w w' ws"

definition waiters_waiting :: "nat \<Rightarrow> waiters \<Rightarrow> task option" where
  "waiters_waiting idx w =
     (if idx \<in> set (wt_wakers w) \<and> \<not> wt_running w then case slab_get (wt_indexes w) idx of Some t \<Rightarrow> t | None \<Rightarrow> None else None)"

definition waiters_turn :: "nat \<Rightarrow> waiters \<Rightarrow> bool" where
  "waiters_turn idx w \<longleftrightarrow> wt_cur w = None \<or> wt_cur w = Some idx"

lemma waiters_waiting_iff:
  "waiters_waiting idx w = Some t \<longleftrightarrow> idx \<in> set (wt_wakers w) \<and> \<not> wt_running w \<and> slab_get (wt_indexes w) idx = Some (Some t)"
  by (auto simp: waiters_waiting_def split: option.splits)

lemma waiters_notify_wakes:
  assumes "idx \<in> set (wt_wakers w)" "slab_get (wt_indexes w) idx = Some (Some t)" shows "t \<in> set (snd (waiters_notify w))"
  using drain_wakers_wakes [OF assms(2,1)] by (simp add: waiters_notify_def case_prod_beta)

lemma waiters_run_keeps_or_wakes:
  assumes run: "waiters_run j cx f w = Some (w', r, ws)" "j \<noteq> idx" "well_nested j f"
    and w: "waiters_waiting idx w = Some t" "\<not> waiters_turn idx w"
  shows "waiters_waiting idx w' = Some t \<and> \<not> waiters_turn idx w' \<or> t \<in> set ws"
proof -
  have wt: "idx \<in> set (wt_wakers w)" "\<not> wt_running w" "slab_get (wt_indexes w) idx = Some (Some t)"
    using w(1) by (auto simp: waiters_waiting_iff)
  have nest: "nested_ok j (run_state j cx w) w4" if "f (run_state j cx w) = Some (w4, r4, ws4)" for w4 r4 ws4
    using run(3) that by (auto simp: well_nested_def)
  from run(1) wt(2) show ?thesis
  proof (cases rule: waiters_run_cases)
    case queued
    then show ?thesis using w(2) wt run(2) by (auto simp: waiters_waiting_iff waiters_turn_def)
  next
    case (pending w4)
    then show ?thesis using nest [OF pending(2)] w(2) wt run(2) by (auto simp: nested_ok_def waiters_waiting_iff waiters_turn_def)
  next
    case (ready w4 ws0 v)
    have "idx \<in> set (wt_wakers w4)" "slab_get (wt_indexes w4) idx = Some (Some t)"
      using nest [OF ready(2)] wt run(2) by (auto simp: nested_ok_def split: if_splits)
    from waiters_notify_wakes [OF this] ready(5) show ?thesis by simp
  qed
qed

interpretation wt: wake_safe "waiters_step idx" "waiters_waiting idx" "waiters_turn idx" for idx
proof
  fix w w' ws t
  assume step: "waiters_step idx w w' ws" and w: "waiters_waiting idx w = Some t" "\<not> waiters_turn idx w"
  have wt: "idx \<in> set (wt_wakers w)" "\<not> wt_running w" "slab_get (wt_indexes w) idx = Some (Some t)"
    using w(1) by (auto simp: waiters_waiting_iff)
  from step show "waiters_waiting idx w' = Some t \<and> \<not> waiters_turn idx w' \<or> t \<in> set ws"
  proof cases
    case (insert k k')
    then show ?thesis using w wt by (auto simp: waiters_insert_def waiters_waiting_iff waiters_turn_def)
  next
    case (remove k)
    let ?w = "w\<lparr>wt_indexes := slab_del (wt_indexes w) k\<rparr>"
    have "t \<in> set (snd (waiters_notify ?w))" using wt remove(2) by (intro waiters_notify_wakes [of idx]) auto
    then show ?thesis using remove w(2) wt
      by (auto simp: waiters_remove_def Let_def waiters_waiting_iff waiters_turn_def split: bind_splits if_splits)
  next
    case (run j cx f r)
    then show ?thesis using waiters_run_keeps_or_wakes [OF run(1-3) w] by simp
  next
    case (drop j completed)
    then show ?thesis using waiters_notify_wakes [OF wt(1,3)] w
      by (auto simp: ready_call_drop_def split: if_splits)
  qed
qed

text \<open>C20. Readiness checks exclude each other and hand over without losing a wake-up. While binding \<open>i\<close> owns the check, a
  poll of another binding \<open>idx\<close> does not run its own check at all, it is pending; and after any operations of the
  other bindings, if it is the turn of \<open>idx\<close> again (nobody owns the check), its task \<open>cx\<close> has been woken.\<close>

theorem readiness_handover:
  assumes "wt_cur w = Some i" and "i \<noteq> idx" and "\<not> wt_running w" and "waiters_run idx cx f w = Some (w1, r, ws0)"
    and "wake_run (waiters_step idx) w1 w2 ws" and "wt_cur w2 = None"
  shows "r = Pending \<and> waiters_run idx cx g w = Some (w1, r, ws0) \<and> cx \<in> set ws"
proof -
  have r: "r = Pending" "waiters_run idx cx g w = Some (w1, r, ws0)"
    and w1: "waiters_waiting idx w1 = Some cx" "\<not> waiters_turn idx w1"
    using assms(1-4) by (auto simp: waiters_run_def Let_def waiters_waiting_iff waiters_turn_def split: bind_splits if_splits)
  with wt.no_lost_wakeup [OF assms(5) w1] assms(6) show ?thesis by (simp add: waiters_turn_def)
qed

text \<open>Two bindings besides the main one; binding 1 owns the check.\<close>

definition two_bindings :: waiters where
  "two_bindings = \<lparr>wt_cur = Some 1, wt_running = False, wt_shutdown = False, wt_wakers = [1], wt_indexes = [Some None, Some (Some 41), Some None]\<rparr>"

theorem readiness_handover_witness:
  "let (w1, r, _) = the (waiters_run 2 42 (\<lambda>w. Some (w, Ready (Inr ()), [])) two_bindings :: (waiters \<times> (nat + unit) poll \<times> task list) option);
       (w2, _, ws) = the (waiters_run 1 41 (\<lambda>w. Some (w, Ready (Inr ()), [])) w1 :: (waiters \<times> (nat + unit) poll \<times> task list) option)
   in r = Pending \<and> wt_cur w2 = None \<and> 42 \<in> set ws"
proof -
  let ?f = "(\<lambda>w. Some (w, Ready (Inr ()), [])) :: (nat + unit) waiters_fn"
  let ?a = "the (waiters_run 2 42 ?f two_bindings)" let ?b = "the (waiters_run 1 41 ?f (fst ?a))"
  have a: "wt_cur two_bindings = Some 1" "(1 :: nat) \<noteq> 2" "\<not> wt_running two_bindings"
    "waiters_run 2 42 ?f two_bindings = Some (fst ?a, fst (snd ?a), snd (snd ?a))"
    by (simp_all add: two_bindings_def waiters_run_def slab_get_def)
  have b: "waiters_run 1 41 ?f (fst ?a) = Some (fst ?b, fst (snd ?b), snd (snd ?b))" and c: "wt_cur (fst ?b) = None"
    by (simp_all add: two_bindings_def waiters_run_def slab_get_def slab_put_def Let_def case_prod_beta numeral_2_eq_2)
  have "wake_run (waiters_step 2) (fst ?a) (fst ?b) (snd (snd ?b))"
    by (rule wake_run_single) (rule waiters_step.run [OF b _ well_nested_pure], simp)
  from readiness_handover [OF a this c, where g = ?f] c show ?thesis by (simp add: Let_def case_prod_beta)
qed

end
