(* ===== verification/Inflight.thy ===== *)
theory Inflight
  imports Counter Readiness
begin

text \<open>
  The in-flight limiter of \<open>geario/src/util/services/inflight.rs\<close> together with what it runs on: the counter, the \<open>join\<close> of two
  futures (\<open>util/future/join.rs\<close>) and the arbitration of readiness checks. The readiness of the wrapped service is an input of
  each poll. A call first waits for readiness, then takes a guard of the counter in the same poll and holds it until
  the wrapped service has answered or the call is dropped.
\<close>

text \<open>One slot of \<open>join\<close>: \<open>MaybeDone\<close> with the output of a completed future.\<close>

datatype 'a maybe_done = NotDone | Done 'a

definition join_slot :: "'a maybe_done \<Rightarrow> 'a poll \<Rightarrow> 'a maybe_done" where
  "join_slot m r = (case m of Done v \<Rightarrow> Done v | NotDone \<Rightarrow> (case r of Ready v \<Rightarrow> Done v | Pending \<Rightarrow> NotDone))"

definition join_result :: "'a maybe_done \<Rightarrow> 'b maybe_done \<Rightarrow> ('a \<times> 'b) poll" where
  "join_result a b = (case (a, b) of (Done x, Done y) \<Rightarrow> Ready (x, y) | _ \<Rightarrow> Pending)"

text \<open>The states of the future \<open>InFlightService::ready\<close>: not started, waiting for the wrapped service alone, or
  joined with the wait for room in the counter.\<close>

datatype 'e inflight_ready = RStart | RInner | RJoin "unit maybe_done" "('e + unit) maybe_done"

definition inner_ready :: "nat \<Rightarrow> task \<Rightarrow> ('e + unit) poll \<Rightarrow> ('e + unit) waiters_fn" where
  "inner_ready idx cx r = waiters_run idx cx (\<lambda>w. Some (w, r, []))"

definition inflight_join_poll ::
  "nat \<Rightarrow> nat \<Rightarrow> task \<Rightarrow> ('e + unit) poll \<Rightarrow> unit maybe_done \<Rightarrow> ('e + unit) maybe_done \<Rightarrow> counter \<Rightarrow> waiters
   \<Rightarrow> ('e inflight_ready \<times> counter \<times> waiters \<times> ('e + unit) poll) option" where
  "inflight_join_poll h idx cx r a b c w = do {
     (c1, a') \<leftarrow> (case a of Done _ \<Rightarrow> Some (c, a)
                  | NotDone \<Rightarrow> do { (c1, p) \<leftarrow> counter_available h cx c; Some (c1, join_slot a p) });
     (w1, b') \<leftarrow> (case b of Done _ \<Rightarrow> Some (w, b)
                  | NotDone \<Rightarrow> do { (w1, p, _) \<leftarrow> inner_ready idx cx r w; Some (w1, join_slot b p) });
     Some (RJoin a' b', c1, w1, case join_result a' b' of Ready (_, y) \<Rightarrow> Ready y | Pending \<Rightarrow> Pending)
   }"

definition inflight_ready_poll ::
  "nat \<Rightarrow> nat \<Rightarrow> task \<Rightarrow> ('e + unit) poll \<Rightarrow> 'e inflight_ready \<Rightarrow> counter \<Rightarrow> waiters
   \<Rightarrow> ('e inflight_ready \<times> counter \<times> waiters \<times> ('e + unit) poll) option" where
  "inflight_ready_poll h idx cx r st c w =
     (case (case st of RStart \<Rightarrow> if counter_is_available c then RInner else RJoin NotDone NotDone | _ \<Rightarrow> st) of
        RJoin a b \<Rightarrow> inflight_join_poll h idx cx r a b c w
      | _ \<Rightarrow> do { (w1, p, _) \<leftarrow> inner_ready idx cx r w; Some (RInner, c, w1, p) })"

section \<open>The service in use\<close>

text \<open>What a binding is doing: checking readiness only, entering a call, or running one with its guard.\<close>

datatype 'e inflight_call = Checking "'e inflight_ready" | Entering "'e inflight_ready" | Running

record 'e inflight =
  if_count :: counter
  if_waiters :: waiters
  if_calls :: "nat \<Rightarrow> 'e inflight_call option"

definition inflight_new :: "nat \<Rightarrow> nat \<Rightarrow> nat \<Rightarrow> 'e inflight" where
  "inflight_new h k cap = \<lparr>if_count = fst (counter_new h cap), if_waiters = waiters_new k, if_calls = (\<lambda>_. None)\<rparr>"

text \<open>A poll of the readiness part of binding \<open>idx\<close>. The check runs inside \<open>ReadyCall\<close>; it is not run, and the future keeps its
  state, while another binding owns the arbitration.\<close>

definition inflight_check ::
  "nat \<Rightarrow> nat \<Rightarrow> task \<Rightarrow> ('e + unit) poll \<Rightarrow> 'e inflight_ready \<Rightarrow> counter \<Rightarrow> waiters
   \<Rightarrow> ('e inflight_ready \<times> counter \<times> waiters \<times> ('e + unit) poll \<times> task list) option" where
  "inflight_check h idx cx r st c w = do {
     let body = (\<lambda>w. map_option (\<lambda>(st', c', w', p). (w', p, [])) (inflight_ready_poll h idx cx r st c w));
     (w', p, ws) \<leftarrow> waiters_run idx cx body w;
     if wt_cur w = None \<or> wt_cur w = Some idx
     then do {
       (st', c', _, _) \<leftarrow> inflight_ready_poll h idx cx r st c (run_state idx cx w);
       Some (st', c', w', p, ws)
     }
     else Some (st, c, w', p, ws)
   }"

inductive inflight_step :: "nat \<Rightarrow> 'e inflight \<Rightarrow> 'e inflight \<Rightarrow> bool" for h where
  bind: "\<lbrakk>slab_get (wt_indexes (if_waiters s)) k = None; waiters_insert k (if_waiters s) = (w, k')\<rbrakk>
    \<Longrightarrow> inflight_step h s (s\<lparr>if_waiters := w\<rparr>)"
| unbind: "\<lbrakk>if_calls s idx = None; waiters_remove idx (if_waiters s) = Some (w, ws)\<rbrakk> \<Longrightarrow> inflight_step h s (s\<lparr>if_waiters := w\<rparr>)"
| start_check: "if_calls s idx = None \<Longrightarrow> inflight_step h s (s\<lparr>if_calls := (if_calls s)(idx \<mapsto> Checking RStart)\<rparr>)"
| start_call: "if_calls s idx = None \<Longrightarrow> inflight_step h s (s\<lparr>if_calls := (if_calls s)(idx \<mapsto> Entering RStart)\<rparr>)"
| poll_check: "\<lbrakk>if_calls s idx = Some (Checking st); inflight_check h idx cx r st (if_count s) (if_waiters s) = Some (st', c, w, p, ws)\<rbrakk>
    \<Longrightarrow> inflight_step h s (s\<lparr>if_count := c, if_waiters := w,
         if_calls := (if_calls s)(idx := (case p of Pending \<Rightarrow> Some (Checking st') | Ready _ \<Rightarrow> None))\<rparr>)"
| poll_call: "\<lbrakk>if_calls s idx = Some (Entering st); inflight_check h idx cx r st (if_count s) (if_waiters s) = Some (st', c, w, p, ws)\<rbrakk>
    \<Longrightarrow> inflight_step h s (case p of
          Pending \<Rightarrow> s\<lparr>if_count := c, if_waiters := w, if_calls := (if_calls s)(idx \<mapsto> Entering st')\<rparr>
        | Ready (Inl _) \<Rightarrow> s\<lparr>if_count := c, if_waiters := w, if_calls := (if_calls s)(idx := None)\<rparr>
        | Ready (Inr _) \<Rightarrow> s\<lparr>if_count := counter_get c, if_waiters := w, if_calls := (if_calls s)(idx \<mapsto> Running)\<rparr>)"
| finish: "\<lbrakk>if_calls s idx = Some Running; counter_guard_drop (if_count s) = Some (c, ws)\<rbrakk>
    \<Longrightarrow> inflight_step h s (s\<lparr>if_count := c, if_calls := (if_calls s)(idx := None)\<rparr>)"
| cancel: "\<lbrakk>if_calls s idx = Some (Checking st) \<or> if_calls s idx = Some (Entering st); ready_call_drop idx False (if_waiters s) = (w, ws)\<rbrakk>
    \<Longrightarrow> inflight_step h s (s\<lparr>if_waiters := w, if_calls := (if_calls s)(idx := None)\<rparr>)"

inductive inflight_reachable :: "nat \<Rightarrow> nat \<Rightarrow> nat \<Rightarrow> 'e inflight \<Rightarrow> bool" for h k cap where
  new: "inflight_reachable h k cap (inflight_new h k cap)"
| step: "inflight_reachable h k cap s \<Longrightarrow> inflight_step h s s' \<Longrightarrow> inflight_reachable h k cap s'"

section \<open>The limit\<close>

text \<open>A check that has seen room in the counter owns the arbitration until it completes.\<close>

fun saw_room :: "'e inflight_ready \<Rightarrow> bool" where
  "saw_room RStart = False"
| "saw_room RInner = True"
| "saw_room (RJoin a _) = (a \<noteq> NotDone)"

fun call_saw_room :: "'e inflight_call \<Rightarrow> bool" where
  "call_saw_room (Checking st) = saw_room st"
| "call_saw_room (Entering st) = saw_room st"
| "call_saw_room Running = False"

definition running_of :: "(nat \<Rightarrow> 'e inflight_call option) \<Rightarrow> nat set" where
  "running_of calls = {idx. calls idx = Some Running}"

abbreviation running_calls :: "'e inflight \<Rightarrow> nat set" where
  "running_calls s \<equiv> running_of (if_calls s)"

definition inflight_inv :: "nat \<Rightarrow> 'e inflight \<Rightarrow> bool" where
  "inflight_inv cap s \<longleftrightarrow> \<not> wt_running (if_waiters s) \<and> ct_capacity (if_count s) = cap
     \<and> finite (running_calls s) \<and> ct_count (if_count s) = card (running_calls s) \<and> ct_count (if_count s) \<le> cap
     \<and> (\<forall>idx call. if_calls s idx = Some call \<longrightarrow> call_saw_room call
          \<longrightarrow> wt_cur (if_waiters s) = Some idx \<and> ct_count (if_count s) < cap)"

lemma counter_available_spec:
  "counter_available h cx c = Some (c', p) \<Longrightarrow> ct_count c' = ct_count c \<and> ct_capacity c' = ct_capacity c
    \<and> (p \<noteq> Pending \<longrightarrow> ct_count c < ct_capacity c)"
  by (auto simp: counter_available_def counter_poll_available_def split: if_splits bind_splits)

lemma inner_ready_nested: "inner_ready idx cx r w = Some (w', p, ws) \<Longrightarrow> wt_running w \<Longrightarrow> wt_cur w = Some idx \<Longrightarrow> nested_ok idx w w'"
  using well_nested_run [OF well_nested_pure [of idx r "[]"], of cx] by (auto simp: inner_ready_def well_nested_def)

definition ready_poll_ok :: "'e inflight_ready \<Rightarrow> counter \<Rightarrow> 'e inflight_ready \<Rightarrow> counter \<Rightarrow> ('e + unit) poll \<Rightarrow> bool" where
  "ready_poll_ok st c st' c' p \<longleftrightarrow> ct_count c' = ct_count c \<and> ct_capacity c' = ct_capacity c
     \<and> (saw_room st' \<longrightarrow> saw_room st \<or> ct_count c < ct_capacity c) \<and> (p \<noteq> Pending \<longrightarrow> saw_room st')"

lemma inflight_join_poll_spec:
  assumes "inflight_join_poll h idx cx r a b c w = Some (st', c', w', p)" "wt_running w" "wt_cur w = Some idx"
  shows "nested_ok idx w w' \<and> ready_poll_ok (RJoin a b) c st' c' p"
  using assms
  by (cases a; cases b)
    (auto simp: inflight_join_poll_def ready_poll_ok_def join_result_def join_slot_def nested_ok_refl
      split: bind_splits poll.splits maybe_done.splits dest!: counter_available_spec dest: inner_ready_nested)

lemma inflight_ready_poll_spec:
  assumes "inflight_ready_poll h idx cx r st c w = Some (st', c', w', p)" "wt_running w" "wt_cur w = Some idx"
  shows "nested_ok idx w w' \<and> ready_poll_ok st c st' c' p"
proof (cases "\<exists>a b. (case st of RStart \<Rightarrow> if counter_is_available c then RInner else RJoin NotDone NotDone | _ \<Rightarrow> st) = RJoin a b")
  case True
  then obtain a b where st: "(case st of RStart \<Rightarrow> if counter_is_available c then RInner else RJoin NotDone NotDone | _ \<Rightarrow> st) = RJoin a b"
    by blast
  then have "inflight_join_poll h idx cx r a b c w = Some (st', c', w', p)" using assms(1) by (simp add: inflight_ready_poll_def)
  from inflight_join_poll_spec [OF this assms(2,3)] st show ?thesis
    by (auto simp: ready_poll_ok_def split: inflight_ready.splits if_splits)
next
  case False
  then obtain ws where i: "inner_ready idx cx r w = Some (w', p, ws)" "st' = RInner" "c' = c" "st = RStart \<longrightarrow> counter_is_available c"
    using assms(1) by (auto simp: inflight_ready_poll_def split: inflight_ready.splits if_splits bind_splits)
  with inner_ready_nested [OF i(1) assms(2,3)] False show ?thesis
    by (auto simp: ready_poll_ok_def counter_is_available_def split: inflight_ready.splits)
qed

lemma inflight_check_spec:
  assumes "inflight_check h idx cx r st c w = Some (st', c', w', p, ws)" "\<not> wt_running w"
  shows "\<not> wt_running w' \<and> ct_count c' = ct_count c \<and> ct_capacity c' = ct_capacity c
    \<and> (if wt_cur w = None \<or> wt_cur w = Some idx
       then ready_poll_ok st c st' c' p \<and> wt_cur w' = (if p = Pending then Some idx else None)
       else st' = st \<and> p = Pending \<and> wt_cur w' = wt_cur w)"
proof -
  let ?body = "\<lambda>w. map_option (\<lambda>(st', c', w', p). (w', p, [])) (inflight_ready_poll h idx cx r st c w)"
  obtain w1 p1 ws1 where run: "waiters_run idx cx ?body w = Some (w1, p1, ws1)" and eq: "w1 = w'" "p1 = p" "ws1 = ws"
    and st: "if wt_cur w = None \<or> wt_cur w = Some idx
      then \<exists>x y. inflight_ready_poll h idx cx r st c (run_state idx cx w) = Some (st', c', x, y) else st' = st \<and> c' = c"
    using assms(1) by (auto simp: inflight_check_def Let_def split: bind_splits if_splits)
  from run assms(2) show ?thesis
  proof (cases rule: waiters_run_cases)
    case queued
    then show ?thesis using st assms(2) by (auto simp: eq)
  next
    case (pending w4)
    then have f: "inflight_ready_poll h idx cx r st c (run_state idx cx w) = Some (st', c', w4, Pending)" using st by auto
    from inflight_ready_poll_spec [OF f] pending show ?thesis by (auto simp: eq [symmetric] nested_ok_def ready_poll_ok_def)
  next
    case (ready w4 ws0 v)
    then have f: "inflight_ready_poll h idx cx r st c (run_state idx cx w) = Some (st', c', w4, Ready v)" using st by auto
    from inflight_ready_poll_spec [OF f] ready show ?thesis by (auto simp: eq [symmetric] ready_poll_ok_def)
  qed
qed

lemma running_of_update [simp]:
  "running_of (calls(idx := v)) = (if v = Some Running then insert idx (running_of calls) else running_of calls - {idx})"
  by (auto simp: running_of_def)

lemma waiters_notifyD: "waiters_notify w = (w', ws) \<Longrightarrow> wt_cur w' = None \<and> wt_running w' = wt_running w"
  using waiters_notify_fields(1,3) [of w] by simp

lemma inflight_invD:
  assumes "inflight_inv cap s"
  shows "\<not> wt_running (if_waiters s)" "ct_capacity (if_count s) = cap" "finite (running_calls s)"
    "ct_count (if_count s) = card (running_calls s)" "ct_count (if_count s) \<le> cap"
    "\<And>idx call. if_calls s idx = Some call \<Longrightarrow> call_saw_room call \<Longrightarrow> wt_cur (if_waiters s) = Some idx \<and> ct_count (if_count s) < cap"
  using assms by (auto simp: inflight_inv_def)

lemma inflight_invI:
  assumes "\<not> wt_running w" "ct_capacity c = cap" "finite (running_of calls)" "ct_count c = card (running_of calls)" "ct_count c \<le> cap"
    and "\<And>idx call. calls idx = Some call \<Longrightarrow> call_saw_room call \<Longrightarrow> wt_cur w = Some idx \<and> ct_count c < cap"
  shows "inflight_inv cap (s\<lparr>if_count := c, if_waiters := w, if_calls := calls\<rparr>)"
  using assms by (simp add: inflight_inv_def)

text \<open>The part of a call that polls its readiness: checking and entering share it.\<close>

lemma inflight_poll_pending_inv:
  assumes inv: "inflight_inv cap s" and call: "if_calls s idx = Some (mk st)" "mk = Checking \<or> mk = Entering"
    and check: "inflight_check h idx cx r st (if_count s) (if_waiters s) = Some (st', c, w, Pending, ws)"
  shows "inflight_inv cap (s\<lparr>if_count := c, if_waiters := w, if_calls := (if_calls s)(idx \<mapsto> mk st')\<rparr>)"
proof -
  note I = inflight_invD [OF inv]
  note C = inflight_check_spec [OF check I(1)]
  have saw: "call_saw_room (mk x) = saw_room x" "mk x \<noteq> Running" for x using call(2) by auto
  have run: "running_of ((if_calls s)(idx \<mapsto> mk st')) = running_calls s"
    using call saw(2) by (auto simp: running_of_def)
  show ?thesis
  proof (rule inflight_invI)
    fix j k assume jk: "((if_calls s)(idx \<mapsto> mk st')) j = Some k" "call_saw_room k"
    show "wt_cur w = Some j \<and> ct_count c < cap"
    proof (cases "j = idx")
      case True
      then have st': "saw_room st'" using jk saw by auto
      have "ct_count (if_count s) < cap" "wt_cur w = Some idx"
        using C st' I(2) I(6) [OF call(1)] by (auto simp: ready_poll_ok_def saw split: if_splits)
      then show ?thesis using C True by simp
    next
      case False
      then have "wt_cur (if_waiters s) = Some j \<and> ct_count (if_count s) < cap" using I(6) jk by simp
      then show ?thesis using C False by auto
    qed
  qed (use C I(2-5) in \<open>simp_all add: run del: running_of_update\<close>)
qed

lemma inflight_poll_ready_inv:
  assumes inv: "inflight_inv cap s" and call: "if_calls s idx = Some (mk st)" "mk = Checking \<or> mk = Entering"
    and check: "inflight_check h idx cx r st (if_count s) (if_waiters s) = Some (st', c, w, Ready v, ws)"
  shows "inflight_inv cap (s\<lparr>if_count := c, if_waiters := w, if_calls := (if_calls s)(idx := None)\<rparr>)"
    and "inflight_inv cap (s\<lparr>if_count := counter_get c, if_waiters := w, if_calls := (if_calls s)(idx \<mapsto> Running)\<rparr>)"
proof -
  note I = inflight_invD [OF inv]
  note C = inflight_check_spec [OF check I(1)]
  have saw: "call_saw_room (mk x) = saw_room x" "mk x \<noteq> Running" for x using call(2) by auto
  have cur: "wt_cur (if_waiters s) = None \<or> wt_cur (if_waiters s) = Some idx" using C by (auto split: if_splits)
  have room: "ct_count (if_count s) < cap"
    using C cur I(2) I(6) [OF call(1)] by (auto simp: ready_poll_ok_def saw)
  have not_run: "idx \<notin> running_calls s" using call saw(2) by (auto simp: running_of_def)
  have others: "\<not> call_saw_room k" if "if_calls s j = Some k" "j \<noteq> idx" for j k
    using I(6) [OF that(1)] that(2) cur by auto
  have fields: "\<not> wt_running w" "ct_capacity c = cap" "ct_count c = ct_count (if_count s)" using C I(2) by auto
  show "inflight_inv cap (s\<lparr>if_count := c, if_waiters := w, if_calls := (if_calls s)(idx := None)\<rparr>)"
  proof (rule inflight_invI)
    fix j k assume "((if_calls s)(idx := None)) j = Some k" "call_saw_room k"
    then show "wt_cur w = Some j \<and> ct_count c < cap" using others by (auto split: if_splits)
  qed (use fields I(3-5) not_run in simp_all)
  show "inflight_inv cap (s\<lparr>if_count := counter_get c, if_waiters := w, if_calls := (if_calls s)(idx \<mapsto> Running)\<rparr>)"
  proof (rule inflight_invI)
    fix j k assume "((if_calls s)(idx \<mapsto> Running)) j = Some k" "call_saw_room k"
    then show "wt_cur w = Some j \<and> ct_count (counter_get c) < cap" using others by (auto split: if_splits)
  qed (use fields I(3,4) not_run room in \<open>simp_all add: counter_get_def counter_inc_def\<close>)
qed

lemma guard_drop_fields:
  "counter_guard_drop c = Some (c', ws) \<Longrightarrow> ct_count c = Suc (ct_count c') \<and> ct_capacity c' = ct_capacity c"
  by (auto simp: counter_guard_drop_def counter_dec_def counter_notify_def Let_def split: if_splits)

lemma inflight_step_inv:
  assumes "inflight_step h s s'" "inflight_inv cap s" shows "inflight_inv cap s'"
  using assms(1)
proof cases
  case (bind k w k')
  then show ?thesis using assms(2) by (auto simp: waiters_insert_def inflight_inv_def running_of_def)
next
  case (unbind idx w ws)
  have "\<not> wt_running w" "wt_cur w = (if wt_cur (if_waiters s) = Some idx then None else wt_cur (if_waiters s))"
    using unbind(3) inflight_invD(1) [OF assms(2)] by (auto simp: waiters_remove_def Let_def split: bind_splits if_splits dest!: waiters_notifyD)
  with inflight_invD [OF assms(2)] unbind(1,2) show ?thesis unfolding inflight_inv_def by auto
next
  case (start_check idx)
  then have "idx \<notin> running_calls s" by (simp add: running_of_def)
  with start_check show ?thesis using assms(2) by (auto simp: inflight_inv_def)
next
  case (start_call idx)
  then have "idx \<notin> running_calls s" by (simp add: running_of_def)
  with start_call show ?thesis using assms(2) by (auto simp: inflight_inv_def)
next
  case (poll_check idx st cx r st' c w p ws)
  show ?thesis
  proof (cases p)
    case Pending
    with inflight_poll_pending_inv [where mk = Checking, OF assms(2) poll_check(2)] poll_check(1,3) show ?thesis by simp
  next
    case (Ready v)
    with inflight_poll_ready_inv(1) [where mk = Checking, OF assms(2) poll_check(2)] poll_check(1,3) show ?thesis by simp
  qed
next
  case (poll_call idx st cx r st' c w p ws)
  show ?thesis
  proof (cases p)
    case Pending
    with inflight_poll_pending_inv [where mk = Entering, OF assms(2) poll_call(2)] poll_call(1,3) show ?thesis by simp
  next
    case (Ready v)
    with inflight_poll_ready_inv [where mk = Entering, OF assms(2) poll_call(2)] poll_call(1,3) show ?thesis by (cases v) simp_all
  qed
next
  case (finish idx c ws)
  have "idx \<in> running_calls s" using finish(2) by (simp add: running_of_def)
  with guard_drop_fields [OF finish(3)] inflight_invD [OF assms(2)] show ?thesis
    unfolding inflight_inv_def finish(1)
    by auto
next
  case (cancel idx st w ws)
  have "idx \<notin> running_calls s" using cancel(2) by (auto simp: running_of_def)
  moreover have "\<not> wt_running w" "wt_cur w = (if wt_cur (if_waiters s) = Some idx then None else wt_cur (if_waiters s))"
    using cancel(3) inflight_invD(1) [OF assms(2)] by (auto simp: ready_call_drop_def split: if_splits dest!: waiters_notifyD)
  ultimately show ?thesis using inflight_invD [OF assms(2)]
    unfolding inflight_inv_def cancel(1)
    by (auto split: if_splits)
qed

text \<open>C19. The in-flight limit holds. In every state a pipeline over the limiter can reach, whatever the readiness of the
  wrapped service, with bindings coming and going, checks and calls interleaved poll by poll, completed or dropped,
  the number of calls that run is the count of the counter and never exceeds the configured maximum.\<close>

theorem inflight_limit:
  assumes "inflight_reachable h k cap s"
  shows "counter_total (if_count s) = card (running_calls s) \<and> card (running_calls s) \<le> cap"
proof -
  have "inflight_inv cap s" using assms
  proof induction
    case new
    show ?case by (simp add: inflight_inv_def inflight_new_def counter_new_def waiters_new_def running_of_def)
  next
    case (step s s')
    show ?case by (rule inflight_step_inv [OF step.hyps(2) step.IH])
  qed
  from inflight_invD(4,5) [OF this] show ?thesis by (simp add: counter_total_def)
qed

text \<open>A limiter for one call, and the same after the main binding has entered its call.\<close>

definition call_started :: "nat inflight" where
  "call_started = (inflight_new 0 0 1)\<lparr>if_calls := (\<lambda>_. None)(0 \<mapsto> Entering RStart)\<rparr>"

definition call_running :: "nat inflight" where
  "call_running = (let (_, c, w, _) = the (inflight_check 0 0 5 (Ready (Inr ())) RStart (if_count call_started) (if_waiters call_started)
      :: (nat inflight_ready \<times> counter \<times> waiters \<times> (nat + unit) poll \<times> task list) option)
    in call_started\<lparr>if_count := counter_get c, if_waiters := w, if_calls := (if_calls call_started)(0 \<mapsto> Running)\<rparr>)"

lemma call_running_reachable: "inflight_reachable 0 0 1 call_running"
proof -
  let ?r = "inflight_check 0 0 5 (Ready (Inr ())) RStart (if_count call_started) (if_waiters call_started)
      :: (nat inflight_ready \<times> counter \<times> waiters \<times> (nat + unit) poll \<times> task list) option"
  have start: "inflight_reachable 0 0 1 call_started"
    using inflight_reachable.step [OF inflight_reachable.new inflight_step.start_call, of 0 0 1 0]
    by (simp add: call_started_def inflight_new_def)
  obtain st c w ws where r: "?r = Some (st, c, w, Ready (Inr ()), ws)"
    by (simp add: inflight_check_def call_started_def inflight_new_def counter_new_def waiters_new_def waiters_run_def
        inflight_ready_poll_def counter_is_available_def inner_ready_def Let_def case_prod_beta)
  have "if_calls call_started 0 = Some (Entering RStart)" by (simp add: call_started_def)
  from inflight_reachable.step [OF start inflight_step.poll_call [OF this r]] show ?thesis by (simp add: call_running_def r)
qed

theorem inflight_limit_witness:
  "inflight_reachable 0 0 1 call_running \<and> running_calls call_running = {0} \<and> counter_total (if_count call_running) = 1"
proof -
  have "running_calls call_running = {0}" by (auto simp: running_of_def call_running_def call_started_def Let_def case_prod_beta)
  with inflight_limit [OF call_running_reachable] call_running_reachable show ?thesis by simp
qed

end
