(* ===== verification/Io_Flags.thy ===== *)
theory Io_Flags
  imports Prelude
begin

text \<open>
  The flags of an I/O stream, \<open>geario/src/io/flags.rs\<close>: one word of sixteen bits and the queries and updates the rest of the
  I/O code goes through. Each operation has a characterisation by bits in the collection \<open>io_flags\<close>; the proofs about streams
  work on those.
\<close>

named_theorems io_flags

abbreviation IO_STOPPED :: u16 where "IO_STOPPED \<equiv> flag 0"
abbreviation IO_STOPPING :: u16 where "IO_STOPPING \<equiv> flag 1"
abbreviation IO_STOPPING_FILTERS :: u16 where "IO_STOPPING_FILTERS \<equiv> flag 2"
abbreviation RD_PAUSED :: u16 where "RD_PAUSED \<equiv> flag 4"
abbreviation RD_BACKPRESSURE :: u16 where "RD_BACKPRESSURE \<equiv> flag 7"
abbreviation RD_NOTIFY :: u16 where "RD_NOTIFY \<equiv> flag 5"
abbreviation RD_NOTIFIED :: u16 where "RD_NOTIFIED \<equiv> flag 3"
abbreviation BUF_R_READY :: u16 where "BUF_R_READY \<equiv> flag 6"
abbreviation WR_FLUSH :: u16 where "WR_FLUSH \<equiv> flag 8"
abbreviation WR_PAUSED :: u16 where "WR_PAUSED \<equiv> flag 9"
abbreviation WR_NOTIFY :: u16 where "WR_NOTIFY \<equiv> flag 10"
abbreviation WR_SEND_OP :: u16 where "WR_SEND_OP \<equiv> flag 11"
abbreviation DSP_TIMEOUT :: u16 where "DSP_TIMEOUT \<equiv> flag 12"
abbreviation DSP_W_BACKPRESSURE :: u16 where "DSP_W_BACKPRESSURE \<equiv> flag 13"
abbreviation DIRECT_WR_SUP :: u16 where "DIRECT_WR_SUP \<equiv> flag 15"

definition flags_new :: "bool \<Rightarrow> u16" where
  "flags_new direct_wr = (if direct_wr then WR_PAUSED OR DIRECT_WR_SUP else WR_PAUSED)"

definition flags_new_stopped :: u16 where
  "flags_new_stopped = IO_STOPPED OR IO_STOPPING OR IO_STOPPING_FILTERS"

definition flags_is_closed :: "u16 \<Rightarrow> bool" where
  "flags_is_closed f \<longleftrightarrow> fl_intersects f (IO_STOPPING OR IO_STOPPED)"

definition flags_is_terminated :: "u16 \<Rightarrow> bool" where
  "flags_is_terminated f \<longleftrightarrow> fl_contains f (IO_STOPPED)"

definition flags_is_stopping :: "u16 \<Rightarrow> bool" where
  "flags_is_stopping f \<longleftrightarrow> fl_contains f (IO_STOPPING)"

definition flags_is_stopping_any :: "u16 \<Rightarrow> bool" where
  "flags_is_stopping_any f \<longleftrightarrow> fl_intersects f (IO_STOPPED OR IO_STOPPING OR IO_STOPPING_FILTERS)"

definition flags_is_stopping_filters :: "u16 \<Rightarrow> bool" where
  "flags_is_stopping_filters f \<longleftrightarrow> fl_contains f (IO_STOPPING_FILTERS)"

definition flags_is_write_notify :: "u16 \<Rightarrow> bool" where
  "flags_is_write_notify f \<longleftrightarrow> fl_contains f (WR_NOTIFY)"

definition flags_is_write_flush :: "u16 \<Rightarrow> bool" where
  "flags_is_write_flush f \<longleftrightarrow> fl_intersects f (WR_FLUSH)"

definition flags_is_direct_wr_enabled :: "u16 \<Rightarrow> bool" where
  "flags_is_direct_wr_enabled f \<longleftrightarrow> fl_contains f (DIRECT_WR_SUP)"

definition flags_is_read_paused :: "u16 \<Rightarrow> bool" where
  "flags_is_read_paused f \<longleftrightarrow> fl_contains f (RD_PAUSED)"

definition flags_is_write_paused :: "u16 \<Rightarrow> bool" where
  "flags_is_write_paused f \<longleftrightarrow> fl_contains f (WR_PAUSED)"

definition flags_is_read_ready :: "u16 \<Rightarrow> bool" where
  "flags_is_read_ready f \<longleftrightarrow> fl_contains f (BUF_R_READY)"

definition flags_is_read_notify :: "u16 \<Rightarrow> bool" where
  "flags_is_read_notify f \<longleftrightarrow> fl_contains f (RD_NOTIFY)"

definition flags_is_rd_backpressure :: "u16 \<Rightarrow> bool" where
  "flags_is_rd_backpressure f \<longleftrightarrow> fl_contains f (RD_BACKPRESSURE)"

definition flags_is_wr_backpressure :: "u16 \<Rightarrow> bool" where
  "flags_is_wr_backpressure f \<longleftrightarrow> fl_contains f (DSP_W_BACKPRESSURE)"

definition flags_is_wr_send_scheduled :: "u16 \<Rightarrow> bool" where
  "flags_is_wr_send_scheduled f \<longleftrightarrow> fl_contains f (WR_SEND_OP)"

definition flags_is_read_paused_or_backpressure :: "u16 \<Rightarrow> bool" where
  "flags_is_read_paused_or_backpressure f \<longleftrightarrow> fl_intersects f (RD_PAUSED OR RD_BACKPRESSURE)"

definition flags_is_read_ready_and_backpressure :: "u16 \<Rightarrow> bool" where
  "flags_is_read_ready_and_backpressure f \<longleftrightarrow> fl_contains f (BUF_R_READY OR RD_BACKPRESSURE)"

definition flags_set_read_paused :: "u16 \<Rightarrow> u16" where
  "flags_set_read_paused f = fl_insert f (RD_PAUSED)"

definition flags_set_write_paused :: "u16 \<Rightarrow> u16" where
  "flags_set_write_paused f = fl_insert f (WR_PAUSED)"

definition flags_set_write_notify :: "u16 \<Rightarrow> u16" where
  "flags_set_write_notify f = fl_insert f (WR_NOTIFY)"

definition flags_set_wr_send_scheduled :: "u16 \<Rightarrow> u16" where
  "flags_set_wr_send_scheduled f = fl_insert f (WR_SEND_OP)"

definition flags_set_wr_backpressure :: "u16 \<Rightarrow> u16" where
  "flags_set_wr_backpressure f = fl_insert f (DSP_W_BACKPRESSURE)"

definition flags_set_filter_stopping :: "u16 \<Rightarrow> u16" where
  "flags_set_filter_stopping f = fl_insert f (IO_STOPPING_FILTERS)"

definition flags_set_terminate :: "u16 \<Rightarrow> u16" where
  "flags_set_terminate f = fl_insert f (IO_STOPPED OR IO_STOPPING OR IO_STOPPING_FILTERS OR BUF_R_READY)"

definition flags_set_wants_write_flush :: "u16 \<Rightarrow> u16" where
  "flags_set_wants_write_flush f = fl_insert f (WR_FLUSH)"

definition flags_set_read_notify :: "u16 \<Rightarrow> u16" where
  "flags_set_read_notify f = fl_insert f (RD_NOTIFY)"

definition flags_set_read_notifed :: "u16 \<Rightarrow> u16" where
  "flags_set_read_notifed f = fl_insert f (RD_NOTIFIED)"

definition flags_set_read_ready :: "u16 \<Rightarrow> u16" where
  "flags_set_read_ready f = fl_insert f (BUF_R_READY)"

definition flags_set_read_ready_and_backpressure :: "u16 \<Rightarrow> u16" where
  "flags_set_read_ready_and_backpressure f = fl_insert f (RD_PAUSED OR BUF_R_READY OR RD_BACKPRESSURE)"

definition flags_set_filters_stopped :: "u16 \<Rightarrow> u16" where
  "flags_set_filters_stopped f = fl_insert f (IO_STOPPING)"

definition flags_unset_write_paused :: "u16 \<Rightarrow> u16" where
  "flags_unset_write_paused f = fl_remove f (WR_PAUSED)"

definition flags_unset_write_notify :: "u16 \<Rightarrow> u16" where
  "flags_unset_write_notify f = fl_remove f (WR_NOTIFY)"

definition flags_unset_wr_send_scheduled :: "u16 \<Rightarrow> u16" where
  "flags_unset_wr_send_scheduled f = fl_remove f (WR_SEND_OP)"

definition flags_unset_wr_backpressure :: "u16 \<Rightarrow> u16" where
  "flags_unset_wr_backpressure f = fl_remove f (DSP_W_BACKPRESSURE)"

definition flags_unset_wr_backpressure_and_flush :: "u16 \<Rightarrow> u16" where
  "flags_unset_wr_backpressure_and_flush f = fl_remove f (DSP_W_BACKPRESSURE OR WR_FLUSH)"

definition flags_unset_all_read_flags :: "u16 \<Rightarrow> u16" where
  "flags_unset_all_read_flags f = fl_remove f (BUF_R_READY OR RD_BACKPRESSURE)"

definition flags_unset_read_ready :: "u16 \<Rightarrow> u16" where
  "flags_unset_read_ready f = fl_remove f (BUF_R_READY)"

definition flags_unset_read_paused :: "u16 \<Rightarrow> u16" where
  "flags_unset_read_paused f = fl_remove f (RD_PAUSED)"

definition flags_is_shutting_down_filters :: "u16 \<Rightarrow> bool" where
  "flags_is_shutting_down_filters f \<longleftrightarrow>
     fl_contains f IO_STOPPING_FILTERS \<and> \<not> fl_intersects f (IO_STOPPED OR IO_STOPPING)"

text \<open>The checks that also update the flags return the new flags and the answer.\<close>

definition flags_check_read_notifed :: "u16 \<Rightarrow> u16 \<times> bool" where
  "flags_check_read_notifed f =
     (if fl_contains f RD_NOTIFIED then (fl_remove f (RD_NOTIFY OR RD_NOTIFIED), True) else (f, False))"

definition flags_check_dispatcher_timeout :: "u16 \<Rightarrow> u16 \<times> bool" where
  "flags_check_dispatcher_timeout f =
     (if fl_contains f DSP_TIMEOUT then (fl_remove f DSP_TIMEOUT, True) else (f, False))"

definition flags_check_dispatcher_timeout_unset :: "u16 \<Rightarrow> u16 \<times> bool" where
  "flags_check_dispatcher_timeout_unset f =
     (if fl_contains f DSP_TIMEOUT then (f, False) else (fl_insert f DSP_TIMEOUT, True))"

section \<open>By bits\<close>

lemma flags_new_bits [io_flags]: "bit (flags_new d) n \<longleftrightarrow> n = 9 \<or> d \<and> n = 15"
  by (auto simp: flags_new_def flag_simps)

lemma flags_new_stopped_bits [io_flags]: "bit flags_new_stopped n \<longleftrightarrow> n = 0 \<or> n = 1 \<or> n = 2"
  by (auto simp: flags_new_stopped_def flag_simps)

lemma flags_is_closed_bits [io_flags]: "flags_is_closed f \<longleftrightarrow> bit f 1 \<or> bit f 0"
  by (auto simp: flags_is_closed_def flag_simps)

lemma flags_is_terminated_bits [io_flags]: "flags_is_terminated f \<longleftrightarrow> bit f 0"
  by (auto simp: flags_is_terminated_def flag_simps)

lemma flags_is_stopping_bits [io_flags]: "flags_is_stopping f \<longleftrightarrow> bit f 1"
  by (auto simp: flags_is_stopping_def flag_simps)

lemma flags_is_stopping_any_bits [io_flags]: "flags_is_stopping_any f \<longleftrightarrow> bit f 0 \<or> bit f 1 \<or> bit f 2"
  by (auto simp: flags_is_stopping_any_def flag_simps)

lemma flags_is_stopping_filters_bits [io_flags]: "flags_is_stopping_filters f \<longleftrightarrow> bit f 2"
  by (auto simp: flags_is_stopping_filters_def flag_simps)

lemma flags_is_write_notify_bits [io_flags]: "flags_is_write_notify f \<longleftrightarrow> bit f 10"
  by (auto simp: flags_is_write_notify_def flag_simps)

lemma flags_is_write_flush_bits [io_flags]: "flags_is_write_flush f \<longleftrightarrow> bit f 8"
  by (auto simp: flags_is_write_flush_def flag_simps)

lemma flags_is_direct_wr_enabled_bits [io_flags]: "flags_is_direct_wr_enabled f \<longleftrightarrow> bit f 15"
  by (auto simp: flags_is_direct_wr_enabled_def flag_simps)

lemma flags_is_read_paused_bits [io_flags]: "flags_is_read_paused f \<longleftrightarrow> bit f 4"
  by (auto simp: flags_is_read_paused_def flag_simps)

lemma flags_is_write_paused_bits [io_flags]: "flags_is_write_paused f \<longleftrightarrow> bit f 9"
  by (auto simp: flags_is_write_paused_def flag_simps)

lemma flags_is_read_ready_bits [io_flags]: "flags_is_read_ready f \<longleftrightarrow> bit f 6"
  by (auto simp: flags_is_read_ready_def flag_simps)

lemma flags_is_read_notify_bits [io_flags]: "flags_is_read_notify f \<longleftrightarrow> bit f 5"
  by (auto simp: flags_is_read_notify_def flag_simps)

lemma flags_is_rd_backpressure_bits [io_flags]: "flags_is_rd_backpressure f \<longleftrightarrow> bit f 7"
  by (auto simp: flags_is_rd_backpressure_def flag_simps)

lemma flags_is_wr_backpressure_bits [io_flags]: "flags_is_wr_backpressure f \<longleftrightarrow> bit f 13"
  by (auto simp: flags_is_wr_backpressure_def flag_simps)

lemma flags_is_wr_send_scheduled_bits [io_flags]: "flags_is_wr_send_scheduled f \<longleftrightarrow> bit f 11"
  by (auto simp: flags_is_wr_send_scheduled_def flag_simps)

lemma flags_is_read_paused_or_backpressure_bits [io_flags]: "flags_is_read_paused_or_backpressure f \<longleftrightarrow> bit f 4 \<or> bit f 7"
  by (auto simp: flags_is_read_paused_or_backpressure_def flag_simps)

lemma flags_is_read_ready_and_backpressure_bits [io_flags]: "flags_is_read_ready_and_backpressure f \<longleftrightarrow> bit f 6 \<and> bit f 7"
  by (auto simp: flags_is_read_ready_and_backpressure_def flag_simps)

lemma flags_set_read_paused_bits [io_flags]: "bit (flags_set_read_paused f) n \<longleftrightarrow> n = 4 \<or> bit f n"
  by (auto simp: flags_set_read_paused_def flag_simps)

lemma flags_set_write_paused_bits [io_flags]: "bit (flags_set_write_paused f) n \<longleftrightarrow> n = 9 \<or> bit f n"
  by (auto simp: flags_set_write_paused_def flag_simps)

lemma flags_set_write_notify_bits [io_flags]: "bit (flags_set_write_notify f) n \<longleftrightarrow> n = 10 \<or> bit f n"
  by (auto simp: flags_set_write_notify_def flag_simps)

lemma flags_set_wr_send_scheduled_bits [io_flags]: "bit (flags_set_wr_send_scheduled f) n \<longleftrightarrow> n = 11 \<or> bit f n"
  by (auto simp: flags_set_wr_send_scheduled_def flag_simps)

lemma flags_set_wr_backpressure_bits [io_flags]: "bit (flags_set_wr_backpressure f) n \<longleftrightarrow> n = 13 \<or> bit f n"
  by (auto simp: flags_set_wr_backpressure_def flag_simps)

lemma flags_set_filter_stopping_bits [io_flags]: "bit (flags_set_filter_stopping f) n \<longleftrightarrow> n = 2 \<or> bit f n"
  by (auto simp: flags_set_filter_stopping_def flag_simps)

lemma flags_set_terminate_bits [io_flags]: "bit (flags_set_terminate f) n \<longleftrightarrow> n = 0 \<or> n = 1 \<or> n = 2 \<or> n = 6 \<or> bit f n"
  by (auto simp: flags_set_terminate_def flag_simps)

lemma flags_set_wants_write_flush_bits [io_flags]: "bit (flags_set_wants_write_flush f) n \<longleftrightarrow> n = 8 \<or> bit f n"
  by (auto simp: flags_set_wants_write_flush_def flag_simps)

lemma flags_set_read_notify_bits [io_flags]: "bit (flags_set_read_notify f) n \<longleftrightarrow> n = 5 \<or> bit f n"
  by (auto simp: flags_set_read_notify_def flag_simps)

lemma flags_set_read_notifed_bits [io_flags]: "bit (flags_set_read_notifed f) n \<longleftrightarrow> n = 3 \<or> bit f n"
  by (auto simp: flags_set_read_notifed_def flag_simps)

lemma flags_set_read_ready_bits [io_flags]: "bit (flags_set_read_ready f) n \<longleftrightarrow> n = 6 \<or> bit f n"
  by (auto simp: flags_set_read_ready_def flag_simps)

lemma flags_set_read_ready_and_backpressure_bits [io_flags]: "bit (flags_set_read_ready_and_backpressure f) n \<longleftrightarrow> n = 4 \<or> n = 6 \<or> n = 7 \<or> bit f n"
  by (auto simp: flags_set_read_ready_and_backpressure_def flag_simps)

lemma flags_set_filters_stopped_bits [io_flags]: "bit (flags_set_filters_stopped f) n \<longleftrightarrow> n = 1 \<or> bit f n"
  by (auto simp: flags_set_filters_stopped_def flag_simps)

lemma flags_unset_write_paused_bits [io_flags]: "bit (flags_unset_write_paused f) n \<longleftrightarrow> n \<noteq> 9 \<and> bit f n"
  by (auto simp: flags_unset_write_paused_def flag_simps)

lemma flags_unset_write_notify_bits [io_flags]: "bit (flags_unset_write_notify f) n \<longleftrightarrow> n \<noteq> 10 \<and> bit f n"
  by (auto simp: flags_unset_write_notify_def flag_simps)

lemma flags_unset_wr_send_scheduled_bits [io_flags]: "bit (flags_unset_wr_send_scheduled f) n \<longleftrightarrow> n \<noteq> 11 \<and> bit f n"
  by (auto simp: flags_unset_wr_send_scheduled_def flag_simps)

lemma flags_unset_wr_backpressure_bits [io_flags]: "bit (flags_unset_wr_backpressure f) n \<longleftrightarrow> n \<noteq> 13 \<and> bit f n"
  by (auto simp: flags_unset_wr_backpressure_def flag_simps)

lemma flags_unset_wr_backpressure_and_flush_bits [io_flags]: "bit (flags_unset_wr_backpressure_and_flush f) n \<longleftrightarrow> n \<noteq> 13 \<and> n \<noteq> 8 \<and> bit f n"
  by (auto simp: flags_unset_wr_backpressure_and_flush_def flag_simps)

lemma flags_unset_all_read_flags_bits [io_flags]: "bit (flags_unset_all_read_flags f) n \<longleftrightarrow> n \<noteq> 6 \<and> n \<noteq> 7 \<and> bit f n"
  by (auto simp: flags_unset_all_read_flags_def flag_simps)

lemma flags_unset_read_ready_bits [io_flags]: "bit (flags_unset_read_ready f) n \<longleftrightarrow> n \<noteq> 6 \<and> bit f n"
  by (auto simp: flags_unset_read_ready_def flag_simps)

lemma flags_unset_read_paused_bits [io_flags]: "bit (flags_unset_read_paused f) n \<longleftrightarrow> n \<noteq> 4 \<and> bit f n"
  by (auto simp: flags_unset_read_paused_def flag_simps)

lemma flags_is_shutting_down_filters_bits [io_flags]: "flags_is_shutting_down_filters f \<longleftrightarrow> bit f 2 \<and> \<not> bit f 0 \<and> \<not> bit f 1"
  by (auto simp: flags_is_shutting_down_filters_def flag_simps)

lemma flags_check_read_notifed_bits [io_flags]:
  "snd (flags_check_read_notifed f) \<longleftrightarrow> bit f 3"
  "bit (fst (flags_check_read_notifed f)) n \<longleftrightarrow> bit f n \<and> (bit f 3 \<longrightarrow> n \<noteq> 3 \<and> n \<noteq> 5)"
  by (auto simp: flags_check_read_notifed_def flag_simps)

lemma flags_check_dispatcher_timeout_bits [io_flags]:
  "snd (flags_check_dispatcher_timeout f) \<longleftrightarrow> bit f 12"
  "bit (fst (flags_check_dispatcher_timeout f)) n \<longleftrightarrow> bit f n \<and> n \<noteq> 12"
  by (auto simp: flags_check_dispatcher_timeout_def flag_simps)

lemma flags_check_dispatcher_timeout_unset_bits [io_flags]:
  "snd (flags_check_dispatcher_timeout_unset f) \<longleftrightarrow> \<not> bit f 12"
  "bit (fst (flags_check_dispatcher_timeout_unset f)) n \<longleftrightarrow> bit f n \<or> n = 12"
  by (auto simp: flags_check_dispatcher_timeout_unset_def flag_simps)

end
