(* ===== verification/Bytes_Mem.thy ===== *)
theory Bytes_Mem
  imports Prelude
begin

text \<open>
  The shared vectors that back \<open>BytesMut\<close> and \<open>Bytes\<close> (\<open>bytes/stvec.rs\<close>, the page sizes of
  \<open>bytes/mod.rs\<close>), on an explicit heap.

  An allocation is a block: the header \<open>SharedVec\<close> and the memory of the whole layout, a list with
  one entry per byte that is \<open>None\<close> while the byte is uninitialised. Positions in a block count from
  the address of the header, as \<open>offset\<close> does in the sources. A \<open>StorageVec\<close> is the address of its
  block. Blocks are never reused: freeing one leaves \<open>None\<close> at its address, so a dangling access, an
  access outside the layout and a read of uninitialised memory are all the value \<open>None\<close>, like a
  panic. The \<open>u32\<close> fields are natural numbers; the casts and the overflow checks are written out.
\<close>

section \<open>Page sizes\<close>

datatype byte_page_size = Size4 | Size8 | Size16 | Size24 | Size32 | Size48 | Size64 | Unset

fun page_capacity :: "byte_page_size \<Rightarrow> nat" where
  "page_capacity Size4 = 4 * 1024"
| "page_capacity Size8 = 8 * 1024"
| "page_capacity Size16 = 16 * 1024"
| "page_capacity Size24 = 24 * 1024"
| "page_capacity Size32 = 32 * 1024"
| "page_capacity Size48 = 48 * 1024"
| "page_capacity Size64 = 64 * 1024"
| "page_capacity Unset = 64 * 1024"

fun page_half_capacity :: "byte_page_size \<Rightarrow> nat" where
  "page_half_capacity Size4 = 2 * 1024"
| "page_half_capacity Size8 = 4 * 1024"
| "page_half_capacity Size16 = 8 * 1024"
| "page_half_capacity Size24 = 12 * 1024"
| "page_half_capacity Size32 = 16 * 1024"
| "page_half_capacity Size48 = 16 * 1024"
| "page_half_capacity Size64 = 16 * 1024"
| "page_half_capacity Unset = 16 * 1024"

fun page_index :: "byte_page_size \<Rightarrow> nat" where
  "page_index Size4 = 0"
| "page_index Size8 = 1"
| "page_index Size16 = 2"
| "page_index Size24 = 3"
| "page_index Size32 = 4"
| "page_index Size48 = 5"
| "page_index Size64 = 6"
| "page_index Unset = 7"

section \<open>Machine arithmetic of the headers\<close>

abbreviation METADATA_SIZE :: nat where
  "METADATA_SIZE \<equiv> 24"

abbreviation INLINE_CAP :: nat where
  "INLINE_CAP \<equiv> 23"

abbreviation MIN_CAPACITY :: nat where
  "MIN_CAPACITY \<equiv> 128 - METADATA_SIZE"

definition as_u32 :: "nat \<Rightarrow> nat" where
  "as_u32 n = n mod 4294967296"

definition u32_add :: "nat \<Rightarrow> nat \<Rightarrow> nat option" where
  "u32_add a b = (if a + b < 4294967296 then Some (a + b) else None)"

definition checked_sub :: "nat \<Rightarrow> nat \<Rightarrow> nat option" where
  "checked_sub a b = (if b \<le> a then Some (a - b) else None)"

lemma as_u32_id [simp]: "n < 4294967296 \<Longrightarrow> as_u32 n = n"
  by (simp add: as_u32_def)

lemma u32_add_eq_Some [simp]: "u32_add a b = Some c \<longleftrightarrow> c = a + b \<and> a + b < 4294967296"
  by (auto simp: u32_add_def)

lemma checked_sub_eq_Some [simp]: "checked_sub a b = Some c \<longleftrightarrow> b \<le> a \<and> c = a - b"
  by (auto simp: checked_sub_def)

lemma u32_add_ok [simp]: "a + b < 4294967296 \<Longrightarrow> u32_add a b = Some (a + b)"
  by simp

lemma checked_sub_ok [simp]: "b \<le> a \<Longrightarrow> checked_sub a b = Some (a - b)"
  by simp

section \<open>Memory\<close>

type_synonym memory = "u8 option list"

text \<open>\<open>slice::from_raw_parts\<close>: the initialised bytes at a position.\<close>

definition mem_slice :: "memory \<Rightarrow> nat \<Rightarrow> nat \<Rightarrow> u8 list option" where
  "mem_slice m off n = (if off + n \<le> length m then those (take n (drop off m)) else None)"

text \<open>\<open>ptr::copy_nonoverlapping\<close>, \<open>copy_from_slice\<close> and \<open>ptr::write_bytes\<close> with bytes as source.\<close>

definition mem_store :: "memory \<Rightarrow> nat \<Rightarrow> u8 list \<Rightarrow> memory option" where
  "mem_store m off xs =
    (if off + length xs \<le> length m
     then Some (take off m @ map Some xs @ drop (off + length xs) m) else None)"

lemma length_mem_store: "mem_store m off xs = Some m' \<Longrightarrow> length m' = length m"
  by (auto simp: mem_store_def split: if_splits)

lemma mem_store_ok:
  "off + length xs \<le> length m \<Longrightarrow> \<exists>m'. mem_store m off xs = Some m'"
  by (simp add: mem_store_def)

lemma those_eq_Some_iff: "those xs = Some ys \<longleftrightarrow> xs = map Some ys"
proof (induction xs arbitrary: ys)
  case (Cons x xs)
  show ?case
    by (cases x; cases ys) (auto simp: Cons.IH map_option_case split: option.splits
        simp flip: Cons.IH)
qed auto

lemma mem_slice_eq_Some_iff:
  "mem_slice m off n = Some xs \<longleftrightarrow> off + n \<le> length m \<and> take n (drop off m) = map Some xs"
  by (simp add: mem_slice_def those_eq_Some_iff)

lemma mem_slice_length: "mem_slice m off n = Some xs \<Longrightarrow> length xs = n"
  by (auto simp: mem_slice_eq_Some_iff dest!: arg_cong [where f = length])

lemma mem_slice_nth_iff:
  "mem_slice m off n = Some xs \<longleftrightarrow>
    off + n \<le> length m \<and> length xs = n \<and> (\<forall>i < n. m ! (off + i) = Some (xs ! i))"
  by (auto simp: mem_slice_eq_Some_iff list_eq_iff_nth_eq)

lemma mem_slice_empty [simp]: "mem_slice m off 0 = (if off \<le> length m then Some [] else None)"
  by (simp add: mem_slice_def)

lemma mem_slice_take:
  "mem_slice m off n = Some xs \<Longrightarrow> k \<le> n \<Longrightarrow> mem_slice m off k = Some (take k xs)"
  by (auto simp: mem_slice_nth_iff)

lemma mem_slice_drop:
  "mem_slice m off n = Some xs \<Longrightarrow> k \<le> n \<Longrightarrow> mem_slice m (off + k) (n - k) = Some (drop k xs)"
  by (auto simp: mem_slice_nth_iff add.assoc)

lemma mem_slice_append:
  "mem_slice m off n = Some xs \<Longrightarrow> mem_slice m (off + n) k = Some ys \<Longrightarrow>
    mem_slice m off (n + k) = Some (xs @ ys)"
  by (auto simp: mem_slice_nth_iff nth_append)
    (metis add.assoc add_diff_inverse_nat nat_add_left_cancel_less)

lemma mem_store_nth:
  assumes "mem_store m off xs = Some m'" and "i < length m"
  shows "m' ! i = (if off \<le> i \<and> i < off + length xs then Some (xs ! (i - off)) else m ! i)"
  using assms by (auto simp: mem_store_def nth_append min_def split: if_splits)

lemma mem_slice_store_same:
  "mem_store m off xs = Some m' \<Longrightarrow> mem_slice m' off (length xs) = Some xs"
  by (auto simp: mem_store_def mem_slice_nth_iff nth_append split: if_splits)

lemma mem_slice_store_other:
  assumes "mem_store m off xs = Some m'" and "p + n \<le> off \<or> off + length xs \<le> p"
  shows "mem_slice m' p n = mem_slice m p n"
proof -
  have "off + length xs \<le> length m" using assms(1) by (auto simp: mem_store_def split: if_splits)
  have len: "length m' = length m" by (rule length_mem_store [OF assms(1)])
  have "take n (drop p m') = take n (drop p m)" if "p + n \<le> length m"
    using assms(2) that by (auto simp: list_eq_iff_nth_eq len mem_store_nth [OF assms(1)])
  then show ?thesis by (simp add: mem_slice_def len)
qed

section \<open>Blocks and the heap\<close>

record shared_vec =
  sv_offset :: nat
  sv_len :: nat
  sv_capacity :: nat
  sv_remaining :: nat
  sv_ref_count :: nat
  sv_size :: byte_page_size
  sv_mem :: memory

text \<open>
  \<open>hp_cache\<close> and \<open>hp_cache_size\<close> are the thread-local \<open>CACHE\<close>: one stack of free vectors per page
  size, its last element the first one.
\<close>

record heap =
  hp_blocks :: "shared_vec slab"
  hp_cache :: "nat list list"
  hp_cache_size :: nat

definition heap_new :: heap where
  "heap_new = \<lparr>hp_blocks = [], hp_cache = replicate 7 [], hp_cache_size = 128\<rparr>"

definition set_pages_cache :: "nat \<Rightarrow> heap \<Rightarrow> heap" where
  "set_pages_cache n h = h\<lparr>hp_cache_size := n\<rparr>"

definition hp_get :: "heap \<Rightarrow> nat \<Rightarrow> shared_vec option" where
  "hp_get h a = slab_get (hp_blocks h) a"

definition hp_upd :: "heap \<Rightarrow> nat \<Rightarrow> shared_vec \<Rightarrow> heap" where
  "hp_upd h a b = h\<lparr>hp_blocks := slab_put (hp_blocks h) a b\<rparr>"

definition hp_free :: "heap \<Rightarrow> nat \<Rightarrow> heap" where
  "hp_free h a = h\<lparr>hp_blocks := slab_del (hp_blocks h) a\<rparr>"

lemma hp_get_upd [simp]: "hp_get (hp_upd h a b) x = (if x = a then Some b else hp_get h x)"
  by (simp add: hp_get_def hp_upd_def)

lemma hp_get_free [simp]: "hp_get (hp_free h a) x = (if x = a then None else hp_get h x)"
  by (simp add: hp_get_def hp_free_def)

lemma hp_upd_upd [simp]: "hp_upd (hp_upd h a b) a c = hp_upd h a c"
  by (simp add: hp_upd_def slab_put_def list_eq_iff_nth_eq nth_list_update nth_append)

lemma hp_upd_same: "hp_get h a = Some b \<Longrightarrow> hp_upd h a b = h"
  by (auto simp: hp_upd_def hp_get_def slab_put_def slab_get_def list_update_same_conv split: if_splits)

lemma hp_cache_upd [simp]:
  "hp_cache (hp_upd h a b) = hp_cache h" "hp_cache_size (hp_upd h a b) = hp_cache_size h"
  by (simp_all add: hp_upd_def)

lemma hp_cache_free [simp]:
  "hp_cache (hp_free h a) = hp_cache h" "hp_cache_size (hp_free h a) = hp_cache_size h"
  by (simp_all add: hp_free_def)

section \<open>Creating a vector\<close>

text \<open>\<open>Layout\<close>: the size of the header and the payload, within \<open>isize::MAX\<close> once padded.\<close>

definition shared_vec_layout :: "nat \<Rightarrow> nat option" where
  "shared_vec_layout cap =
    (if cap + METADATA_SIZE \<le> 9223372036854775804 then Some (cap + METADATA_SIZE) else None)"

definition alloc_with_capacity ::
    "byte_page_size \<Rightarrow> nat \<Rightarrow> nat \<Rightarrow> heap \<Rightarrow> (nat \<times> heap) option" where
  "alloc_with_capacity sz cap len h = do {
     layout \<leftarrow> shared_vec_layout cap;
     let capacity = as_u32 (layout - METADATA_SIZE);
     remaining \<leftarrow> checked_sub capacity len;
     let a = length (hp_blocks h);
     Some (a, hp_upd h a
       \<lparr>sv_offset = METADATA_SIZE, sv_len = len, sv_capacity = capacity, sv_remaining = remaining,
        sv_ref_count = 1, sv_size = sz, sv_mem = replicate layout None\<rparr>) }"

definition sv_create ::
    "byte_page_size \<Rightarrow> nat \<Rightarrow> u8 list \<Rightarrow> heap \<Rightarrow> (nat \<times> heap) option" where
  "sv_create sz cap src h = do {
     (a, h) \<leftarrow> alloc_with_capacity sz cap (as_u32 (length src)) h;
     b \<leftarrow> hp_get h a;
     m \<leftarrow> mem_store (sv_mem b) METADATA_SIZE src;
     Some (a, hp_upd h a (b\<lparr>sv_mem := m\<rparr>)) }"

definition sv_with_capacity :: "nat \<Rightarrow> heap \<Rightarrow> (nat \<times> heap) option" where
  "sv_with_capacity cap h = sv_create Unset cap [] h"

definition sv_from_slice :: "nat \<Rightarrow> u8 list \<Rightarrow> heap \<Rightarrow> (nat \<times> heap) option" where
  "sv_from_slice cap src h = sv_create Unset cap src h"

text \<open>A page of a size, from the cache of that size when it has one; \<open>Unset\<close> has no cache.\<close>

definition sv_sized :: "byte_page_size \<Rightarrow> heap \<Rightarrow> (nat \<times> heap) option" where
  "sv_sized sz h =
    (if page_index sz < length (hp_cache h)
     then let stack = hp_cache h ! page_index sz in
       (if stack = [] then sv_create sz (page_capacity sz) [] h
        else do {
          b \<leftarrow> hp_get h (last stack);
          Some (last stack,
            hp_upd (h\<lparr>hp_cache := (hp_cache h)[page_index sz := butlast stack]\<rparr>)
              (last stack) (b\<lparr>sv_size := sz\<rparr>)) })
     else None)"

definition sv_unsize :: "nat \<Rightarrow> heap \<Rightarrow> heap option" where
  "sv_unsize a h = do {
     b \<leftarrow> hp_get h a;
     Some (hp_upd h a (b\<lparr>sv_size := Unset\<rparr>)) }"

section \<open>Releasing a vector\<close>

text \<open>
  The last handle puts the block into the cache of its page size while that has room, and frees it
  otherwise. Freeing with a layout other than the one of the allocation is a fault.
\<close>

definition release_shared_vec :: "nat \<Rightarrow> heap \<Rightarrow> heap option" where
  "release_shared_vec a h = do {
     b \<leftarrow> hp_get h a;
     if sv_ref_count b \<noteq> 1
     then Some (hp_upd h a (b\<lparr>sv_ref_count := (sv_ref_count b + 4294967295) mod 4294967296\<rparr>))
     else do {
       cap \<leftarrow> u32_add (sv_offset b) (sv_capacity b);
       let i = page_index (sv_size b);
       if sv_size b \<noteq> Unset \<and> length (hp_cache h ! i) < hp_cache_size h
       then do {
         capacity \<leftarrow> checked_sub cap METADATA_SIZE;
         Some (hp_upd (h\<lparr>hp_cache := (hp_cache h)[i := hp_cache h ! i @ [a]]\<rparr>) a
           (b\<lparr>sv_len := 0, sv_offset := METADATA_SIZE, sv_capacity := capacity,
              sv_remaining := capacity, sv_ref_count := 1, sv_size := Unset\<rparr>)) }
       else do {
         payload \<leftarrow> checked_sub cap METADATA_SIZE;
         layout \<leftarrow> shared_vec_layout payload;
         if layout = length (sv_mem b) then Some (hp_free h a) else None } } }"

section \<open>Reading and writing a vector\<close>

definition sv_as_ref :: "nat \<Rightarrow> heap \<Rightarrow> u8 list option" where
  "sv_as_ref a h = do {
     b \<leftarrow> hp_get h a;
     mem_slice (sv_mem b) (sv_offset b) (sv_len b) }"

definition sv_is_unique :: "shared_vec \<Rightarrow> bool" where
  "sv_is_unique b \<longleftrightarrow> sv_ref_count b = 1"

definition sv_is_full :: "shared_vec \<Rightarrow> bool" where
  "sv_is_full b \<longleftrightarrow> sv_remaining b = 0"

definition sv_put_u8 :: "nat \<Rightarrow> u8 \<Rightarrow> heap \<Rightarrow> heap option" where
  "sv_put_u8 a n h = do {
     b \<leftarrow> hp_get h a;
     len' \<leftarrow> u32_add (sv_len b) 1;
     remaining \<leftarrow> checked_sub (sv_remaining b) 1;
     m \<leftarrow> mem_store (sv_mem b) (sv_offset b + sv_len b) [n];
     Some (hp_upd h a (b\<lparr>sv_len := len', sv_remaining := remaining, sv_mem := m\<rparr>)) }"

text \<open>\<open>StorageVec::clone\<close> and the reference taken by \<open>split_to\<close>: one more handle on the block.\<close>

definition sv_incr_ref :: "nat \<Rightarrow> heap \<Rightarrow> heap option" where
  "sv_incr_ref a h = do {
     b \<leftarrow> hp_get h a;
     if sv_ref_count b = 4294967295 then None
     else Some (hp_upd h a (b\<lparr>sv_ref_count := sv_ref_count b + 1\<rparr>)) }"

definition sv_set_len :: "nat \<Rightarrow> nat \<Rightarrow> heap \<Rightarrow> heap option" where
  "sv_set_len a n h = do {
     b \<leftarrow> hp_get h a;
     if as_u32 n \<le> sv_capacity b
     then Some (hp_upd h a
       (b\<lparr>sv_len := as_u32 n, sv_remaining := sv_capacity b - as_u32 n\<rparr>))
     else None }"

definition sv_set_start :: "nat \<Rightarrow> nat \<Rightarrow> heap \<Rightarrow> heap option" where
  "sv_set_start a start h =
    (if start = 0 then Some h
     else do {
       b \<leftarrow> hp_get h a;
       if start \<le> sv_capacity b
       then do {
         offset \<leftarrow> u32_add (sv_offset b) start;
         let len' = (if sv_len b > start then sv_len b - start else 0);
         r \<leftarrow> checked_sub (sv_capacity b) len';
         remaining \<leftarrow> checked_sub r start;
         capacity \<leftarrow> u32_add remaining len';
         Some (hp_upd h a (b\<lparr>sv_offset := offset, sv_len := len', sv_remaining := remaining,
           sv_capacity := capacity\<rparr>)) }
       else None })"

definition sv_truncate :: "nat \<Rightarrow> nat \<Rightarrow> heap \<Rightarrow> heap option" where
  "sv_truncate a n h = do {
     b \<leftarrow> hp_get h a;
     if n = 0 \<and> sv_is_unique b \<and> sv_offset b \<noteq> METADATA_SIZE
     then let capacity = as_u32 (sv_offset b + sv_capacity b - METADATA_SIZE) in
       Some (hp_upd h a (b\<lparr>sv_len := 0, sv_offset := METADATA_SIZE, sv_capacity := capacity,
         sv_remaining := capacity\<rparr>))
     else if n < sv_len b then sv_set_len a n h else Some h }"

definition sv_reserve_capacity :: "nat \<Rightarrow> nat \<Rightarrow> heap \<Rightarrow> (nat \<times> heap) option" where
  "sv_reserve_capacity a cap h = do {
     src \<leftarrow> sv_as_ref a h;
     (a', h) \<leftarrow> sv_create Unset cap src h;
     h \<leftarrow> release_shared_vec a h;
     Some (a', h) }"

definition sv_reserve_inner :: "nat \<Rightarrow> nat \<Rightarrow> heap \<Rightarrow> (nat \<times> heap) option" where
  "sv_reserve_inner a additional h = do {
     b \<leftarrow> hp_get h a;
     let len = sv_len b;
     let new_cap = len + additional;
     let capacity = sv_offset b + sv_capacity b;
     if sv_is_unique b \<and> capacity \<ge> new_cap + METADATA_SIZE
     then do {
       let remaining = as_u32 (capacity - len - METADATA_SIZE);
       cap' \<leftarrow> u32_add len remaining;
       src \<leftarrow> mem_slice (sv_mem b) (sv_offset b) len;
       m \<leftarrow> mem_store (sv_mem b) METADATA_SIZE src;
       Some (a, hp_upd h a (b\<lparr>sv_offset := METADATA_SIZE, sv_remaining := remaining,
         sv_capacity := cap', sv_mem := m\<rparr>)) }
     else do {
       src \<leftarrow> sv_as_ref a h;
       (a', h) \<leftarrow> sv_create Unset new_cap src h;
       h \<leftarrow> release_shared_vec a h;
       Some (a', h) } }"

definition sv_reserve :: "nat \<Rightarrow> nat \<Rightarrow> heap \<Rightarrow> (nat \<times> heap) option" where
  "sv_reserve a additional h = do {
     b \<leftarrow> hp_get h a;
     if additional \<le> sv_remaining b then Some (a, h) else sv_reserve_inner a additional h }"

text \<open>
  The bytes written to the spare room behind the contents: \<open>resize\<close> fills it with one value,
  \<open>put_slice\<close> of \<open>BytesMut\<close> and of \<open>BytePages\<close> copies a slice there.
\<close>

definition sv_write_tail :: "nat \<Rightarrow> u8 list \<Rightarrow> heap \<Rightarrow> heap option" where
  "sv_write_tail a xs h = do {
     b \<leftarrow> hp_get h a;
     m \<leftarrow> mem_store (sv_mem b) (sv_offset b + sv_len b) xs;
     Some (hp_upd h a (b\<lparr>sv_mem := m\<rparr>)) }"

definition sv_resize :: "nat \<Rightarrow> nat \<Rightarrow> u8 \<Rightarrow> heap \<Rightarrow> (nat \<times> heap) option" where
  "sv_resize a new_len v h = do {
     b \<leftarrow> hp_get h a;
     if new_len > sv_len b
     then do {
       let additional = new_len - sv_len b;
       (a, h) \<leftarrow> sv_reserve a additional h;
       h \<leftarrow> sv_write_tail a (replicate additional v) h;
       h \<leftarrow> sv_set_len a new_len h;
       Some (a, h) }
     else do {
       h \<leftarrow> sv_truncate a new_len h;
       Some (a, h) } }"

end
