(* ===== verification/Bytes_Storage.thy ===== *)
theory Bytes_Storage
  imports Bytes_Mem
begin

text \<open>
  \<open>Storage\<close>, the representation of \<open>Bytes\<close> (\<open>bytes/storage.rs\<close>), and the operations of \<open>Bytes\<close> and
  \<open>BytesMut\<close> on top of it and of the shared vectors (\<open>bytes/bytes.rs\<close>, \<open>bytes/bvec.rs\<close>).

  The three words of \<open>Storage\<close> are read in four ways, told apart by the two low bits of the first
  word. The variants are the constructors of a datatype that keeps the tagged word where the code
  computes with it: the low byte of an inline value, with its length, and the \<open>offset\<close> word of a
  view of a shared vector. A static slice and external storage (\<open>Arc<str>\<close>, whose table of functions
  is the one the sources have) are their bytes; the reference count of the \<open>Arc\<close> is not modelled.
\<close>

section \<open>The tagged words\<close>

datatype storage =
  Storage_Inline u8 "u8 list"
| Storage_Static "u8 list"
| Storage_Ext "u8 list"
| is_Storage_Vec: Storage_Vec (sto_addr: nat) (sto_ptr: nat) (sto_len: nat) (sto_offset: u64)

abbreviation (input) KIND_STEXT :: nat where "KIND_STEXT \<equiv> 0"
abbreviation (input) KIND_VEC :: nat where "KIND_VEC \<equiv> 1"
abbreviation (input) KIND_INLINE :: nat where "KIND_INLINE \<equiv> 2"
abbreviation (input) KIND_STATIC :: nat where "KIND_STATIC \<equiv> 3"

text \<open>\<open>(offset << KIND_OFFSET_BITS) ^ KIND_VEC\<close> and \<open>offset >> KIND_OFFSET_BITS\<close>.\<close>

definition vec_offset :: "nat \<Rightarrow> u64" where
  "vec_offset p = push_bit 2 (of_nat p) XOR 1"

definition offset_of :: "u64 \<Rightarrow> nat" where
  "offset_of w = unat (drop_bit 2 w)"

definition storage_kind :: "storage \<Rightarrow> nat" where
  "storage_kind st =
    (case st of
       Storage_Inline t _ \<Rightarrow> unat (t AND 3)
     | Storage_Static _ \<Rightarrow> KIND_STATIC
     | Storage_Ext _ \<Rightarrow> KIND_STEXT
     | Storage_Vec _ _ _ off \<Rightarrow> unat (off AND 3))"

definition inline_len :: "u8 \<Rightarrow> nat" where
  "inline_len t = unat (drop_bit 2 (t AND 0xFC))"

definition set_inline_len :: "nat \<Rightarrow> u8 \<Rightarrow> u8 option" where
  "set_inline_len n t =
    (if n \<le> INLINE_CAP then Some ((t AND NOT 0xFC) OR push_bit 2 (of_nat n)) else None)"

text \<open>
  \<open>from_ptr_inline\<close>: the bytes are copied over the fields, which start as a null pointer and zero.
\<close>

definition from_ptr_inline :: "u8 list \<Rightarrow> storage option" where
  "from_ptr_inline src =
    (if length src \<le> INLINE_CAP
     then map_option (\<lambda>t. Storage_Inline t (src @ replicate (INLINE_CAP - length src) 0))
       (set_inline_len (length src) 2)
     else None)"

definition storage_empty :: storage where
  "storage_empty = Storage_Inline 2 (replicate INLINE_CAP 0)"

section \<open>Reading\<close>

fun st_len :: "storage \<Rightarrow> nat" where
  "st_len (Storage_Inline t d) = inline_len t"
| "st_len (Storage_Static s) = length s"
| "st_len (Storage_Ext s) = length s"
| "st_len (Storage_Vec a p n off) = n"

text \<open>\<open>n\<close> bytes read through \<open>as_ptr\<close> at a distance from it.\<close>

fun st_read :: "storage \<Rightarrow> nat \<Rightarrow> nat \<Rightarrow> heap \<Rightarrow> u8 list option" where
  "st_read (Storage_Inline t d) k n h =
    (if k + n \<le> length d then Some (take n (drop k d)) else None)"
| "st_read (Storage_Static s) k n h =
    (if k + n \<le> length s then Some (take n (drop k s)) else None)"
| "st_read (Storage_Ext s) k n h =
    (if k + n \<le> length s then Some (take n (drop k s)) else None)"
| "st_read (Storage_Vec a p l off) k n h =
    do { b \<leftarrow> hp_get h a; mem_slice (sv_mem b) (p + k) n }"

definition st_as_ref :: "storage \<Rightarrow> heap \<Rightarrow> u8 list option" where
  "st_as_ref st h = st_read st 0 (st_len st) h"

text \<open>\<open>ptr - offset\<close> is the header of a shared vector when it is the start of the block.\<close>

fun st_shared_vec :: "storage \<Rightarrow> nat option" where
  "st_shared_vec (Storage_Vec a p n off) = (if p = offset_of off then Some a else None)"
| "st_shared_vec _ = None"

fun st_capacity :: "storage \<Rightarrow> heap \<Rightarrow> nat option" where
  "st_capacity (Storage_Inline t d) h = Some INLINE_CAP"
| "st_capacity (Storage_Static s) h = Some (length s)"
| "st_capacity (Storage_Ext s) h = Some (length s)"
| "st_capacity (Storage_Vec a p n off) h = do {
     v \<leftarrow> st_shared_vec (Storage_Vec a p n off);
     b \<leftarrow> hp_get h v;
     Some (sv_capacity b) }"

section \<open>Creating, cloning and dropping\<close>

definition from_slice_with_capacity :: "nat \<Rightarrow> u8 list \<Rightarrow> heap \<Rightarrow> (storage \<times> heap) option" where
  "from_slice_with_capacity cap src h = do {
     (a, h) \<leftarrow> sv_create Unset cap src h;
     Some (Storage_Vec a METADATA_SIZE (length src) (vec_offset METADATA_SIZE), h) }"

definition st_from_slice :: "u8 list \<Rightarrow> heap \<Rightarrow> (storage \<times> heap) option" where
  "st_from_slice src h =
    (if length src \<le> INLINE_CAP
     then do { st \<leftarrow> from_ptr_inline src; Some (st, h) }
     else from_slice_with_capacity (length src) src h)"

fun st_drop :: "storage \<Rightarrow> heap \<Rightarrow> heap option" where
  "st_drop (Storage_Vec a p n off) h = do {
     v \<leftarrow> st_shared_vec (Storage_Vec a p n off);
     release_shared_vec v h }"
| "st_drop _ h = Some h"

fun st_shallow_clone :: "storage \<Rightarrow> heap \<Rightarrow> (storage \<times> heap) option" where
  "st_shallow_clone (Storage_Vec a p n off) h = do {
     v \<leftarrow> st_shared_vec (Storage_Vec a p n off);
     h \<leftarrow> sv_incr_ref v h;
     Some (Storage_Vec a p n off, h) }"
| "st_shallow_clone st h = Some (st, h)"

text \<open>\<open>*self = new\<close>: the old value is dropped once the new one exists.\<close>

definition st_assign :: "storage \<Rightarrow> storage \<times> heap \<Rightarrow> (storage \<times> heap) option" where
  "st_assign old p = do { h \<leftarrow> st_drop old (snd p); Some (fst p, h) }"

section \<open>Moving the ends of a view\<close>

fun st_set_len :: "storage \<Rightarrow> nat \<Rightarrow> heap \<Rightarrow> (storage \<times> heap) option" where
  "st_set_len (Storage_Vec a p l off) n h = do {
     cap \<leftarrow> st_capacity (Storage_Vec a p l off) h;
     if n \<le> cap then Some (Storage_Vec a p n off, h) else None }"
| "st_set_len (Storage_Ext s) n h =
    (if n \<noteq> length s
     then (if n \<le> length s
       then do { r \<leftarrow> st_from_slice (take n s) h; st_assign (Storage_Ext s) r }
       else None)
     else Some (Storage_Ext s, h))"
| "st_set_len (Storage_Inline t d) n h =
    do { t \<leftarrow> set_inline_len n t; Some (Storage_Inline t d, h) }"
| "st_set_len (Storage_Static s) n h =
    (if n \<le> length s then Some (Storage_Static (take n s), h) else None)"

fun st_set_start :: "storage \<Rightarrow> nat \<Rightarrow> heap \<Rightarrow> (storage \<times> heap) option" where
  "st_set_start (Storage_Vec a p l off) start h =
    (if start = 0 then Some (Storage_Vec a p l off, h)
     else do {
       v \<leftarrow> st_shared_vec (Storage_Vec a p l off);
       let offset = offset_of off + start;
       Some (Storage_Vec v offset (if start \<le> l then l - start else 0) (vec_offset offset), h) })"
| "st_set_start (Storage_Inline t d) start h =
    (if start = 0 then Some (Storage_Inline t d, h)
     else if start \<le> INLINE_CAP
     then (if inline_len t \<le> start
       then do { t \<leftarrow> set_inline_len 0 t; Some (Storage_Inline t d, h) }
       else let new_len = inline_len t - start in do {
         t \<leftarrow> set_inline_len new_len t;
         Some (Storage_Inline t (take new_len (drop start d) @ drop new_len d), h) })
     else None)"
| "st_set_start (Storage_Ext s) start h =
    (if start = 0 then Some (Storage_Ext s, h)
     else if start \<le> length s
     then do { r \<leftarrow> st_from_slice (drop start s) h; st_assign (Storage_Ext s) r }
     else None)"
| "st_set_start (Storage_Static s) start h =
    (if start \<le> length s then Some (Storage_Static (drop start s), h) else None)"

fun st_set_end :: "storage \<Rightarrow> nat \<Rightarrow> heap \<Rightarrow> (storage \<times> heap) option" where
  "st_set_end (Storage_Vec a p l off) e h = Some (Storage_Vec a p (min l e) off, h)"
| "st_set_end (Storage_Inline t d) e h =
    (if e \<le> INLINE_CAP
     then do { t \<leftarrow> set_inline_len (min (inline_len t) e) t; Some (Storage_Inline t d, h) }
     else None)"
| "st_set_end (Storage_Ext s) e h =
    do { r \<leftarrow> st_from_slice (take (min (length s) e) s) h; st_assign (Storage_Ext s) r }"
| "st_set_end (Storage_Static s) e h =
    (if e \<le> length s then Some (Storage_Static (take e s), h) else None)"

section \<open>Splitting, truncating and trimming\<close>

text \<open>The two halves of a split are returned as the new value and what is left in \<open>self\<close>.\<close>

definition st_inline_at :: "storage \<Rightarrow> nat \<Rightarrow> nat \<Rightarrow> heap \<Rightarrow> storage option" where
  "st_inline_at st k n h = do { src \<leftarrow> st_read st k n h; from_ptr_inline src }"

definition st_split_off :: "storage \<Rightarrow> nat \<Rightarrow> bool \<Rightarrow> heap \<Rightarrow> (storage \<times> storage \<times> heap) option" where
  "st_split_off st at create_inline h = do {
     tail \<leftarrow> (if create_inline then checked_sub (st_len st) at else Some 0);
     (other, h) \<leftarrow>
       (if create_inline \<and> tail \<le> INLINE_CAP
        then do { ot \<leftarrow> st_inline_at st at tail h; Some (ot, h) }
        else do { (ot, h) \<leftarrow> st_shallow_clone st h; st_set_start ot at h });
     (self, h) \<leftarrow>
       (if create_inline \<and> at \<le> INLINE_CAP
        then do { s \<leftarrow> st_inline_at st 0 at h; st_assign st (s, h) }
        else st_set_end st at h);
     Some (other, self, h) }"

definition st_split_to :: "storage \<Rightarrow> nat \<Rightarrow> heap \<Rightarrow> (storage \<times> storage \<times> heap) option" where
  "st_split_to st at h = do {
     (other, h) \<leftarrow>
       (if at \<le> INLINE_CAP
        then do { ot \<leftarrow> st_inline_at st 0 at h; Some (ot, h) }
        else do { (ot, h) \<leftarrow> st_shallow_clone st h; st_set_end ot at h });
     (self, h) \<leftarrow> st_set_start st at h;
     Some (other, self, h) }"

definition st_truncate :: "storage \<Rightarrow> nat \<Rightarrow> heap \<Rightarrow> (storage \<times> heap) option" where
  "st_truncate st n h =
    (if n \<le> st_len st
     then (if n < INLINE_CAP
       then do { s \<leftarrow> st_inline_at st 0 n h; st_assign st (s, h) }
       else st_set_len st n h)
     else Some (st, h))"

definition st_trimdown :: "storage \<Rightarrow> heap \<Rightarrow> (storage \<times> heap) option" where
  "st_trimdown st h =
    (case st of
       Storage_Inline _ _ \<Rightarrow> Some (st, h)
     | Storage_Static _ \<Rightarrow> Some (st, h)
     | _ \<Rightarrow>
       (if st_len st \<le> INLINE_CAP
        then do { s \<leftarrow> st_inline_at st 0 (st_len st) h; st_assign st (s, h) }
        else do {
          cap \<leftarrow> st_capacity st h;
          spare \<leftarrow> checked_sub cap (st_len st);
          if spare \<ge> 64
          then do {
            src \<leftarrow> st_as_ref st h;
            r \<leftarrow> from_slice_with_capacity (st_len st) src h;
            st_assign st r }
          else Some (st, h) }))"

definition st_get_u8 :: "storage \<Rightarrow> heap \<Rightarrow> (u8 \<times> storage \<times> heap) option" where
  "st_get_u8 st h =
    (if st_len st \<ge> 1
     then do {
       xs \<leftarrow> st_read st 0 1 h;
       (st, h) \<leftarrow> st_set_start st 1 h;
       Some (hd xs, st, h) }
     else None)"

section \<open>\<open>StorageVec::freeze\<close> and \<open>StorageVec::split_to\<close>\<close>

definition sv_freeze :: "nat \<Rightarrow> heap \<Rightarrow> (storage \<times> heap) option" where
  "sv_freeze a h = do {
     b \<leftarrow> hp_get h a;
     if sv_len b \<le> INLINE_CAP
     then do {
       src \<leftarrow> sv_as_ref a h;
       st \<leftarrow> from_ptr_inline src;
       h \<leftarrow> release_shared_vec a h;
       Some (st, h) }
     else Some (Storage_Vec a (sv_offset b) (sv_len b) (vec_offset (sv_offset b)), h) }"

definition sv_split_to :: "nat \<Rightarrow> nat \<Rightarrow> heap \<Rightarrow> (storage \<times> heap) option" where
  "sv_split_to a at h = do {
     b \<leftarrow> hp_get h a;
     (other, h) \<leftarrow>
       (if at \<le> INLINE_CAP
        then do {
          src \<leftarrow> mem_slice (sv_mem b) (sv_offset b) at;
          st \<leftarrow> from_ptr_inline src;
          Some (st, h) }
        else do {
          h \<leftarrow> sv_incr_ref a h;
          Some (Storage_Vec a (sv_offset b) at (vec_offset (sv_offset b)), h) });
     h \<leftarrow> sv_set_start a (as_u32 at) h;
     Some (other, h) }"

section \<open>\<open>Bytes\<close>\<close>

definition bytes_slice_checked :: "storage \<Rightarrow> nat \<Rightarrow> nat \<Rightarrow> heap \<Rightarrow> (storage option \<times> heap) option" where
  "bytes_slice_checked st lo hi h =
    (if lo \<le> hi \<and> hi \<le> st_len st
     then (if hi - lo \<le> INLINE_CAP
       then do {
         src \<leftarrow> st_as_ref st h;
         (r, h) \<leftarrow> st_from_slice (take (hi - lo) (drop lo src)) h;
         Some (Some r, h) }
       else do {
         (r, h) \<leftarrow> st_shallow_clone st h;
         (r, h) \<leftarrow> st_set_end r hi h;
         (r, h) \<leftarrow> st_set_start r lo h;
         Some (Some r, h) })
     else Some (None, h))"

definition bytes_split_off_checked ::
    "storage \<Rightarrow> nat \<Rightarrow> heap \<Rightarrow> (storage option \<times> storage \<times> heap) option" where
  "bytes_split_off_checked st at h =
    (if at \<le> st_len st
     then (if at = st_len st then Some (Some storage_empty, st, h)
       else if at = 0 then Some (Some st, storage_empty, h)
       else do { (ot, st, h) \<leftarrow> st_split_off st at True h; Some (Some ot, st, h) })
     else Some (None, st, h))"

definition bytes_split_to_checked ::
    "storage \<Rightarrow> nat \<Rightarrow> heap \<Rightarrow> (storage option \<times> storage \<times> heap) option" where
  "bytes_split_to_checked st at h =
    (if at \<le> st_len st
     then (if at = st_len st then Some (Some st, storage_empty, h)
       else if at = 0 then Some (Some storage_empty, st, h)
       else do { (ot, st, h) \<leftarrow> st_split_to st at h; Some (Some ot, st, h) })
     else Some (None, st, h))"

definition bytes_clear :: "storage \<Rightarrow> heap \<Rightarrow> (storage \<times> heap) option" where
  "bytes_clear st h = st_assign st (storage_empty, h)"

text \<open>\<open>Read for Bytes\<close>: the bytes copied out and what is left.\<close>

definition bytes_read :: "storage \<Rightarrow> nat \<Rightarrow> heap \<Rightarrow> (u8 list \<times> storage \<times> heap) option" where
  "bytes_read st dst_len h =
    (let n = min (st_len st) dst_len in
     if n > 0
     then do {
       src \<leftarrow> st_as_ref st h;
       (st, h) \<leftarrow> st_set_start st n h;
       Some (take n src, st, h) }
     else Some ([], st, h))"

section \<open>\<open>BytesMut\<close>\<close>

definition bm_new :: "heap \<Rightarrow> (nat \<times> heap) option" where
  "bm_new h = sv_with_capacity MIN_CAPACITY h"

definition bm_copy_from_slice :: "u8 list \<Rightarrow> heap \<Rightarrow> (nat \<times> heap) option" where
  "bm_copy_from_slice src h = sv_from_slice (length src) src h"

definition bm_split_to_checked :: "nat \<Rightarrow> nat \<Rightarrow> heap \<Rightarrow> (storage option \<times> heap) option" where
  "bm_split_to_checked a at h = do {
     b \<leftarrow> hp_get h a;
     if at \<le> sv_len b
     then do { (st, h) \<leftarrow> sv_split_to a at h; Some (Some st, h) }
     else Some (None, h) }"

definition bm_take :: "nat \<Rightarrow> heap \<Rightarrow> (storage \<times> heap) option" where
  "bm_take a h = do { b \<leftarrow> hp_get h a; sv_split_to a (sv_len b) h }"

definition bm_advance_to :: "nat \<Rightarrow> nat \<Rightarrow> heap \<Rightarrow> heap option" where
  "bm_advance_to a cnt h = sv_set_start a (as_u32 cnt) h"

definition bm_clear :: "nat \<Rightarrow> heap \<Rightarrow> heap option" where
  "bm_clear a h = sv_truncate a 0 h"

definition bm_put_slice :: "nat \<Rightarrow> u8 list \<Rightarrow> heap \<Rightarrow> (nat \<times> heap) option" where
  "bm_put_slice a src h = do {
     (a, h) \<leftarrow> sv_reserve a (length src) h;
     b \<leftarrow> hp_get h a;
     h \<leftarrow> sv_write_tail a src h;
     h \<leftarrow> sv_set_len a (sv_len b + length src) h;
     Some (a, h) }"

definition bm_put_u8 :: "nat \<Rightarrow> u8 \<Rightarrow> heap \<Rightarrow> (nat \<times> heap) option" where
  "bm_put_u8 a n h = do {
     (a, h) \<leftarrow> sv_reserve a 1 h;
     h \<leftarrow> sv_put_u8 a n h;
     Some (a, h) }"

definition bm_read :: "nat \<Rightarrow> nat \<Rightarrow> heap \<Rightarrow> (u8 list \<times> heap) option" where
  "bm_read a dst_len h = do {
     b \<leftarrow> hp_get h a;
     let n = min (sv_len b) dst_len;
     if n > 0
     then do {
       src \<leftarrow> sv_as_ref a h;
       h \<leftarrow> bm_advance_to a n h;
       Some (take n src, h) }
     else Some ([], h) }"

text \<open>\<open>From<Bytes> for BytesMut\<close> copies and then drops its argument.\<close>

definition bm_from_bytes :: "storage \<Rightarrow> heap \<Rightarrow> (nat \<times> heap) option" where
  "bm_from_bytes st h = do {
     src \<leftarrow> st_as_ref st h;
     (a, h) \<leftarrow> bm_copy_from_slice src h;
     h \<leftarrow> st_drop st h;
     Some (a, h) }"

end
