(* ===== verification/Bytes_Own.thy ===== *)
theory Bytes_Own
  imports Bytes_Storage "HOL-Library.Multiset"
begin

text \<open>
  Ownership of the byte buffers. The live values of the program that refer to the heap are a
  multiset of handles: \<open>HMut a\<close> for a \<open>StorageVec\<close> (the one of a \<open>BytesMut\<close>), \<open>HBytes st\<close> for the
  \<open>Storage\<close> of a \<open>Bytes\<close>. The invariant \<open>heap_ok\<close> says that the reference count of a block is the
  number of the handles on it, that a block has at most one mutable handle, and that every other
  view of the block ends before the region the mutable handle may write. The lemmas for the
  operations have the form: the operation returns, the invariant holds for the handles it leaves,
  its result has the contents it should, and no other handle sees a change (\<open>same_contents\<close>).
\<close>

section \<open>The invariant\<close>

datatype handle = HMut nat | HBytes storage

fun h_addr :: "handle \<Rightarrow> nat option" where
  "h_addr (HMut a) = Some a"
| "h_addr (HBytes (Storage_Vec a p n off)) = Some a"
| "h_addr (HBytes _) = None"

fun content :: "heap \<Rightarrow> handle \<Rightarrow> u8 list option" where
  "content h (HMut a) = sv_as_ref a h"
| "content h (HBytes st) = st_as_ref st h"

definition block_ok :: "shared_vec \<Rightarrow> bool" where
  "block_ok b \<longleftrightarrow>
    METADATA_SIZE \<le> sv_offset b \<and> sv_offset b + sv_capacity b = length (sv_mem b) \<and>
    length (sv_mem b) < 4294967296 \<and> sv_len b + sv_remaining b = sv_capacity b \<and>
    mem_slice (sv_mem b) (sv_offset b) (sv_len b) \<noteq> None \<and>
    (sv_size b \<noteq> Unset \<longrightarrow> length (sv_mem b) = METADATA_SIZE + page_capacity (sv_size b))"

fun storage_ok :: "heap \<Rightarrow> storage \<Rightarrow> bool" where
  "storage_ok h (Storage_Inline t d) \<longleftrightarrow>
    length d = INLINE_CAP \<and> unat (t AND 3) = KIND_INLINE \<and> inline_len t \<le> INLINE_CAP"
| "storage_ok h (Storage_Static s) \<longleftrightarrow> True"
| "storage_ok h (Storage_Ext s) \<longleftrightarrow> True"
| "storage_ok h (Storage_Vec a p n off) \<longleftrightarrow>
    off = vec_offset p \<and> METADATA_SIZE \<le> p \<and>
    (case hp_get h a of None \<Rightarrow> False
     | Some b \<Rightarrow> length (sv_mem b) < 4294967296 \<and> mem_slice (sv_mem b) p n \<noteq> None)"

fun handle_ok :: "heap \<Rightarrow> handle \<Rightarrow> bool" where
  "handle_ok h (HMut a) \<longleftrightarrow> hp_get h a \<noteq> None"
| "handle_ok h (HBytes st) \<longleftrightarrow> storage_ok h st"

definition refs :: "handle multiset \<Rightarrow> nat \<Rightarrow> nat" where
  "refs T a = size {#x \<in># T. h_addr x = Some a#}"

definition block_owned :: "handle multiset \<Rightarrow> nat \<Rightarrow> shared_vec \<Rightarrow> bool" where
  "block_owned T a b \<longleftrightarrow>
    block_ok b \<and> sv_ref_count b = refs T a \<and> 0 < refs T a \<and> refs T a < 4294967296 \<and>
    (HMut a \<in># T \<longrightarrow> count T (HMut a) = 1 \<and>
      (\<forall>p n off. HBytes (Storage_Vec a p n off) \<in># T \<longrightarrow> p + n \<le> sv_offset b))"

definition owns :: "heap \<Rightarrow> handle multiset \<Rightarrow> bool" where
  "owns h T \<longleftrightarrow>
    (\<forall>a b. hp_get h a = Some b \<longrightarrow> block_owned T a b) \<and> (\<forall>x. x \<in># T \<longrightarrow> handle_ok h x)"

definition cached :: "heap \<Rightarrow> handle multiset" where
  "cached h = mset (map HMut (concat (hp_cache h)))"

definition cache_ok :: "heap \<Rightarrow> bool" where
  "cache_ok h \<longleftrightarrow> length (hp_cache h) = 7 \<and>
    (\<forall>sz a. sz \<noteq> Unset \<longrightarrow> a \<in> set (hp_cache h ! page_index sz) \<longrightarrow>
      (\<exists>b. hp_get h a = Some b \<and> sv_len b = 0 \<and> sv_offset b = METADATA_SIZE \<and> sv_ref_count b = 1 \<and>
        length (sv_mem b) = METADATA_SIZE + page_capacity sz))"

definition heap_ok :: "heap \<Rightarrow> handle multiset \<Rightarrow> bool" where
  "heap_ok h M \<longleftrightarrow> owns h (M + cached h) \<and> cache_ok h"

definition same_contents :: "handle multiset \<Rightarrow> heap \<Rightarrow> heap \<Rightarrow> bool" where
  "same_contents M h h' \<longleftrightarrow> (\<forall>x. x \<in># M \<longrightarrow> content h' x = content h x)"

section \<open>Counting handles\<close>

lemma refs_add [simp]:
  "refs (add_mset x T) a = (if h_addr x = Some a then Suc (refs T a) else refs T a)"
  by (simp add: refs_def)

lemma refs_union [simp]: "refs (S + T) a = refs S a + refs T a"
  by (simp add: refs_def)

lemma refs_zero_iff: "refs T a = 0 \<longleftrightarrow> (\<forall>x. x \<in># T \<longrightarrow> h_addr x \<noteq> Some a)"
  by (auto simp: refs_def)

lemma refs_pos: "x \<in># T \<Longrightarrow> h_addr x = Some a \<Longrightarrow> 0 < refs T a"
  using refs_zero_iff [of T a] by auto

lemma h_addr_eq_Some_iff:
  "h_addr x = Some a \<longleftrightarrow> x = HMut a \<or> (\<exists>p n off. x = HBytes (Storage_Vec a p n off))"
  by (cases x rule: h_addr.cases) auto

lemma heap_new_ok: "heap_ok heap_new {#}"
proof -
  have "replicate 7 [] ! page_index sz = ([] :: nat list)" if "sz \<noteq> Unset" for sz
    using that by (cases sz) simp_all
  then show ?thesis
    by (auto simp: heap_ok_def owns_def cached_def cache_ok_def heap_new_def hp_get_def)
qed

lemma same_contents_refl [simp]: "same_contents M h h"
  by (simp add: same_contents_def)

lemma same_contents_empty [simp]: "same_contents {#} h h'"
  by (simp add: same_contents_def)

lemma same_contents_trans [trans]:
  "same_contents M h1 h2 \<Longrightarrow> same_contents M h2 h3 \<Longrightarrow> same_contents M h1 h3"
  by (simp add: same_contents_def)

lemma same_contents_union [simp]:
  "same_contents (M + N) h h' \<longleftrightarrow> same_contents M h h' \<and> same_contents N h h'"
  by (auto simp: same_contents_def)

lemma same_contents_add [simp]:
  "same_contents (add_mset x M) h h' \<longleftrightarrow> content h' x = content h x \<and> same_contents M h h'"
  by (auto simp: same_contents_def)

lemma page_index_less: "sz \<noteq> Unset \<Longrightarrow> page_index sz < 7"
  by (cases sz) simp_all

lemma page_index_inject: "page_index s = page_index t \<longleftrightarrow> s = t"
  by (cases s; cases t) simp_all

lemma page_capacity_bounds: "0 < page_capacity sz" "page_capacity sz \<le> 65536"
  by (cases sz; simp)+

section \<open>Reading the invariant\<close>

lemma owns_blockD: "owns h T \<Longrightarrow> hp_get h a = Some b \<Longrightarrow> block_owned T a b"
  by (simp add: owns_def)

lemma owns_handleD: "owns h T \<Longrightarrow> x \<in># T \<Longrightarrow> handle_ok h x"
  by (simp add: owns_def)

lemma heap_ok_owns: "heap_ok h M \<Longrightarrow> owns h (M + cached h)"
  by (simp add: heap_ok_def)

lemma owns_mutD:
  assumes "owns h T" and "HMut a \<in># T"
  obtains b where "hp_get h a = Some b" and "block_owned T a b" and "block_ok b"
  using owns_handleD [OF assms] owns_blockD [OF assms(1)] by (auto simp: block_owned_def)

lemma heap_ok_mutE:
  assumes "heap_ok h (add_mset (HMut a) M)"
  obtains b xs where "hp_get h a = Some b" and "block_ok b" and "sv_as_ref a h = Some xs"
    and "length xs = sv_len b" and "HMut a \<notin># M" and "HMut a \<notin># cached h"
proof -
  let ?T = "add_mset (HMut a) M + cached h"
  have ow: "owns h ?T" by (rule heap_ok_owns [OF assms])
  then obtain b where b: "hp_get h a = Some b" "block_owned ?T a b" "block_ok b"
    by (rule owns_mutD [where a = a]) auto
  have "count M (HMut a) = 0 \<and> count (cached h) (HMut a) = 0"
    using b(2) by (simp add: block_owned_def)
  then have "HMut a \<notin># M" "HMut a \<notin># cached h"
    by (simp_all add: count_eq_zero_iff)
  moreover obtain xs where "mem_slice (sv_mem b) (sv_offset b) (sv_len b) = Some xs"
    using b(3) by (auto simp: block_ok_def)
  ultimately show thesis
    using that b by (simp add: sv_as_ref_def mem_slice_length)
qed

lemma hp_get_cache_update [simp]: "hp_get (h\<lparr>hp_cache := c\<rparr>) a = hp_get h a"
  by (simp add: hp_get_def)

lemma hp_cache_update_id [simp]: "hp_cache (h\<lparr>hp_cache := c\<rparr>) = c"
  by simp

section \<open>Updating one block\<close>

text \<open>
  A block may change as long as its header stays consistent, its reference count and the size of its
  layout stay, and the views of it see the same bytes and stay clear of the mutable region.
\<close>

definition block_step :: "handle multiset \<Rightarrow> nat \<Rightarrow> shared_vec \<Rightarrow> shared_vec \<Rightarrow> bool" where
  "block_step T a b b' \<longleftrightarrow>
    block_ok b' \<and> sv_ref_count b' = sv_ref_count b \<and> length (sv_mem b') = length (sv_mem b) \<and>
    (\<forall>p n off. HBytes (Storage_Vec a p n off) \<in># T \<longrightarrow>
      mem_slice (sv_mem b') p n = mem_slice (sv_mem b) p n \<and>
      (HMut a \<in># T \<longrightarrow> p + n \<le> sv_offset b'))"

lemma handle_ok_upd:
  assumes "handle_ok h x" and b: "hp_get h a = Some b" and len: "length (sv_mem b') = length (sv_mem b)"
    and same: "\<And>p n off. x = HBytes (Storage_Vec a p n off) \<Longrightarrow>
      mem_slice (sv_mem b') p n = mem_slice (sv_mem b) p n"
  shows "handle_ok (hp_upd h a b') x"
proof (cases "\<exists>p n off. x = HBytes (Storage_Vec a p n off)")
  case True
  then obtain p n off where x: "x = HBytes (Storage_Vec a p n off)" by blast
  show ?thesis using assms(1) b len same [OF x] by (simp add: x)
next
  case False
  then show ?thesis
    using assms(1) by (cases x rule: h_addr.cases) (auto split: option.splits)
qed

lemma owns_upd:
  assumes ow: "owns h T" and b: "hp_get h a = Some b" and st: "block_step T a b b'"
  shows "owns (hp_upd h a b') T"
proof -
  have "handle_ok (hp_upd h a b') x" if "x \<in># T" for x
    using owns_handleD [OF ow that] b
    by (rule handle_ok_upd) (use st that in \<open>auto simp: block_step_def\<close>)
  moreover have "block_owned T a b'"
    using owns_blockD [OF ow b] st by (auto simp: block_owned_def block_step_def)
  ultimately show ?thesis
    using ow by (auto simp: owns_def)
qed

lemma content_upd_other: "h_addr x \<noteq> Some a \<Longrightarrow> content (hp_upd h a b') x = content h x"
  by (cases x rule: h_addr.cases) (auto simp: sv_as_ref_def st_as_ref_def)

lemma content_upd_view:
  assumes "hp_get h a = Some b" and "mem_slice (sv_mem b') p n = mem_slice (sv_mem b) p n"
  shows "content (hp_upd h a b') (HBytes (Storage_Vec a p n off)) =
    content h (HBytes (Storage_Vec a p n off))"
  using assms by (simp add: st_as_ref_def)

lemma same_contents_upd:
  assumes "hp_get h a = Some b" and "block_step T a b b'" and "M \<subseteq># T" and "HMut a \<notin># M"
  shows "same_contents M h (hp_upd h a b')"
  unfolding same_contents_def
proof (intro allI impI)
  fix x assume x: "x \<in># M"
  then have "x \<in># T" using assms(3) by (rule mset_subset_eqD [rotated])
  show "content (hp_upd h a b') x = content h x"
  proof (cases "h_addr x = Some a")
    case True
    then obtain p n off where "x = HBytes (Storage_Vec a p n off)"
      using x assms(4) by (auto simp: h_addr_eq_Some_iff)
    then show ?thesis
      using assms(1,2) \<open>x \<in># T\<close> content_upd_view by (auto simp only: block_step_def)
  qed (rule content_upd_other)
qed

lemma cached_upd [simp]: "cached (hp_upd h a b) = cached h"
  by (simp add: cached_def)

lemma cached_iff: "HMut a \<in># cached h \<longleftrightarrow> a \<in> set (concat (hp_cache h))"
  by (auto simp: cached_def)

lemma cache_mem: "length (hp_cache h) = 7 \<Longrightarrow> sz \<noteq> Unset \<Longrightarrow> a \<in> set (hp_cache h ! page_index sz) \<Longrightarrow>
  HMut a \<in># cached h"
  using page_index_less [of sz] by (auto simp: cached_iff intro!: bexI [of _ "hp_cache h ! page_index sz"])

lemma cache_ok_upd: "cache_ok h \<Longrightarrow> HMut a \<notin># cached h \<Longrightarrow> cache_ok (hp_upd h a b)"
  unfolding cache_ok_def using cache_mem [of h _ a] by auto

text \<open>The common case: the mutable handle of a block changes it.\<close>

lemma heap_ok_mut_upd:
  assumes ok: "heap_ok h (add_mset (HMut a) M)" and b: "hp_get h a = Some b"
    and st: "block_step (add_mset (HMut a) M + cached h) a b b'"
  shows "heap_ok (hp_upd h a b') (add_mset (HMut a) M)" and "same_contents M h (hp_upd h a b')"
proof -
  let ?T = "add_mset (HMut a) M + cached h"
  have n: "HMut a \<notin># M" "HMut a \<notin># cached h" by (rule heap_ok_mutE [OF ok], assumption)+
  show "heap_ok (hp_upd h a b') (add_mset (HMut a) M)"
    using owns_upd [OF heap_ok_owns [OF ok] b st] cache_ok_upd n(2) ok by (simp add: heap_ok_def)
  show "same_contents M h (hp_upd h a b')"
    using b st _ n(1) by (rule same_contents_upd) simp
qed

text \<open>Views of a block end before its mutable region, and no other handle exists on a unique block.\<close>

lemma mut_views_below:
  assumes ok: "heap_ok h (add_mset (HMut a) M)" and b: "hp_get h a = Some b"
    and "HBytes (Storage_Vec a p n off) \<in># add_mset (HMut a) M + cached h"
  shows "p + n \<le> sv_offset b"
  using owns_blockD [OF heap_ok_owns [OF ok] b] assms(3) by (auto simp: block_owned_def)

lemma unique_no_views:
  assumes ok: "heap_ok h (add_mset x M)" and b: "hp_get h a = Some b" and "sv_ref_count b = 1"
    and "h_addr x = Some a"
  shows "\<forall>y. y \<in># M + cached h \<longrightarrow> h_addr y \<noteq> Some a"
proof -
  have "refs (M + cached h) a = 0"
    using owns_blockD [OF heap_ok_owns [OF ok] b] assms(3,4) by (simp add: block_owned_def)
  then show ?thesis by (simp only: refs_zero_iff)
qed

section \<open>Changing the handles of one block\<close>

definition same_elsewhere :: "nat \<Rightarrow> heap \<Rightarrow> heap \<Rightarrow> bool" where
  "same_elsewhere a h h' \<longleftrightarrow> (\<forall>c. c \<noteq> a \<longrightarrow> hp_get h' c = hp_get h c)"

definition at_addr :: "handle multiset \<Rightarrow> nat \<Rightarrow> handle multiset" where
  "at_addr T c = {#x \<in># T. h_addr x = Some c#}"

lemma at_addr_add [simp]:
  "at_addr (add_mset x T) c = (if h_addr x = Some c then add_mset x (at_addr T c) else at_addr T c)"
  by (simp add: at_addr_def)

lemma at_addr_union [simp]: "at_addr (S + T) c = at_addr S c + at_addr T c"
  by (simp add: at_addr_def)

lemma at_addr_mem: "x \<in># at_addr T c \<longleftrightarrow> x \<in># T \<and> h_addr x = Some c"
  by (auto simp: at_addr_def)

lemma block_owned_cong:
  assumes eq: "at_addr T' c = at_addr T c"
  shows "block_owned T' c b \<longleftrightarrow> block_owned T c b"
proof -
  have "refs T' c = refs T c" using eq by (simp add: refs_def at_addr_def)
  moreover have "count T' (HMut c) = count T (HMut c)"
    using arg_cong [OF eq, of "\<lambda>S. count S (HMut c)"] by (simp add: at_addr_def)
  moreover have "x \<in># T' \<longleftrightarrow> x \<in># T" if "h_addr x = Some c" for x
    using that arg_cong [OF eq, of set_mset] by (auto simp: at_addr_def set_eq_iff)
  ultimately show ?thesis by (simp add: block_owned_def)
qed

lemma handle_ok_elsewhere:
  assumes "same_elsewhere a h h'" and "h_addr x \<noteq> Some a"
  shows "handle_ok h' x = handle_ok h x"
  using assms by (cases x rule: h_addr.cases) (auto simp: same_elsewhere_def)

lemma content_elsewhere:
  assumes "same_elsewhere a h h'" and "h_addr x \<noteq> Some a"
  shows "content h' x = content h x"
  using assms
  by (cases x rule: h_addr.cases) (auto simp: same_elsewhere_def sv_as_ref_def st_as_ref_def)

lemma owns_change:
  assumes ow: "owns h T" and same: "same_elsewhere a h h'"
    and eq: "\<And>c. c \<noteq> a \<Longrightarrow> at_addr T' c = at_addr T c"
    and none: "\<And>x. x \<in># T' \<Longrightarrow> h_addr x = None \<Longrightarrow> handle_ok h' x"
    and blk: "\<And>b. hp_get h' a = Some b \<Longrightarrow> block_owned T' a b"
    and hnd: "\<And>x. x \<in># T' \<Longrightarrow> h_addr x = Some a \<Longrightarrow> handle_ok h' x"
  shows "owns h' T'"
proof -
  have "block_owned T' c b" if "hp_get h' c = Some b" for c b
  proof (cases "c = a")
    case False
    then show ?thesis
      using that same owns_blockD [OF ow, of c b] block_owned_cong [OF eq [OF False]]
      by (simp add: same_elsewhere_def)
  qed (use blk that in simp)
  moreover have "handle_ok h' x" if x: "x \<in># T'" for x
  proof (cases "h_addr x")
    case (Some c)
    show ?thesis
    proof (cases "c = a")
      case False
      then have "x \<in># at_addr T c" using x Some eq [OF False] by (simp add: at_addr_mem flip: eq)
      then have "x \<in># T" by (simp add: at_addr_mem)
      then show ?thesis using False Some owns_handleD [OF ow] handle_ok_elsewhere [OF same] by simp
    qed (use hnd x Some in simp)
  qed (use none x in simp)
  ultimately show ?thesis by (simp add: owns_def)
qed

lemma same_contents_change:
  assumes "same_elsewhere a h h'" and "hp_get h a = Some b" and "hp_get h' a = Some b'"
    and "sv_mem b' = sv_mem b"
    and "HMut a \<in># M \<Longrightarrow> sv_offset b' = sv_offset b \<and> sv_len b' = sv_len b"
  shows "same_contents M h h'"
  unfolding same_contents_def
proof (intro allI impI)
  fix x assume "x \<in># M"
  then show "content h' x = content h x"
    using assms content_elsewhere [OF assms(1)]
    by (cases "h_addr x = Some a") (auto simp: h_addr_eq_Some_iff sv_as_ref_def st_as_ref_def)
qed

lemma same_contents_elsewhere:
  assumes "same_elsewhere a h h'" and "\<And>x. x \<in># M \<Longrightarrow> h_addr x \<noteq> Some a"
  shows "same_contents M h h'"
  using assms content_elsewhere by (auto simp: same_contents_def)

lemma same_elsewhere_upd [simp]:
  "same_elsewhere a h (hp_upd h a b)" "same_elsewhere a h (hp_free h a)"
  "same_elsewhere a h (hp_upd (h\<lparr>hp_cache := c\<rparr>) a b)"
  by (simp_all add: same_elsewhere_def)

section \<open>Creating and releasing\<close>

lemma hp_get_fresh: "hp_get h (length (hp_blocks h)) = None"
  by (simp add: hp_get_def slab_get_def)

lemma owns_fresh: "owns h T \<Longrightarrow> hp_get h a = None \<Longrightarrow> x \<in># T \<Longrightarrow> h_addr x \<noteq> Some a"
  using owns_handleD [of h T x] by (auto simp: h_addr_eq_Some_iff)

lemma owns_new:
  assumes ow: "owns h T" and fresh: "hp_get h a = None" and b: "block_ok b" "sv_ref_count b = 1"
  shows "owns (hp_upd h a b) (add_mset (HMut a) T)"
proof (rule owns_change [OF ow])
  have n: "\<forall>x. x \<in># T \<longrightarrow> h_addr x \<noteq> Some a" using owns_fresh [OF ow fresh] by blast
  then have "refs T a = 0" "HMut a \<notin># T" by (auto simp: refs_zero_iff)
  then show "block_owned (add_mset (HMut a) T) a b'" if "hp_get (hp_upd h a b) a = Some b'" for b'
    using that b n by (auto simp: block_owned_def count_eq_zero_iff)
  show "handle_ok (hp_upd h a b) x" if "x \<in># add_mset (HMut a) T" "h_addr x = Some a" for x
    using that n by auto
  show "handle_ok (hp_upd h a b) x" if "x \<in># add_mset (HMut a) T" "h_addr x = None" for x
    using that owns_handleD [OF ow, of x]
    by (auto simp: handle_ok_elsewhere [OF same_elsewhere_upd(1)])
qed auto

lemma sv_create_spec:
  assumes ok: "heap_ok h M" and cap: "cap + METADATA_SIZE < 4294967296" and src: "length src \<le> cap"
    and sz: "sz \<noteq> Unset \<Longrightarrow> cap = page_capacity sz"
  obtains a h' b where "sv_create sz cap src h = Some (a, h')"
    and "heap_ok h' (add_mset (HMut a) M)" and "same_contents M h h'" and "sv_as_ref a h' = Some src"
    and "same_elsewhere a h h'" and "hp_get h a = None" and "hp_get h' a = Some b"
    and "sv_offset b = METADATA_SIZE" and "sv_len b = length src" and "sv_capacity b = cap"
    and "sv_remaining b = cap - length src" and "sv_ref_count b = 1" and "sv_size b = sz"
proof -
  let ?a = "length (hp_blocks h)"
  let ?m = "replicate (cap + METADATA_SIZE) None :: memory"
  obtain m where m: "mem_store ?m METADATA_SIZE src = Some m"
    using mem_store_ok [of METADATA_SIZE src ?m] src by auto
  define b where "b = \<lparr>sv_offset = METADATA_SIZE, sv_len = length src, sv_capacity = cap,
    sv_remaining = cap - length src, sv_ref_count = 1, sv_size = sz, sv_mem = m\<rparr>"
  define h' where "h' = hp_upd h ?a b"
  have create: "sv_create sz cap src h = Some (?a, h')"
    using cap src m
    by (simp add: sv_create_def alloc_with_capacity_def shared_vec_layout_def b_def h'_def
        Let_def)
  have len: "length m = cap + METADATA_SIZE" using length_mem_store [OF m] by simp
  have sl: "mem_slice m METADATA_SIZE (length src) = Some src" by (rule mem_slice_store_same [OF m])
  have bok: "block_ok b" using cap src sz by (auto simp: block_ok_def b_def len sl)
  have ow: "owns h (M + cached h)" using ok by (simp add: heap_ok_def)
  have fresh: "hp_get h ?a = None" by (rule hp_get_fresh)
  have na: "HMut ?a \<notin># cached h" using owns_fresh [OF ow fresh, of "HMut ?a"] by auto
  have "heap_ok h' (add_mset (HMut ?a) M)"
    using owns_new [OF ow fresh bok] ok cache_ok_upd [OF _ na] by (simp add: heap_ok_def h'_def b_def)
  moreover have "same_contents M h h'"
    using owns_fresh [OF ow fresh] by (auto simp: h'_def intro!: same_contents_elsewhere [of ?a])
  moreover have "sv_as_ref ?a h' = Some src"
    by (simp add: sv_as_ref_def h'_def b_def sl)
  ultimately show thesis
    using that [of ?a h' b] create fresh by (simp add: h'_def b_def)
qed

lemma mset_concat_push:
  "i < length c \<Longrightarrow> mset (concat (c[i := c ! i @ [a]])) = add_mset a (mset (concat c))"
proof (induction c arbitrary: i)
  case (Cons x c)
  then show ?case by (cases i) auto
qed simp

lemma mset_concat_pop:
  "i < length c \<Longrightarrow> c ! i \<noteq> [] \<Longrightarrow>
    mset (concat c) = add_mset (last (c ! i)) (mset (concat (c[i := butlast (c ! i)])))"
proof (induction c arbitrary: i)
  case (Cons x c)
  have "mset x = add_mset (last x) (mset (butlast x))" if "x \<noteq> []"
    using that by (cases x rule: rev_cases) auto
  with Cons show ?case by (cases i) auto
qed simp

end
