(* ===== verification/Bytes_Ops.thy ===== *)
theory Bytes_Ops
  imports Bytes_Own
begin

text \<open>
  The operations of \<open>StorageVec\<close> under the ownership invariant: releasing and sharing a block, the
  page cache, appending, cutting and growing a mutable buffer, freezing it and splitting it.
\<close>

section \<open>Releasing a handle\<close>

lemma page_index_surj: "i < 7 \<Longrightarrow> \<exists>sz. sz \<noteq> Unset \<and> page_index sz = i"
proof -
  assume "i < 7"
  then have "i \<in> {0, 1, 2, 3, 4, 5, 6}" by auto
  moreover have "page_index Size4 = 0" "page_index Size8 = 1" "page_index Size16 = 2"
    "page_index Size24 = 3" "page_index Size32 = 4" "page_index Size48 = 5" "page_index Size64 = 6"
    by simp_all
  ultimately show ?thesis by (metis byte_page_size.distinct empty_iff insert_iff)
qed

lemma cachedE:
  assumes "cache_ok h" and "HMut a \<in># cached h"
  obtains b sz where "hp_get h a = Some b" and "sv_len b = 0" and "sv_offset b = METADATA_SIZE"
    and "sv_ref_count b = 1" and "sz \<noteq> Unset" and "a \<in> set (hp_cache h ! page_index sz)"
proof -
  obtain i where i: "i < 7" "a \<in> set (hp_cache h ! i)"
    using assms by (auto simp: cached_iff cache_ok_def in_set_conv_nth [of _ "hp_cache h"])
  obtain sz where "sz \<noteq> Unset" "page_index sz = i" using page_index_surj [OF i(1)] by blast
  then show thesis using that i assms(1) unfolding cache_ok_def by metis
qed

lemma not_cached:
  assumes ok: "heap_ok h (add_mset x M)" and x: "h_addr x = Some a"
  shows "HMut a \<notin># cached h"
proof
  assume c: "HMut a \<in># cached h"
  then obtain b where b: "hp_get h a = Some b" "sv_ref_count b = 1"
    using ok by (auto simp: heap_ok_def elim: cachedE)
  then show False
    using unique_no_views [OF ok b x] c by auto
qed

lemma heap_ok_addrE:
  assumes ok: "heap_ok h (add_mset x M)" and x: "h_addr x = Some a"
  obtains b where "hp_get h a = Some b" and "block_owned (add_mset x M + cached h) a b"
    and "block_ok b" and "HMut a \<notin># cached h"
proof -
  have ow: "owns h (add_mset x M + cached h)" by (rule heap_ok_owns [OF ok])
  have "handle_ok h x" by (rule owns_handleD [OF ow]) simp
  then obtain b where "hp_get h a = Some b"
    using x by (auto simp: h_addr_eq_Some_iff split: option.splits)
  then show thesis
    using that owns_blockD [OF ow] not_cached [OF ok x] by (auto simp: block_owned_def)
qed

lemma owns_decr:
  assumes ow: "owns h (add_mset x T)" and x: "h_addr x = Some a" and b: "hp_get h a = Some b"
    and rc: "sv_ref_count b \<noteq> 1"
  shows "owns (hp_upd h a (b\<lparr>sv_ref_count := sv_ref_count b - 1\<rparr>)) T"
proof (rule owns_change [OF ow])
  let ?b = "b\<lparr>sv_ref_count := sv_ref_count b - 1\<rparr>"
  have bo: "block_owned (add_mset x T) a b" by (rule owns_blockD [OF ow b])
  show "block_owned T a b'" if "hp_get (hp_upd h a ?b) a = Some b'" for b'
  proof -
    have "HMut a \<in># T \<Longrightarrow> x \<noteq> HMut a"
      using bo by (auto simp: block_owned_def count_eq_zero_iff)
    moreover have "b' = ?b" using that by simp
    ultimately show ?thesis
      using bo x rc by (auto simp: block_owned_def block_ok_def)
  qed
  have hnd: "handle_ok (hp_upd h a ?b) y" if "y \<in># T" for y
    using that owns_handleD [OF ow, of y] b by (intro handle_ok_upd) auto
  show "handle_ok (hp_upd h a ?b) y" if "y \<in># T" "h_addr y = Some a" for y
    by (rule hnd [OF that(1)])
  show "handle_ok (hp_upd h a ?b) y" if "y \<in># T" "h_addr y = None" for y
    by (rule hnd [OF that(1)])
qed (use x in auto)

lemma owns_free:
  assumes ow: "owns h (add_mset x T)" and x: "h_addr x = Some a"
    and none: "\<forall>y. y \<in># T \<longrightarrow> h_addr y \<noteq> Some a"
  shows "owns (hp_free h a) T"
proof (rule owns_change [OF ow])
  show "handle_ok (hp_free h a) y" if "y \<in># T" "h_addr y = None" for y
    using that owns_handleD [OF ow, of y] by (simp add: handle_ok_elsewhere [OF same_elsewhere_upd(2)])
qed (use x none in auto)

lemma owns_replace_unique:
  assumes ow: "owns h (add_mset x T)" and x: "h_addr x = Some a" and bo: "block_ok b"
    and rc: "sv_ref_count b = 1" and none: "\<forall>y. y \<in># T \<longrightarrow> h_addr y \<noteq> Some a"
    and same: "same_elsewhere a h h'" and get: "hp_get h' a = Some b"
  shows "owns h' (add_mset (HMut a) T)"
proof (rule owns_change [OF ow same])
  have "refs T a = 0" "count T (HMut a) = 0"
    using none by (auto simp: refs_zero_iff count_eq_zero_iff)
  then show "block_owned (add_mset (HMut a) T) a b'" if "hp_get h' a = Some b'" for b'
    using that get bo rc none by (auto simp: block_owned_def)
  show "handle_ok h' y" if "y \<in># add_mset (HMut a) T" "h_addr y = Some a" for y
    using that none get by auto
  show "handle_ok h' y" if "y \<in># add_mset (HMut a) T" "h_addr y = None" for y
    using that owns_handleD [OF ow, of y] by (auto simp: handle_ok_elsewhere [OF same])
qed (use x in auto)

lemma cache_ok_free: "cache_ok h \<Longrightarrow> HMut a \<notin># cached h \<Longrightarrow> cache_ok (hp_free h a)"
  unfolding cache_ok_def using cache_mem [of h _ a] by auto

lemma cached_free [simp]: "cached (hp_free h a) = cached h"
  by (simp add: cached_def)

lemma cache_ok_push:
  assumes c: "cache_ok h" and n: "HMut a \<notin># cached h" and sz: "sz \<noteq> Unset"
    and b: "sv_len b = 0" "sv_offset b = METADATA_SIZE" "sv_ref_count b = 1"
      "length (sv_mem b) = METADATA_SIZE + page_capacity sz"
  defines "i \<equiv> page_index sz"
  defines "h' \<equiv> hp_upd (h\<lparr>hp_cache := (hp_cache h)[i := hp_cache h ! i @ [a]]\<rparr>) a b"
  shows "cache_ok h'" and "cached h' = add_mset (HMut a) (cached h)"
proof -
  have i: "i < 7" "length (hp_cache h) = 7"
    using page_index_less [OF sz] c by (simp_all add: i_def cache_ok_def)
  show "cached h' = add_mset (HMut a) (cached h)"
    using mset_concat_push [of i "hp_cache h" a] i by (simp add: cached_def h'_def)
  have old: "\<exists>b'. hp_get h' c = Some b' \<and> sv_len b' = 0 \<and> sv_offset b' = METADATA_SIZE \<and>
      sv_ref_count b' = 1 \<and> length (sv_mem b') = METADATA_SIZE + page_capacity s"
    if "s \<noteq> Unset" "c \<in> set (hp_cache h ! page_index s)" for s c
  proof -
    have "c \<noteq> a" using cache_mem [OF i(2) that] n by auto
    then show ?thesis using c that unfolding cache_ok_def h'_def by simp
  qed
  show "cache_ok h'"
    unfolding cache_ok_def
  proof (intro conjI allI impI)
    fix s c assume s: "s \<noteq> Unset" and mem: "c \<in> set (hp_cache h' ! page_index s)"
    show "\<exists>b'. hp_get h' c = Some b' \<and> sv_len b' = 0 \<and> sv_offset b' = METADATA_SIZE \<and>
      sv_ref_count b' = 1 \<and> length (sv_mem b') = METADATA_SIZE + page_capacity s"
    proof (cases "s = sz \<and> c = a")
      case False
      then have "c \<in> set (hp_cache h ! page_index s)"
        using mem i page_index_inject [of s sz]
        by (auto simp: h'_def i_def nth_list_update split: if_splits)
      then show ?thesis using old s by blast
    qed (use b in \<open>auto simp: h'_def\<close>)
  qed (simp add: h'_def i(2))
qed

lemma release_shared_vec_spec:
  assumes ok: "heap_ok h (add_mset x M)" and x: "h_addr x = Some a"
  obtains h' where "release_shared_vec a h = Some h'" and "heap_ok h' M"
    and "same_contents M h h'" and "same_elsewhere a h h'"
proof -
  let ?T = "M + cached h"
  have ow: "owns h (add_mset x ?T)" and co: "cache_ok h" using ok by (simp_all add: heap_ok_def)
  obtain b where b: "hp_get h a = Some b" "block_owned (add_mset x ?T) a b" "block_ok b"
    and n: "HMut a \<notin># cached h"
    using ok x by (rule heap_ok_addrE) simp
  have cap: "sv_offset b + sv_capacity b = length (sv_mem b)" "length (sv_mem b) < 4294967296"
    "METADATA_SIZE \<le> sv_offset b" using b(3) by (simp_all add: block_ok_def)
  show thesis
  proof (cases "sv_ref_count b = 1")
    case False
    let ?h = "hp_upd h a (b\<lparr>sv_ref_count := sv_ref_count b - 1\<rparr>)"
    have "0 < sv_ref_count b" "sv_ref_count b < 4294967296"
      using b(2) by (simp_all add: block_owned_def)
    then have "(sv_ref_count b + 4294967295) mod 4294967296 = sv_ref_count b - 1"
      by (simp add: mod_if)
    then have "release_shared_vec a h = Some ?h"
      using b False by (simp add: release_shared_vec_def)
    moreover have "heap_ok ?h M"
      using owns_decr [OF ow x b(1) False] cache_ok_upd [OF co n] by (simp add: heap_ok_def)
    moreover have "same_contents M h ?h"
      by (rule same_contents_change [OF same_elsewhere_upd(1) b(1),
            where b' = "b\<lparr>sv_ref_count := sv_ref_count b - 1\<rparr>"]) simp_all
    ultimately show thesis using that by simp
  next
    case True
    have none: "\<forall>y. y \<in># ?T \<longrightarrow> h_addr y \<noteq> Some a" by (rule unique_no_views [OF ok b(1) True x])
    let ?i = "page_index (sv_size b)"
    show thesis
    proof (cases "sv_size b \<noteq> Unset \<and> length (hp_cache h ! ?i) < hp_cache_size h")
      case c: True
      let ?b = "b\<lparr>sv_len := 0, sv_offset := METADATA_SIZE,
        sv_capacity := length (sv_mem b) - METADATA_SIZE,
        sv_remaining := length (sv_mem b) - METADATA_SIZE, sv_ref_count := 1, sv_size := Unset\<rparr>"
      let ?h = "hp_upd (h\<lparr>hp_cache := (hp_cache h)[?i := hp_cache h ! ?i @ [a]]\<rparr>) a ?b"
      have rel: "release_shared_vec a h = Some ?h"
        using b cap c True by (simp add: release_shared_vec_def Let_def)
      have bk: "block_ok ?b" using cap b(3) by (auto simp: block_ok_def)
      have sz: "length (sv_mem b) = METADATA_SIZE + page_capacity (sv_size b)"
        using b(3) c by (auto simp: block_ok_def)
      note push = cache_ok_push [OF co n conjunct1 [OF c], of ?b]
      have "owns ?h (add_mset (HMut a) ?T)"
        by (rule owns_replace_unique [OF ow x bk _ none]) simp_all
      then have "heap_ok ?h M" using push sz by (simp add: heap_ok_def)
      moreover have "same_contents M h ?h"
        by (rule same_contents_elsewhere [of a]) (use none in auto)
      ultimately show thesis using that rel by simp
    next
      case f: False
      have "release_shared_vec a h = Some (hp_free h a)"
        using b cap f True by (auto simp: release_shared_vec_def shared_vec_layout_def Let_def)
      moreover have "heap_ok (hp_free h a) M"
        using owns_free [OF ow x none] cache_ok_free [OF co n] by (simp add: heap_ok_def)
      moreover have "same_contents M h (hp_free h a)"
        by (rule same_contents_elsewhere [of a]) (use none in auto)
      ultimately show thesis using that by simp
    qed
  qed
qed

section \<open>Changing a mutable buffer in place\<close>

lemma block_stepI:
  assumes ok: "heap_ok h (add_mset (HMut a) M)" and b: "hp_get h a = Some b"
    and bo: "block_ok b'" "sv_ref_count b' = sv_ref_count b" "length (sv_mem b') = length (sv_mem b)"
    and views: "sv_ref_count b \<noteq> 1 \<Longrightarrow> sv_offset b \<le> sv_offset b' \<and>
      (\<forall>p n. p + n \<le> sv_offset b \<longrightarrow> mem_slice (sv_mem b') p n = mem_slice (sv_mem b) p n)"
  shows "block_step (add_mset (HMut a) M + cached h) a b b'"
proof (cases "sv_ref_count b = 1")
  case True
  then show ?thesis
    using unique_no_views [OF ok b True] bo by (auto simp: block_step_def)
next
  case False
  then show ?thesis
    using views mut_views_below [OF ok b] bo by (auto simp: block_step_def intro: le_trans)
qed

lemma heap_ok_mut_stepE:
  assumes ok: "heap_ok h (add_mset (HMut a) M)" and b: "hp_get h a = Some b"
    and bo: "block_ok b'" "sv_ref_count b' = sv_ref_count b" "length (sv_mem b') = length (sv_mem b)"
    and views: "sv_ref_count b \<noteq> 1 \<Longrightarrow> sv_offset b \<le> sv_offset b' \<and>
      (\<forall>p n. p + n \<le> sv_offset b \<longrightarrow> mem_slice (sv_mem b') p n = mem_slice (sv_mem b) p n)"
  shows "heap_ok (hp_upd h a b') (add_mset (HMut a) M) \<and> same_contents M h (hp_upd h a b')"
proof -
  have st: "block_step (add_mset (HMut a) M + cached h) a b b'"
    by (rule block_stepI [OF ok b bo views])
  show ?thesis
    using heap_ok_mut_upd [OF ok b st] by blast
qed

lemma mut_blockE:
  assumes ok: "heap_ok h (add_mset (HMut a) M)" and xs: "sv_as_ref a h = Some xs"
  obtains b where "hp_get h a = Some b" and "block_ok b" and "length xs = sv_len b"
    and "mem_slice (sv_mem b) (sv_offset b) (sv_len b) = Some xs"
  using ok
proof (rule heap_ok_mutE)
  fix b ys
  assume "hp_get h a = Some b" "block_ok b" "sv_as_ref a h = Some ys" "length ys = sv_len b"
  then show thesis using that xs by (simp add: sv_as_ref_def)
qed

lemma sv_set_start_eq:
  assumes b: "hp_get h a = Some b" and bk: "block_ok b" and n: "n \<le> sv_len b"
  shows "sv_set_start a n h = Some (hp_upd h a
    (b\<lparr>sv_offset := sv_offset b + n, sv_len := sv_len b - n, sv_capacity := sv_capacity b - n\<rparr>))"
proof (cases "n = 0")
  case True
  then show ?thesis using b by (simp add: hp_upd_same sv_set_start_def)
next
  case False
  have "(if sv_len b > n then sv_len b - n else 0) = sv_len b - n"
    "sv_capacity b - (sv_len b - n) - n = sv_remaining b"
    "sv_remaining b + (sv_len b - n) = sv_capacity b - n"
    "n \<le> sv_capacity b" "sv_capacity b < 4294967296" "sv_offset b + n < 4294967296"
    "sv_len b - n \<le> sv_capacity b" "n \<le> sv_capacity b - (sv_len b - n)" "sv_capacity b - n < 4294967296"
    using n bk by (auto simp: block_ok_def)
  then show ?thesis
    using False b by (simp add: sv_set_start_def Let_def del: diff_diff_left add_diff_assoc)
qed

lemma sv_set_start_spec:
  assumes ok: "heap_ok h (add_mset (HMut a) M)" and xs: "sv_as_ref a h = Some xs"
    and b: "hp_get h a = Some b" and n: "n \<le> length xs"
  obtains h' where "sv_set_start a n h = Some h'" and "heap_ok h' (add_mset (HMut a) M)"
    and "same_contents M h h'" and "sv_as_ref a h' = Some (drop n xs)"
    and "h' = hp_upd h a (b\<lparr>sv_offset := sv_offset b + n, sv_len := sv_len b - n,
      sv_capacity := sv_capacity b - n\<rparr>)"
proof -
  have bk: "block_ok b" "length xs = sv_len b" and sl: "mem_slice (sv_mem b) (sv_offset b) (sv_len b) = Some xs"
    by (rule mut_blockE [OF ok xs], simp add: b)+
  let ?b = "b\<lparr>sv_offset := sv_offset b + n, sv_len := sv_len b - n, sv_capacity := sv_capacity b - n\<rparr>"
  have sl': "mem_slice (sv_mem b) (sv_offset b + n) (sv_len b - n) = Some (drop n xs)"
    using mem_slice_drop [OF sl] n bk by simp
  have le: "n \<le> sv_len b" "sv_len b + sv_remaining b = sv_capacity b" "sv_offset b + sv_capacity b < 4294967296"
    using n bk by (auto simp: block_ok_def)
  have "block_ok ?b" using bk le sl' by (auto simp: block_ok_def)
  then have "heap_ok (hp_upd h a ?b) (add_mset (HMut a) M) \<and> same_contents M h (hp_upd h a ?b)"
    by (intro heap_ok_mut_stepE [OF ok b]) auto
  moreover have "sv_set_start a n h = Some (hp_upd h a ?b)"
    using b bk(1) le(1) by (rule sv_set_start_eq)
  ultimately show thesis
    using that sl' by (simp add: sv_as_ref_def)
qed

lemma sv_set_len_shrink_spec:
  assumes ok: "heap_ok h (add_mset (HMut a) M)" and xs: "sv_as_ref a h = Some xs" and n: "n \<le> length xs"
  obtains h' where "sv_set_len a n h = Some h'" and "heap_ok h' (add_mset (HMut a) M)"
    and "same_contents M h h'" and "sv_as_ref a h' = Some (take n xs)"
proof -
  obtain b where b: "hp_get h a = Some b" "block_ok b" "length xs = sv_len b"
    and sl: "mem_slice (sv_mem b) (sv_offset b) (sv_len b) = Some xs"
    using ok xs by (rule mut_blockE)
  let ?b = "b\<lparr>sv_len := n, sv_remaining := sv_capacity b - n\<rparr>"
  have sl': "mem_slice (sv_mem b) (sv_offset b) n = Some (take n xs)"
    using mem_slice_take [OF sl] n b by simp
  have le: "n \<le> sv_capacity b" "sv_capacity b < 4294967296" using n b by (auto simp: block_ok_def)
  have "block_ok ?b" using b le sl' by (auto simp: block_ok_def)
  then have "heap_ok (hp_upd h a ?b) (add_mset (HMut a) M) \<and> same_contents M h (hp_upd h a ?b)"
    by (intro heap_ok_mut_stepE [OF ok b(1)]) auto
  moreover have "sv_set_len a n h = Some (hp_upd h a ?b)"
    using b le by (simp add: sv_set_len_def)
  ultimately show thesis using that sl' by (simp add: sv_as_ref_def)
qed

lemma sv_truncate_spec:
  assumes ok: "heap_ok h (add_mset (HMut a) M)" and xs: "sv_as_ref a h = Some xs"
  obtains h' where "sv_truncate a n h = Some h'" and "heap_ok h' (add_mset (HMut a) M)"
    and "same_contents M h h'" and "sv_as_ref a h' = Some (take n xs)"
proof -
  obtain b where b: "hp_get h a = Some b" "block_ok b" "length xs = sv_len b"
    using ok xs by (rule mut_blockE)
  show thesis
  proof (cases "n = 0 \<and> sv_is_unique b \<and> sv_offset b \<noteq> METADATA_SIZE")
    case True
    let ?c = "sv_offset b + sv_capacity b - METADATA_SIZE"
    let ?b = "b\<lparr>sv_len := 0, sv_offset := METADATA_SIZE, sv_capacity := ?c, sv_remaining := ?c\<rparr>"
    have "block_ok ?b" "?c < 4294967296" using b by (auto simp: block_ok_def)
    moreover from this have "heap_ok (hp_upd h a ?b) (add_mset (HMut a) M) \<and> same_contents M h (hp_upd h a ?b)"
      using True by (intro heap_ok_mut_stepE [OF ok b(1)]) (auto simp: sv_is_unique_def)
    moreover have "sv_as_ref a (hp_upd h a ?b) = Some (take n xs)"
      using True b by (auto simp: sv_as_ref_def block_ok_def)
    moreover have "sv_truncate a n h = Some (hp_upd h a ?b)"
      using True b(1) as_u32_id [OF calculation(2)] by (simp add: sv_truncate_def Let_def)
    ultimately show thesis using that by simp
  next
    case False
    then have eq: "sv_truncate a n h = (if n < sv_len b then sv_set_len a n h else Some h)"
      using b by (auto simp: sv_truncate_def)
    show thesis
    proof (cases "n < sv_len b")
      case True
      then have "n \<le> length xs" using b by simp
      with ok xs obtain h' where "sv_set_len a n h = Some h'" "heap_ok h' (add_mset (HMut a) M)"
        "same_contents M h h'" "sv_as_ref a h' = Some (take n xs)"
        by (rule sv_set_len_shrink_spec)
      then show thesis using that eq True by simp
    next
      case False
      then show thesis using that eq ok xs b by simp
    qed
  qed
qed

section \<open>Appending and growing\<close>

lemma append_block:
  assumes ok: "heap_ok h (add_mset (HMut a) M)" and xs: "sv_as_ref a h = Some xs"
    and b: "hp_get h a = Some b" and room: "length ys \<le> sv_remaining b"
  obtains m where "mem_store (sv_mem b) (sv_offset b + sv_len b) ys = Some m"
    and "heap_ok (hp_upd h a (b\<lparr>sv_len := sv_len b + length ys,
      sv_remaining := sv_remaining b - length ys, sv_mem := m\<rparr>)) (add_mset (HMut a) M)"
    and "same_contents M h (hp_upd h a (b\<lparr>sv_len := sv_len b + length ys,
      sv_remaining := sv_remaining b - length ys, sv_mem := m\<rparr>))"
    and "sv_as_ref a (hp_upd h a (b\<lparr>sv_len := sv_len b + length ys,
      sv_remaining := sv_remaining b - length ys, sv_mem := m\<rparr>)) = Some (xs @ ys)"
    and "block_ok b" and "length xs = sv_len b"
proof -
  have bk: "block_ok b" "length xs = sv_len b" and sl: "mem_slice (sv_mem b) (sv_offset b) (sv_len b) = Some xs"
    by (rule mut_blockE [OF ok xs], simp add: b)+
  have le: "sv_offset b + sv_len b + length ys \<le> length (sv_mem b)" using bk room by (auto simp: block_ok_def)
  then obtain m where m: "mem_store (sv_mem b) (sv_offset b + sv_len b) ys = Some m"
    using mem_store_ok by blast
  let ?b = "b\<lparr>sv_len := sv_len b + length ys, sv_remaining := sv_remaining b - length ys, sv_mem := m\<rparr>"
  have sl': "mem_slice m (sv_offset b) (sv_len b + length ys) = Some (xs @ ys)"
    using sl mem_slice_store_same [OF m] mem_slice_store_other [OF m, of "sv_offset b" "sv_len b"]
    by (intro mem_slice_append) simp_all
  have "block_ok ?b"
    using bk room sl' length_mem_store [OF m] by (auto simp: block_ok_def)
  moreover have "mem_slice m p n = mem_slice (sv_mem b) p n" if "p + n \<le> sv_offset b" for p n
    using mem_slice_store_other [OF m] that by simp
  ultimately have "heap_ok (hp_upd h a ?b) (add_mset (HMut a) M) \<and> same_contents M h (hp_upd h a ?b)"
    using length_mem_store [OF m] by (intro heap_ok_mut_stepE [OF ok b]) auto
  then show thesis using that m sl' bk by (simp add: sv_as_ref_def)
qed

lemma sv_append_spec:
  assumes ok: "heap_ok h (add_mset (HMut a) M)" and xs: "sv_as_ref a h = Some xs"
    and b: "hp_get h a = Some b" and room: "length ys \<le> sv_remaining b"
  obtains h1 h' where "sv_write_tail a ys h = Some h1"
    and "sv_set_len a (sv_len b + length ys) h1 = Some h'" and "heap_ok h' (add_mset (HMut a) M)"
    and "same_contents M h h'" and "sv_as_ref a h' = Some (xs @ ys)"
    and "\<exists>b'. hp_get h' a = Some b' \<and> sv_remaining b' = sv_remaining b - length ys"
proof -
  obtain m where m: "mem_store (sv_mem b) (sv_offset b + sv_len b) ys = Some m"
    and upd: "heap_ok (hp_upd h a (b\<lparr>sv_len := sv_len b + length ys,
      sv_remaining := sv_remaining b - length ys, sv_mem := m\<rparr>)) (add_mset (HMut a) M)"
    "same_contents M h (hp_upd h a (b\<lparr>sv_len := sv_len b + length ys,
      sv_remaining := sv_remaining b - length ys, sv_mem := m\<rparr>))"
    "sv_as_ref a (hp_upd h a (b\<lparr>sv_len := sv_len b + length ys,
      sv_remaining := sv_remaining b - length ys, sv_mem := m\<rparr>)) = Some (xs @ ys)"
    and bk: "block_ok b" "length xs = sv_len b"
    using ok xs b room by (rule append_block)
  have "sv_write_tail a ys h = Some (hp_upd h a (b\<lparr>sv_mem := m\<rparr>))"
    using b m by (simp add: sv_write_tail_def)
  moreover have "sv_set_len a (sv_len b + length ys) (hp_upd h a (b\<lparr>sv_mem := m\<rparr>)) =
    Some (hp_upd h a (b\<lparr>sv_len := sv_len b + length ys,
      sv_remaining := sv_remaining b - length ys, sv_mem := m\<rparr>))"
  proof -
    have "sv_len b + length ys \<le> sv_capacity b" "sv_capacity b < 4294967296"
      "sv_capacity b - (sv_len b + length ys) = sv_remaining b - length ys"
      using bk room by (auto simp: block_ok_def)
    then show ?thesis by (cases b) (simp add: sv_set_len_def)
  qed
  ultimately show thesis using that upd by simp
qed

lemma sv_put_u8_spec:
  assumes ok: "heap_ok h (add_mset (HMut a) M)" and xs: "sv_as_ref a h = Some xs"
    and b: "hp_get h a = Some b" and room: "1 \<le> sv_remaining b"
  obtains h' where "sv_put_u8 a n h = Some h'" and "heap_ok h' (add_mset (HMut a) M)"
    and "same_contents M h h'" and "sv_as_ref a h' = Some (xs @ [n])"
proof -
  have "length [n] \<le> sv_remaining b" using room by simp
  with ok xs b obtain m where "mem_store (sv_mem b) (sv_offset b + sv_len b) [n] = Some m"
    "heap_ok (hp_upd h a (b\<lparr>sv_len := sv_len b + length [n],
      sv_remaining := sv_remaining b - length [n], sv_mem := m\<rparr>)) (add_mset (HMut a) M)"
    "same_contents M h (hp_upd h a (b\<lparr>sv_len := sv_len b + length [n],
      sv_remaining := sv_remaining b - length [n], sv_mem := m\<rparr>))"
    "sv_as_ref a (hp_upd h a (b\<lparr>sv_len := sv_len b + length [n],
      sv_remaining := sv_remaining b - length [n], sv_mem := m\<rparr>)) = Some (xs @ [n])"
    "block_ok b" "length xs = sv_len b"
    by (rule append_block)
  then show thesis
    using that b room by (simp add: sv_put_u8_def block_ok_def)
qed

text \<open>A fresh vector with the same contents takes the place of the old one.\<close>

lemma realloc_spec:
  assumes ok: "heap_ok h (add_mset (HMut a) M)" and xs: "sv_as_ref a h = Some xs"
    and cap: "cap + METADATA_SIZE < 4294967296" "length xs \<le> cap"
  obtains h1 a' h' b' where "sv_create Unset cap xs h = Some (a', h1)"
    and "release_shared_vec a h1 = Some h'" and "heap_ok h' (add_mset (HMut a') M)"
    and "same_contents M h h'" and "sv_as_ref a' h' = Some xs" and "hp_get h' a' = Some b'"
    and "sv_remaining b' = cap - length xs" and "sv_capacity b' = cap" and "sv_ref_count b' = 1"
proof -
  have u: "Unset \<noteq> Unset \<Longrightarrow> cap = page_capacity Unset" by simp
  obtain a' h1 b' where c: "sv_create Unset cap xs h = Some (a', h1)"
    "heap_ok h1 (add_mset (HMut a') (add_mset (HMut a) M))" "same_contents (add_mset (HMut a) M) h h1"
    "sv_as_ref a' h1 = Some xs" "hp_get h a' = None" "hp_get h1 a' = Some b'"
    "sv_remaining b' = cap - length xs" "sv_capacity b' = cap" "sv_ref_count b' = 1"
    using ok cap u by (rule sv_create_spec)
  have "heap_ok h1 (add_mset (HMut a) (add_mset (HMut a') M))" using c(2) by (simp add: add_mset_commute)
  moreover have "h_addr (HMut a) = Some a" by simp
  ultimately obtain h' where r: "release_shared_vec a h1 = Some h'" "heap_ok h' (add_mset (HMut a') M)"
    "same_contents (add_mset (HMut a') M) h1 h'" "same_elsewhere a h1 h'"
    by (rule release_shared_vec_spec)
  have "a' \<noteq> a" using xs c(5) by (auto simp: sv_as_ref_def)
  then have "hp_get h' a' = Some b'" using r(4) c(6) by (simp add: same_elsewhere_def)
  moreover have "sv_as_ref a' h' = Some xs" using r(3) c(4) by simp
  moreover have "same_contents M h h'" using c(3) r(3) by (auto intro: same_contents_trans)
  ultimately show thesis using that c r by blast
qed

lemma sv_reserve_spec:
  assumes ok: "heap_ok h (add_mset (HMut a) M)" and xs: "sv_as_ref a h = Some xs"
    and fits: "length xs + k + METADATA_SIZE < 4294967296"
  obtains a' h' b' where "sv_reserve a k h = Some (a', h')" and "heap_ok h' (add_mset (HMut a') M)"
    and "same_contents M h h'" and "sv_as_ref a' h' = Some xs" and "hp_get h' a' = Some b'"
    and "k \<le> sv_remaining b'"
proof -
  obtain b where b: "hp_get h a = Some b" "block_ok b" "length xs = sv_len b"
    and sl: "mem_slice (sv_mem b) (sv_offset b) (sv_len b) = Some xs"
    using ok xs by (rule mut_blockE)
  let ?total = "sv_offset b + sv_capacity b"
  consider (room) "k \<le> sv_remaining b"
    | (reclaim) "\<not> k \<le> sv_remaining b" "sv_is_unique b" "?total \<ge> sv_len b + k + METADATA_SIZE"
    | (alloc) "\<not> k \<le> sv_remaining b" "\<not> (sv_is_unique b \<and> ?total \<ge> sv_len b + k + METADATA_SIZE)"
    by blast
  then show thesis
  proof cases
    case room
    then show thesis using that b ok xs by (simp add: sv_reserve_def)
  next
    case reclaim
    let ?r = "?total - sv_len b - METADATA_SIZE"
    have "METADATA_SIZE + length xs \<le> length (sv_mem b)" using b by (auto simp: block_ok_def)
    then obtain m where m: "mem_store (sv_mem b) METADATA_SIZE xs = Some m" using mem_store_ok by blast
    let ?b = "b\<lparr>sv_offset := METADATA_SIZE, sv_remaining := ?r, sv_capacity := sv_len b + ?r, sv_mem := m\<rparr>"
    have sl': "mem_slice m METADATA_SIZE (sv_len b) = Some xs"
      using mem_slice_store_same [OF m] b(3) by simp
    have r: "?r < 4294967296" "sv_len b + ?r < 4294967296" "k \<le> ?r"
      using b reclaim by (auto simp: block_ok_def)
    have len: "length m = length (sv_mem b)" by (rule length_mem_store [OF m])
    then have "block_ok ?b" using b sl' by (auto simp: block_ok_def)
    then have ok': "heap_ok (hp_upd h a ?b) (add_mset (HMut a) M) \<and> same_contents M h (hp_upd h a ?b)"
      using len reclaim by (intro heap_ok_mut_stepE [OF ok b(1)]) (auto simp: sv_is_unique_def)
    have "sv_reserve a k h = Some (a, hp_upd h a ?b)"
      using b(1) sl m reclaim r
      by (simp add: sv_reserve_def sv_reserve_inner_def Let_def del: diff_diff_left)
    moreover have "sv_as_ref a (hp_upd h a ?b) = Some xs"
      using sl' by (simp add: sv_as_ref_def)
    ultimately show thesis using that [of a "hp_upd h a ?b" ?b] ok' r(3) by simp
  next
    case alloc
    have "sv_len b + k + METADATA_SIZE < 4294967296" "length xs \<le> sv_len b + k" using fits b by auto
    with ok xs obtain h1 a' h' b' where "sv_create Unset (sv_len b + k) xs h = Some (a', h1)"
      "release_shared_vec a h1 = Some h'" "heap_ok h' (add_mset (HMut a') M)"
      "same_contents M h h'" "sv_as_ref a' h' = Some xs" "hp_get h' a' = Some b'"
      "sv_remaining b' = sv_len b + k - length xs"
      by (rule realloc_spec)
    then show thesis
      using that alloc b xs by (auto simp: sv_reserve_def sv_reserve_inner_def Let_def)
  qed
qed

end
