(* ===== verification/Bytes_Tags.thy ===== *)
theory Bytes_Tags
  imports Bytes_Ops
begin

text \<open>
  The tag bits of \<open>Storage\<close>: what the packing of an offset or of an inline length into a word gives
  back, and the contents of inline values.
\<close>

section \<open>Offsets\<close>

lemma offset_of_vec_offset: "p < 4611686018427387904 \<Longrightarrow> offset_of (vec_offset p) = p"
proof -
  assume p: "p < 4611686018427387904"
  have "drop_bit 2 (push_bit 2 (of_nat p) XOR (1 :: u64)) = take_bit 62 (of_nat p :: u64)"
    by (rule bit_eqI) (auto simp: bit_simps bit_1_iff)
  then have "offset_of (vec_offset p) = unat (take_bit 62 (of_nat p :: u64))"
    by (simp add: offset_of_def vec_offset_def)
  also have "\<dots> = take_bit 62 (unat (of_nat p :: u64))"
    by (simp only: unsigned_take_bit_eq)
  also have "unat (of_nat p :: u64) = p"
    using p by (simp add: unat_of_nat)
  finally show ?thesis
    using p by (simp add: take_bit_eq_mod)
qed

lemma kind_mask: "(3 :: 'a::len word) = mask 2"
  by (simp add: mask_eq_exp_minus_1)

lemma kind_vec_offset: "unat (vec_offset p AND 3) = KIND_VEC"
proof -
  have "vec_offset p AND 3 = (1 :: u64)"
    unfolding kind_mask by (rule bit_eqI) (auto simp: vec_offset_def bit_simps bit_1_iff)
  then show ?thesis by simp
qed

lemma st_shared_vec_ok [simp]:
  "p < 4611686018427387904 \<Longrightarrow> st_shared_vec (Storage_Vec a p n (vec_offset p)) = Some a"
  by (simp add: offset_of_vec_offset)

section \<open>Inline lengths\<close>

lemma inline_mask: "(0xFC :: u8) = push_bit 2 (mask 6)"
  by (simp add: mask_eq_exp_minus_1)

lemma inline_len_bound: "inline_len t < 64"
proof -
  have "drop_bit 2 (t AND 0xFC) = take_bit 6 (drop_bit 2 t)"
    unfolding inline_mask by (rule bit_eqI) (auto simp: bit_simps)
  then have "inline_len t = take_bit 6 (unat (drop_bit 2 t))"
    by (simp only: inline_len_def unsigned_take_bit_eq)
  then show ?thesis by (simp add: take_bit_eq_mod)
qed

lemma set_inline_lenE:
  assumes "n \<le> INLINE_CAP" and "unat (t AND 3) = KIND_INLINE"
  obtains t' where "set_inline_len n t = Some t'" and "inline_len t' = n"
    and "unat (t' AND 3) = KIND_INLINE"
proof -
  let ?t = "(t AND NOT 0xFC) OR push_bit 2 (of_nat n) :: u8"
  have n: "unat (of_nat n :: u8) = n" using assms by (simp add: unat_of_nat)
  have "drop_bit 2 (?t AND 0xFC) = take_bit 6 (of_nat n :: u8)"
    unfolding inline_mask by (rule bit_eqI) (auto simp: bit_simps)
  then have "inline_len ?t = take_bit 6 (unat (of_nat n :: u8))"
    by (simp only: inline_len_def unsigned_take_bit_eq)
  then have "inline_len ?t = n"
    unfolding n using assms(1) by (simp add: take_bit_eq_mod)
  moreover have "?t AND 3 = t AND 3"
    unfolding inline_mask kind_mask by (rule bit_eqI) (auto simp: bit_simps)
  ultimately show thesis
    using that assms by (simp add: set_inline_len_def)
qed

section \<open>Inline values\<close>

lemma st_as_ref_inline:
  assumes "storage_ok h (Storage_Inline t d)"
  shows "st_as_ref (Storage_Inline t d) h = Some (take (inline_len t) d)"
  using assms by (simp add: st_as_ref_def)

lemma from_ptr_inlineE:
  assumes "length src \<le> INLINE_CAP"
  obtains t where "from_ptr_inline src = Some (Storage_Inline t (src @ replicate (INLINE_CAP - length src) 0))"
    and "inline_len t = length src" and "unat (t AND 3) = KIND_INLINE"
proof -
  have "unat ((2 :: u8) AND 3) = KIND_INLINE" by simp
  with assms obtain t where "set_inline_len (length src) 2 = Some t" "inline_len t = length src"
    "unat (t AND 3) = KIND_INLINE" by (rule set_inline_lenE)
  then show thesis using that assms by (simp add: from_ptr_inline_def)
qed

lemma from_ptr_inline_spec:
  assumes "length src \<le> INLINE_CAP"
  obtains st where "from_ptr_inline src = Some st" and "storage_ok h st" and "h_addr (HBytes st) = None"
    and "\<forall>h. st_as_ref st h = Some src"
proof -
  obtain t where t: "from_ptr_inline src = Some (Storage_Inline t (src @ replicate (INLINE_CAP - length src) 0))"
    "inline_len t = length src" "unat (t AND 3) = KIND_INLINE"
    using assms by (rule from_ptr_inlineE)
  show thesis
    using that [OF t(1)] t(2,3) assms by (simp add: st_as_ref_def)
qed

lemma storage_empty_ok [simp]:
  "storage_ok h storage_empty" "st_as_ref storage_empty h = Some []" "h_addr (HBytes storage_empty) = None"
  by (simp_all add: storage_empty_def st_as_ref_def inline_len_def)

lemma st_len_eq: "storage_ok h st \<Longrightarrow> st_as_ref st h = Some xs \<Longrightarrow> st_len st = length xs"
  by (cases st) (auto simp: st_as_ref_def mem_slice_length split: option.splits)

lemma storage_ok_content: "storage_ok h st \<Longrightarrow> \<exists>xs. st_as_ref st h = Some xs"
  by (cases st) (auto simp: st_as_ref_def split: option.splits)

lemma st_read_spec:
  assumes ok: "storage_ok h st" and xs: "st_as_ref st h = Some xs" and le: "k + n \<le> length xs"
  shows "st_read st k n h = Some (take n (drop k xs))"
proof (cases st)
  case (Storage_Vec a p l off)
  then obtain b where b: "hp_get h a = Some b" "mem_slice (sv_mem b) p l = Some xs"
    using ok xs by (auto simp: st_as_ref_def split: option.splits)
  have l: "l = length xs" using mem_slice_length [OF b(2)] by simp
  have "mem_slice (sv_mem b) (p + k) (l - k) = Some (drop k xs)"
    using mem_slice_drop [OF b(2)] le l by simp
  then have "mem_slice (sv_mem b) (p + k) n = Some (take n (drop k xs))"
    by (rule mem_slice_take) (use le l in simp)
  then show ?thesis using b Storage_Vec by simp
qed (use assms in \<open>auto simp: st_as_ref_def take_drop min_def\<close>)

end
