(* ===== verification/Bytes_Share.thy ===== *)
theory Bytes_Share
  imports Bytes_Tags
begin

text \<open>
  The operations of \<open>Storage\<close> under the ownership invariant: dropping, cloning, narrowing a view,
  splitting, truncating; and freezing and splitting a mutable buffer, which hands a part of it to a
  \<open>Bytes\<close> without copying.
\<close>

section \<open>Handles without a block, and dropping\<close>

lemma handle_ok_noaddr: "h_addr x = None \<Longrightarrow> handle_ok h x \<longleftrightarrow> handle_ok h' x"
  by (cases x rule: h_addr.cases) auto

lemma content_noaddr: "h_addr x = None \<Longrightarrow> content h x = content h' x"
  by (cases x rule: h_addr.cases) (auto simp: st_as_ref_def)

lemma heap_ok_add_free:
  assumes "h_addr x = None"
  shows "heap_ok h (add_mset x M) \<longleftrightarrow> handle_ok h x \<and> heap_ok h M"
proof -
  have "block_owned (add_mset x M + cached h) c b \<longleftrightarrow> block_owned (M + cached h) c b" for c b
    by (rule block_owned_cong) (use assms in simp)
  then show ?thesis by (auto simp: heap_ok_def owns_def)
qed

lemma vec_viewE:
  assumes "heap_ok h (add_mset (HBytes (Storage_Vec a p n off)) M)"
  obtains b xs where "hp_get h a = Some b" and "off = vec_offset p" and "METADATA_SIZE \<le> p"
    and "mem_slice (sv_mem b) p n = Some xs" and "p + n < 4294967296"
    and "st_shared_vec (Storage_Vec a p n off) = Some a" and "length xs = n"
proof -
  have "storage_ok h (Storage_Vec a p n off)"
    using owns_handleD [OF heap_ok_owns [OF assms], of "HBytes (Storage_Vec a p n off)"] by simp
  then obtain b xs where b: "hp_get h a = Some b" "off = vec_offset p" "METADATA_SIZE \<le> p"
    "mem_slice (sv_mem b) p n = Some xs" "length (sv_mem b) < 4294967296"
    by (auto split: option.splits)
  then have "p + n < 4294967296" "length xs = n" by (auto simp: mem_slice_nth_iff)
  then show thesis using that b by (simp add: offset_of_vec_offset)
qed

lemma storage_okD: "heap_ok h (add_mset (HBytes st) M) \<Longrightarrow> storage_ok h st"
  using owns_handleD [OF heap_ok_owns, of h "add_mset (HBytes st) M" "HBytes st"] by simp

lemma st_drop_spec:
  assumes ok: "heap_ok h (add_mset (HBytes st) M)"
  obtains h' where "st_drop st h = Some h'" and "heap_ok h' M" and "same_contents M h h'"
proof (cases "h_addr (HBytes st)")
  case None
  then have "st_drop st h = Some h" by (cases st) auto
  then show thesis using that ok None by (simp add: heap_ok_add_free)
next
  case (Some a)
  then obtain p n off where st: "st = Storage_Vec a p n off" by (auto simp: h_addr_eq_Some_iff)
  have "st_shared_vec st = Some a" by (rule vec_viewE [OF ok [unfolded st]]) (simp add: st)
  moreover obtain h' where "release_shared_vec a h = Some h'" "heap_ok h' M" "same_contents M h h'"
    using ok Some by (rule release_shared_vec_spec)
  ultimately show thesis using that st by simp
qed

lemma st_assign_spec:
  assumes ok: "heap_ok h (add_mset (HBytes new) (add_mset (HBytes old) M))"
    and xs: "st_as_ref new h = Some xs"
  obtains h' where "st_assign old (new, h) = Some (new, h')" and "heap_ok h' (add_mset (HBytes new) M)"
    and "same_contents M h h'" and "st_as_ref new h' = Some xs"
proof -
  have "heap_ok h (add_mset (HBytes old) (add_mset (HBytes new) M))" using ok by (simp add: add_mset_commute)
  then obtain h' where "st_drop old h = Some h'" "heap_ok h' (add_mset (HBytes new) M)"
    "same_contents (add_mset (HBytes new) M) h h'" by (rule st_drop_spec)
  then show thesis using that xs by (simp add: st_assign_def)
qed

text \<open>Assigning an inline value, which has no block of its own.\<close>

lemma inline_assign_spec:
  assumes ok: "heap_ok h (add_mset (HBytes old) M)" and src: "length src \<le> INLINE_CAP"
  obtains st h' where "from_ptr_inline src = Some st" and "st_assign old (st, h) = Some (st, h')"
    and "heap_ok h' (add_mset (HBytes st) M)" and "same_contents M h h'" and "st_as_ref st h' = Some src"
proof -
  obtain st where st: "from_ptr_inline src = Some st" "storage_ok h st" "h_addr (HBytes st) = None"
    "\<forall>h. st_as_ref st h = Some src" using src by (rule from_ptr_inline_spec [where h = h])
  have "heap_ok h (add_mset (HBytes st) (add_mset (HBytes old) M))"
    using st ok by (simp add: heap_ok_add_free)
  then obtain h' where "st_assign old (st, h) = Some (st, h')" "heap_ok h' (add_mset (HBytes st) M)"
    "same_contents M h h'" "st_as_ref st h' = Some src"
    using spec [OF st(4)] by (rule st_assign_spec)
  then show thesis using that st(1) by blast
qed

section \<open>Views of a block\<close>

lemma heap_ok_replace_view:
  assumes ok: "heap_ok h (add_mset x M)" and x: "h_addr x = Some a" and b: "hp_get h a = Some b"
    and v: "METADATA_SIZE \<le> p" "mem_slice (sv_mem b) p n \<noteq> None"
    and below: "HMut a \<in># M \<Longrightarrow> p + n \<le> sv_offset b"
  shows "heap_ok h (add_mset (HBytes (Storage_Vec a p n (vec_offset p))) M)"
proof -
  let ?T = "M + cached h" and ?x = "HBytes (Storage_Vec a p n (vec_offset p))"
  have ow: "owns h (add_mset x ?T)" using ok by (simp add: heap_ok_def)
  have nc: "HMut a \<notin># cached h" by (rule not_cached [OF ok x])
  have bo: "block_owned (add_mset x ?T) a b" by (rule owns_blockD [OF ow b])
  have "owns h (add_mset ?x ?T)"
  proof (rule owns_change [OF ow, of a])
    show "block_owned (add_mset ?x ?T) a b'" if "hp_get h a = Some b'" for b'
    proof -
      have "x \<noteq> HMut a" if "HMut a \<in># ?T" using bo that by (auto simp: block_owned_def count_eq_zero_iff)
      moreover have "b' = b" using that b by simp
      ultimately show ?thesis using bo x below nc by (auto simp: block_owned_def)
    qed
    have "length (sv_mem b) < 4294967296" using bo by (simp add: block_owned_def block_ok_def)
    then show "handle_ok h y" if "y \<in># add_mset ?x ?T" "h_addr y = Some a" for y
      using that owns_handleD [OF ow, of y] v b by auto
    show "handle_ok h y" if "y \<in># add_mset ?x ?T" "h_addr y = None" for y
      using that owns_handleD [OF ow, of y] by auto
  qed (use x in \<open>auto simp: same_elsewhere_def\<close>)
  then show ?thesis using ok by (simp add: heap_ok_def)
qed

lemma heap_ok_share:
  assumes ok: "heap_ok h M" and y: "y \<in># M" "h_addr y = Some a" and b: "hp_get h a = Some b"
    and bo: "block_ok b'" "sv_mem b' = sv_mem b" "sv_ref_count b' = sv_ref_count b + 1"
    and rc: "sv_ref_count b' < 4294967296" and off: "sv_offset b \<le> sv_offset b'"
    and v: "METADATA_SIZE \<le> p" "mem_slice (sv_mem b) p n \<noteq> None"
    and below: "HMut a \<in># M \<Longrightarrow> p + n \<le> sv_offset b'"
  shows "heap_ok (hp_upd h a b') (add_mset (HBytes (Storage_Vec a p n (vec_offset p))) M)"
proof -
  let ?T = "M + cached h" and ?x = "HBytes (Storage_Vec a p n (vec_offset p))"
  have ow: "owns h ?T" using ok by (simp add: heap_ok_def)
  obtain N where N: "M = add_mset y N" using y(1) by (metis insert_DiffM)
  have nc: "HMut a \<notin># cached h" using ok y(2) unfolding N by (rule not_cached)
  have old: "block_owned ?T a b" by (rule owns_blockD [OF ow b])
  have hnd: "handle_ok (hp_upd h a b') z" if "z \<in># ?T" for z
    using that owns_handleD [OF ow, of z] b bo(2) by (intro handle_ok_upd) auto
  have "owns (hp_upd h a b') (add_mset ?x ?T)"
  proof (rule owns_change [OF ow same_elsewhere_upd(1)])
    show "block_owned (add_mset ?x ?T) a c" if "hp_get (hp_upd h a b') a = Some c" for c
    proof -
      have "c = b'" using that by simp
      then show ?thesis using old bo rc below nc off by (auto simp: block_owned_def intro: le_trans)
    qed
    have "length (sv_mem b') < 4294967296" using bo by (simp add: block_ok_def)
    then have "handle_ok (hp_upd h a b') ?x" using v bo(2) by auto
    then show "handle_ok (hp_upd h a b') z" if "z \<in># add_mset ?x ?T" "h_addr z = Some a" for z
      using that hnd by auto
    show "handle_ok (hp_upd h a b') z" if "z \<in># add_mset ?x ?T" "h_addr z = None" for z
      using that hnd by auto
  qed auto
  then show ?thesis using ok cache_ok_upd [OF _ nc] by (simp add: heap_ok_def)
qed

lemma view_narrow_spec:
  assumes ok: "heap_ok h (add_mset (HBytes (Storage_Vec a p n off)) M)"
    and xs: "st_as_ref (Storage_Vec a p n off) h = Some xs" and k: "k + l \<le> n"
  shows "heap_ok h (add_mset (HBytes (Storage_Vec a (p + k) l (vec_offset (p + k)))) M)"
    and "st_as_ref (Storage_Vec a (p + k) l (vec_offset (p + k))) h = Some (take l (drop k xs))"
proof -
  obtain b where b: "hp_get h a = Some b" "METADATA_SIZE \<le> p" "mem_slice (sv_mem b) p n = Some xs"
    using ok by (rule vec_viewE) (use xs in \<open>simp add: st_as_ref_def\<close>)
  have "mem_slice (sv_mem b) (p + k) (n - k) = Some (drop k xs)"
    using mem_slice_drop [OF b(3)] k by simp
  then have sl: "mem_slice (sv_mem b) (p + k) l = Some (take l (drop k xs))"
    by (rule mem_slice_take) (use k in simp)
  then show "st_as_ref (Storage_Vec a (p + k) l (vec_offset (p + k))) h = Some (take l (drop k xs))"
    using b(1) by (simp add: st_as_ref_def)
  have "p + n \<le> sv_offset b" if "HMut a \<in># M"
    using owns_blockD [OF heap_ok_owns [OF ok] b(1)] that by (auto simp: block_owned_def)
  then show "heap_ok h (add_mset (HBytes (Storage_Vec a (p + k) l (vec_offset (p + k)))) M)"
    using b sl k by (intro heap_ok_replace_view [OF ok _ b(1)]) auto
qed

section \<open>Creating and cloning a \<open>Storage\<close>\<close>

lemma from_slice_with_capacity_spec:
  assumes ok: "heap_ok h M" and cap: "cap + METADATA_SIZE < 4294967296" "length src \<le> cap"
  obtains st h' where "from_slice_with_capacity cap src h = Some (st, h')"
    and "heap_ok h' (add_mset (HBytes st) M)" and "same_contents M h h'" and "st_as_ref st h' = Some src"
proof -
  have u: "Unset \<noteq> Unset \<Longrightarrow> cap = page_capacity Unset" by simp
  obtain a h' b where c: "sv_create Unset cap src h = Some (a, h')" "heap_ok h' (add_mset (HMut a) M)"
    "same_contents M h h'" "sv_as_ref a h' = Some src" "hp_get h' a = Some b"
    "sv_offset b = METADATA_SIZE" "sv_len b = length src"
    using ok cap u by (rule sv_create_spec)
  have sl: "mem_slice (sv_mem b) METADATA_SIZE (length src) = Some src"
    using c by (simp add: sv_as_ref_def)
  have "HMut a \<notin># M" using c(2) by (rule heap_ok_mutE)
  then have "heap_ok h' (add_mset (HBytes (Storage_Vec a METADATA_SIZE (length src) (vec_offset METADATA_SIZE))) M)"
    using sl by (intro heap_ok_replace_view [OF c(2) _ c(5)]) simp_all
  then show thesis
    using that c sl by (simp add: from_slice_with_capacity_def st_as_ref_def)
qed

lemma st_from_slice_spec:
  assumes ok: "heap_ok h M" and fits: "length src + METADATA_SIZE < 4294967296"
  obtains st h' where "st_from_slice src h = Some (st, h')" and "heap_ok h' (add_mset (HBytes st) M)"
    and "same_contents M h h'" and "st_as_ref st h' = Some src"
proof (cases "length src \<le> INLINE_CAP")
  case True
  then obtain st where "from_ptr_inline src = Some st" "storage_ok h st" "h_addr (HBytes st) = None"
    "\<forall>h. st_as_ref st h = Some src" by (rule from_ptr_inline_spec)
  then show thesis using that True ok by (simp add: st_from_slice_def heap_ok_add_free)
next
  case False
  have "length src \<le> length src" by simp
  with ok fits obtain st h' where "from_slice_with_capacity (length src) src h = Some (st, h')"
    "heap_ok h' (add_mset (HBytes st) M)" "same_contents M h h'" "st_as_ref st h' = Some src"
    by (rule from_slice_with_capacity_spec)
  then show thesis using that False by (simp add: st_from_slice_def)
qed

lemma ext_replace_spec:
  assumes ok: "heap_ok h (add_mset (HBytes (Storage_Ext s)) M)"
    and fits: "length src + METADATA_SIZE < 4294967296"
  obtains st h' where "do { r \<leftarrow> st_from_slice src h; st_assign (Storage_Ext s) r } = Some (st, h')"
    and "heap_ok h' (add_mset (HBytes st) M)" and "same_contents M h h'" and "st_as_ref st h' = Some src"
proof -
  have "heap_ok h M" using ok by (simp add: heap_ok_add_free)
  then obtain st h' where "st_from_slice src h = Some (st, h')" "heap_ok h' (add_mset (HBytes st) M)"
    "same_contents M h h'" "st_as_ref st h' = Some src" using fits by (rule st_from_slice_spec)
  then show thesis using that by (simp add: st_assign_def)
qed

lemma refs_le_size: "refs M a \<le> size M"
  by (simp add: refs_def size_filter_mset_lesseq)

lemma refs_cached: "HMut a \<notin># cached h \<Longrightarrow> refs (cached h) a = 0"
  by (auto simp: refs_zero_iff cached_def)

lemma st_shallow_clone_spec:
  assumes ok: "heap_ok h (add_mset (HBytes st) M)" and xs: "st_as_ref st h = Some xs"
    and few: "size M < 4294967294"
  obtains h' where "st_shallow_clone st h = Some (st, h')"
    and "heap_ok h' (add_mset (HBytes st) (add_mset (HBytes st) M))"
    and "same_contents (add_mset (HBytes st) M) h h'" and "st_as_ref st h' = Some xs"
proof (cases "h_addr (HBytes st)")
  case None
  then have "st_shallow_clone st h = Some (st, h)" by (cases st) auto
  then show thesis using that ok None xs storage_okD [OF ok] by (simp add: heap_ok_add_free)
next
  case (Some a)
  then obtain p n off where st: "st = Storage_Vec a p n off" by (auto simp: h_addr_eq_Some_iff)
  obtain b ys where b: "hp_get h a = Some b" "off = vec_offset p" "METADATA_SIZE \<le> p"
    "mem_slice (sv_mem b) p n = Some ys" "st_shared_vec st = Some a"
    using ok unfolding st by (rule vec_viewE)
  have bo: "block_owned (add_mset (HBytes st) M + cached h) a b" "HMut a \<notin># cached h"
    by (rule heap_ok_addrE [OF ok Some], simp add: b(1))+
  have rc: "sv_ref_count b < 4294967295"
    using bo few refs_le_size [of M a] refs_cached [OF bo(2)] Some by (simp add: block_owned_def)
  let ?b = "b\<lparr>sv_ref_count := sv_ref_count b + 1\<rparr>"
  have "heap_ok (hp_upd h a ?b) (add_mset (HBytes (Storage_Vec a p n (vec_offset p))) (add_mset (HBytes st) M))"
  proof (rule heap_ok_share [OF ok _ Some b(1)])
    show "block_ok ?b" using bo by (simp add: block_owned_def block_ok_def)
    show "p + n \<le> sv_offset ?b" if "HMut a \<in># add_mset (HBytes st) M"
      using bo that b by (auto simp: block_owned_def st)
  qed (use b rc in simp_all)
  moreover have "same_contents (add_mset (HBytes st) M) h (hp_upd h a ?b)"
    by (rule same_contents_change [OF same_elsewhere_upd(1) b(1), where b' = ?b]) simp_all
  moreover have "st_shallow_clone st h = Some (st, hp_upd h a ?b)"
    using b rc by (simp add: st sv_incr_ref_def)
  ultimately show thesis using that xs b(2) st by (simp del: st_shallow_clone.simps)
qed

section \<open>Moving the ends of a \<open>Storage\<close>\<close>

lemma heap_ok_swap_free:
  assumes "heap_ok h (add_mset (HBytes st) M)" and "h_addr (HBytes st) = None"
    and "h_addr (HBytes st') = None" and "storage_ok h st'"
  shows "heap_ok h (add_mset (HBytes st') M)"
  using assms by (simp add: heap_ok_add_free)

lemma st_set_start_spec:
  assumes ok: "heap_ok h (add_mset (HBytes st) M)" and xs: "st_as_ref st h = Some xs"
    and k: "k \<le> length xs" and fits: "length xs + METADATA_SIZE < 4294967296"
  obtains st' h' where "st_set_start st k h = Some (st', h')" and "heap_ok h' (add_mset (HBytes st') M)"
    and "same_contents M h h'" and "st_as_ref st' h' = Some (drop k xs)"
proof (cases "k = 0")
  case True
  then have "st_set_start st k h = Some (st, h)" by (cases st) auto
  then show thesis using that ok xs True by simp
next
  case False
  show thesis
  proof (cases st)
    case (Storage_Inline t d)
    have iok: "length d = INLINE_CAP" "unat (t AND 3) = KIND_INLINE" "inline_len t \<le> INLINE_CAP"
      and eq: "xs = take (inline_len t) d"
      using storage_okD [OF ok] xs by (auto simp: Storage_Inline st_as_ref_def)
    have le: "k \<le> inline_len t" using k eq iok by simp
    let ?n = "inline_len t - k"
    obtain t' where t': "set_inline_len ?n t = Some t'" "inline_len t' = ?n" "unat (t' AND 3) = KIND_INLINE"
      using iok by (auto intro: set_inline_lenE [of ?n t])
    let ?d = "if inline_len t \<le> k then d else take ?n (drop k d) @ drop ?n d"
    have "st_set_start st k h = Some (Storage_Inline t' ?d, h)"
      using False le iok t' Storage_Inline by (auto simp: Let_def)
    moreover have "storage_ok h (Storage_Inline t' ?d)" using iok t' le by auto
    moreover have "st_as_ref (Storage_Inline t' ?d) h = Some (drop k xs)"
      using iok t' le eq by (auto simp: st_as_ref_def drop_take)
    ultimately show thesis
      using that heap_ok_swap_free [OF ok, of "Storage_Inline t' ?d"] Storage_Inline by simp
  next
    case (Storage_Static s)
    then show thesis
      using that [of "Storage_Static (drop k s)" h] ok xs k heap_ok_swap_free [OF ok, of "Storage_Static (drop k s)"]
      by (simp add: st_as_ref_def)
  next
    case (Storage_Ext s)
    have s: "xs = s" using xs by (simp add: Storage_Ext st_as_ref_def)
    have "length (drop k s) + METADATA_SIZE < 4294967296" using fits s by simp
    with ok [unfolded Storage_Ext] obtain st' h' where
      "do { r \<leftarrow> st_from_slice (drop k s) h; st_assign (Storage_Ext s) r } = Some (st', h')"
      "heap_ok h' (add_mset (HBytes st') M)" "same_contents M h h'" "st_as_ref st' h' = Some (drop k s)"
      by (rule ext_replace_spec)
    then show thesis using that False k s Storage_Ext by simp
  next
    case (Storage_Vec a p n off)
    have v: "st_shared_vec st = Some a" "off = vec_offset p" "p + n < 4294967296"
      by (rule vec_viewE [OF ok [unfolded Storage_Vec]], simp add: Storage_Vec)+
    have n: "length xs = n" using st_len_eq [OF storage_okD [OF ok] xs] Storage_Vec by simp
    have "k + (n - k) \<le> n" using k n by simp
    note nar = view_narrow_spec [OF ok [unfolded Storage_Vec] xs [unfolded Storage_Vec] this]
    have "offset_of off = p" using v by (simp add: offset_of_vec_offset)
    then have "st_set_start st k h = Some (Storage_Vec a (p + k) (n - k) (vec_offset (p + k)), h)"
      using v k n False Storage_Vec by (simp add: Let_def)
    then show thesis using that nar n by simp
  qed
qed

lemma st_set_end_spec:
  assumes ok: "heap_ok h (add_mset (HBytes st) M)" and xs: "st_as_ref st h = Some xs"
    and k: "k \<le> length xs" and fits: "length xs + METADATA_SIZE < 4294967296"
  obtains st' h' where "st_set_end st k h = Some (st', h')" and "heap_ok h' (add_mset (HBytes st') M)"
    and "same_contents M h h'" and "st_as_ref st' h' = Some (take k xs)"
proof (cases st)
  case (Storage_Inline t d)
  have iok: "length d = INLINE_CAP" "unat (t AND 3) = KIND_INLINE" "inline_len t \<le> INLINE_CAP"
    and eq: "xs = take (inline_len t) d"
    using storage_okD [OF ok] xs by (auto simp: Storage_Inline st_as_ref_def)
  have le: "k \<le> inline_len t" using k eq iok by simp
  obtain t' where t': "set_inline_len k t = Some t'" "inline_len t' = k" "unat (t' AND 3) = KIND_INLINE"
    using iok le by (auto intro: set_inline_lenE [of k t])
  show thesis
    using that [of "Storage_Inline t' d" h] heap_ok_swap_free [OF ok, of "Storage_Inline t' d"]
      le iok t' eq Storage_Inline by (simp add: st_as_ref_def min_def)
next
  case (Storage_Static s)
  then show thesis
    using that [of "Storage_Static (take k s)" h] ok xs k heap_ok_swap_free [OF ok, of "Storage_Static (take k s)"]
    by (simp add: st_as_ref_def)
next
  case (Storage_Ext s)
  have s: "xs = s" using xs by (simp add: Storage_Ext st_as_ref_def)
  have "length (take (min (length s) k) s) + METADATA_SIZE < 4294967296" using fits s by simp
  with ok [unfolded Storage_Ext] obtain st' h' where
    "do { r \<leftarrow> st_from_slice (take (min (length s) k) s) h; st_assign (Storage_Ext s) r } = Some (st', h')"
    "heap_ok h' (add_mset (HBytes st') M)" "same_contents M h h'"
    "st_as_ref st' h' = Some (take (min (length s) k) s)"
    by (rule ext_replace_spec)
  then show thesis using that k s Storage_Ext by (simp add: min_def split: if_splits)
next
  case (Storage_Vec a p n off)
  have v: "off = vec_offset p" by (rule vec_viewE [OF ok [unfolded Storage_Vec]])
  have n: "length xs = n" using st_len_eq [OF storage_okD [OF ok] xs] Storage_Vec by simp
  have "0 + k \<le> n" using k n by simp
  note nar = view_narrow_spec [OF ok [unfolded Storage_Vec] xs [unfolded Storage_Vec] this]
  have "st_set_end st k h = Some (Storage_Vec a p k off, h)" using k n Storage_Vec by simp
  then show thesis using that nar v by simp
qed

end
