(* ===== verification/Bytes_Api.thy ===== *)
theory Bytes_Api
  imports Bytes_Share
begin

text \<open>
  The contracts of \<open>Bytes\<close> and \<open>BytesMut\<close>: on every well-formed heap each operation returns, gives
  the bytes the list function of its documentation gives, keeps the ownership invariant and leaves
  the contents of every other live buffer as they were.
\<close>

section \<open>Splitting and truncating \<open>Bytes\<close>\<close>

lemma st_inline_at_spec:
  assumes ok: "storage_ok h st" and xs: "st_as_ref st h = Some xs" and k: "k + n \<le> length xs"
    and n: "n \<le> INLINE_CAP"
  obtains st' where "st_inline_at st k n h = Some st'" and "storage_ok h st'"
    and "h_addr (HBytes st') = None" and "\<forall>h. st_as_ref st' h = Some (take n (drop k xs))"
    and "from_ptr_inline (take n (drop k xs)) = Some st'"
proof -
  have "length (take n (drop k xs)) \<le> INLINE_CAP" using n by simp
  then obtain st' where "from_ptr_inline (take n (drop k xs)) = Some st'" "storage_ok h st'"
    "h_addr (HBytes st') = None" "\<forall>h. st_as_ref st' h = Some (take n (drop k xs))"
    by (rule from_ptr_inline_spec)
  then show thesis
    using that st_read_spec [OF ok xs k] by (simp add: st_inline_at_def)
qed

text \<open>Replacing a value by an inline copy of its first bytes.\<close>

lemma inline_prefix_spec:
  assumes ok: "heap_ok h (add_mset (HBytes st) M)" and xs: "st_as_ref st h = Some xs"
    and n: "n \<le> length xs" "n \<le> INLINE_CAP"
  obtains st' h' where "do { s \<leftarrow> st_inline_at st 0 n h; st_assign st (s, h) } = Some (st', h')"
    and "heap_ok h' (add_mset (HBytes st') M)" and "same_contents M h h'"
    and "st_as_ref st' h' = Some (take n xs)"
proof -
  have "0 + n \<le> length xs" using n by simp
  with storage_okD [OF ok] xs obtain s where s: "st_inline_at st 0 n h = Some s"
    "from_ptr_inline (take n (drop 0 xs)) = Some s" using n(2) by (rule st_inline_at_spec)
  have "length (take n xs) \<le> INLINE_CAP" using n by simp
  with ok obtain st' h' where "from_ptr_inline (take n xs) = Some st'" "st_assign st (st', h) = Some (st', h')"
    "heap_ok h' (add_mset (HBytes st') M)" "same_contents M h h'" "st_as_ref st' h' = Some (take n xs)"
    by (rule inline_assign_spec)
  then show thesis using that s by simp
qed

lemma st_set_len_spec:
  assumes ok: "heap_ok h (add_mset (HBytes st) M)" and xs: "st_as_ref st h = Some xs"
    and k: "k \<le> length xs" and fits: "length xs + METADATA_SIZE < 4294967296"
    and cap: "st_capacity st h = Some c" "k \<le> c"
  obtains st' h' where "st_set_len st k h = Some (st', h')" and "heap_ok h' (add_mset (HBytes st') M)"
    and "same_contents M h h'" and "st_as_ref st' h' = Some (take k xs)"
proof (cases st)
  case (Storage_Inline t d)
  have iok: "length d = INLINE_CAP" "unat (t AND 3) = KIND_INLINE" "inline_len t \<le> INLINE_CAP"
    and eq: "xs = take (inline_len t) d"
    using storage_okD [OF ok] xs by (auto simp: Storage_Inline st_as_ref_def)
  have le: "k \<le> inline_len t" using k eq iok by simp
  obtain t' where t': "set_inline_len k t = Some t'" "inline_len t' = k" "unat (t' AND 3) = KIND_INLINE"
    using iok le by (auto intro: set_inline_lenE [of k t])
  show thesis
    using that [of "Storage_Inline t' d" h] heap_ok_swap_free [OF ok, of "Storage_Inline t' d"]
      le iok t' eq Storage_Inline by (simp add: st_as_ref_def min_def)
next
  case (Storage_Static s)
  then show thesis
    using that [of "Storage_Static (take k s)" h] ok xs k heap_ok_swap_free [OF ok, of "Storage_Static (take k s)"]
    by (simp add: st_as_ref_def)
next
  case (Storage_Ext s)
  have s: "xs = s" using xs by (simp add: Storage_Ext st_as_ref_def)
  have "length (take k s) + METADATA_SIZE < 4294967296" using fits s by simp
  with ok [unfolded Storage_Ext] obtain st' h' where
    "do { r \<leftarrow> st_from_slice (take k s) h; st_assign (Storage_Ext s) r } = Some (st', h')"
    "heap_ok h' (add_mset (HBytes st') M)" "same_contents M h h'" "st_as_ref st' h' = Some (take k s)"
    by (rule ext_replace_spec)
  then show thesis using that [of st' h'] that [of st h] k s ok xs Storage_Ext by (cases "k = length s") simp_all
next
  case (Storage_Vec a p n off)
  have v: "off = vec_offset p" by (rule vec_viewE [OF ok [unfolded Storage_Vec]])
  have n: "length xs = n" using st_len_eq [OF storage_okD [OF ok] xs] Storage_Vec by simp
  have "0 + k \<le> n" using k n by simp
  note nar = view_narrow_spec [OF ok [unfolded Storage_Vec] xs [unfolded Storage_Vec] this]
  have "st_set_len st k h = Some (Storage_Vec a p k off, h)" using cap Storage_Vec by simp
  then show thesis using that nar v by simp
qed

lemma st_truncate_spec:
  assumes ok: "heap_ok h (add_mset (HBytes st) M)" and xs: "st_as_ref st h = Some xs"
    and fits: "length xs + METADATA_SIZE < 4294967296"
    and cap: "k < INLINE_CAP \<or> (\<exists>c. st_capacity st h = Some c \<and> min k (length xs) \<le> c)"
  obtains st' h' where "st_truncate st k h = Some (st', h')" and "heap_ok h' (add_mset (HBytes st') M)"
    and "same_contents M h h'" and "st_as_ref st' h' = Some (take k xs)"
proof -
  have len: "st_len st = length xs" by (rule st_len_eq [OF storage_okD [OF ok] xs])
  consider (noop) "length xs < k" | (inl) "k \<le> length xs" "k < INLINE_CAP"
    | (vec) "k \<le> length xs" "\<not> k < INLINE_CAP" by linarith
  then show thesis
  proof cases
    case noop
    then show thesis using that ok xs len by (simp add: st_truncate_def)
  next
    case inl
    have "k \<le> INLINE_CAP" using inl by simp
    with ok xs inl(1) obtain st' h' where
      "do { s \<leftarrow> st_inline_at st 0 k h; st_assign st (s, h) } = Some (st', h')"
      "heap_ok h' (add_mset (HBytes st') M)" "same_contents M h h'" "st_as_ref st' h' = Some (take k xs)"
      by (rule inline_prefix_spec)
    then show thesis using that inl len by (simp add: st_truncate_def)
  next
    case vec
    then obtain c where "st_capacity st h = Some c" "k \<le> c" using cap by (auto simp: min_def)
    with ok xs vec(1) fits obtain st' h' where "st_set_len st k h = Some (st', h')"
      "heap_ok h' (add_mset (HBytes st') M)" "same_contents M h h'" "st_as_ref st' h' = Some (take k xs)"
      by (rule st_set_len_spec)
    then show thesis using that vec len by (simp add: st_truncate_def)
  qed
qed

lemma st_split_to_spec:
  assumes ok: "heap_ok h (add_mset (HBytes st) M)" and xs: "st_as_ref st h = Some xs"
    and k: "k \<le> length xs" and fits: "length xs + METADATA_SIZE < 4294967296"
    and few: "size M < 4294967294"
  obtains ot st' h' where "st_split_to st k h = Some (ot, st', h')"
    and "heap_ok h' (add_mset (HBytes ot) (add_mset (HBytes st') M))" and "same_contents M h h'"
    and "st_as_ref ot h' = Some (take k xs)" and "st_as_ref st' h' = Some (drop k xs)"
proof -
  have "\<exists>ot h1. (if k \<le> INLINE_CAP then do { ot \<leftarrow> st_inline_at st 0 k h; Some (ot, h) }
      else do { (ot, h) \<leftarrow> st_shallow_clone st h; st_set_end ot k h }) = Some (ot, h1) \<and>
    heap_ok h1 (add_mset (HBytes ot) (add_mset (HBytes st) M)) \<and> same_contents (add_mset (HBytes st) M) h h1 \<and>
    st_as_ref ot h1 = Some (take k xs)"
  proof (cases "k \<le> INLINE_CAP")
    case True
    have "0 + k \<le> length xs" using k by simp
    with storage_okD [OF ok] xs obtain ot where "st_inline_at st 0 k h = Some ot" "storage_ok h ot"
      "h_addr (HBytes ot) = None" "\<forall>h. st_as_ref ot h = Some (take k (drop 0 xs))"
      using True by (rule st_inline_at_spec)
    then show ?thesis using True ok by (simp add: heap_ok_add_free)
  next
    case False
    obtain h1 where c: "st_shallow_clone st h = Some (st, h1)"
      "heap_ok h1 (add_mset (HBytes st) (add_mset (HBytes st) M))"
      "same_contents (add_mset (HBytes st) M) h h1" "st_as_ref st h1 = Some xs"
      using ok xs few by (rule st_shallow_clone_spec)
    obtain ot h2 where "st_set_end st k h1 = Some (ot, h2)"
      "heap_ok h2 (add_mset (HBytes ot) (add_mset (HBytes st) M))"
      "same_contents (add_mset (HBytes st) M) h1 h2" "st_as_ref ot h2 = Some (take k xs)"
      using c(2,4) k fits by (rule st_set_end_spec)
    then show ?thesis using False c by (auto intro: same_contents_trans)
  qed
  then obtain ot h1 where a: "(if k \<le> INLINE_CAP then do { ot \<leftarrow> st_inline_at st 0 k h; Some (ot, h) }
      else do { (ot, h) \<leftarrow> st_shallow_clone st h; st_set_end ot k h }) = Some (ot, h1)"
    "heap_ok h1 (add_mset (HBytes st) (add_mset (HBytes ot) M))" "same_contents (add_mset (HBytes st) M) h h1"
    "st_as_ref ot h1 = Some (take k xs)" by (auto simp: add_mset_commute)
  have "st_as_ref st h1 = Some xs" using a(3) xs by simp
  with a(2) obtain st' h' where "st_set_start st k h1 = Some (st', h')"
    "heap_ok h' (add_mset (HBytes st') (add_mset (HBytes ot) M))"
    "same_contents (add_mset (HBytes ot) M) h1 h'" "st_as_ref st' h' = Some (drop k xs)"
    using k fits by (rule st_set_start_spec)
  then show thesis
    using that a by (auto simp: st_split_to_def add_mset_commute intro: same_contents_trans)
qed

lemma st_split_off_spec:
  assumes ok: "heap_ok h (add_mset (HBytes st) M)" and xs: "st_as_ref st h = Some xs"
    and k: "k \<le> length xs" and fits: "length xs + METADATA_SIZE < 4294967296"
    and few: "size M < 4294967294"
  obtains ot st' h' where "st_split_off st k True h = Some (ot, st', h')"
    and "heap_ok h' (add_mset (HBytes ot) (add_mset (HBytes st') M))" and "same_contents M h h'"
    and "st_as_ref ot h' = Some (drop k xs)" and "st_as_ref st' h' = Some (take k xs)"
proof -
  have len: "st_len st = length xs" by (rule st_len_eq [OF storage_okD [OF ok] xs])
  have "\<exists>ot h1. (if length xs - k \<le> INLINE_CAP
        then do { ot \<leftarrow> st_inline_at st k (length xs - k) h; Some (ot, h) }
        else do { (ot, h) \<leftarrow> st_shallow_clone st h; st_set_start ot k h }) = Some (ot, h1) \<and>
    heap_ok h1 (add_mset (HBytes ot) (add_mset (HBytes st) M)) \<and> same_contents (add_mset (HBytes st) M) h h1 \<and>
    st_as_ref ot h1 = Some (drop k xs)"
  proof (cases "length xs - k \<le> INLINE_CAP")
    case True
    have "k + (length xs - k) \<le> length xs" using k by simp
    with storage_okD [OF ok] xs obtain ot where "st_inline_at st k (length xs - k) h = Some ot"
      "storage_ok h ot" "h_addr (HBytes ot) = None"
      "\<forall>h. st_as_ref ot h = Some (take (length xs - k) (drop k xs))"
      using True by (rule st_inline_at_spec)
    then show ?thesis using True ok by (simp add: heap_ok_add_free)
  next
    case False
    obtain h1 where c: "st_shallow_clone st h = Some (st, h1)"
      "heap_ok h1 (add_mset (HBytes st) (add_mset (HBytes st) M))"
      "same_contents (add_mset (HBytes st) M) h h1" "st_as_ref st h1 = Some xs"
      using ok xs few by (rule st_shallow_clone_spec)
    obtain ot h2 where "st_set_start st k h1 = Some (ot, h2)"
      "heap_ok h2 (add_mset (HBytes ot) (add_mset (HBytes st) M))"
      "same_contents (add_mset (HBytes st) M) h1 h2" "st_as_ref ot h2 = Some (drop k xs)"
      using c(2,4) k fits by (rule st_set_start_spec)
    then show ?thesis using False c by (auto intro: same_contents_trans)
  qed
  then obtain ot h1 where a: "(if length xs - k \<le> INLINE_CAP
        then do { ot \<leftarrow> st_inline_at st k (length xs - k) h; Some (ot, h) }
        else do { (ot, h) \<leftarrow> st_shallow_clone st h; st_set_start ot k h }) = Some (ot, h1)"
    "heap_ok h1 (add_mset (HBytes st) (add_mset (HBytes ot) M))" "same_contents (add_mset (HBytes st) M) h h1"
    "st_as_ref ot h1 = Some (drop k xs)" by (auto simp: add_mset_commute)
  have xs1: "st_as_ref st h1 = Some xs" using a(3) xs by simp
  have "\<exists>st' h'. (if k \<le> INLINE_CAP then do { s \<leftarrow> st_inline_at st 0 k h1; st_assign st (s, h1) }
      else st_set_end st k h1) = Some (st', h') \<and> heap_ok h' (add_mset (HBytes st') (add_mset (HBytes ot) M)) \<and>
    same_contents (add_mset (HBytes ot) M) h1 h' \<and> st_as_ref st' h' = Some (take k xs)"
  proof (cases "k \<le> INLINE_CAP")
    case True
    with a(2) xs1 k obtain st' h' where
      "do { s \<leftarrow> st_inline_at st 0 k h1; st_assign st (s, h1) } = Some (st', h')"
      "heap_ok h' (add_mset (HBytes st') (add_mset (HBytes ot) M))"
      "same_contents (add_mset (HBytes ot) M) h1 h'" "st_as_ref st' h' = Some (take k xs)"
      by (rule inline_prefix_spec)
    then show ?thesis using True by auto
  next
    case False
    from a(2) xs1 k fits obtain st' h' where "st_set_end st k h1 = Some (st', h')"
      "heap_ok h' (add_mset (HBytes st') (add_mset (HBytes ot) M))"
      "same_contents (add_mset (HBytes ot) M) h1 h'" "st_as_ref st' h' = Some (take k xs)"
      by (rule st_set_end_spec)
    then show ?thesis using False by auto
  qed
  then obtain st' h' where e: "(if k \<le> INLINE_CAP then do { s \<leftarrow> st_inline_at st 0 k h1; st_assign st (s, h1) }
      else st_set_end st k h1) = Some (st', h')" "heap_ok h' (add_mset (HBytes st') (add_mset (HBytes ot) M))"
    "same_contents (add_mset (HBytes ot) M) h1 h'" "st_as_ref st' h' = Some (take k xs)" by blast
  have "same_contents M h h'" using a(3) e(3) same_contents_trans [of M h h1 h'] by simp
  then show thesis
    using that a(1,4) e len k by (simp add: st_split_off_def add_mset_commute)
qed

lemma st_trimdown_spec:
  assumes ok: "heap_ok h (add_mset (HBytes st) M)" and xs: "st_as_ref st h = Some xs"
    and fits: "length xs + METADATA_SIZE < 4294967296"
    and cap: "length xs \<le> INLINE_CAP \<or> (\<exists>c. st_capacity st h = Some c \<and> length xs \<le> c)"
  obtains st' h' where "st_trimdown st h = Some (st', h')" and "heap_ok h' (add_mset (HBytes st') M)"
    and "same_contents M h h'" and "st_as_ref st' h' = Some xs"
proof (cases "storage_kind st = KIND_INLINE \<or> storage_kind st = KIND_STATIC")
  case True
  then have "st_trimdown st h = Some (st, h)"
    using storage_okD [OF ok] kind_vec_offset
    by (cases st) (auto simp: st_trimdown_def storage_kind_def split: option.splits)
  then show thesis using that ok xs by simp
next
  case False
  have len: "st_len st = length xs" by (rule st_len_eq [OF storage_okD [OF ok] xs])
  have kind: "(case st of Storage_Inline _ _ \<Rightarrow> u | Storage_Static _ \<Rightarrow> v | _ \<Rightarrow> w) = w" for u v w :: 'z
    using False storage_okD [OF ok] by (cases st) (auto simp: storage_kind_def)
  have trim: "st_trimdown st h = (if length xs \<le> INLINE_CAP
      then do { s \<leftarrow> st_inline_at st 0 (length xs) h; st_assign st (s, h) }
      else do {
        cap \<leftarrow> st_capacity st h; spare \<leftarrow> checked_sub cap (length xs);
        if spare \<ge> 64 then do {
          src \<leftarrow> st_as_ref st h; r \<leftarrow> from_slice_with_capacity (length xs) src h; st_assign st r }
        else Some (st, h) })"
    unfolding st_trimdown_def kind len ..
  show thesis
  proof (cases "length xs \<le> INLINE_CAP")
    case True
    with ok xs le_refl obtain st' h' where
      "do { s \<leftarrow> st_inline_at st 0 (length xs) h; st_assign st (s, h) } = Some (st', h')"
      "heap_ok h' (add_mset (HBytes st') M)" "same_contents M h h'"
      "st_as_ref st' h' = Some (take (length xs) xs)"
      by (rule inline_prefix_spec)
    then show thesis using that trim True by simp
  next
    case large: False
    then obtain c where c: "st_capacity st h = Some c" "length xs \<le> c" using cap by auto
    show thesis
    proof (cases "64 \<le> c - length xs")
      case True
      obtain s1 h1 where s: "from_slice_with_capacity (length xs) xs h = Some (s1, h1)"
        "heap_ok h1 (add_mset (HBytes s1) (add_mset (HBytes st) M))"
        "same_contents (add_mset (HBytes st) M) h h1" "st_as_ref s1 h1 = Some xs"
        using ok fits le_refl by (rule from_slice_with_capacity_spec)
      from s(2,4) obtain h' where "st_assign st (s1, h1) = Some (s1, h')"
        "heap_ok h' (add_mset (HBytes s1) M)" "same_contents M h1 h'" "st_as_ref s1 h' = Some xs"
        by (rule st_assign_spec)
      then show thesis
        using that s trim large c True xs by (auto intro: same_contents_trans)
    qed (use that trim large c ok xs in simp)
  qed
qed

lemma bytes_slice_spec:
  assumes ok: "heap_ok h (add_mset (HBytes st) M)" and xs: "st_as_ref st h = Some xs"
    and lo: "lo \<le> hi" "hi \<le> length xs" and fits: "length xs + METADATA_SIZE < 4294967296"
    and few: "size M < 4294967294"
  obtains r h' where "bytes_slice_checked st lo hi h = Some (Some r, h')"
    and "heap_ok h' (add_mset (HBytes r) (add_mset (HBytes st) M))"
    and "same_contents (add_mset (HBytes st) M) h h'" and "st_as_ref r h' = Some (take (hi - lo) (drop lo xs))"
proof -
  have len: "st_len st = length xs" by (rule st_len_eq [OF storage_okD [OF ok] xs])
  show thesis
  proof (cases "hi - lo \<le> INLINE_CAP")
    case True
    have "length (take (hi - lo) (drop lo xs)) + METADATA_SIZE < 4294967296" using fits by simp
    with ok obtain r h' where "st_from_slice (take (hi - lo) (drop lo xs)) h = Some (r, h')"
      "heap_ok h' (add_mset (HBytes r) (add_mset (HBytes st) M))"
      "same_contents (add_mset (HBytes st) M) h h'" "st_as_ref r h' = Some (take (hi - lo) (drop lo xs))"
      by (rule st_from_slice_spec)
    then show thesis using that lo len True xs by (simp add: bytes_slice_checked_def)
  next
    case False
    let ?M = "add_mset (HBytes st) M"
    obtain h1 where c: "st_shallow_clone st h = Some (st, h1)" "heap_ok h1 (add_mset (HBytes st) ?M)"
      "same_contents ?M h h1" "st_as_ref st h1 = Some xs"
      using ok xs few by (rule st_shallow_clone_spec)
    obtain r2 h2 where e: "st_set_end st hi h1 = Some (r2, h2)" "heap_ok h2 (add_mset (HBytes r2) ?M)"
      "same_contents ?M h1 h2" "st_as_ref r2 h2 = Some (take hi xs)"
      using c(2,4) lo(2) fits by (rule st_set_end_spec)
    have "lo \<le> length (take hi xs)" "length (take hi xs) + METADATA_SIZE < 4294967296" using lo fits by auto
    with e(2,4) obtain r h' where "st_set_start r2 lo h2 = Some (r, h')" "heap_ok h' (add_mset (HBytes r) ?M)"
      "same_contents ?M h2 h'" "st_as_ref r h' = Some (drop lo (take hi xs))"
      by (rule st_set_start_spec)
    moreover from this have "same_contents ?M h h'"
      using c(3) e(3) same_contents_trans by blast
    ultimately show thesis
      using that c e lo len False xs by (simp add: bytes_slice_checked_def drop_take)
  qed
qed

lemma st_get_u8_spec:
  assumes ok: "heap_ok h (add_mset (HBytes st) M)" and xs: "st_as_ref st h = Some (x # xs)"
    and fits: "Suc (length xs) + METADATA_SIZE < 4294967296"
  obtains st' h' where "st_get_u8 st h = Some (x, st', h')" and "heap_ok h' (add_mset (HBytes st') M)"
    and "same_contents M h h'" and "st_as_ref st' h' = Some xs"
proof -
  have len: "st_len st = Suc (length xs)" using st_len_eq [OF storage_okD [OF ok] xs] by simp
  have rd: "st_read st 0 1 h = Some [x]" using st_read_spec [OF storage_okD [OF ok] xs, of 0 1] by simp
  have "1 \<le> length (x # xs)" "length (x # xs) + METADATA_SIZE < 4294967296" using fits by simp_all
  with ok xs obtain st' h' where "st_set_start st 1 h = Some (st', h')" "heap_ok h' (add_mset (HBytes st') M)"
    "same_contents M h h'" "st_as_ref st' h' = Some (drop 1 (x # xs))"
    by (rule st_set_start_spec)
  then show thesis using that len rd by (simp add: st_get_u8_def)
qed

section \<open>\<open>BytesMut\<close>\<close>

lemma bm_put_slice_spec:
  assumes ok: "heap_ok h (add_mset (HMut a) M)" and xs: "sv_as_ref a h = Some xs"
    and fits: "length xs + length ys + METADATA_SIZE < 4294967296"
  obtains a' h' where "bm_put_slice a ys h = Some (a', h')" and "heap_ok h' (add_mset (HMut a') M)"
    and "same_contents M h h'" and "sv_as_ref a' h' = Some (xs @ ys)"
proof -
  obtain a' h1 b where r: "sv_reserve a (length ys) h = Some (a', h1)" "heap_ok h1 (add_mset (HMut a') M)"
    "same_contents M h h1" "sv_as_ref a' h1 = Some xs" "hp_get h1 a' = Some b" "length ys \<le> sv_remaining b"
    using ok xs fits by (rule sv_reserve_spec)
  obtain h2 h' where w: "sv_write_tail a' ys h1 = Some h2" "sv_set_len a' (sv_len b + length ys) h2 = Some h'"
    "heap_ok h' (add_mset (HMut a') M)" "same_contents M h1 h'" "sv_as_ref a' h' = Some (xs @ ys)"
    using r(2,4,5,6) by (rule sv_append_spec)
  have "same_contents M h h'" using r(3) w(4) by (rule same_contents_trans)
  then show thesis using that r(1,5) w by (simp add: bm_put_slice_def)
qed

lemma bm_put_u8_spec:
  assumes ok: "heap_ok h (add_mset (HMut a) M)" and xs: "sv_as_ref a h = Some xs"
    and fits: "length xs + 1 + METADATA_SIZE < 4294967296"
  obtains a' h' where "bm_put_u8 a n h = Some (a', h')" and "heap_ok h' (add_mset (HMut a') M)"
    and "same_contents M h h'" and "sv_as_ref a' h' = Some (xs @ [n])"
proof -
  obtain a' h1 b where r: "sv_reserve a 1 h = Some (a', h1)" "heap_ok h1 (add_mset (HMut a') M)"
    "same_contents M h h1" "sv_as_ref a' h1 = Some xs" "hp_get h1 a' = Some b" "1 \<le> sv_remaining b"
    using ok xs fits by (rule sv_reserve_spec)
  obtain h' where w: "sv_put_u8 a' n h1 = Some h'" "heap_ok h' (add_mset (HMut a') M)"
    "same_contents M h1 h'" "sv_as_ref a' h' = Some (xs @ [n])"
    using r(2,4,5,6) by (rule sv_put_u8_spec)
  have "same_contents M h h'" using r(3) w(3) by (rule same_contents_trans)
  then show thesis using that r(1) w by (simp add: bm_put_u8_def)
qed

lemma sv_resize_spec:
  assumes ok: "heap_ok h (add_mset (HMut a) M)" and xs: "sv_as_ref a h = Some xs"
    and fits: "max n (length xs) + METADATA_SIZE < 4294967296"
  obtains a' h' where "sv_resize a n v h = Some (a', h')" and "heap_ok h' (add_mset (HMut a') M)"
    and "same_contents M h h'" and "sv_as_ref a' h' = Some (take n xs @ replicate (n - length xs) v)"
proof -
  obtain b where b: "hp_get h a = Some b" "length xs = sv_len b" using ok xs by (rule mut_blockE)
  show thesis
  proof (cases "n > length xs")
    case True
    let ?k = "n - length xs"
    have "length xs + ?k + METADATA_SIZE < 4294967296" using fits True by simp
    with ok xs obtain a' h1 b1 where r: "sv_reserve a ?k h = Some (a', h1)"
      "heap_ok h1 (add_mset (HMut a') M)" "same_contents M h h1" "sv_as_ref a' h1 = Some xs"
      "hp_get h1 a' = Some b1" "?k \<le> sv_remaining b1"
      by (rule sv_reserve_spec)
    have "length (replicate ?k v) \<le> sv_remaining b1" using r(6) by simp
    with r(2,4,5) obtain h2 h' where w: "sv_write_tail a' (replicate ?k v) h1 = Some h2"
      "sv_set_len a' (sv_len b1 + length (replicate ?k v)) h2 = Some h'" "heap_ok h' (add_mset (HMut a') M)"
      "same_contents M h1 h'" "sv_as_ref a' h' = Some (xs @ replicate ?k v)"
      by (rule sv_append_spec)
    have "length xs = sv_len b1" by (rule mut_blockE [OF r(2,4)]) (simp add: r(5))
    then have "sv_len b1 + ?k = n" using True by simp
    moreover have "same_contents M h h'" using r(3) w(4) by (rule same_contents_trans)
    ultimately show thesis using that r(1) w b True by (simp add: sv_resize_def Let_def)
  next
    case False
    obtain h' where "sv_truncate a n h = Some h'" "heap_ok h' (add_mset (HMut a) M)"
      "same_contents M h h'" "sv_as_ref a h' = Some (take n xs)"
      using ok xs by (rule sv_truncate_spec)
    then show thesis using that b False by (simp add: sv_resize_def)
  qed
qed

lemma sv_reserve_capacity_spec:
  assumes ok: "heap_ok h (add_mset (HMut a) M)" and xs: "sv_as_ref a h = Some xs"
    and cap: "cap + METADATA_SIZE < 4294967296" "length xs \<le> cap"
  obtains a' h' b' where "sv_reserve_capacity a cap h = Some (a', h')" and "heap_ok h' (add_mset (HMut a') M)"
    and "same_contents M h h'" and "sv_as_ref a' h' = Some xs" and "hp_get h' a' = Some b'"
    and "sv_capacity b' = cap"
proof -
  obtain h1 a' h' b' where "sv_create Unset cap xs h = Some (a', h1)" "release_shared_vec a h1 = Some h'"
    "heap_ok h' (add_mset (HMut a') M)" "same_contents M h h'" "sv_as_ref a' h' = Some xs"
    "hp_get h' a' = Some b'" "sv_capacity b' = cap"
    using ok xs cap by (rule realloc_spec)
  then show thesis using that xs by (simp add: sv_reserve_capacity_def)
qed

lemma sv_freeze_spec:
  assumes ok: "heap_ok h (add_mset (HMut a) M)" and xs: "sv_as_ref a h = Some xs"
  obtains st h' where "sv_freeze a h = Some (st, h')" and "heap_ok h' (add_mset (HBytes st) M)"
    and "same_contents M h h'" and "st_as_ref st h' = Some xs"
proof -
  obtain b where b: "hp_get h a = Some b" "block_ok b" "length xs = sv_len b"
    and sl: "mem_slice (sv_mem b) (sv_offset b) (sv_len b) = Some xs"
    using ok xs by (rule mut_blockE)
  show thesis
  proof (cases "sv_len b \<le> INLINE_CAP")
    case True
    then have "length xs \<le> INLINE_CAP" using b by simp
    then obtain st where st: "from_ptr_inline xs = Some st" "storage_ok h st" "h_addr (HBytes st) = None"
      "\<forall>h. st_as_ref st h = Some xs" by (rule from_ptr_inline_spec)
    have "h_addr (HMut a) = Some a" by simp
    with ok obtain h' where "release_shared_vec a h = Some h'" "heap_ok h' M" "same_contents M h h'"
      by (rule release_shared_vec_spec)
    then show thesis
      using that st b True xs handle_ok_noaddr [OF st(3), of h h'] by (simp add: sv_freeze_def heap_ok_add_free)
  next
    case False
    have "HMut a \<notin># M" using ok by (rule heap_ok_mutE)
    then have "heap_ok h (add_mset (HBytes (Storage_Vec a (sv_offset b) (sv_len b) (vec_offset (sv_offset b)))) M)"
      using b sl by (intro heap_ok_replace_view [OF ok _ b(1)]) (auto simp: block_ok_def)
    then show thesis using that b sl False by (simp add: sv_freeze_def st_as_ref_def)
  qed
qed

lemma sv_split_to_shared:
  assumes b: "hp_get h a = Some b" and bk: "block_ok b" and k: "INLINE_CAP < k" "k \<le> sv_len b"
    and rc: "sv_ref_count b < 4294967295"
  shows "sv_split_to a k h = Some (Storage_Vec a (sv_offset b) k (vec_offset (sv_offset b)),
    hp_upd h a (b\<lparr>sv_ref_count := sv_ref_count b + 1, sv_offset := sv_offset b + k, sv_len := sv_len b - k,
      sv_capacity := sv_capacity b - k\<rparr>))"
proof -
  let ?b1 = "b\<lparr>sv_ref_count := sv_ref_count b + 1\<rparr>"
  have "block_ok ?b1" using bk by (simp add: block_ok_def)
  then have "sv_set_start a k (hp_upd h a ?b1) = Some (hp_upd h a (b\<lparr>sv_ref_count := sv_ref_count b + 1,
      sv_offset := sv_offset b + k, sv_len := sv_len b - k, sv_capacity := sv_capacity b - k\<rparr>))"
    using sv_set_start_eq [of "hp_upd h a ?b1" a ?b1 k] k by simp
  moreover have "as_u32 k = k" using k bk by (auto simp: block_ok_def)
  ultimately show ?thesis using b k rc by (simp add: sv_split_to_def sv_incr_ref_def)
qed

lemma sv_split_to_spec:
  assumes ok: "heap_ok h (add_mset (HMut a) M)" and xs: "sv_as_ref a h = Some xs"
    and k: "k \<le> length xs" and few: "size M < 4294967294"
  obtains st h' where "sv_split_to a k h = Some (st, h')"
    and "heap_ok h' (add_mset (HBytes st) (add_mset (HMut a) M))" and "same_contents M h h'"
    and "st_as_ref st h' = Some (take k xs)" and "sv_as_ref a h' = Some (drop k xs)"
proof -
  obtain b where b: "hp_get h a = Some b" "block_ok b" "length xs = sv_len b"
    and sl: "mem_slice (sv_mem b) (sv_offset b) (sv_len b) = Some xs"
    using ok xs by (rule mut_blockE)
  have slk: "mem_slice (sv_mem b) (sv_offset b) k = Some (take k xs)"
    using mem_slice_take [OF sl] k b by simp
  have k32: "as_u32 k = k" and kl: "k \<le> sv_len b" using k b by (auto simp: block_ok_def)
  show thesis
  proof (cases "k \<le> INLINE_CAP")
    case True
    then have "length (take k xs) \<le> INLINE_CAP" by simp
    then obtain st where st: "from_ptr_inline (take k xs) = Some st" "storage_ok h st"
      "h_addr (HBytes st) = None" "\<forall>h. st_as_ref st h = Some (take k xs)" by (rule from_ptr_inline_spec)
    obtain h' where "sv_set_start a k h = Some h'" "heap_ok h' (add_mset (HMut a) M)"
      "same_contents M h h'" "sv_as_ref a h' = Some (drop k xs)"
      using ok xs b(1) k by (rule sv_set_start_spec)
    then show thesis
      using that True st slk b(1) k32 handle_ok_noaddr [OF st(3), of h h']
      by (simp add: sv_split_to_def heap_ok_add_free)
  next
    case False
    have nM: "HMut a \<notin># M" using ok by (rule heap_ok_mutE)
    have nc: "HMut a \<notin># cached h" using ok by (rule heap_ok_mutE)
    have rc: "sv_ref_count b < 4294967295"
      using owns_blockD [OF heap_ok_owns [OF ok] b(1)] few refs_le_size [of M a] refs_cached [OF nc]
      by (simp add: block_owned_def)
    let ?b = "b\<lparr>sv_ref_count := sv_ref_count b + 1, sv_offset := sv_offset b + k, sv_len := sv_len b - k,
      sv_capacity := sv_capacity b - k\<rparr>"
    have sld: "mem_slice (sv_mem b) (sv_offset b + k) (sv_len b - k) = Some (drop k xs)"
      using mem_slice_drop [OF sl kl] .
    have split: "sv_split_to a k h =
        Some (Storage_Vec a (sv_offset b) k (vec_offset (sv_offset b)), hp_upd h a ?b)"
      using b(1,2) False kl rc by (intro sv_split_to_shared) simp_all
    have bok: "block_ok ?b" using b sld kl by (auto simp: block_ok_def)
    have "heap_ok (hp_upd h a ?b) (add_mset (HBytes (Storage_Vec a (sv_offset b) k (vec_offset (sv_offset b))))
        (add_mset (HMut a) M))"
      by (rule heap_ok_share [OF ok, of "HMut a" a b])
        (use b bok rc slk in \<open>auto simp: block_ok_def\<close>)
    moreover have "same_contents M h (hp_upd h a ?b)"
      by (rule same_contents_change [OF same_elsewhere_upd(1) b(1), where b' = ?b]) (use nM in auto)
    ultimately show thesis
      using that split slk sld by (simp add: st_as_ref_def sv_as_ref_def)
  qed
qed

end
