(* ===== verification/Bytes_World.thy ===== *)
theory Bytes_World
  imports Bytes_Api
begin

text \<open>
  The buffers as a program uses them. A world is the heap and the live \<open>Bytes\<close> and \<open>BytesMut\<close> values
  of the program, by position; \<open>buf_exec\<close> runs one public operation. The specification is a store of
  independent byte lists (\<open>buf_spec\<close>), in which nothing is shared. The theorems say that the shared,
  reference-counted implementation refines it: every operation returns, gives the bytes the
  specification gives, and no value changes through another one.
\<close>

section \<open>Worlds and operations\<close>

record bworld =
  bw_heap :: heap
  bw_vals :: "handle slab"

datatype buf_op =
  Mut_From "u8 list"
| Mut_With_Capacity nat
| Mut_Put nat "u8 list"
| Mut_Put_U8 nat u8
| Mut_Reserve nat nat
| Mut_Advance nat nat
| Mut_Truncate nat nat
| Mut_Resize nat nat u8
| Mut_Split_To nat nat
| Mut_Freeze nat
| Bytes_From "u8 list"
| Bytes_Static "u8 list"
| Bytes_From_Arc "u8 list"
| Bytes_Clone nat
| Bytes_Slice nat nat nat
| Bytes_Split_To nat nat
| Bytes_Split_Off nat nat
| Bytes_Advance nat nat
| Bytes_Truncate nat nat
| Bytes_Trimdown nat
| Bytes_Clear nat
| Bytes_To_Mut nat
| Val_Drop nat

definition get_mut :: "bworld \<Rightarrow> nat \<Rightarrow> nat option" where
  "get_mut w i = (case slab_get (bw_vals w) i of Some (HMut a) \<Rightarrow> Some a | _ \<Rightarrow> None)"

definition get_bytes :: "bworld \<Rightarrow> nat \<Rightarrow> storage option" where
  "get_bytes w i = (case slab_get (bw_vals w) i of Some (HBytes st) \<Rightarrow> Some st | _ \<Rightarrow> None)"

definition w_set :: "nat \<Rightarrow> handle option \<Rightarrow> heap \<Rightarrow> bworld \<Rightarrow> bworld" where
  "w_set i v h w = w\<lparr>bw_heap := h, bw_vals := (bw_vals w)[i := v]\<rparr>"

definition w_new :: "handle \<Rightarrow> heap \<Rightarrow> bworld \<Rightarrow> bworld" where
  "w_new v h w = w\<lparr>bw_heap := h, bw_vals := bw_vals w @ [Some v]\<rparr>"

fun buf_exec :: "buf_op \<Rightarrow> bworld \<Rightarrow> bworld option" where
  "buf_exec (Mut_From src) w = do {
     (a, h) \<leftarrow> bm_copy_from_slice src (bw_heap w); Some (w_new (HMut a) h w) }"
| "buf_exec (Mut_With_Capacity n) w = do {
     (a, h) \<leftarrow> sv_with_capacity n (bw_heap w); Some (w_new (HMut a) h w) }"
| "buf_exec (Mut_Put i ys) w = do {
     a \<leftarrow> get_mut w i; (a, h) \<leftarrow> bm_put_slice a ys (bw_heap w); Some (w_set i (Some (HMut a)) h w) }"
| "buf_exec (Mut_Put_U8 i n) w = do {
     a \<leftarrow> get_mut w i; (a, h) \<leftarrow> bm_put_u8 a n (bw_heap w); Some (w_set i (Some (HMut a)) h w) }"
| "buf_exec (Mut_Reserve i n) w = do {
     a \<leftarrow> get_mut w i; (a, h) \<leftarrow> sv_reserve a n (bw_heap w); Some (w_set i (Some (HMut a)) h w) }"
| "buf_exec (Mut_Advance i n) w = do {
     a \<leftarrow> get_mut w i; h \<leftarrow> bm_advance_to a n (bw_heap w); Some (w_set i (Some (HMut a)) h w) }"
| "buf_exec (Mut_Truncate i n) w = do {
     a \<leftarrow> get_mut w i; h \<leftarrow> sv_truncate a n (bw_heap w); Some (w_set i (Some (HMut a)) h w) }"
| "buf_exec (Mut_Resize i n v) w = do {
     a \<leftarrow> get_mut w i; (a, h) \<leftarrow> sv_resize a n v (bw_heap w); Some (w_set i (Some (HMut a)) h w) }"
| "buf_exec (Mut_Split_To i n) w = do {
     a \<leftarrow> get_mut w i; (r, h) \<leftarrow> bm_split_to_checked a n (bw_heap w);
     Some (case r of None \<Rightarrow> w\<lparr>bw_heap := h\<rparr>
       | Some st \<Rightarrow> w_new (HBytes st) h (w_set i (Some (HMut a)) h w)) }"
| "buf_exec (Mut_Freeze i) w = do {
     a \<leftarrow> get_mut w i; (st, h) \<leftarrow> sv_freeze a (bw_heap w); Some (w_set i (Some (HBytes st)) h w) }"
| "buf_exec (Bytes_From src) w = do {
     (st, h) \<leftarrow> st_from_slice src (bw_heap w); Some (w_new (HBytes st) h w) }"
| "buf_exec (Bytes_Static src) w = Some (w_new (HBytes (Storage_Static src)) (bw_heap w) w)"
| "buf_exec (Bytes_From_Arc src) w = Some (w_new (HBytes (Storage_Ext src)) (bw_heap w) w)"
| "buf_exec (Bytes_Clone i) w = do {
     st \<leftarrow> get_bytes w i; (r, h) \<leftarrow> st_shallow_clone st (bw_heap w); Some (w_new (HBytes r) h w) }"
| "buf_exec (Bytes_Slice i lo hi) w = do {
     st \<leftarrow> get_bytes w i; (r, h) \<leftarrow> bytes_slice_checked st lo hi (bw_heap w);
     Some (case r of None \<Rightarrow> w\<lparr>bw_heap := h\<rparr> | Some st' \<Rightarrow> w_new (HBytes st') h w) }"
| "buf_exec (Bytes_Split_To i n) w = do {
     st \<leftarrow> get_bytes w i; (r, st, h) \<leftarrow> bytes_split_to_checked st n (bw_heap w);
     Some (case r of None \<Rightarrow> w_set i (Some (HBytes st)) h w
       | Some st' \<Rightarrow> w_new (HBytes st') h (w_set i (Some (HBytes st)) h w)) }"
| "buf_exec (Bytes_Split_Off i n) w = do {
     st \<leftarrow> get_bytes w i; (r, st, h) \<leftarrow> bytes_split_off_checked st n (bw_heap w);
     Some (case r of None \<Rightarrow> w_set i (Some (HBytes st)) h w
       | Some st' \<Rightarrow> w_new (HBytes st') h (w_set i (Some (HBytes st)) h w)) }"
| "buf_exec (Bytes_Advance i n) w = do {
     st \<leftarrow> get_bytes w i; (st, h) \<leftarrow> st_set_start st n (bw_heap w); Some (w_set i (Some (HBytes st)) h w) }"
| "buf_exec (Bytes_Truncate i n) w = do {
     st \<leftarrow> get_bytes w i; (st, h) \<leftarrow> st_truncate st n (bw_heap w); Some (w_set i (Some (HBytes st)) h w) }"
| "buf_exec (Bytes_Trimdown i) w = do {
     st \<leftarrow> get_bytes w i; (st, h) \<leftarrow> st_trimdown st (bw_heap w); Some (w_set i (Some (HBytes st)) h w) }"
| "buf_exec (Bytes_Clear i) w = do {
     st \<leftarrow> get_bytes w i; (st, h) \<leftarrow> bytes_clear st (bw_heap w); Some (w_set i (Some (HBytes st)) h w) }"
| "buf_exec (Bytes_To_Mut i) w = do {
     st \<leftarrow> get_bytes w i; (a, h) \<leftarrow> bm_from_bytes st (bw_heap w); Some (w_set i (Some (HMut a)) h w) }"
| "buf_exec (Val_Drop i) w = do {
     v \<leftarrow> slab_get (bw_vals w) i;
     h \<leftarrow> (case v of HMut a \<Rightarrow> release_shared_vec a (bw_heap w) | HBytes st \<Rightarrow> st_drop st (bw_heap w));
     Some (w_set i None h w) }"

section \<open>The specification\<close>

datatype bval = VMut (val_bytes: "u8 list") | VBytes (val_bytes: "u8 list")

type_synonym bstore = "bval option list"

definition sp_mut :: "bstore \<Rightarrow> nat \<Rightarrow> u8 list option" where
  "sp_mut s i = (case slab_get s i of Some (VMut xs) \<Rightarrow> Some xs | _ \<Rightarrow> None)"

definition sp_bytes :: "bstore \<Rightarrow> nat \<Rightarrow> u8 list option" where
  "sp_bytes s i = (case slab_get s i of Some (VBytes xs) \<Rightarrow> Some xs | _ \<Rightarrow> None)"

fun buf_spec :: "buf_op \<Rightarrow> bstore \<Rightarrow> bstore option" where
  "buf_spec (Mut_From src) s = Some (s @ [Some (VMut src)])"
| "buf_spec (Mut_With_Capacity n) s = Some (s @ [Some (VMut [])])"
| "buf_spec (Mut_Put i ys) s = do { xs \<leftarrow> sp_mut s i; Some (s[i := Some (VMut (xs @ ys))]) }"
| "buf_spec (Mut_Put_U8 i n) s = do { xs \<leftarrow> sp_mut s i; Some (s[i := Some (VMut (xs @ [n]))]) }"
| "buf_spec (Mut_Reserve i n) s = do { xs \<leftarrow> sp_mut s i; Some (s[i := Some (VMut xs)]) }"
| "buf_spec (Mut_Advance i n) s = do { xs \<leftarrow> sp_mut s i; Some (s[i := Some (VMut (drop n xs))]) }"
| "buf_spec (Mut_Truncate i n) s = do { xs \<leftarrow> sp_mut s i; Some (s[i := Some (VMut (take n xs))]) }"
| "buf_spec (Mut_Resize i n v) s = do {
     xs \<leftarrow> sp_mut s i; Some (s[i := Some (VMut (take n xs @ replicate (n - length xs) v))]) }"
| "buf_spec (Mut_Split_To i n) s = do {
     xs \<leftarrow> sp_mut s i;
     Some (if n \<le> length xs then s[i := Some (VMut (drop n xs))] @ [Some (VBytes (take n xs))] else s) }"
| "buf_spec (Mut_Freeze i) s = do { xs \<leftarrow> sp_mut s i; Some (s[i := Some (VBytes xs)]) }"
| "buf_spec (Bytes_From src) s = Some (s @ [Some (VBytes src)])"
| "buf_spec (Bytes_Static src) s = Some (s @ [Some (VBytes src)])"
| "buf_spec (Bytes_From_Arc src) s = Some (s @ [Some (VBytes src)])"
| "buf_spec (Bytes_Clone i) s = do { xs \<leftarrow> sp_bytes s i; Some (s @ [Some (VBytes xs)]) }"
| "buf_spec (Bytes_Slice i lo hi) s = do {
     xs \<leftarrow> sp_bytes s i;
     Some (if lo \<le> hi \<and> hi \<le> length xs then s @ [Some (VBytes (take (hi - lo) (drop lo xs)))] else s) }"
| "buf_spec (Bytes_Split_To i n) s = do {
     xs \<leftarrow> sp_bytes s i;
     Some (if n \<le> length xs then s[i := Some (VBytes (drop n xs))] @ [Some (VBytes (take n xs))] else s) }"
| "buf_spec (Bytes_Split_Off i n) s = do {
     xs \<leftarrow> sp_bytes s i;
     Some (if n \<le> length xs then s[i := Some (VBytes (take n xs))] @ [Some (VBytes (drop n xs))] else s) }"
| "buf_spec (Bytes_Advance i n) s = do { xs \<leftarrow> sp_bytes s i; Some (s[i := Some (VBytes (drop n xs))]) }"
| "buf_spec (Bytes_Truncate i n) s = do { xs \<leftarrow> sp_bytes s i; Some (s[i := Some (VBytes (take n xs))]) }"
| "buf_spec (Bytes_Trimdown i) s = do { xs \<leftarrow> sp_bytes s i; Some (s[i := Some (VBytes xs)]) }"
| "buf_spec (Bytes_Clear i) s = do { xs \<leftarrow> sp_bytes s i; Some (s[i := Some (VBytes [])]) }"
| "buf_spec (Bytes_To_Mut i) s = do { xs \<leftarrow> sp_bytes s i; Some (s[i := Some (VMut xs)]) }"
| "buf_spec (Val_Drop i) s = do { v \<leftarrow> slab_get s i; Some (s[i := None]) }"

text \<open>
  The bounds of the machine: the size of an allocation, header included, is a \<open>u32\<close>, and so is a
  reference count. \<open>advance_to\<close> is documented for \<open>cnt \<le> len\<close>. \<open>truncate\<close> and \<open>trimdown\<close> of \<open>Bytes\<close>
  compare a length with the capacity in the header of the block, hence the condition there.
\<close>

definition room :: "nat \<Rightarrow> bool" where
  "room n \<longleftrightarrow> n + METADATA_SIZE < 4294967296"

definition header_covers :: "bworld \<Rightarrow> nat \<Rightarrow> nat \<Rightarrow> bool" where
  "header_covers w i n =
    (case get_bytes w i of None \<Rightarrow> False
     | Some st \<Rightarrow> (case st_capacity st (bw_heap w) of None \<Rightarrow> False | Some c \<Rightarrow> n \<le> c))"

fun buf_fits :: "buf_op \<Rightarrow> bstore \<Rightarrow> bool" where
  "buf_fits (Mut_From src) s = room (length src)"
| "buf_fits (Mut_With_Capacity n) s = room n"
| "buf_fits (Mut_Put i ys) s = room (length (the (sp_mut s i)) + length ys)"
| "buf_fits (Mut_Put_U8 i n) s = room (length (the (sp_mut s i)) + 1)"
| "buf_fits (Mut_Reserve i n) s = room (length (the (sp_mut s i)) + n)"
| "buf_fits (Mut_Advance i n) s \<longleftrightarrow> n \<le> length (the (sp_mut s i))"
| "buf_fits (Mut_Resize i n v) s = room (max n (length (the (sp_mut s i))))"
| "buf_fits (Bytes_From src) s = room (length src)"
| "buf_fits (Bytes_Slice i lo hi) s = room (length (the (sp_bytes s i)))"
| "buf_fits (Bytes_Split_To i n) s = room (length (the (sp_bytes s i)))"
| "buf_fits (Bytes_Split_Off i n) s = room (length (the (sp_bytes s i)))"
| "buf_fits (Bytes_Advance i n) s \<longleftrightarrow>
    n \<le> length (the (sp_bytes s i)) \<and> room (length (the (sp_bytes s i)))"
| "buf_fits (Bytes_Truncate i n) s = room (length (the (sp_bytes s i)))"
| "buf_fits (Bytes_Trimdown i) s = room (length (the (sp_bytes s i)))"
| "buf_fits (Bytes_To_Mut i) s = room (length (the (sp_bytes s i)))"
| "buf_fits _ s = True"

fun buf_covered :: "buf_op \<Rightarrow> bworld \<Rightarrow> bool" where
  "buf_covered (Bytes_Truncate i n) w \<longleftrightarrow>
    n < INLINE_CAP \<or> header_covers w i (min n (st_len (the (get_bytes w i))))"
| "buf_covered (Bytes_Trimdown i) w \<longleftrightarrow>
    st_len (the (get_bytes w i)) \<le> INLINE_CAP \<or> header_covers w i (st_len (the (get_bytes w i)))"
| "buf_covered _ w \<longleftrightarrow> True"

section \<open>The abstraction\<close>

fun abs_val :: "heap \<Rightarrow> handle \<Rightarrow> bval" where
  "abs_val h (HMut a) = VMut (case sv_as_ref a h of None \<Rightarrow> [] | Some xs \<Rightarrow> xs)"
| "abs_val h (HBytes st) = VBytes (case st_as_ref st h of None \<Rightarrow> [] | Some xs \<Rightarrow> xs)"

definition w_abs :: "bworld \<Rightarrow> bstore" where
  "w_abs w = map (map_option (abs_val (bw_heap w))) (bw_vals w)"

definition w_ok :: "bworld \<Rightarrow> bool" where
  "w_ok w \<longleftrightarrow> heap_ok (bw_heap w) (mset (slab_values (bw_vals w)))"

definition bworld_new :: bworld where
  "bworld_new = \<lparr>bw_heap = heap_new, bw_vals = []\<rparr>"

fun buf_run :: "buf_op list \<Rightarrow> bworld \<Rightarrow> bworld option" where
  "buf_run [] w = Some w"
| "buf_run (x # xs) w = do { w \<leftarrow> buf_exec x w; buf_run xs w }"

end
