(* ===== verification/Bytes_Refine.thy ===== *)
theory Bytes_Refine
  imports Bytes_World
begin

text \<open>
  The refinement of the store of independent byte lists by the shared buffers, for one operation and
  for every sequence of operations, and the two places where \<open>Bytes\<close> looks at a header that another
  handle has moved.
\<close>

section \<open>Values at a position\<close>

lemma slab_values_split:
  assumes "i < length s"
  shows "slab_values s = slab_values (take i s) @ (case s ! i of None \<Rightarrow> [] | Some v \<Rightarrow> [v]) @
    slab_values (drop (Suc i) s)"
proof -
  have "s = take i s @ s ! i # drop (Suc i) s" using assms by (rule id_take_nth_drop)
  then have "slab_values s = List.map_filter id (take i s @ s ! i # drop (Suc i) s)"
    by (metis slab_values_def)
  then show ?thesis
    by (simp add: slab_values_def map_filter_def split: option.splits)
qed

lemma mset_values_set:
  assumes "slab_get s i = Some x"
  obtains M where "mset (slab_values s) = add_mset x M"
    and "\<And>y. mset (slab_values (s[i := Some y])) = add_mset y M"
    and "mset (slab_values (s[i := None])) = M"
    and "\<And>j z. slab_get s j = Some z \<Longrightarrow> j \<noteq> i \<Longrightarrow> z \<in># M"
proof -
  have i: "i < length s" "s ! i = Some x" using assms by (auto simp: slab_get_def split: if_splits)
  let ?M = "mset (slab_values (take i s)) + mset (slab_values (drop (Suc i) s))"
  have upd: "mset (slab_values (s[i := v])) = (case v of None \<Rightarrow> {#} | Some y \<Rightarrow> {#y#}) + ?M" for v
    using slab_values_split [of i "s[i := v]"] i by (simp split: option.splits)
  have none: "mset (slab_values (s[i := None])) = ?M" using upd [of None] by simp
  have "z \<in># ?M" if "slab_get s j = Some z" "j \<noteq> i" for j z
  proof -
    have "slab_get (slab_del s i) j = Some z" using that by simp
    then have "z \<in> set (slab_values (slab_del s i))" using slab_values_iff by metis
    then show ?thesis using none by (simp flip: set_mset_mset add: slab_del_def)
  qed
  moreover have "mset (slab_values s) = add_mset x ?M"
    using slab_values_split [OF i(1)] i(2) by simp
  ultimately show thesis using that upd none by simp
qed

lemma mset_values_new: "mset (slab_values (s @ [Some y])) = add_mset y (mset (slab_values s))"
  by (simp add: slab_values_def map_filter_def)

lemma slab_values_mem: "slab_get s j = Some z \<Longrightarrow> z \<in># mset (slab_values s)"
  by (auto simp: slab_values_iff)

lemma size_values: "size (mset (slab_values s)) \<le> length s"
  by (simp only: size_mset slab_values_def map_filter_def length_map length_filter_le)

section \<open>Changing a world\<close>

lemma abs_val_content: "content h' x = content h x \<Longrightarrow> abs_val h' x = abs_val h x"
  by (cases x) simp_all

lemma w_abs_get: "slab_get (w_abs w) i = map_option (abs_val (bw_heap w)) (slab_get (bw_vals w) i)"
  by (simp add: w_abs_def slab_get_def)

lemma length_w_abs [simp]: "length (w_abs w) = length (bw_vals w)"
  by (simp add: w_abs_def)

text \<open>A value is replaced: what the heap lemmas establish is what the specification needs.\<close>

lemma w_abs_set:
  assumes rest: "\<And>j z. slab_get (bw_vals w) j = Some z \<Longrightarrow> j \<noteq> i \<Longrightarrow> z \<in># M"
    and same: "same_contents M (bw_heap w) h'"
  shows "w_abs (w_set i v h' w) = (w_abs w)[i := map_option (abs_val h') v]"
proof (rule nth_equalityI)
  fix j assume "j < length (w_abs (w_set i v h' w))"
  then have j: "j < length (bw_vals w)" by (simp add: w_set_def)
  show "w_abs (w_set i v h' w) ! j = (w_abs w)[i := map_option (abs_val h') v] ! j"
  proof (cases "j = i")
    case False
    show ?thesis
    proof (cases "bw_vals w ! j")
      case (Some z)
      then have "z \<in># M" using rest [of j z] False j by (simp add: slab_get_def)
      then have "abs_val h' z = abs_val (bw_heap w) z"
        using same by (intro abs_val_content) (simp add: same_contents_def)
      then show ?thesis using False j Some by (simp add: w_abs_def w_set_def)
    qed (use False j in \<open>simp add: w_abs_def w_set_def\<close>)
  qed (use j in \<open>simp add: w_abs_def w_set_def\<close>)
qed (simp add: w_set_def)

lemma w_new_refines:
  assumes ok: "heap_ok h' (add_mset y (mset (slab_values (bw_vals w))))"
    and same: "same_contents (mset (slab_values (bw_vals w))) (bw_heap w) h'"
  shows "w_ok (w_new y h' w) \<and> w_abs (w_new y h' w) = w_abs w @ [Some (abs_val h' y)]"
proof
  show "w_ok (w_new y h' w)" using ok by (simp add: w_ok_def w_new_def mset_values_new)
  have "w_abs (w_set (length (bw_vals w)) None h' w) = (w_abs w)[length (bw_vals w) := None]"
    using w_abs_set [OF slab_values_mem same] by simp
  then have "map (map_option (abs_val h')) (bw_vals w) = w_abs w"
    by (simp only: w_abs_def w_set_def list_update_beyond length_map order.refl) simp
  then show "w_abs (w_new y h' w) = w_abs w @ [Some (abs_val h' y)]"
    by (simp add: w_abs_def w_new_def)
qed

lemma w_set_refines:
  assumes upd: "mset (slab_values ((bw_vals w)[i := Some y])) = add_mset y M"
    and rest: "\<And>j z. slab_get (bw_vals w) j = Some z \<Longrightarrow> j \<noteq> i \<Longrightarrow> z \<in># M"
    and ok: "heap_ok h' (add_mset y M)" and same: "same_contents M (bw_heap w) h'"
  shows "w_ok (w_set i (Some y) h' w) \<and> w_abs (w_set i (Some y) h' w) = (w_abs w)[i := Some (abs_val h' y)]"
  using w_abs_set [OF rest same] ok upd by (simp add: w_ok_def w_set_def)

text \<open>A value is replaced and another one is created in the same operation.\<close>

lemma w_set_new_refines:
  assumes upd: "mset (slab_values ((bw_vals w)[i := Some y])) = add_mset y M"
    and rest: "\<And>j z. slab_get (bw_vals w) j = Some z \<Longrightarrow> j \<noteq> i \<Longrightarrow> z \<in># M"
    and ok: "heap_ok h' (add_mset z (add_mset y M))" and same: "same_contents M (bw_heap w) h'"
  shows "w_ok (w_new z h' (w_set i (Some y) h' w)) \<and>
    w_abs (w_new z h' (w_set i (Some y) h' w)) = (w_abs w)[i := Some (abs_val h' y)] @ [Some (abs_val h' z)]"
proof -
  have "bw_vals (w_set i (Some y) h' w) = (bw_vals w)[i := Some y]" "bw_heap (w_set i (Some y) h' w) = h'"
    by (simp_all add: w_set_def)
  moreover have "w_abs (w_set i (Some y) h' w) = (w_abs w)[i := Some (abs_val h' y)]"
    using w_abs_set [OF rest same, where v = "Some y"] by simp
  ultimately show ?thesis
    using w_new_refines [of h' z "w_set i (Some y) h' w"] ok upd by simp
qed

section \<open>One operation\<close>

text \<open>
  The view of one value of a world: the other values \<open>M\<close>, and what is left to show once the heap
  lemmas have been used on it.
\<close>

lemma w_valE:
  assumes ok: "w_ok w" and x: "slab_get (bw_vals w) i = Some x"
  obtains M where "heap_ok (bw_heap w) (add_mset x M)" and "size M < length (bw_vals w)"
    and "mset (slab_values (bw_vals w)) = add_mset x M"
    and "\<And>y h'. heap_ok h' (add_mset y M) \<Longrightarrow> same_contents M (bw_heap w) h' \<Longrightarrow>
      w_ok (w_set i (Some y) h' w) \<and> w_abs (w_set i (Some y) h' w) = (w_abs w)[i := Some (abs_val h' y)]"
    and "\<And>y z h'. heap_ok h' (add_mset z (add_mset y M)) \<Longrightarrow> same_contents M (bw_heap w) h' \<Longrightarrow>
      w_ok (w_new z h' (w_set i (Some y) h' w)) \<and> w_abs (w_new z h' (w_set i (Some y) h' w)) =
        (w_abs w)[i := Some (abs_val h' y)] @ [Some (abs_val h' z)]"
    and "\<And>h'. heap_ok h' M \<Longrightarrow> same_contents M (bw_heap w) h' \<Longrightarrow>
      w_ok (w_set i None h' w) \<and> w_abs (w_set i None h' w) = (w_abs w)[i := None]"
proof -
  obtain M where M: "mset (slab_values (bw_vals w)) = add_mset x M"
    and upd: "\<And>y. mset (slab_values ((bw_vals w)[i := Some y])) = add_mset y M"
    and none: "mset (slab_values ((bw_vals w)[i := None])) = M"
    and rest: "\<And>j z. slab_get (bw_vals w) j = Some z \<Longrightarrow> j \<noteq> i \<Longrightarrow> z \<in># M"
    using mset_values_set [OF x] by metis
  have "size M < length (bw_vals w)" using size_values [of "bw_vals w"] M by simp
  moreover have "w_ok (w_set i None h' w) \<and> w_abs (w_set i None h' w) = (w_abs w)[i := None]"
    if "heap_ok h' M" "same_contents M (bw_heap w) h'" for h'
    using w_abs_set [OF rest that(2), where v = None] that(1) none by (simp add: w_ok_def w_set_def)
  ultimately show thesis
    using that ok M w_set_refines [OF upd rest] w_set_new_refines [OF upd rest] by (simp add: w_ok_def)
qed

lemma sp_mutD:
  assumes "w_ok w" and "sp_mut (w_abs w) i = Some xs"
  obtains a where "slab_get (bw_vals w) i = Some (HMut a)" and "get_mut w i = Some a"
    and "sv_as_ref a (bw_heap w) = Some xs"
proof -
  obtain x where x: "slab_get (bw_vals w) i = Some x" "abs_val (bw_heap w) x = VMut xs"
    using assms(2) by (auto simp: sp_mut_def w_abs_get split: option.splits bval.splits)
  obtain M where M: "heap_ok (bw_heap w) (add_mset x M)" using assms(1) x(1) by (rule w_valE)
  obtain a where a: "x = HMut a" using x(2) by (cases x) auto
  obtain ys where "sv_as_ref a (bw_heap w) = Some ys" using M unfolding a by (rule heap_ok_mutE)
  then show thesis using that x a by (simp add: get_mut_def)
qed

lemma sp_bytesD:
  assumes "w_ok w" and "sp_bytes (w_abs w) i = Some xs"
  obtains st where "slab_get (bw_vals w) i = Some (HBytes st)" and "get_bytes w i = Some st"
    and "st_as_ref st (bw_heap w) = Some xs" and "st_len st = length xs"
proof -
  obtain x where x: "slab_get (bw_vals w) i = Some x" "abs_val (bw_heap w) x = VBytes xs"
    using assms(2) by (auto simp: sp_bytes_def w_abs_get split: option.splits bval.splits)
  obtain M where M: "heap_ok (bw_heap w) (add_mset x M)" using assms(1) x(1) by (rule w_valE)
  obtain st where st: "x = HBytes st" using x(2) by (cases x) auto
  obtain ys where ys: "st_as_ref st (bw_heap w) = Some ys"
    using storage_ok_content [OF storage_okD [OF M [unfolded st]]] by blast
  then have "st_len st = length ys" by (rule st_len_eq [OF storage_okD [OF M [unfolded st]]])
  then show thesis using that x st ys by (simp add: get_bytes_def)
qed

definition refines :: "buf_op \<Rightarrow> bworld \<Rightarrow> bstore \<Rightarrow> bool" where
  "refines x w s \<longleftrightarrow> (\<exists>w'. buf_exec x w = Some w' \<and> w_ok w' \<and> w_abs w' = s)"

lemma mut_new_refines:
  assumes ok: "w_ok w"
  shows "room (length src) \<Longrightarrow> refines (Mut_From src) w (w_abs w @ [Some (VMut src)])"
    and "room n \<Longrightarrow> refines (Mut_With_Capacity n) w (w_abs w @ [Some (VMut [])])"
proof -
  have u: "Unset \<noteq> Unset \<Longrightarrow> c = page_capacity Unset" for c by simp
  have new: "\<exists>a h'. sv_create Unset c xs (bw_heap w) = Some (a, h') \<and> w_ok (w_new (HMut a) h' w) \<and>
      w_abs (w_new (HMut a) h' w) = w_abs w @ [Some (VMut xs)]"
    if c: "c + METADATA_SIZE < 4294967296" "length xs \<le> c" for c xs
  proof -
    let ?M = "mset (slab_values (bw_vals w))"
    have "heap_ok (bw_heap w) ?M" using ok by (simp add: w_ok_def)
    then obtain a h' where "sv_create Unset c xs (bw_heap w) = Some (a, h')"
      "heap_ok h' (add_mset (HMut a) ?M)" "same_contents ?M (bw_heap w) h'" "sv_as_ref a h' = Some xs"
      using c u by (rule sv_create_spec)
    then show ?thesis using w_new_refines [of h' "HMut a" w] by auto
  qed
  show "room (length src) \<Longrightarrow> refines (Mut_From src) w (w_abs w @ [Some (VMut src)])"
    using new [of "length src" src] by (auto simp: refines_def bm_copy_from_slice_def sv_from_slice_def room_def)
  show "room n \<Longrightarrow> refines (Mut_With_Capacity n) w (w_abs w @ [Some (VMut [])])"
    using new [of n "[]"] by (auto simp: refines_def sv_with_capacity_def room_def)
qed

lemma mut_grow_refines:
  assumes ok: "w_ok w" and xs: "sp_mut (w_abs w) i = Some xs"
  shows "room (length xs + length ys) \<Longrightarrow> refines (Mut_Put i ys) w ((w_abs w)[i := Some (VMut (xs @ ys))])"
    and "room (length xs + 1) \<Longrightarrow> refines (Mut_Put_U8 i n) w ((w_abs w)[i := Some (VMut (xs @ [n]))])"
    and "room (length xs + k) \<Longrightarrow> refines (Mut_Reserve i k) w ((w_abs w)[i := Some (VMut xs)])"
    and "room (max k (length xs)) \<Longrightarrow>
      refines (Mut_Resize i k n) w ((w_abs w)[i := Some (VMut (take k xs @ replicate (k - length xs) n))])"
proof -
  obtain a where a: "slab_get (bw_vals w) i = Some (HMut a)" "get_mut w i = Some a"
    "sv_as_ref a (bw_heap w) = Some xs" using ok xs by (rule sp_mutD)
  obtain M where M: "heap_ok (bw_heap w) (add_mset (HMut a) M)"
    and set: "\<And>y h'. heap_ok h' (add_mset y M) \<Longrightarrow> same_contents M (bw_heap w) h' \<Longrightarrow>
      w_ok (w_set i (Some y) h' w) \<and> w_abs (w_set i (Some y) h' w) = (w_abs w)[i := Some (abs_val h' y)]"
    using ok a(1) by (rule w_valE) metis
  show "refines (Mut_Put i ys) w ((w_abs w)[i := Some (VMut (xs @ ys))])" if r: "room (length xs + length ys)"
  proof -
    obtain a' h' where "bm_put_slice a ys (bw_heap w) = Some (a', h')" "heap_ok h' (add_mset (HMut a') M)"
      "same_contents M (bw_heap w) h'" "sv_as_ref a' h' = Some (xs @ ys)"
      using M a(3) r [unfolded room_def] by (rule bm_put_slice_spec)
    then show ?thesis using set [of h' "HMut a'"] a(2) by (simp add: refines_def)
  qed
  show "refines (Mut_Put_U8 i n) w ((w_abs w)[i := Some (VMut (xs @ [n]))])" if r: "room (length xs + 1)"
  proof -
    obtain a' h' where "bm_put_u8 a n (bw_heap w) = Some (a', h')" "heap_ok h' (add_mset (HMut a') M)"
      "same_contents M (bw_heap w) h'" "sv_as_ref a' h' = Some (xs @ [n])"
      using M a(3) r [unfolded room_def] by (rule bm_put_u8_spec)
    then show ?thesis using set [of h' "HMut a'"] a(2) by (simp add: refines_def)
  qed
  show "refines (Mut_Reserve i k) w ((w_abs w)[i := Some (VMut xs)])" if r: "room (length xs + k)"
  proof -
    obtain a' h' where "sv_reserve a k (bw_heap w) = Some (a', h')" "heap_ok h' (add_mset (HMut a') M)"
      "same_contents M (bw_heap w) h'" "sv_as_ref a' h' = Some xs"
      using M a(3) r [unfolded room_def] by (rule sv_reserve_spec)
    then show ?thesis using set [of h' "HMut a'"] a(2) by (simp add: refines_def)
  qed
  show "refines (Mut_Resize i k n) w ((w_abs w)[i := Some (VMut (take k xs @ replicate (k - length xs) n))])"
    if r: "room (max k (length xs))"
  proof -
    obtain a' h' where "sv_resize a k n (bw_heap w) = Some (a', h')" "heap_ok h' (add_mset (HMut a') M)"
      "same_contents M (bw_heap w) h'" "sv_as_ref a' h' = Some (take k xs @ replicate (k - length xs) n)"
      using M a(3) r [unfolded room_def] by (rule sv_resize_spec)
    then show ?thesis using set [of h' "HMut a'"] a(2) by (simp add: refines_def)
  qed
qed

lemma mut_cut_refines:
  assumes ok: "w_ok w" and xs: "sp_mut (w_abs w) i = Some xs" and few: "length (bw_vals w) < 4294967294"
  shows "k \<le> length xs \<Longrightarrow> refines (Mut_Advance i k) w ((w_abs w)[i := Some (VMut (drop k xs))])"
    and "refines (Mut_Truncate i k) w ((w_abs w)[i := Some (VMut (take k xs))])"
    and "refines (Mut_Split_To i k) w (if k \<le> length xs
      then (w_abs w)[i := Some (VMut (drop k xs))] @ [Some (VBytes (take k xs))] else w_abs w)"
    and "refines (Mut_Freeze i) w ((w_abs w)[i := Some (VBytes xs)])"
proof -
  obtain a where a: "slab_get (bw_vals w) i = Some (HMut a)" "get_mut w i = Some a"
    "sv_as_ref a (bw_heap w) = Some xs" using ok xs by (rule sp_mutD)
  obtain M where M: "heap_ok (bw_heap w) (add_mset (HMut a) M)" "size M < length (bw_vals w)"
    and set: "\<And>y h'. heap_ok h' (add_mset y M) \<Longrightarrow> same_contents M (bw_heap w) h' \<Longrightarrow>
      w_ok (w_set i (Some y) h' w) \<and> w_abs (w_set i (Some y) h' w) = (w_abs w)[i := Some (abs_val h' y)]"
    and set_new: "\<And>y z h'. heap_ok h' (add_mset z (add_mset y M)) \<Longrightarrow> same_contents M (bw_heap w) h' \<Longrightarrow>
      w_ok (w_new z h' (w_set i (Some y) h' w)) \<and> w_abs (w_new z h' (w_set i (Some y) h' w)) =
        (w_abs w)[i := Some (abs_val h' y)] @ [Some (abs_val h' z)]"
    using ok a(1) by (rule w_valE) metis
  obtain b where b: "hp_get (bw_heap w) a = Some b" "block_ok b" "length xs = sv_len b"
    using M(1) a(3) by (rule mut_blockE)
  have lt: "length xs < 4294967296" using b by (auto simp: block_ok_def)
  show "refines (Mut_Advance i k) w ((w_abs w)[i := Some (VMut (drop k xs))])" if k: "k \<le> length xs"
  proof -
    obtain h' where "sv_set_start a k (bw_heap w) = Some h'" "heap_ok h' (add_mset (HMut a) M)"
      "same_contents M (bw_heap w) h'" "sv_as_ref a h' = Some (drop k xs)"
      using M(1) a(3) b(1) k by (rule sv_set_start_spec)
    then show ?thesis using set [of h' "HMut a"] a(2) k lt by (simp add: refines_def bm_advance_to_def)
  qed
  show "refines (Mut_Truncate i k) w ((w_abs w)[i := Some (VMut (take k xs))])"
  proof -
    obtain h' where "sv_truncate a k (bw_heap w) = Some h'" "heap_ok h' (add_mset (HMut a) M)"
      "same_contents M (bw_heap w) h'" "sv_as_ref a h' = Some (take k xs)"
      using M(1) a(3) by (rule sv_truncate_spec)
    then show ?thesis using set [of h' "HMut a"] a(2) by (simp add: refines_def)
  qed
  show "refines (Mut_Split_To i k) w (if k \<le> length xs
      then (w_abs w)[i := Some (VMut (drop k xs))] @ [Some (VBytes (take k xs))] else w_abs w)"
  proof (cases "k \<le> length xs")
    case True
    have "size M < 4294967294" using M(2) few by simp
    with M(1) a(3) True obtain st h' where "sv_split_to a k (bw_heap w) = Some (st, h')"
      "heap_ok h' (add_mset (HBytes st) (add_mset (HMut a) M))" "same_contents M (bw_heap w) h'"
      "st_as_ref st h' = Some (take k xs)" "sv_as_ref a h' = Some (drop k xs)"
      by (rule sv_split_to_spec)
    then show ?thesis
      using set_new [of h' "HBytes st" "HMut a"] a(2) b True by (simp add: refines_def bm_split_to_checked_def)
  qed (use a(2) b ok in \<open>simp add: refines_def bm_split_to_checked_def\<close>)
  show "refines (Mut_Freeze i) w ((w_abs w)[i := Some (VBytes xs)])"
  proof -
    obtain st h' where "sv_freeze a (bw_heap w) = Some (st, h')" "heap_ok h' (add_mset (HBytes st) M)"
      "same_contents M (bw_heap w) h'" "st_as_ref st h' = Some xs"
      using M(1) a(3) by (rule sv_freeze_spec)
    then show ?thesis using set [of h' "HBytes st"] a(2) by (simp add: refines_def)
  qed
qed

lemma bytes_new_refines:
  assumes ok: "w_ok w"
  shows "room (length src) \<Longrightarrow> refines (Bytes_From src) w (w_abs w @ [Some (VBytes src)])"
    and "refines (Bytes_Static src) w (w_abs w @ [Some (VBytes src)])"
    and "refines (Bytes_From_Arc src) w (w_abs w @ [Some (VBytes src)])"
proof -
  let ?M = "mset (slab_values (bw_vals w))"
  have M: "heap_ok (bw_heap w) ?M" using ok by (simp add: w_ok_def)
  show "refines (Bytes_From src) w (w_abs w @ [Some (VBytes src)])" if r: "room (length src)"
  proof -
    obtain st h' where "st_from_slice src (bw_heap w) = Some (st, h')" "heap_ok h' (add_mset (HBytes st) ?M)"
      "same_contents ?M (bw_heap w) h'" "st_as_ref st h' = Some src"
      using M r [unfolded room_def] by (rule st_from_slice_spec)
    then show ?thesis using w_new_refines [of h' "HBytes st" w] by (simp add: refines_def)
  qed
  show "refines (Bytes_Static src) w (w_abs w @ [Some (VBytes src)])"
    and "refines (Bytes_From_Arc src) w (w_abs w @ [Some (VBytes src)])"
    using w_new_refines [of "bw_heap w" "HBytes (Storage_Static src)" w]
      w_new_refines [of "bw_heap w" "HBytes (Storage_Ext src)" w] M
    by (simp_all add: refines_def heap_ok_add_free st_as_ref_def)
qed

lemma bytes_share_refines:
  assumes ok: "w_ok w" and xs: "sp_bytes (w_abs w) i = Some xs" and few: "length (bw_vals w) < 4294967294"
  shows "refines (Bytes_Clone i) w (w_abs w @ [Some (VBytes xs)])"
    and "room (length xs) \<Longrightarrow> refines (Bytes_Slice i lo hi) w (if lo \<le> hi \<and> hi \<le> length xs
      then w_abs w @ [Some (VBytes (take (hi - lo) (drop lo xs)))] else w_abs w)"
proof -
  obtain st where st: "slab_get (bw_vals w) i = Some (HBytes st)" "get_bytes w i = Some st"
    "st_as_ref st (bw_heap w) = Some xs" "st_len st = length xs" using ok xs by (rule sp_bytesD)
  obtain M where M: "heap_ok (bw_heap w) (add_mset (HBytes st) M)" "size M < length (bw_vals w)"
    and T: "mset (slab_values (bw_vals w)) = add_mset (HBytes st) M"
    using ok st(1) by (rule w_valE) metis
  have fewM: "size M < 4294967294" using M(2) few by simp
  show "refines (Bytes_Clone i) w (w_abs w @ [Some (VBytes xs)])"
  proof -
    obtain h' where "st_shallow_clone st (bw_heap w) = Some (st, h')"
      "heap_ok h' (add_mset (HBytes st) (add_mset (HBytes st) M))"
      "same_contents (add_mset (HBytes st) M) (bw_heap w) h'" "st_as_ref st h' = Some xs"
      using M(1) st(3) fewM by (rule st_shallow_clone_spec)
    then show ?thesis
      using w_new_refines [of h' "HBytes st" w] st(2,3) T by (simp add: refines_def)
  qed
  show "refines (Bytes_Slice i lo hi) w (if lo \<le> hi \<and> hi \<le> length xs
      then w_abs w @ [Some (VBytes (take (hi - lo) (drop lo xs)))] else w_abs w)" if r: "room (length xs)"
  proof (cases "lo \<le> hi \<and> hi \<le> length xs")
    case True
    then have lo: "lo \<le> hi" "hi \<le> length xs" by simp_all
    obtain u h' where "bytes_slice_checked st lo hi (bw_heap w) = Some (Some u, h')"
      "heap_ok h' (add_mset (HBytes u) (add_mset (HBytes st) M))"
      "same_contents (add_mset (HBytes st) M) (bw_heap w) h'"
      "st_as_ref u h' = Some (take (hi - lo) (drop lo xs))"
      using M(1) st(3) lo r [unfolded room_def] fewM by (rule bytes_slice_spec)
    then show ?thesis
      using w_new_refines [of h' "HBytes u" w] st(2) T lo by (simp add: refines_def)
  qed (use st ok in \<open>auto simp: refines_def bytes_slice_checked_def\<close>)
qed

lemma bytes_split_refines:
  assumes ok: "w_ok w" and xs: "sp_bytes (w_abs w) i = Some xs" and few: "length (bw_vals w) < 4294967294"
    and r: "room (length xs)"
  shows "refines (Bytes_Split_To i k) w (if k \<le> length xs
      then (w_abs w)[i := Some (VBytes (drop k xs))] @ [Some (VBytes (take k xs))] else w_abs w)"
    and "refines (Bytes_Split_Off i k) w (if k \<le> length xs
      then (w_abs w)[i := Some (VBytes (take k xs))] @ [Some (VBytes (drop k xs))] else w_abs w)"
proof -
  obtain st where st: "slab_get (bw_vals w) i = Some (HBytes st)" "get_bytes w i = Some st"
    "st_as_ref st (bw_heap w) = Some xs" "st_len st = length xs" using ok xs by (rule sp_bytesD)
  obtain M where M: "heap_ok (bw_heap w) (add_mset (HBytes st) M)" "size M < length (bw_vals w)"
    and set_new: "\<And>y z h'. heap_ok h' (add_mset z (add_mset y M)) \<Longrightarrow> same_contents M (bw_heap w) h' \<Longrightarrow>
      w_ok (w_new z h' (w_set i (Some y) h' w)) \<and> w_abs (w_new z h' (w_set i (Some y) h' w)) =
        (w_abs w)[i := Some (abs_val h' y)] @ [Some (abs_val h' z)]"
    using ok st(1) by (rule w_valE) metis
  have fewM: "size M < 4294967294" using M(2) few by simp
  have same: "w_set i (Some (HBytes st)) (bw_heap w) w = w"
    using st(1) by (auto simp: w_set_def slab_get_def list_update_same_conv split: if_splits)
  have empty: "heap_ok (bw_heap w) (add_mset (HBytes storage_empty) (add_mset (HBytes st) M))"
    "heap_ok (bw_heap w) (add_mset (HBytes st) (add_mset (HBytes storage_empty) M))"
    using M(1) by (simp_all add: heap_ok_add_free add_mset_commute)
  note left = set_new [OF empty(1) same_contents_refl] and right = set_new [OF empty(2) same_contents_refl]
  have fits: "length xs + METADATA_SIZE < 4294967296" using r by (simp add: room_def)
  show "refines (Bytes_Split_To i k) w (if k \<le> length xs
      then (w_abs w)[i := Some (VBytes (drop k xs))] @ [Some (VBytes (take k xs))] else w_abs w)"
  proof (cases "k \<le> length xs")
    case True
    obtain ot st' h' where "st_split_to st k (bw_heap w) = Some (ot, st', h')"
      "heap_ok h' (add_mset (HBytes ot) (add_mset (HBytes st') M))" "same_contents M (bw_heap w) h'"
      "st_as_ref ot h' = Some (take k xs)" "st_as_ref st' h' = Some (drop k xs)"
      using M(1) st(3) True fits fewM by (rule st_split_to_spec)
    then show ?thesis
      using set_new [of h' "HBytes ot" "HBytes st'"] left right st True
      by (auto simp: refines_def bytes_split_to_checked_def)
  qed (use st ok same in \<open>auto simp: refines_def bytes_split_to_checked_def\<close>)
  show "refines (Bytes_Split_Off i k) w (if k \<le> length xs
      then (w_abs w)[i := Some (VBytes (take k xs))] @ [Some (VBytes (drop k xs))] else w_abs w)"
  proof (cases "k \<le> length xs")
    case True
    obtain ot st' h' where "st_split_off st k True (bw_heap w) = Some (ot, st', h')"
      "heap_ok h' (add_mset (HBytes ot) (add_mset (HBytes st') M))" "same_contents M (bw_heap w) h'"
      "st_as_ref ot h' = Some (drop k xs)" "st_as_ref st' h' = Some (take k xs)"
      using M(1) st(3) True fits fewM by (rule st_split_off_spec)
    then show ?thesis
      using set_new [of h' "HBytes ot" "HBytes st'"] left right st True
      by (auto simp: refines_def bytes_split_off_checked_def)
  qed (use st ok same in \<open>auto simp: refines_def bytes_split_off_checked_def\<close>)
qed

lemma header_coversD:
  "get_bytes w i = Some st \<Longrightarrow> header_covers w i n \<Longrightarrow> \<exists>c. st_capacity st (bw_heap w) = Some c \<and> n \<le> c"
  by (auto simp: header_covers_def split: option.splits)

lemma bytes_cut_refines:
  assumes ok: "w_ok w" and xs: "sp_bytes (w_abs w) i = Some xs" and r: "room (length xs)"
  shows "k \<le> length xs \<Longrightarrow> refines (Bytes_Advance i k) w ((w_abs w)[i := Some (VBytes (drop k xs))])"
    and "buf_covered (Bytes_Truncate i k) w \<Longrightarrow>
      refines (Bytes_Truncate i k) w ((w_abs w)[i := Some (VBytes (take k xs))])"
    and "buf_covered (Bytes_Trimdown i) w \<Longrightarrow> refines (Bytes_Trimdown i) w ((w_abs w)[i := Some (VBytes xs)])"
    and "refines (Bytes_To_Mut i) w ((w_abs w)[i := Some (VMut xs)])"
proof -
  obtain st where st: "slab_get (bw_vals w) i = Some (HBytes st)" "get_bytes w i = Some st"
    "st_as_ref st (bw_heap w) = Some xs" "st_len st = length xs" using ok xs by (rule sp_bytesD)
  obtain M where M: "heap_ok (bw_heap w) (add_mset (HBytes st) M)"
    and set: "\<And>y h'. heap_ok h' (add_mset y M) \<Longrightarrow> same_contents M (bw_heap w) h' \<Longrightarrow>
      w_ok (w_set i (Some y) h' w) \<and> w_abs (w_set i (Some y) h' w) = (w_abs w)[i := Some (abs_val h' y)]"
    using ok st(1) by (rule w_valE) metis
  have fits: "length xs + METADATA_SIZE < 4294967296" using r by (simp add: room_def)
  show "refines (Bytes_Advance i k) w ((w_abs w)[i := Some (VBytes (drop k xs))])" if k: "k \<le> length xs"
  proof -
    obtain st' h' where "st_set_start st k (bw_heap w) = Some (st', h')" "heap_ok h' (add_mset (HBytes st') M)"
      "same_contents M (bw_heap w) h'" "st_as_ref st' h' = Some (drop k xs)"
      using M st(3) k fits by (rule st_set_start_spec)
    then show ?thesis using set [of h' "HBytes st'"] st(2) by (simp add: refines_def)
  qed
  show "refines (Bytes_Truncate i k) w ((w_abs w)[i := Some (VBytes (take k xs))])"
    if c: "buf_covered (Bytes_Truncate i k) w"
  proof -
    have "k < INLINE_CAP \<or> (\<exists>c. st_capacity st (bw_heap w) = Some c \<and> min k (length xs) \<le> c)"
      using c st header_coversD [of w i st] by auto
    with M st(3) fits obtain st' h' where "st_truncate st k (bw_heap w) = Some (st', h')"
      "heap_ok h' (add_mset (HBytes st') M)" "same_contents M (bw_heap w) h'" "st_as_ref st' h' = Some (take k xs)"
      by (rule st_truncate_spec)
    then show ?thesis using set [of h' "HBytes st'"] st(2) by (simp add: refines_def)
  qed
  show "refines (Bytes_Trimdown i) w ((w_abs w)[i := Some (VBytes xs)])"
    if c: "buf_covered (Bytes_Trimdown i) w"
  proof -
    have "length xs \<le> INLINE_CAP \<or> (\<exists>c. st_capacity st (bw_heap w) = Some c \<and> length xs \<le> c)"
      using c st header_coversD [of w i st] by auto
    with M st(3) fits obtain st' h' where "st_trimdown st (bw_heap w) = Some (st', h')"
      "heap_ok h' (add_mset (HBytes st') M)" "same_contents M (bw_heap w) h'" "st_as_ref st' h' = Some xs"
      by (rule st_trimdown_spec)
    then show ?thesis using set [of h' "HBytes st'"] st(2) by (simp add: refines_def)
  qed
  show "refines (Bytes_To_Mut i) w ((w_abs w)[i := Some (VMut xs)])"
  proof -
    have u: "Unset \<noteq> Unset \<Longrightarrow> length xs = page_capacity Unset" by simp
    obtain a h1 where c: "sv_create Unset (length xs) xs (bw_heap w) = Some (a, h1)"
      "heap_ok h1 (add_mset (HMut a) (add_mset (HBytes st) M))"
      "same_contents (add_mset (HBytes st) M) (bw_heap w) h1" "sv_as_ref a h1 = Some xs"
      using M fits le_refl u by (rule sv_create_spec)
    have "heap_ok h1 (add_mset (HBytes st) (add_mset (HMut a) M))" using c(2) by (simp add: add_mset_commute)
    then obtain h' where d: "st_drop st h1 = Some h'" "heap_ok h' (add_mset (HMut a) M)"
      "same_contents (add_mset (HMut a) M) h1 h'" by (rule st_drop_spec)
    have "same_contents M (bw_heap w) h'" using c(3) d(3) same_contents_trans [of M "bw_heap w" h1 h'] by simp
    then show ?thesis
      using set [of h' "HMut a"] c d st(2,3)
      by (simp add: refines_def bm_from_bytes_def bm_copy_from_slice_def sv_from_slice_def)
  qed
qed

lemma drop_refines:
  assumes ok: "w_ok w"
  shows "sp_bytes (w_abs w) i = Some xs \<Longrightarrow> refines (Bytes_Clear i) w ((w_abs w)[i := Some (VBytes [])])"
    and "slab_get (w_abs w) i = Some v \<Longrightarrow> refines (Val_Drop i) w ((w_abs w)[i := None])"
proof -
  show "refines (Bytes_Clear i) w ((w_abs w)[i := Some (VBytes [])])" if xs: "sp_bytes (w_abs w) i = Some xs"
  proof -
    obtain st where st: "slab_get (bw_vals w) i = Some (HBytes st)" "get_bytes w i = Some st"
      "st_as_ref st (bw_heap w) = Some xs" "st_len st = length xs" using ok xs by (rule sp_bytesD)
    obtain M where M: "heap_ok (bw_heap w) (add_mset (HBytes st) M)"
      and set: "\<And>y h'. heap_ok h' (add_mset y M) \<Longrightarrow> same_contents M (bw_heap w) h' \<Longrightarrow>
        w_ok (w_set i (Some y) h' w) \<and> w_abs (w_set i (Some y) h' w) = (w_abs w)[i := Some (abs_val h' y)]"
      using ok st(1) by (rule w_valE) metis
    have "heap_ok (bw_heap w) (add_mset (HBytes storage_empty) (add_mset (HBytes st) M))"
      using M by (simp add: heap_ok_add_free)
    then obtain h' where "st_assign st (storage_empty, bw_heap w) = Some (storage_empty, h')"
      "heap_ok h' (add_mset (HBytes storage_empty) M)" "same_contents M (bw_heap w) h'"
      using storage_empty_ok(2) by (rule st_assign_spec)
    then show ?thesis using set [of h' "HBytes storage_empty"] st(2) by (simp add: refines_def bytes_clear_def)
  qed
  show "refines (Val_Drop i) w ((w_abs w)[i := None])" if v: "slab_get (w_abs w) i = Some v"
  proof -
    obtain x where x: "slab_get (bw_vals w) i = Some x" using v by (auto simp: w_abs_get)
    obtain M where M: "heap_ok (bw_heap w) (add_mset x M)"
      and del: "\<And>h'. heap_ok h' M \<Longrightarrow> same_contents M (bw_heap w) h' \<Longrightarrow>
        w_ok (w_set i None h' w) \<and> w_abs (w_set i None h' w) = (w_abs w)[i := None]"
      using ok x by (rule w_valE) metis
    show ?thesis
    proof (cases x)
      case (HMut a)
      have "h_addr x = Some a" by (simp add: HMut)
      with M obtain h' where "release_shared_vec a (bw_heap w) = Some h'" "heap_ok h' M"
        "same_contents M (bw_heap w) h'" by (rule release_shared_vec_spec)
      then show ?thesis using del [of h'] x HMut by (simp add: refines_def)
    next
      case (HBytes st)
      obtain h' where "st_drop st (bw_heap w) = Some h'" "heap_ok h' M" "same_contents M (bw_heap w) h'"
        using M [unfolded HBytes] by (rule st_drop_spec)
      then show ?thesis using del [of h'] x HBytes by (simp add: refines_def)
    qed
  qed
qed

end
