(* ===== verification/Bytes_Props.thy ===== *)
theory Bytes_Props
  imports Bytes_Refine
begin

text \<open>
  The properties of the byte buffers: refinement of a store of independent byte lists, absence of
  interference and of leaks, the tag bits, and the two operations that fail where their
  documentation promises a result.
\<close>

section \<open>Every operation, every sequence\<close>

lemma buf_step_refines:
  assumes ok: "w_ok w" and sp: "buf_spec x (w_abs w) = Some s" and fits: "buf_fits x (w_abs w)"
    and cov: "buf_covered x w" and few: "length (bw_vals w) < 4294967294"
  shows "refines x w s"
proof (cases x)
  case (Mut_From src)
  then show ?thesis using mut_new_refines(1) [OF ok, of src] sp fits by auto
next
  case (Mut_With_Capacity n)
  then show ?thesis using mut_new_refines(2) [OF ok, of n] sp fits by auto
next
  case (Mut_Put i ys)
  obtain xs where xs: "sp_mut (w_abs w) i = Some xs" and s: "s = (w_abs w)[i := Some (VMut (xs @ ys))]"
    using sp Mut_Put by (auto simp: bind_eq_Some_conv)
  show ?thesis using mut_grow_refines(1) [OF ok xs] fits cov xs unfolding s Mut_Put by (simp del: buf_covered.simps)
next
  case (Mut_Put_U8 i n)
  obtain xs where xs: "sp_mut (w_abs w) i = Some xs" and s: "s = (w_abs w)[i := Some (VMut (xs @ [n]))]"
    using sp Mut_Put_U8 by (auto simp: bind_eq_Some_conv)
  show ?thesis using mut_grow_refines(2) [OF ok xs] fits cov xs unfolding s Mut_Put_U8 by (simp del: buf_covered.simps)
next
  case (Mut_Reserve i n)
  obtain xs where xs: "sp_mut (w_abs w) i = Some xs" and s: "s = (w_abs w)[i := Some (VMut xs)]"
    using sp Mut_Reserve by (auto simp: bind_eq_Some_conv)
  show ?thesis using mut_grow_refines(3) [OF ok xs] fits cov xs unfolding s Mut_Reserve by (simp del: buf_covered.simps)
next
  case (Mut_Resize i n v)
  obtain xs where xs: "sp_mut (w_abs w) i = Some xs" and s: "s = (w_abs w)[i := Some (VMut (take n xs @ replicate (n - length xs) v))]"
    using sp Mut_Resize by (auto simp: bind_eq_Some_conv)
  show ?thesis using mut_grow_refines(4) [OF ok xs] fits cov xs unfolding s Mut_Resize by (simp del: buf_covered.simps)
next
  case (Mut_Advance i n)
  obtain xs where xs: "sp_mut (w_abs w) i = Some xs" and s: "s = (w_abs w)[i := Some (VMut (drop n xs))]"
    using sp Mut_Advance by (auto simp: bind_eq_Some_conv)
  show ?thesis using mut_cut_refines(1) [OF ok xs few] fits cov xs unfolding s Mut_Advance by (simp del: buf_covered.simps)
next
  case (Mut_Truncate i n)
  obtain xs where xs: "sp_mut (w_abs w) i = Some xs" and s: "s = (w_abs w)[i := Some (VMut (take n xs))]"
    using sp Mut_Truncate by (auto simp: bind_eq_Some_conv)
  show ?thesis using mut_cut_refines(2) [OF ok xs few] fits cov xs unfolding s Mut_Truncate by (simp del: buf_covered.simps)
next
  case (Mut_Split_To i n)
  obtain xs where xs: "sp_mut (w_abs w) i = Some xs" and s: "s = (if n \<le> length xs then (w_abs w)[i := Some (VMut (drop n xs))] @ [Some (VBytes (take n xs))] else w_abs w)"
    using sp Mut_Split_To by (auto simp: bind_eq_Some_conv)
  show ?thesis using mut_cut_refines(3) [OF ok xs few] fits cov xs unfolding s Mut_Split_To by (simp del: buf_covered.simps)
next
  case (Mut_Freeze i)
  obtain xs where xs: "sp_mut (w_abs w) i = Some xs" and s: "s = (w_abs w)[i := Some (VBytes xs)]"
    using sp Mut_Freeze by (auto simp: bind_eq_Some_conv)
  show ?thesis using mut_cut_refines(4) [OF ok xs few] fits cov xs unfolding s Mut_Freeze by (simp del: buf_covered.simps)
next
  case (Bytes_From src)
  then show ?thesis using bytes_new_refines(1) [OF ok, of src] sp fits by auto
next
  case (Bytes_Static src)
  then show ?thesis using bytes_new_refines(2) [OF ok, of src] sp fits by auto
next
  case (Bytes_From_Arc src)
  then show ?thesis using bytes_new_refines(3) [OF ok, of src] sp fits by auto
next
  case (Bytes_Clone i)
  obtain xs where xs: "sp_bytes (w_abs w) i = Some xs" and s: "s = w_abs w @ [Some (VBytes xs)]"
    using sp Bytes_Clone by (auto simp: bind_eq_Some_conv)
  show ?thesis using bytes_share_refines(1) [OF ok xs few] fits cov xs unfolding s Bytes_Clone by (simp del: buf_covered.simps)
next
  case (Bytes_Slice i lo hi)
  obtain xs where xs: "sp_bytes (w_abs w) i = Some xs" and s: "s = (if lo \<le> hi \<and> hi \<le> length xs then w_abs w @ [Some (VBytes (take (hi - lo) (drop lo xs)))] else w_abs w)"
    using sp Bytes_Slice by (auto simp: bind_eq_Some_conv)
  show ?thesis using bytes_share_refines(2) [OF ok xs few, of lo hi] fits cov xs unfolding s Bytes_Slice by (simp del: buf_covered.simps)
next
  case (Bytes_Split_To i n)
  obtain xs where xs: "sp_bytes (w_abs w) i = Some xs" and s: "s = (if n \<le> length xs then (w_abs w)[i := Some (VBytes (drop n xs))] @ [Some (VBytes (take n xs))] else w_abs w)"
    using sp Bytes_Split_To by (auto simp: bind_eq_Some_conv)
  show ?thesis using bytes_split_refines(1) [OF ok xs few, of n] fits cov xs unfolding s Bytes_Split_To by (simp del: buf_covered.simps)
next
  case (Bytes_Split_Off i n)
  obtain xs where xs: "sp_bytes (w_abs w) i = Some xs" and s: "s = (if n \<le> length xs then (w_abs w)[i := Some (VBytes (take n xs))] @ [Some (VBytes (drop n xs))] else w_abs w)"
    using sp Bytes_Split_Off by (auto simp: bind_eq_Some_conv)
  show ?thesis using bytes_split_refines(2) [OF ok xs few, of n] fits cov xs unfolding s Bytes_Split_Off by (simp del: buf_covered.simps)
next
  case (Bytes_Advance i n)
  obtain xs where xs: "sp_bytes (w_abs w) i = Some xs" and s: "s = (w_abs w)[i := Some (VBytes (drop n xs))]"
    using sp Bytes_Advance by (auto simp: bind_eq_Some_conv)
  show ?thesis using bytes_cut_refines(1) [OF ok xs] fits cov xs unfolding s Bytes_Advance by (simp del: buf_covered.simps)
next
  case (Bytes_Truncate i n)
  obtain xs where xs: "sp_bytes (w_abs w) i = Some xs" and s: "s = (w_abs w)[i := Some (VBytes (take n xs))]"
    using sp Bytes_Truncate by (auto simp: bind_eq_Some_conv)
  show ?thesis using bytes_cut_refines(2) [OF ok xs] fits cov xs unfolding s Bytes_Truncate by (simp del: buf_covered.simps)
next
  case (Bytes_Trimdown i)
  obtain xs where xs: "sp_bytes (w_abs w) i = Some xs" and s: "s = (w_abs w)[i := Some (VBytes xs)]"
    using sp Bytes_Trimdown by (auto simp: bind_eq_Some_conv)
  show ?thesis using bytes_cut_refines(3) [OF ok xs] fits cov xs unfolding s Bytes_Trimdown by (simp del: buf_covered.simps)
next
  case (Bytes_Clear i)
  obtain xs where xs: "sp_bytes (w_abs w) i = Some xs" and s: "s = (w_abs w)[i := Some (VBytes [])]"
    using sp Bytes_Clear by (auto simp: bind_eq_Some_conv)
  show ?thesis using drop_refines(1) [OF ok xs] fits cov xs unfolding s Bytes_Clear by (simp del: buf_covered.simps)
next
  case (Bytes_To_Mut i)
  obtain xs where xs: "sp_bytes (w_abs w) i = Some xs" and s: "s = (w_abs w)[i := Some (VMut xs)]"
    using sp Bytes_To_Mut by (auto simp: bind_eq_Some_conv)
  show ?thesis using bytes_cut_refines(4) [OF ok xs] fits cov xs unfolding s Bytes_To_Mut by (simp del: buf_covered.simps)
next
  case (Val_Drop i)
  obtain v where v: "slab_get (w_abs w) i = Some v" and s: "s = (w_abs w)[i := None]"
    using sp Val_Drop by (auto simp: bind_eq_Some_conv)
  show ?thesis unfolding s Val_Drop using ok v by (rule drop_refines(2))
qed

text \<open>The sequences of operations within the bounds of the machine at every step.\<close>

fun buf_admissible :: "buf_op list \<Rightarrow> bworld \<Rightarrow> bool" where
  "buf_admissible [] w = True"
| "buf_admissible (x # xs) w \<longleftrightarrow>
    buf_fits x (w_abs w) \<and> buf_covered x w \<and> length (bw_vals w) < 4294967294 \<and>
    (case buf_exec x w of None \<Rightarrow> True | Some w' \<Rightarrow> buf_admissible xs w')"

fun buf_spec_run :: "buf_op list \<Rightarrow> bstore \<Rightarrow> bstore option" where
  "buf_spec_run [] s = Some s"
| "buf_spec_run (x # xs) s = do { s \<leftarrow> buf_spec x s; buf_spec_run xs s }"

lemma buf_run_refines:
  "w_ok w \<Longrightarrow> buf_spec_run xs (w_abs w) = Some s \<Longrightarrow> buf_admissible xs w \<Longrightarrow>
    \<exists>w'. buf_run xs w = Some w' \<and> w_ok w' \<and> w_abs w' = s"
proof (induction xs arbitrary: w)
  case (Cons x xs)
  then obtain s1 where s1: "buf_spec x (w_abs w) = Some s1" "buf_spec_run xs s1 = Some s"
    by (auto simp: bind_eq_Some_conv)
  then have "refines x w s1" using Cons.prems by (intro buf_step_refines) simp_all
  then obtain w1 where w1: "buf_exec x w = Some w1" "w_ok w1" "w_abs w1 = s1"
    by (auto simp: refines_def)
  then show ?case using Cons.IH [of w1] Cons.prems s1 by simp
qed simp

text \<open>Without \<open>truncate\<close> and \<open>trimdown\<close> of a \<open>Bytes\<close>, the specification alone decides the bounds.\<close>

fun reads_header :: "buf_op \<Rightarrow> bool" where
  "reads_header (Bytes_Truncate i n) = True"
| "reads_header (Bytes_Trimdown i) = True"
| "reads_header _ = False"

fun spec_admissible :: "buf_op list \<Rightarrow> bstore \<Rightarrow> bool" where
  "spec_admissible [] s = True"
| "spec_admissible (x # xs) s \<longleftrightarrow>
    buf_fits x s \<and> \<not> reads_header x \<and> length s < 4294967294 \<and>
    (case buf_spec x s of None \<Rightarrow> False | Some s' \<Rightarrow> spec_admissible xs s')"

lemma spec_admissible_imp: "w_ok w \<Longrightarrow> spec_admissible xs (w_abs w) \<Longrightarrow> buf_admissible xs w"
proof (induction xs arbitrary: w)
  case (Cons x xs)
  then obtain s1 where s1: "buf_spec x (w_abs w) = Some s1" "spec_admissible xs s1"
    by (auto split: option.splits)
  have cov: "buf_covered x w" using Cons.prems by (cases x) simp_all
  have "refines x w s1" using Cons.prems s1 cov by (intro buf_step_refines) simp_all
  then obtain w1 where "buf_exec x w = Some w1" "w_ok w1" "w_abs w1 = s1" by (auto simp: refines_def)
  then show ?case using Cons.IH [of w1] Cons.prems s1 cov by simp
qed simp

lemma bworld_new_ok: "w_ok bworld_new" "w_abs bworld_new = []"
  using heap_new_ok by (simp_all add: w_ok_def bworld_new_def w_abs_def slab_values_def map_filter_def)



section \<open>Interference and leaks\<close>

fun op_target :: "buf_op \<Rightarrow> nat option" where
  "op_target (Mut_Put i ys) = Some i"
| "op_target (Mut_Put_U8 i n) = Some i"
| "op_target (Mut_Advance i n) = Some i"
| "op_target (Mut_Truncate i n) = Some i"
| "op_target (Mut_Resize i n v) = Some i"
| "op_target (Mut_Split_To i n) = Some i"
| "op_target (Mut_Freeze i) = Some i"
| "op_target (Bytes_Split_To i n) = Some i"
| "op_target (Bytes_Split_Off i n) = Some i"
| "op_target (Bytes_Advance i n) = Some i"
| "op_target (Bytes_Truncate i n) = Some i"
| "op_target (Bytes_Clear i) = Some i"
| "op_target (Bytes_To_Mut i) = Some i"
| "op_target (Val_Drop i) = Some i"
| "op_target _ = None"

lemma slab_get_update: "slab_get (s[i := v]) j = (if j = i \<and> i < length s then v else slab_get s j)"
  by (auto simp: slab_get_def nth_list_update)

lemma slab_get_append: "slab_get s j = Some v \<Longrightarrow> slab_get (s @ t) j = Some v"
  by (auto simp: slab_get_def nth_append split: if_splits)

lemma sp_get: "sp_mut s i = Some xs \<Longrightarrow> slab_get s i = Some (VMut xs)"
  "sp_bytes s i = Some xs \<Longrightarrow> slab_get s i = Some (VBytes xs)"
  by (auto simp: sp_mut_def sp_bytes_def split: option.splits bval.splits)

lemma buf_spec_frame:
  assumes "buf_spec x s = Some s'" and "op_target x \<noteq> Some j" and "slab_get s j = Some v"
  shows "slab_get s' j = Some v"
  using assms
  by (cases x) (auto simp: bind_eq_Some_conv slab_get_update slab_get_append split: if_splits dest!: sp_get)

text \<open>C9. An operation changes the value it is applied to and no other: a \<open>Bytes\<close> that shares a block
  with a \<open>BytesMut\<close> keeps its bytes while the \<open>BytesMut\<close> is written, grown, moved or dropped.\<close>

theorem buffers_do_not_interfere:
  assumes "w_ok w" and "buf_spec x (w_abs w) = Some s" and "buf_fits x (w_abs w)" and "buf_covered x w"
    and "length (bw_vals w) < 4294967294" and "op_target x \<noteq> Some j"
    and "slab_get (bw_vals w) j = Some v" and "buf_exec x w = Some w'"
  shows "slab_get (w_abs w') j = Some (abs_val (bw_heap w) v)"
proof -
  have "refines x w s" using assms by (intro buf_step_refines)
  then have "w_abs w' = s" using assms(8) by (simp add: refines_def)
  moreover have "slab_get (w_abs w) j = Some (abs_val (bw_heap w) v)" using assms(7) by (simp add: w_abs_get)
  ultimately show ?thesis using buf_spec_frame [OF assms(2,6)] by simp
qed

theorem buffers_do_not_interfere_witness:
  "slab_get (w_abs (w_new (HBytes (Storage_Static [3])) heap_new
      (w_new (HBytes (Storage_Static [1, 2])) heap_new bworld_new))) 0 =
    Some (abs_val heap_new (HBytes (Storage_Static [1, 2])))"
proof -
  let ?w = "w_new (HBytes (Storage_Static [1, 2])) heap_new bworld_new"
  have "refines (Bytes_Static [1, 2]) bworld_new ([] @ [Some (VBytes [1, 2])])"
    using bytes_new_refines(2) [OF bworld_new_ok(1), of "[1, 2]"] by (simp add: bworld_new_ok)
  then have ok: "w_ok ?w" by (simp add: refines_def bworld_new_def)
  show ?thesis
    using buffers_do_not_interfere [OF ok, where x = "Bytes_Static [3]" and j = 0
        and v = "HBytes (Storage_Static [1, 2])" and s = "w_abs ?w @ [Some (VBytes [3])]"
        and w' = "w_new (HBytes (Storage_Static [3])) heap_new ?w"]
    by (simp add: bworld_new_def w_new_def slab_get_def)
qed

lemma no_leak:
  assumes "w_ok w" and "\<forall>v. v \<in> set (bw_vals w) \<longrightarrow> v = None" and "hp_get (bw_heap w) a = Some b"
  shows "a \<in> set (concat (hp_cache (bw_heap w))) \<and> sv_ref_count b = 1"
proof -
  have e: "mset (slab_values (bw_vals w)) = {#}"
    using assms(2) by (force simp: slab_values_def map_filter_def filter_empty_conv)
  then have ok: "owns (bw_heap w) (cached (bw_heap w))" "cache_ok (bw_heap w)"
    using assms(1) by (simp_all add: w_ok_def heap_ok_def)
  have "0 < refs (cached (bw_heap w)) a" using owns_blockD [OF ok(1) assms(3)] by (simp add: block_owned_def)
  then obtain x where x: "x \<in># cached (bw_heap w)" "h_addr x = Some a"
    using refs_zero_iff [of "cached (bw_heap w)" a] by auto
  then have m: "HMut a \<in># cached (bw_heap w)" by (auto simp: cached_def)
  then obtain b' where "hp_get (bw_heap w) a = Some b'" "sv_ref_count b' = 1" by (rule cachedE [OF ok(2)])
  then show ?thesis using m assms(3) by (simp add: cached_iff)
qed

text \<open>C11. Memory is not leaked: when every value of a run has been dropped, the blocks left on the heap
  are the ones in the page cache, each with a reference count of one.\<close>

theorem buffers_leak_free:
  assumes "buf_spec_run xs [] = Some s" and "buf_admissible xs bworld_new"
    and "\<forall>v. v \<in> set s \<longrightarrow> v = None"
  shows "\<exists>w. buf_run xs bworld_new = Some w \<and>
    (\<forall>a b. hp_get (bw_heap w) a = Some b \<longrightarrow>
      a \<in> set (concat (hp_cache (bw_heap w))) \<and> sv_ref_count b = 1)"
proof -
  obtain w where w: "buf_run xs bworld_new = Some w" "w_ok w" "w_abs w = s"
    using buf_run_refines [OF bworld_new_ok(1), of xs s] assms(1,2) by (auto simp: bworld_new_ok)
  have "\<forall>v. v \<in> set (bw_vals w) \<longrightarrow> v = None" using assms(3) w(3) by (force simp: w_abs_def)
  then show ?thesis using w no_leak by blast
qed

theorem buffers_leak_free_witness:
  "\<exists>w. buf_run [Bytes_From (replicate 40 7), Bytes_Split_To 0 30, Val_Drop 0, Val_Drop 1] bworld_new = Some w \<and>
    (\<forall>a b. hp_get (bw_heap w) a = Some b \<longrightarrow>
      a \<in> set (concat (hp_cache (bw_heap w))) \<and> sv_ref_count b = 1)"
proof (rule buffers_leak_free)
  show "buf_spec_run [Bytes_From (replicate 40 7), Bytes_Split_To 0 30, Val_Drop 0, Val_Drop 1] [] =
    Some [None, None]" by (simp add: sp_bytes_def slab_get_def)
  have "spec_admissible [Bytes_From (replicate 40 7), Bytes_Split_To 0 30, Val_Drop 0, Val_Drop 1]
    (w_abs bworld_new)" by (simp add: sp_bytes_def slab_get_def room_def bworld_new_ok)
  then show "buf_admissible [Bytes_From (replicate 40 7), Bytes_Split_To 0 30, Val_Drop 0, Val_Drop 1]
    bworld_new" by (rule spec_admissible_imp [OF bworld_new_ok(1)])
qed simp

section \<open>The tag bits\<close>

fun variant_kind :: "storage \<Rightarrow> nat" where
  "variant_kind (Storage_Inline t d) = KIND_INLINE"
| "variant_kind (Storage_Static s) = KIND_STATIC"
| "variant_kind (Storage_Ext s) = KIND_STEXT"
| "variant_kind (Storage_Vec a p n off) = KIND_VEC"

lemma storage_tags:
  assumes "heap_ok h (add_mset (HBytes st) M)"
  shows "storage_kind st = variant_kind st"
    and "is_Storage_Vec st \<Longrightarrow> st_shared_vec st = Some (sto_addr st)"
proof -
  show "storage_kind st = variant_kind st"
    using storage_okD [OF assms] by (cases st) (auto simp: storage_kind_def kind_vec_offset)
  show "st_shared_vec st = Some (sto_addr st)" if v: "is_Storage_Vec st"
  proof (cases st)
    case (Storage_Vec a p n off)
    have "st_shared_vec (Storage_Vec a p n off) = Some a"
      by (rule vec_viewE [OF assms [unfolded Storage_Vec]])
    then show ?thesis using Storage_Vec by simp
  qed (use v in simp_all)
qed

text \<open>C30. The two low bits of the first word of every live \<open>Bytes\<close> name the representation it has, and
  subtracting the packed offset from the pointer of a view gives the header of its block; the offset
  survives the packing.\<close>

theorem storage_tags_sound:
  assumes "buf_spec_run xs [] = Some s" and "buf_admissible xs bworld_new"
    and "buf_run xs bworld_new = Some w" and "slab_get (bw_vals w) j = Some (HBytes st)"
  shows "storage_kind st = variant_kind st \<and>
    (is_Storage_Vec st \<longrightarrow> st_shared_vec st = Some (sto_addr st))"
proof -
  have "w_ok w" using buf_run_refines [OF bworld_new_ok(1), of xs s] assms(1-3) by (auto simp: bworld_new_ok)
  then obtain M where "heap_ok (bw_heap w) (add_mset (HBytes st) M)" using assms(4) by (rule w_valE)
  then show ?thesis using storage_tags by blast
qed

theorem storage_tags_sound_witness:
  "\<exists>a. storage_kind (Storage_Vec a METADATA_SIZE 40 (vec_offset METADATA_SIZE)) = KIND_VEC \<and>
     st_shared_vec (Storage_Vec a METADATA_SIZE 40 (vec_offset METADATA_SIZE)) = Some a"
proof -
  let ?xs = "[Bytes_From (replicate 40 7)]"
  have ok: "heap_ok heap_new {#}" and cap: "40 + METADATA_SIZE < 4294967296" "length (replicate 40 (7 :: u8)) \<le> 40"
    and u: "Unset \<noteq> Unset \<Longrightarrow> 40 = page_capacity Unset" using bworld_new_ok(1) by (simp_all add: w_ok_def bworld_new_def slab_values_def)
  obtain a h' where "sv_create Unset 40 (replicate 40 7) heap_new = Some (a, h')"
    using ok cap u by (rule sv_create_spec)
  then have run: "buf_run ?xs bworld_new =
      Some (w_new (HBytes (Storage_Vec a METADATA_SIZE 40 (vec_offset METADATA_SIZE))) h' bworld_new)"
    by (simp add: bworld_new_def st_from_slice_def from_slice_with_capacity_def)
  have spec: "buf_spec_run ?xs [] = Some [Some (VBytes (replicate 40 7))]" by simp
  have "spec_admissible ?xs (w_abs bworld_new)" by (simp add: bworld_new_ok room_def)
  then have adm: "buf_admissible ?xs bworld_new" by (rule spec_admissible_imp [OF bworld_new_ok(1)])
  have "slab_get (bw_vals (w_new (HBytes st) h' bworld_new)) 0 = Some (HBytes st)" for st
    by (simp add: w_new_def bworld_new_def slab_get_def)
  from storage_tags_sound [OF spec adm run this] show ?thesis by (intro exI [of _ a]) simp
qed

section \<open>Operations that read a header another handle has moved\<close>

text \<open>\<open>Bytes::truncate\<close> panics on a valid length. After \<open>BytesMut::split_to(m)\<close> the header of the
  shared block holds the capacity left to the \<open>BytesMut\<close>; truncating the \<open>Bytes\<close> to a length above
  that, although below its own length, fails the assertion of \<open>set_len\<close>, and \<open>trimdown\<close> underflows.
  The specification, and the documentation of \<open>truncate\<close>, give the first \<open>k\<close> bytes.\<close>

theorem bytes_truncate_panics_after_split:
  assumes "room (length src)" and "INLINE_CAP < m" and "m \<le> length src"
    and "INLINE_CAP \<le> k" and "k \<le> m" and "length src - m < k"
  shows "\<exists>w. buf_run [Mut_From src, Mut_Split_To 0 m] bworld_new = Some w \<and>
    w_abs w = [Some (VMut (drop m src)), Some (VBytes (take m src))] \<and>
    buf_exec (Bytes_Truncate 1 k) w = None \<and> buf_exec (Bytes_Trimdown 1) w = None"
proof -
  have cap: "length src + METADATA_SIZE < 4294967296" using assms(1) by (simp add: room_def)
  have u: "Unset \<noteq> Unset \<Longrightarrow> length src = page_capacity Unset" by simp
  obtain a h b where c: "sv_create Unset (length src) src heap_new = Some (a, h)"
    "heap_ok h (add_mset (HMut a) {#})" "hp_get h a = Some b" "sv_offset b = METADATA_SIZE"
    "sv_len b = length src" "sv_capacity b = length src" "sv_ref_count b = 1"
    using heap_new_ok cap le_refl u by (rule sv_create_spec)
  have bk: "block_ok b" using c(2) by (rule heap_ok_mutE) (simp add: c(3))
  let ?st = "Storage_Vec a METADATA_SIZE m (vec_offset METADATA_SIZE)"
  let ?b = "b\<lparr>sv_ref_count := 2, sv_offset := METADATA_SIZE + m, sv_len := length src - m,
    sv_capacity := length src - m\<rparr>"
  have split: "sv_split_to a m h = Some (?st, hp_upd h a ?b)"
    using sv_split_to_shared [OF c(3) bk, of m] c assms by (simp add: numeral_2_eq_2)
  let ?w1 = "w_new (HMut a) h bworld_new"
  let ?w = "w_new (HBytes ?st) (hp_upd h a ?b) (w_set 0 (Some (HMut a)) (hp_upd h a ?b) ?w1)"
  have run: "buf_run [Mut_From src, Mut_Split_To 0 m] bworld_new = Some ?w"
    using c split assms by (simp add: bm_copy_from_slice_def sv_from_slice_def bworld_new_def
        bm_split_to_checked_def get_mut_def slab_get_def w_new_def)
  have "spec_admissible [Mut_From src, Mut_Split_To 0 m] (w_abs bworld_new)"
    using assms by (simp add: bworld_new_ok sp_mut_def slab_get_def)
  then have adm: "buf_admissible [Mut_From src, Mut_Split_To 0 m] bworld_new"
    by (rule spec_admissible_imp [OF bworld_new_ok(1)])
  have "buf_spec_run [Mut_From src, Mut_Split_To 0 m] (w_abs bworld_new) =
      Some [Some (VMut (drop m src)), Some (VBytes (take m src))]"
    using assms by (simp add: bworld_new_ok sp_mut_def slab_get_def)
  then have "w_abs ?w = [Some (VMut (drop m src)), Some (VBytes (take m src))]"
    using buf_run_refines [OF bworld_new_ok(1) _ adm] run by auto
  moreover have "get_bytes ?w 1 = Some ?st"
    by (simp add: get_bytes_def w_new_def w_set_def bworld_new_def slab_get_def)
  moreover have "st_truncate ?st k (hp_upd h a ?b) = None" "st_trimdown ?st (hp_upd h a ?b) = None"
    using assms by (simp_all add: st_truncate_def st_trimdown_def offset_of_vec_offset checked_sub_def)
  ultimately show ?thesis
    using run by (auto simp: w_new_def)
qed

theorem bytes_truncate_panics_after_split_witness:
  "\<exists>w. buf_run [Mut_From (replicate 100 7), Mut_Split_To 0 90] bworld_new = Some w \<and>
    w_abs w = [Some (VMut (drop 90 (replicate 100 7))), Some (VBytes (take 90 (replicate 100 7)))] \<and>
    buf_exec (Bytes_Truncate 1 50) w = None \<and> buf_exec (Bytes_Trimdown 1) w = None"
  by (rule bytes_truncate_panics_after_split) (simp_all add: room_def)

text \<open>\<open>BytesMut::reserve_capacity\<close> with a capacity below the current length does not leave the
  buffer as it is: the header of the new, smaller block cannot be computed (the subtraction of the
  length underflows) and the copy would leave the allocation.\<close>

theorem reserve_capacity_below_length_fails:
  assumes "sv_as_ref a h = Some xs" and "length xs < 4294967296" and "cap < length xs"
  shows "sv_reserve_capacity a cap h = None"
  using assms by (simp add: sv_reserve_capacity_def sv_create_def alloc_with_capacity_def
      shared_vec_layout_def checked_sub_def)

theorem reserve_capacity_below_length_fails_witness:
  "sv_reserve_capacity 0 0 \<lparr>hp_blocks = [Some \<lparr>sv_offset = 0, sv_len = 1, sv_capacity = 1, sv_remaining = 0,
      sv_ref_count = 1, sv_size = Unset, sv_mem = [Some 7]\<rparr>], hp_cache = [], hp_cache_size = 0\<rparr> = None"
  by (rule reserve_capacity_below_length_fails [where xs = "[7]"])
    (simp_all add: sv_as_ref_def hp_get_def slab_get_def mem_slice_def)

end
