(* ===== verification/Byte_Pages.thy ===== *)
theory Byte_Pages
  imports Bytes_Api
begin

text \<open>
  The paged buffer (\<open>bytes/pages.rs\<close>): \<open>BytePage\<close>, one page in one of three representations, and
  \<open>BytePages\<close>, a queue of pages with a page under construction at its end. Every operation works on
  the heap of the shared vectors. The pool of empty queues behind \<open>BytePages::new\<close> only saves an
  allocation and is not modelled.
\<close>

section \<open>A page\<close>

datatype byte_page = PBytes storage | PStorage nat | PVec "u8 list"

fun page_as_ref :: "heap \<Rightarrow> byte_page \<Rightarrow> u8 list option" where
  "page_as_ref h (PBytes st) = st_as_ref st h"
| "page_as_ref h (PStorage a) = sv_as_ref a h"
| "page_as_ref h (PVec v) = Some v"

fun page_len :: "heap \<Rightarrow> byte_page \<Rightarrow> nat option" where
  "page_len h (PBytes st) = Some (st_len st)"
| "page_len h (PStorage a) = map_option sv_len (hp_get h a)"
| "page_len h (PVec v) = Some (length v)"

definition page_is_empty :: "heap \<Rightarrow> byte_page \<Rightarrow> bool option" where
  "page_is_empty h p = map_option (\<lambda>n. n = 0) (page_len h p)"

fun page_drop :: "byte_page \<Rightarrow> heap \<Rightarrow> heap option" where
  "page_drop (PBytes st) h = st_drop st h"
| "page_drop (PStorage a) h = release_shared_vec a h"
| "page_drop (PVec v) h = Some h"

fun page_freeze :: "byte_page \<Rightarrow> heap \<Rightarrow> (storage \<times> heap) option" where
  "page_freeze (PBytes st) h = Some (st, h)"
| "page_freeze (PStorage a) h = sv_freeze a h"
| "page_freeze (PVec v) h = st_from_slice v h"

text \<open>\<open>split_to\<close> turns the page into a \<open>Bytes\<close> first; the front and the rest are returned.\<close>

definition page_split_to :: "byte_page \<Rightarrow> nat \<Rightarrow> heap \<Rightarrow> (byte_page \<times> byte_page \<times> heap) option" where
  "page_split_to p at h = do {
     (st, h) \<leftarrow> page_freeze p h;
     (r, st, h) \<leftarrow> bytes_split_to_checked st (min at (st_len st)) h;
     ot \<leftarrow> r;
     Some (PBytes ot, PBytes st, h) }"

fun page_advance_to :: "byte_page \<Rightarrow> nat \<Rightarrow> heap \<Rightarrow> (byte_page \<times> heap) option" where
  "page_advance_to (PBytes st) cnt h =
    do { (st, h) \<leftarrow> st_set_start st cnt h; Some (PBytes st, h) }"
| "page_advance_to (PStorage a) cnt h =
    do { h \<leftarrow> sv_set_start a (as_u32 cnt) h; Some (PStorage a, h) }"
| "page_advance_to (PVec v) cnt h =
    (if cnt \<le> length v
     then do { (st, h) \<leftarrow> st_from_slice (drop cnt v) h; Some (PBytes st, h) } else None)"

text \<open>\<open>into_storage\<close>: the vector of a page that may be written further, or the page.\<close>

fun page_into_storage :: "byte_page \<Rightarrow> heap \<Rightarrow> (byte_page + nat) option" where
  "page_into_storage (PStorage a) h = do {
     b \<leftarrow> hp_get h a;
     Some (if \<not> sv_is_full b \<and> sv_is_unique b then Inr a else Inl (PStorage a)) }"
| "page_into_storage p h = Some (Inl p)"

fun page_clone :: "byte_page \<Rightarrow> heap \<Rightarrow> (byte_page \<times> heap) option" where
  "page_clone (PBytes st) h = do { (st, h) \<leftarrow> st_shallow_clone st h; Some (PBytes st, h) }"
| "page_clone (PStorage a) h = do { h \<leftarrow> sv_incr_ref a h; Some (PStorage a, h) }"
| "page_clone (PVec v) h = do { (st, h) \<leftarrow> st_from_slice v h; Some (PBytes st, h) }"

text \<open>\<open>Read for BytePage\<close>.\<close>

definition page_read :: "byte_page \<Rightarrow> nat \<Rightarrow> heap \<Rightarrow> (u8 list \<times> byte_page \<times> heap) option" where
  "page_read p dst_len h = do {
     l \<leftarrow> page_len h p;
     let n = min l dst_len;
     if n > 0
     then do {
       src \<leftarrow> page_as_ref h p;
       (p, h) \<leftarrow> page_advance_to p n h;
       Some (take n src, p, h) }
     else Some ([], p, h) }"

section \<open>The queue of pages\<close>

record byte_pages =
  bp_size :: byte_page_size
  bp_pages :: "byte_page list"
  bp_current :: "nat option"

definition bps_new :: "byte_page_size \<Rightarrow> byte_pages" where
  "bps_new sz = \<lparr>bp_size = sz, bp_pages = [], bp_current = None\<rparr>"

definition bps_set_page_size :: "byte_page_size \<Rightarrow> byte_pages \<Rightarrow> byte_pages" where
  "bps_set_page_size sz ps = ps\<lparr>bp_size := sz\<rparr>"

definition bps_push_back :: "byte_page \<Rightarrow> byte_pages \<Rightarrow> byte_pages" where
  "bps_push_back p ps = ps\<lparr>bp_pages := bp_pages ps @ [p]\<rparr>"

definition bps_current_len :: "heap \<Rightarrow> byte_pages \<Rightarrow> nat option" where
  "bps_current_len h ps =
    (case bp_current ps of None \<Rightarrow> Some 0 | Some a \<Rightarrow> map_option sv_len (hp_get h a))"

definition bps_remaining_mut :: "heap \<Rightarrow> byte_pages \<Rightarrow> nat option" where
  "bps_remaining_mut h ps =
    (case bp_current ps of None \<Rightarrow> Some 0 | Some a \<Rightarrow> map_option sv_remaining (hp_get h a))"

fun pages_len :: "heap \<Rightarrow> byte_page list \<Rightarrow> nat \<Rightarrow> nat option" where
  "pages_len h [] c = Some c"
| "pages_len h (p # ps) c = do { n \<leftarrow> page_len h p; pages_len h ps (c + n) }"

definition bps_len :: "heap \<Rightarrow> byte_pages \<Rightarrow> nat option" where
  "bps_len h ps = do { c \<leftarrow> bps_current_len h ps; pages_len h (bp_pages ps) c }"

fun pages_all_empty :: "heap \<Rightarrow> byte_page list \<Rightarrow> bool option" where
  "pages_all_empty h [] = Some True"
| "pages_all_empty h (p # ps) = do {
     e \<leftarrow> page_is_empty h p;
     if e then pages_all_empty h ps else Some False }"

definition bps_is_empty :: "heap \<Rightarrow> byte_pages \<Rightarrow> bool option" where
  "bps_is_empty h ps = do {
     e \<leftarrow> pages_all_empty h (bp_pages ps);
     if e then map_option (\<lambda>n. n = 0) (bps_current_len h ps) else Some False }"

definition bps_num_pages :: "byte_pages \<Rightarrow> nat" where
  "bps_num_pages ps =
    (if bp_current ps = None then length (bp_pages ps) else length (bp_pages ps) + 1)"

definition bps_take :: "byte_pages \<Rightarrow> byte_page option \<times> byte_pages" where
  "bps_take ps =
    (case bp_pages ps of
       p # rest \<Rightarrow> (Some p, ps\<lparr>bp_pages := rest\<rparr>)
     | [] \<Rightarrow> (map_option PStorage (bp_current ps), ps\<lparr>bp_current := None\<rparr>))"

definition bps_prepend :: "byte_page \<Rightarrow> byte_pages \<Rightarrow> heap \<Rightarrow> (bool \<times> byte_pages \<times> heap) option" where
  "bps_prepend p ps h = do {
     e \<leftarrow> page_is_empty h p;
     if e then do { h \<leftarrow> page_drop p h; Some (False, ps, h) }
     else Some (True, ps\<lparr>bp_pages := p # bp_pages ps\<rparr>, h) }"

section \<open>Writing\<close>

text \<open>The page under construction, a new one of the page size when there is none.\<close>

definition bps_take_current :: "byte_pages \<Rightarrow> heap \<Rightarrow> (nat \<times> heap) option" where
  "bps_take_current ps h =
    (case bp_current ps of None \<Rightarrow> sv_sized (bp_size ps) h | Some a \<Rightarrow> Some (a, h))"

text \<open>\<open>with_current\<close>: a full page moves to the queue.\<close>

definition bps_put_back :: "nat \<Rightarrow> byte_pages \<Rightarrow> heap \<Rightarrow> byte_pages option" where
  "bps_put_back a ps h = do {
     b \<leftarrow> hp_get h a;
     Some (if sv_is_full b then bps_push_back (PStorage a) (ps\<lparr>bp_current := None\<rparr>)
           else ps\<lparr>bp_current := Some a\<rparr>) }"

definition bps_put_u8 :: "u8 \<Rightarrow> byte_pages \<Rightarrow> heap \<Rightarrow> (byte_pages \<times> heap) option" where
  "bps_put_u8 n ps h = do {
     (a, h) \<leftarrow> bps_take_current ps h;
     h \<leftarrow> sv_put_u8 a n h;
     ps \<leftarrow> bps_put_back a ps h;
     Some (ps, h) }"

text \<open>One round of \<open>put_slice\<close>: the bytes that fit, and how many these are.\<close>

definition bps_put_chunk :: "u8 list \<Rightarrow> byte_pages \<Rightarrow> heap \<Rightarrow> (nat \<times> byte_pages \<times> heap) option" where
  "bps_put_chunk src ps h = do {
     (a, h) \<leftarrow> bps_take_current ps h;
     b \<leftarrow> hp_get h a;
     let amount = min (length src) (sv_remaining b);
     h \<leftarrow> sv_write_tail a (take amount src) h;
     h \<leftarrow> sv_set_len a (sv_len b + amount) h;
     ps \<leftarrow> bps_put_back a ps h;
     Some (amount, ps, h) }"

partial_function (option) bps_put_slice ::
    "u8 list \<Rightarrow> byte_pages \<Rightarrow> heap \<Rightarrow> (byte_pages \<times> heap) option" where
  "bps_put_slice src ps h =
    (if src = [] then Some (ps, h)
     else do {
       (amount, ps, h) \<leftarrow> bps_put_chunk src ps h;
       bps_put_slice (drop amount src) ps h })"

definition bps_append :: "byte_page \<Rightarrow> byte_pages \<Rightarrow> heap \<Rightarrow> (byte_pages \<times> heap) option" where
  "bps_append p ps h = do {
     e \<leftarrow> page_is_empty h p;
     if e then do { h \<leftarrow> page_drop p h; Some (ps, h) }
     else do {
       cur \<leftarrow> bps_current_len h ps;
       if cur = 0
       then do {
         r \<leftarrow> page_into_storage p h;
         (case r of
            Inr a \<Rightarrow> do {
              h \<leftarrow> (case bp_current ps of None \<Rightarrow> Some h | Some old \<Rightarrow> release_shared_vec old h);
              Some (ps\<lparr>bp_current := Some a\<rparr>, h) }
          | Inl p \<Rightarrow> Some (bps_push_back p ps, h)) }
       else do {
         l \<leftarrow> page_len h p;
         rem \<leftarrow> bps_remaining_mut h ps;
         if l \<le> rem
         then do {
           src \<leftarrow> page_as_ref h p;
           (ps, h) \<leftarrow> bps_put_slice src ps h;
           h \<leftarrow> page_drop p h;
           Some (ps, h) }
         else
           let pushed = (case bp_current ps of None \<Rightarrow> ps
               | Some a \<Rightarrow> bps_push_back (PStorage a) (ps\<lparr>bp_current := None\<rparr>)) in
           Some (bps_push_back p pushed, h) } } }"

text \<open>
  \<open>chunk_mut\<close> and \<open>advance_mut\<close>, through which \<open>BufMut::put\<close> writes: the page under construction
  stays there even when it is full.
\<close>

definition bps_chunk_mut :: "byte_pages \<Rightarrow> heap \<Rightarrow> (nat \<times> byte_pages \<times> heap) option" where
  "bps_chunk_mut ps h = do {
     (a, h) \<leftarrow> bps_take_current ps h;
     b \<leftarrow> hp_get h a;
     Some (sv_remaining b, ps\<lparr>bp_current := Some a\<rparr>, h) }"

definition bps_advance_mut :: "nat \<Rightarrow> byte_pages \<Rightarrow> heap \<Rightarrow> heap option" where
  "bps_advance_mut cnt ps h = do {
     a \<leftarrow> bp_current ps;
     b \<leftarrow> hp_get h a;
     sv_set_len a (sv_len b + cnt) h }"

text \<open>The default \<open>BufMut::put\<close> of a slice (\<open>bytes/buf/buf_mut.rs\<close>) on a queue of pages.\<close>

partial_function (option) bps_put_loop ::
    "u8 list \<Rightarrow> byte_pages \<Rightarrow> heap \<Rightarrow> (byte_pages \<times> heap) option" where
  "bps_put_loop src ps h =
    (if src = [] then Some (ps, h)
     else do {
       (n, ps, h) \<leftarrow> bps_chunk_mut ps h;
       let l = min (length src) n;
       a \<leftarrow> bp_current ps;
       h \<leftarrow> sv_write_tail a (take l src) h;
       h \<leftarrow> bps_advance_mut l ps h;
       bps_put_loop (drop l src) ps h })"

definition bps_put :: "u8 list \<Rightarrow> byte_pages \<Rightarrow> heap \<Rightarrow> (byte_pages \<times> heap) option" where
  "bps_put src ps h = do {
     rem \<leftarrow> bps_remaining_mut h ps;
     if length src \<le> rem then bps_put_loop src ps h else None }"

text \<open>\<open>with_bytes_mut\<close>: the closure may replace the vector it is lent.\<close>

definition bps_with_bytes_mut ::
    "(nat \<Rightarrow> heap \<Rightarrow> (nat \<times> heap) option) \<Rightarrow> byte_pages \<Rightarrow> heap \<Rightarrow> (byte_pages \<times> heap) option" where
  "bps_with_bytes_mut f ps h = do {
     (a, h) \<leftarrow> bps_take_current ps h;
     b \<leftarrow> hp_get h a;
     let cap = sv_capacity b;
     (a, h) \<leftarrow> f a h;
     b \<leftarrow> hp_get h a;
     h \<leftarrow> (if sv_capacity b \<noteq> cap then sv_unsize a h else Some h);
     Some (if sv_len b \<ge> page_capacity (bp_size ps)
           then bps_push_back (PStorage a) (ps\<lparr>bp_current := None\<rparr>)
           else ps\<lparr>bp_current := Some a\<rparr>, h) }"

section \<open>Moving, splitting and freezing\<close>

definition bps_try_get_current_from :: "byte_pages \<Rightarrow> byte_pages \<Rightarrow> byte_pages \<times> byte_pages" where
  "bps_try_get_current_from ps other =
    (if bp_pages ps = [] \<and> bp_current ps = None \<and> bp_current other \<noteq> None
     then (ps\<lparr>bp_current := bp_current other\<rparr>, other\<lparr>bp_current := None\<rparr>)
     else (ps, other))"

lemma bps_take_num_pages:
  "bps_take ps = (Some p, ps') \<Longrightarrow> bps_num_pages ps' < bps_num_pages ps"
  by (auto simp: bps_take_def bps_num_pages_def split: list.splits option.splits if_splits)

function bps_move_to :: "byte_pages \<Rightarrow> byte_pages \<Rightarrow> heap \<Rightarrow> (byte_pages \<times> byte_pages \<times> heap) option" where
  "bps_move_to ps to h =
    (case bps_take ps of
       (None, ps') \<Rightarrow> Some (ps', to, h)
     | (Some p, ps') \<Rightarrow> do { (to, h) \<leftarrow> bps_append p to h; bps_move_to ps' to h })"
  by auto
termination
  by (relation "measure (\<lambda>(ps, to, h). bps_num_pages ps)") (auto dest!: bps_take_num_pages [OF sym])

function bps_clear :: "byte_pages \<Rightarrow> heap \<Rightarrow> (byte_pages \<times> heap) option" where
  "bps_clear ps h =
    (case bps_take ps of
       (None, ps') \<Rightarrow> Some (ps', h)
     | (Some p, ps') \<Rightarrow> do { h \<leftarrow> page_drop p h; bps_clear ps' h })"
  by auto
termination
  by (relation "measure (\<lambda>(ps, h). bps_num_pages ps)") (auto dest!: bps_take_num_pages [OF sym])

declare bps_move_to.simps [simp del] bps_clear.simps [simp del]

text \<open>
  The loop of \<open>split_into\<close> over the queue: the rest of the pages and \<open>None\<close> when the loop returned
  early, or the bytes still to take.
\<close>

fun pages_split_into ::
    "byte_page list \<Rightarrow> nat \<Rightarrow> byte_pages \<Rightarrow> heap \<Rightarrow>
      (byte_page list \<times> nat option \<times> byte_pages \<times> heap) option" where
  "pages_split_into [] at to h = Some ([], Some at, to, h)"
| "pages_split_into (p # ps) at to h = do {
     l \<leftarrow> page_len h p;
     let len = min l at;
     (front, rest, h) \<leftarrow> page_split_to p len h;
     (to, h) \<leftarrow> bps_append front to h;
     e \<leftarrow> page_is_empty h rest;
     if \<not> e then Some (rest # ps, None, to, h)
     else do { h \<leftarrow> page_drop rest h; pages_split_into ps (at - len) to h } }"

definition bps_split_into :: "byte_pages \<Rightarrow> nat \<Rightarrow> byte_pages \<Rightarrow> heap \<Rightarrow> (byte_pages \<times> byte_pages \<times> heap) option" where
  "bps_split_into ps at to h = do {
     (rest, left, to, h) \<leftarrow> pages_split_into (bp_pages ps) at to h;
     let ps = ps\<lparr>bp_pages := rest\<rparr>;
     (case left of
        None \<Rightarrow> Some (ps, to, h)
      | Some at \<Rightarrow>
        (if at > 0
         then (case bps_take ps of
             (None, ps) \<Rightarrow> Some (ps, to, h)
           | (Some p, ps) \<Rightarrow> do {
               l \<leftarrow> page_len h p;
               (front, p, h) \<leftarrow> page_split_to p (min l at) h;
               (to, h) \<leftarrow> bps_append front to h;
               (ps, h) \<leftarrow> bps_append p ps h;
               Some (ps, to, h) })
         else Some (ps, to, h))) }"

definition bps_split_to :: "byte_pages \<Rightarrow> nat \<Rightarrow> heap \<Rightarrow> (byte_pages \<times> byte_pages \<times> heap) option" where
  "bps_split_to ps at h = do {
     (ps, to, h) \<leftarrow> bps_split_into ps at (bps_new (bp_size ps)) h;
     Some (to, ps, h) }"

function bps_drain_into :: "byte_pages \<Rightarrow> nat \<Rightarrow> heap \<Rightarrow> (byte_pages \<times> nat \<times> heap) option" where
  "bps_drain_into ps a h =
    (case bps_take ps of
       (None, ps') \<Rightarrow> Some (ps', a, h)
     | (Some p, ps') \<Rightarrow> do {
         src \<leftarrow> page_as_ref h p;
         (a, h) \<leftarrow> bm_put_slice a src h;
         h \<leftarrow> page_drop p h;
         bps_drain_into ps' a h })"
  by auto
termination
  by (relation "measure (\<lambda>(ps, a, h). bps_num_pages ps)") (auto dest!: bps_take_num_pages [OF sym])

declare bps_drain_into.simps [simp del]

definition bps_freeze :: "byte_pages \<Rightarrow> heap \<Rightarrow> (storage \<times> byte_pages \<times> heap) option" where
  "bps_freeze ps h = do {
     let pages = bps_num_pages ps;
     e \<leftarrow> bps_is_empty h ps;
     if pages = 0 \<or> e then Some (storage_empty, ps, h)
     else if pages = 1
     then (case bps_take ps of
         (None, ps) \<Rightarrow> None
       | (Some p, ps) \<Rightarrow> do { (st, h) \<leftarrow> page_freeze p h; Some (st, ps, h) })
     else do {
       n \<leftarrow> bps_len h ps;
       (a, h) \<leftarrow> sv_with_capacity n h;
       (ps, a, h) \<leftarrow> bps_drain_into ps a h;
       (st, h) \<leftarrow> sv_freeze a h;
       Some (st, ps, h) } }"

fun pages_copy_to :: "byte_page list \<Rightarrow> byte_pages \<Rightarrow> heap \<Rightarrow> (byte_pages \<times> heap) option" where
  "pages_copy_to [] to h = Some (to, h)"
| "pages_copy_to (p # ps) to h = do {
     (c, h) \<leftarrow> page_clone p h;
     (to, h) \<leftarrow> bps_append c to h;
     pages_copy_to ps to h }"

definition bps_copy_to :: "byte_pages \<Rightarrow> byte_pages \<Rightarrow> heap \<Rightarrow> (byte_pages \<times> heap) option" where
  "bps_copy_to ps to h = do {
     (to, h) \<leftarrow> pages_copy_to (bp_pages ps) to h;
     (case bp_current ps of
        None \<Rightarrow> Some (to, h)
      | Some a \<Rightarrow> do {
          src \<leftarrow> sv_as_ref a h;
          (st, h) \<leftarrow> st_from_slice src h;
          bps_append (PBytes st) to h }) }"

text \<open>\<open>Drop for BytePages\<close>: the queue, then the page under construction.\<close>

fun pages_drop :: "byte_page list \<Rightarrow> heap \<Rightarrow> heap option" where
  "pages_drop [] h = Some h"
| "pages_drop (p # ps) h = do { h \<leftarrow> page_drop p h; pages_drop ps h }"

definition bps_drop :: "byte_pages \<Rightarrow> heap \<Rightarrow> heap option" where
  "bps_drop ps h = do {
     h \<leftarrow> pages_drop (bp_pages ps) h;
     (case bp_current ps of None \<Rightarrow> Some h | Some a \<Rightarrow> release_shared_vec a h) }"

end
