(* ===== verification/Pages_Spec.thy ===== *)
theory Pages_Spec
  imports Byte_Pages
begin

text \<open>
  The contracts of the paged buffer on the heap of the shared vectors: a queue of pages is a sequence
  of bytes; appending, taking, moving, splitting and freezing are the list operations on it, they
  return on every well-formed heap, and they leave every buffer outside the queue as it was.
\<close>

section \<open>The handles and the bytes of a queue\<close>

fun page_handles :: "byte_page \<Rightarrow> handle multiset" where
  "page_handles (PBytes st) = {#HBytes st#}"
| "page_handles (PStorage a) = {#HMut a#}"
| "page_handles (PVec v) = {#}"

fun pages_handles :: "byte_page list \<Rightarrow> handle multiset" where
  "pages_handles [] = {#}"
| "pages_handles (p # ps) = page_handles p + pages_handles ps"

definition cur_handles :: "nat option \<Rightarrow> handle multiset" where
  "cur_handles c = (case c of None \<Rightarrow> {#} | Some a \<Rightarrow> {#HMut a#})"

definition bps_handles :: "byte_pages \<Rightarrow> handle multiset" where
  "bps_handles ps = pages_handles (bp_pages ps) + cur_handles (bp_current ps)"

definition page_bytes :: "heap \<Rightarrow> byte_page \<Rightarrow> u8 list" where
  "page_bytes h p = (case page_as_ref h p of None \<Rightarrow> [] | Some xs \<Rightarrow> xs)"

definition cur_bytes :: "heap \<Rightarrow> nat option \<Rightarrow> u8 list" where
  "cur_bytes h c = (case c of None \<Rightarrow> [] | Some a \<Rightarrow> page_bytes h (PStorage a))"

definition pages_bytes :: "heap \<Rightarrow> byte_page list \<Rightarrow> u8 list" where
  "pages_bytes h ps = concat (map (page_bytes h) ps)"

definition bps_bytes :: "heap \<Rightarrow> byte_pages \<Rightarrow> u8 list" where
  "bps_bytes h ps = pages_bytes h (bp_pages ps) @ cur_bytes h (bp_current ps)"

lemma pages_handles_append [simp]: "pages_handles (ps @ qs) = pages_handles ps + pages_handles qs"
  by (induction ps) (simp_all add: ac_simps)

lemma pages_bytes_simps [simp]:
  "pages_bytes h [] = []" "pages_bytes h (p # ps) = page_bytes h p @ pages_bytes h ps"
  "pages_bytes h (ps @ qs) = pages_bytes h ps @ pages_bytes h qs"
  by (simp_all add: pages_bytes_def)

lemma cur_simps [simp]:
  "cur_handles None = {#}" "cur_handles (Some a) = {#HMut a#}"
  "cur_bytes h None = []" "cur_bytes h (Some a) = page_bytes h (PStorage a)"
  by (simp_all add: cur_handles_def cur_bytes_def)

lemma page_bytes_same: "same_contents (page_handles p) h h' \<Longrightarrow> page_bytes h' p = page_bytes h p"
  by (cases p) (simp_all add: page_bytes_def)

lemma pages_bytes_same: "same_contents (pages_handles ps) h h' \<Longrightarrow> pages_bytes h' ps = pages_bytes h ps"
  by (induction ps) (simp_all add: page_bytes_same)

lemma cur_bytes_same: "same_contents (cur_handles c) h h' \<Longrightarrow> cur_bytes h' c = cur_bytes h c"
  by (cases c) (simp_all add: page_bytes_def)

lemma bps_bytes_same: "same_contents (bps_handles ps) h h' \<Longrightarrow> bps_bytes h' ps = bps_bytes h ps"
  by (auto simp: bps_bytes_def bps_handles_def dest!: pages_bytes_same cur_bytes_same)

lemma size_page_handles: "size (page_handles p) \<le> 1"
  by (cases p) simp_all

lemma page_okE:
  assumes "heap_ok h (page_handles p + M)"
  shows "page_as_ref h p = Some (page_bytes h p)" and "page_len h p = Some (length (page_bytes h p))"
proof -
  have "page_as_ref h p = Some (page_bytes h p) \<and> page_len h p = Some (length (page_bytes h p))"
  proof (cases p)
    case (PBytes st)
    then have ok: "storage_ok h st" using assms storage_okD by simp
    then obtain xs where "st_as_ref st h = Some xs" using storage_ok_content by blast
    then show ?thesis using st_len_eq [OF ok] PBytes by (simp add: page_bytes_def)
  next
    case (PStorage a)
    then have "heap_ok h (add_mset (HMut a) M)" using assms by simp
    then obtain b xs where "hp_get h a = Some b" "sv_as_ref a h = Some xs" "length xs = sv_len b"
      by (rule heap_ok_mutE)
    then show ?thesis using PStorage by (simp add: page_bytes_def)
  qed (simp add: page_bytes_def)
  then show "page_as_ref h p = Some (page_bytes h p)" and "page_len h p = Some (length (page_bytes h p))"
    by simp_all
qed

lemma page_is_empty_eq:
  "heap_ok h (page_handles p + M) \<Longrightarrow> page_is_empty h p = Some (page_bytes h p = [])"
  by (simp add: page_is_empty_def page_okE(2))

lemma cur_okE:
  assumes "heap_ok h (add_mset (HMut a) M)"
  obtains b where "hp_get h a = Some b" and "sv_as_ref a h = Some (page_bytes h (PStorage a))"
    and "length (page_bytes h (PStorage a)) = sv_len b" and "block_ok b"
proof -
  obtain b xs where "hp_get h a = Some b" "block_ok b" "sv_as_ref a h = Some xs" "length xs = sv_len b"
    using assms by (rule heap_ok_mutE)
  then show thesis using that by (simp add: page_bytes_def)
qed

section \<open>Operations on a page\<close>

lemma page_drop_spec:
  assumes "heap_ok h (page_handles p + M)"
  obtains h' where "page_drop p h = Some h'" and "heap_ok h' M" and "same_contents M h h'"
proof (cases p)
  case (PBytes st)
  then obtain h' where "st_drop st h = Some h'" "heap_ok h' M" "same_contents M h h'"
    using assms by (auto elim: st_drop_spec)
  then show thesis using that PBytes by simp
next
  case (PStorage a)
  have "heap_ok h (add_mset (HMut a) M)" "h_addr (HMut a) = Some a" using assms PStorage by simp_all
  then obtain h' where "release_shared_vec a h = Some h'" "heap_ok h' M" "same_contents M h h'"
    by (rule release_shared_vec_spec)
  then show thesis using that PStorage by simp
qed (use assms that in simp)

lemma page_freeze_spec:
  assumes ok: "heap_ok h (page_handles p + M)" and r: "length (page_bytes h p) + METADATA_SIZE < 4294967296"
  obtains st h' where "page_freeze p h = Some (st, h')" and "heap_ok h' (add_mset (HBytes st) M)"
    and "same_contents M h h'" and "st_as_ref st h' = Some (page_bytes h p)"
proof (cases p)
  case (PBytes st)
  then show thesis using that [of st h] ok page_okE(1) [OF ok] by simp
next
  case (PStorage a)
  have "heap_ok h (add_mset (HMut a) M)" "sv_as_ref a h = Some (page_bytes h p)"
    using ok page_okE(1) [OF ok] PStorage by simp_all
  then obtain st h' where "sv_freeze a h = Some (st, h')" "heap_ok h' (add_mset (HBytes st) M)"
    "same_contents M h h'" "st_as_ref st h' = Some (page_bytes h p)" by (rule sv_freeze_spec)
  then show thesis using that PStorage by simp
next
  case (PVec v)
  have "heap_ok h M" "length v + METADATA_SIZE < 4294967296" using ok r PVec by (simp_all add: page_bytes_def)
  then obtain st h' where "st_from_slice v h = Some (st, h')" "heap_ok h' (add_mset (HBytes st) M)"
    "same_contents M h h'" "st_as_ref st h' = Some v" by (rule st_from_slice_spec)
  then show thesis using that PVec by (simp add: page_bytes_def)
qed

lemma page_split_to_spec:
  assumes ok: "heap_ok h (page_handles p + M)" and r: "length (page_bytes h p) + METADATA_SIZE < 4294967296"
    and few: "size M < 4294967294"
  obtains ot st h' where "page_split_to p k h = Some (PBytes ot, PBytes st, h')"
    and "heap_ok h' (add_mset (HBytes ot) (add_mset (HBytes st) M))" and "same_contents M h h'"
    and "st_as_ref ot h' = Some (take k (page_bytes h p))" and "st_as_ref st h' = Some (drop k (page_bytes h p))"
proof -
  let ?xs = "page_bytes h p"
  obtain s h1 where f: "page_freeze p h = Some (s, h1)" "heap_ok h1 (add_mset (HBytes s) M)"
    "same_contents M h h1" "st_as_ref s h1 = Some ?xs" using ok r by (rule page_freeze_spec)
  have len: "st_len s = length ?xs" by (rule st_len_eq [OF storage_okD [OF f(2)] f(4)])
  let ?k = "min k (length ?xs)"
  consider (all) "?k = length ?xs" | (none) "?k \<noteq> length ?xs" "?k = 0"
    | (split) "?k \<noteq> length ?xs" "?k \<noteq> 0" by blast
  then show thesis
  proof cases
    case all
    then have "heap_ok h1 (add_mset (HBytes s) (add_mset (HBytes storage_empty) M))" "length ?xs \<le> k"
      using f(2) by (simp_all add: add_mset_commute heap_ok_add_free min_def split: if_splits)
    then show thesis
      using that [of s storage_empty h1] f len all by (simp add: page_split_to_def bytes_split_to_checked_def)
  next
    case none
    then have "heap_ok h1 (add_mset (HBytes storage_empty) (add_mset (HBytes s) M))" "k = 0"
      using f(2) by (auto simp: heap_ok_add_free min_def split: if_splits)
    then show thesis
      using that [of storage_empty s h1] f len none by (simp add: page_split_to_def bytes_split_to_checked_def)
  next
    case split
    then have k: "?k = k" "k \<le> length ?xs" by (auto simp: min_def split: if_splits)
    obtain ot st h' where "st_split_to s k h1 = Some (ot, st, h')"
      "heap_ok h' (add_mset (HBytes ot) (add_mset (HBytes st) M))" "same_contents M h1 h'"
      "st_as_ref ot h' = Some (take k ?xs)" "st_as_ref st h' = Some (drop k ?xs)"
      using f(2,4) k(2) r few by (rule st_split_to_spec)
    moreover from this have "same_contents M h h'" using f(3) same_contents_trans by blast
    ultimately show thesis
      using that f len k split by (simp add: page_split_to_def bytes_split_to_checked_def)
  qed
qed

section \<open>A fresh page\<close>

lemma cache_pop:
  assumes co: "cache_ok h" and sz: "sz \<noteq> Unset" and ne: "hp_cache h ! page_index sz \<noteq> []"
  defines "stack \<equiv> hp_cache h ! page_index sz"
  defines "c \<equiv> (hp_cache h)[page_index sz := butlast stack]"
  shows "cached h = add_mset (HMut (last stack)) (cached (h\<lparr>hp_cache := c\<rparr>))"
    and "cache_ok (h\<lparr>hp_cache := c\<rparr>)"
proof -
  have i: "page_index sz < length (hp_cache h)" "length (hp_cache h) = 7"
    using page_index_less [OF sz] co by (simp_all add: cache_ok_def)
  show "cached h = add_mset (HMut (last stack)) (cached (h\<lparr>hp_cache := c\<rparr>))"
    using mset_concat_pop [OF i(1) ne] by (simp add: cached_def stack_def c_def)
  have sub: "set (c ! page_index s) \<subseteq> set (hp_cache h ! page_index s)" for s
    using i by (cases "page_index s = page_index sz") (auto simp: c_def stack_def dest: in_set_butlastD)
  show "cache_ok (h\<lparr>hp_cache := c\<rparr>)"
    unfolding cache_ok_def
  proof (intro conjI allI impI)
    fix s a assume s: "s \<noteq> Unset" and "a \<in> set (hp_cache (h\<lparr>hp_cache := c\<rparr>) ! page_index s)"
    then have "a \<in> set (hp_cache h ! page_index s)" using sub by auto
    then show "\<exists>b. hp_get (h\<lparr>hp_cache := c\<rparr>) a = Some b \<and> sv_len b = 0 \<and> sv_offset b = METADATA_SIZE \<and>
        sv_ref_count b = 1 \<and> length (sv_mem b) = METADATA_SIZE + page_capacity s"
      using co s unfolding cache_ok_def by simp
  qed (simp add: c_def i)
qed

lemma sv_sized_spec:
  assumes ok: "heap_ok h M" and sz: "sz \<noteq> Unset"
  obtains a h' b where "sv_sized sz h = Some (a, h')" and "heap_ok h' (add_mset (HMut a) M)"
    and "same_contents M h h'" and "sv_as_ref a h' = Some []" and "hp_get h' a = Some b"
    and "sv_remaining b = page_capacity sz"
proof -
  have ow: "owns h (M + cached h)" and co: "cache_ok h" using ok by (simp_all add: heap_ok_def)
  let ?stack = "hp_cache h ! page_index sz"
  have len: "page_index sz < length (hp_cache h)" using page_index_less [OF sz] co by (simp add: cache_ok_def)
  show thesis
  proof (cases "?stack = []")
    case True
    have c: "page_capacity sz + METADATA_SIZE < 4294967296" "length ([] :: u8 list) \<le> page_capacity sz"
      using page_capacity_bounds(2) [of sz] by simp_all
    obtain a h' b where "sv_create sz (page_capacity sz) [] h = Some (a, h')"
      "heap_ok h' (add_mset (HMut a) M)" "same_contents M h h'" "sv_as_ref a h' = Some []"
      "hp_get h' a = Some b" "sv_remaining b = page_capacity sz - length ([] :: u8 list)"
      using ok c refl by (rule sv_create_spec)
    then show thesis using that True len by (simp add: sv_sized_def)
  next
    case False
    let ?a = "last ?stack" and ?h1 = "h\<lparr>hp_cache := (hp_cache h)[page_index sz := butlast ?stack]\<rparr>"
    have mem: "?a \<in> set ?stack" using False by simp
    obtain b where b: "hp_get h ?a = Some b" "sv_len b = 0" "sv_offset b = METADATA_SIZE"
      "length (sv_mem b) = METADATA_SIZE + page_capacity sz" using co sz mem unfolding cache_ok_def by blast
    note pop = cache_pop [OF co sz False]
    let ?b = "b\<lparr>sv_size := sz\<rparr>" and ?T = "add_mset (HMut ?a) M + cached ?h1"
    have ow1: "owns ?h1 ?T"
    proof (rule owns_change [OF ow, of ?a])
      show "block_owned ?T ?a c" if "hp_get ?h1 ?a = Some c" for c
        using that owns_blockD [OF ow b(1)] b(1) pop(1) by simp
      show "handle_ok ?h1 x" if "x \<in># ?T" "h_addr x = Some ?a" for x
        using that owns_handleD [OF ow, of x] pop(1) handle_ok_elsewhere [of "Suc ?a" h ?h1 x]
        by (auto simp: same_elsewhere_def)
      show "handle_ok ?h1 x" if "x \<in># ?T" "h_addr x = None" for x
        using that owns_handleD [OF ow, of x] pop(1) handle_ok_noaddr [of x h ?h1] by auto
    qed (use pop(1) in \<open>simp_all add: same_elsewhere_def\<close>)
    have ok1: "heap_ok ?h1 (add_mset (HMut ?a) M)" using ow1 pop(2) by (simp add: heap_ok_def)
    have bk: "block_ok b" using ok1 by (rule heap_ok_mutE) (use b(1) in simp)
    have rem: "sv_remaining b = page_capacity sz" using bk b by (simp add: block_ok_def)
    have "block_ok ?b" using bk b by (simp add: block_ok_def)
    then have "heap_ok (hp_upd ?h1 ?a ?b) (add_mset (HMut ?a) M) \<and> same_contents M ?h1 (hp_upd ?h1 ?a ?b)"
      using b(1) by (intro heap_ok_mut_stepE [OF ok1, of b]) simp_all
    moreover have "same_contents M h ?h1"
      by (rule same_contents_change [of ?a h ?h1 b b]) (use b(1) in \<open>simp_all add: same_elsewhere_def\<close>)
    moreover have "sv_sized sz h = Some (?a, hp_upd ?h1 ?a ?b)"
      using len False b(1) by (simp add: sv_sized_def Let_def)
    moreover have "sv_as_ref ?a (hp_upd ?h1 ?a ?b) = Some []"
      using b by (simp add: sv_as_ref_def)
    ultimately show thesis
      using that [of ?a "hp_upd ?h1 ?a ?b" ?b] rem by (auto intro: same_contents_trans)
  qed
qed

section \<open>Writing\<close>

lemma heap_ok_bps_current:
  "bp_current ps = Some a \<Longrightarrow>
    heap_ok h (bps_handles ps + M) = heap_ok h (add_mset (HMut a) (pages_handles (bp_pages ps) + M))"
  by (simp add: bps_handles_def)

lemma take_current_spec:
  assumes ok: "heap_ok h (bps_handles ps + M)" and sz: "bp_size ps \<noteq> Unset"
  obtains a h' b where "bps_take_current ps h = Some (a, h')"
    and "heap_ok h' (add_mset (HMut a) (pages_handles (bp_pages ps) + M))"
    and "same_contents (pages_handles (bp_pages ps) + M) h h'"
    and "sv_as_ref a h' = Some (cur_bytes h (bp_current ps))" and "hp_get h' a = Some b"
    and "bp_current ps = None \<longrightarrow> 0 < sv_remaining b"
    and "bp_current ps \<noteq> None \<longrightarrow> bp_current ps = Some a \<and> h' = h"
proof (cases "bp_current ps")
  case None
  then have "heap_ok h (pages_handles (bp_pages ps) + M)" using ok by (simp add: bps_handles_def)
  then obtain a h' b where "sv_sized (bp_size ps) h = Some (a, h')"
    "heap_ok h' (add_mset (HMut a) (pages_handles (bp_pages ps) + M))"
    "same_contents (pages_handles (bp_pages ps) + M) h h'" "sv_as_ref a h' = Some []" "hp_get h' a = Some b"
    "sv_remaining b = page_capacity (bp_size ps)" using sz by (rule sv_sized_spec)
  then show thesis
    using None page_capacity_bounds(1) [of "bp_size ps"]
    by (intro that [of a h' b]) (simp_all add: bps_take_current_def)
next
  case (Some a)
  then have ok': "heap_ok h (add_mset (HMut a) (pages_handles (bp_pages ps) + M))"
    using ok by (simp add: heap_ok_bps_current)
  then obtain b where "hp_get h a = Some b" "sv_as_ref a h = Some (page_bytes h (PStorage a))"
    by (rule cur_okE)
  then show thesis using Some ok' by (intro that [of a h b]) (simp_all add: bps_take_current_def)
qed

lemma put_back_spec:
  assumes ok: "heap_ok h (add_mset (HMut a) (pages_handles (bp_pages ps) + M))"
    and xs: "sv_as_ref a h = Some xs" and b: "hp_get h a = Some b"
  obtains ps' where "bps_put_back a ps h = Some ps'" and "heap_ok h (bps_handles ps' + M)"
    and "bps_bytes h ps' = pages_bytes h (bp_pages ps) @ xs" and "bp_size ps' = bp_size ps"
    and "size (bps_handles ps') = size (pages_handles (bp_pages ps)) + 1"
    and "sv_remaining b = 0 \<longrightarrow> bp_current ps' = None"
proof -
  have pb: "page_bytes h (PStorage a) = xs" using xs by (simp add: page_bytes_def)
  show thesis
    using that [of "if sv_is_full b then bps_push_back (PStorage a) (ps\<lparr>bp_current := None\<rparr>)
        else ps\<lparr>bp_current := Some a\<rparr>"] ok b pb
    by (auto simp: bps_put_back_def bps_push_back_def bps_handles_def bps_bytes_def sv_is_full_def ac_simps)
qed

lemma put_chunk_spec:
  assumes ok: "heap_ok h (bps_handles ps + M)" and sz: "bp_size ps \<noteq> Unset" and src: "src \<noteq> []"
  obtains n ps' h' where "bps_put_chunk src ps h = Some (n, ps', h')" and "heap_ok h' (bps_handles ps' + M)"
    and "same_contents M h h'" and "bps_bytes h' ps' = bps_bytes h ps @ take n src"
    and "bp_size ps' = bp_size ps" and "n \<le> length src"
    and "0 < n \<or> bp_current ps \<noteq> None \<and> bp_current ps' = None"
    and "\<forall>a b. bp_current ps = Some a \<longrightarrow> hp_get h a = Some b \<longrightarrow>
      n = min (length src) (sv_remaining b) \<and> size (bps_handles ps') = size (bps_handles ps)"
proof -
  let ?F = "pages_handles (bp_pages ps) + M"
  obtain a h1 b where t: "bps_take_current ps h = Some (a, h1)" "heap_ok h1 (add_mset (HMut a) ?F)"
    "same_contents ?F h h1" "sv_as_ref a h1 = Some (cur_bytes h (bp_current ps))" "hp_get h1 a = Some b"
    "bp_current ps = None \<longrightarrow> 0 < sv_remaining b"
    "bp_current ps \<noteq> None \<longrightarrow> bp_current ps = Some a \<and> h1 = h"
    using ok sz by (rule take_current_spec)
  let ?n = "min (length src) (sv_remaining b)"
  have "length (take ?n src) \<le> sv_remaining b" by simp
  with t(2,4,5) obtain h2 h' where w: "sv_write_tail a (take ?n src) h1 = Some h2"
    "sv_set_len a (sv_len b + length (take ?n src)) h2 = Some h'" "heap_ok h' (add_mset (HMut a) ?F)"
    "same_contents ?F h1 h'" "sv_as_ref a h' = Some (cur_bytes h (bp_current ps) @ take ?n src)"
    "\<exists>b'. hp_get h' a = Some b' \<and> sv_remaining b' = sv_remaining b - length (take ?n src)"
    by (rule sv_append_spec)
  obtain b' where b': "hp_get h' a = Some b'" "sv_remaining b' = sv_remaining b - length (take ?n src)"
    using w(6) by blast
  obtain ps' where pb: "bps_put_back a ps h' = Some ps'" "heap_ok h' (bps_handles ps' + M)"
    "bps_bytes h' ps' = pages_bytes h' (bp_pages ps) @ cur_bytes h (bp_current ps) @ take ?n src"
    "bp_size ps' = bp_size ps" "size (bps_handles ps') = size (pages_handles (bp_pages ps)) + 1"
    "sv_remaining b' = 0 \<longrightarrow> bp_current ps' = None"
    using w(3,5) b'(1) by (rule put_back_spec)
  have same: "same_contents ?F h h'" using t(3) w(4) by (rule same_contents_trans)
  have len: "length (take ?n src) = ?n" by simp
  have chunk: "bps_put_chunk src ps h = Some (?n, ps', h')"
    using t(1,5) w(1,2) pb(1) len by (simp add: bps_put_chunk_def Let_def)
  have bytes: "bps_bytes h' ps' = bps_bytes h ps @ take ?n src"
    using pb(3) same pages_bytes_same [of "bp_pages ps" h h'] by (simp add: bps_bytes_def)
  have prog: "0 < ?n \<or> bp_current ps \<noteq> None \<and> bp_current ps' = None"
    using src t(6) pb(6) b'(2) by auto
  have cnt: "\<forall>a' c. bp_current ps = Some a' \<longrightarrow> hp_get h a' = Some c \<longrightarrow>
      ?n = min (length src) (sv_remaining c) \<and> size (bps_handles ps') = size (bps_handles ps)"
    using t(5,7) pb(5) by (auto simp: bps_handles_def)
  show thesis using that [of ?n ps' h'] chunk pb(2,4) same bytes prog cnt by simp
qed

end
