(* ===== verification/Pages_Queue.thy ===== *)
theory Pages_Queue
  imports Pages_Spec
begin

text \<open>
  Writing to, moving between and cutting queues of pages, and the properties of the paged buffer.
\<close>

section \<open>Appending\<close>

lemma put_slice_spec:
  assumes "heap_ok h (bps_handles ps + M)" and "bp_size ps \<noteq> Unset"
  shows "\<exists>ps' h'. bps_put_slice src ps h = Some (ps', h') \<and> heap_ok h' (bps_handles ps' + M) \<and>
    same_contents M h h' \<and> bps_bytes h' ps' = bps_bytes h ps @ src \<and> bp_size ps' = bp_size ps"
  using assms
proof (induction "2 * length src + (if bp_current ps = None then 0 else 1)" arbitrary: src ps h rule: less_induct)
  case less
  show ?case
  proof (cases "src = []")
    case True
    then show ?thesis using less.prems by (simp add: bps_put_slice.simps [of "[]"])
  next
    case False
    obtain n ps1 h1 where c: "bps_put_chunk src ps h = Some (n, ps1, h1)" "heap_ok h1 (bps_handles ps1 + M)"
      "same_contents M h h1" "bps_bytes h1 ps1 = bps_bytes h ps @ take n src" "bp_size ps1 = bp_size ps"
      "n \<le> length src" "0 < n \<or> bp_current ps \<noteq> None \<and> bp_current ps1 = None"
      using less.prems False by (rule put_chunk_spec)
    have "2 * length (drop n src) + (if bp_current ps1 = None then 0 else 1) <
        2 * length src + (if bp_current ps = None then 0 else 1)"
      using c(6,7) False by auto
    moreover have "bp_size ps1 \<noteq> Unset" using c(5) less.prems by simp
    ultimately obtain ps' h' where r: "bps_put_slice (drop n src) ps1 h1 = Some (ps', h')"
      "heap_ok h' (bps_handles ps' + M)" "same_contents M h1 h'"
      "bps_bytes h' ps' = bps_bytes h1 ps1 @ drop n src" "bp_size ps' = bp_size ps1"
      using less.hyps [of "drop n src" ps1 h1] c(2) by blast
    have "same_contents M h h'" using c(3) r(3) by (rule same_contents_trans)
    moreover have "bps_put_slice src ps h = Some (ps', h')"
      using False c(1) r(1) by (simp add: bps_put_slice.simps [of src])
    ultimately show ?thesis using r c by simp
  qed
qed

lemma put_slice_fits:
  assumes ok: "heap_ok h (bps_handles ps + M)" and sz: "bp_size ps \<noteq> Unset"
    and cur: "bp_current ps = Some a" "hp_get h a = Some b" "length src \<le> sv_remaining b" and ne: "src \<noteq> []"
  obtains ps' h' where "bps_put_slice src ps h = Some (ps', h')" and "heap_ok h' (bps_handles ps' + M)"
    and "same_contents M h h'" and "bps_bytes h' ps' = bps_bytes h ps @ src" and "bp_size ps' = bp_size ps"
    and "size (bps_handles ps') = size (bps_handles ps)"
proof -
  obtain n ps1 h1 where c: "bps_put_chunk src ps h = Some (n, ps1, h1)" "heap_ok h1 (bps_handles ps1 + M)"
    "same_contents M h h1" "bps_bytes h1 ps1 = bps_bytes h ps @ take n src" "bp_size ps1 = bp_size ps"
    "\<forall>a b. bp_current ps = Some a \<longrightarrow> hp_get h a = Some b \<longrightarrow>
      n = min (length src) (sv_remaining b) \<and> size (bps_handles ps1) = size (bps_handles ps)"
    using ok sz ne by (rule put_chunk_spec)
  have n: "n = length src" "size (bps_handles ps1) = size (bps_handles ps)" using c(6) cur by (simp_all add: min_def)
  have "bps_put_slice src ps h = Some (ps1, h1)"
    using ne c(1) n(1) by (simp add: bps_put_slice.simps [of src] bps_put_slice.simps [of "[]"])
  then show thesis using that c n by simp
qed

lemma append_spec:
  assumes ok: "heap_ok h (page_handles p + (bps_handles ps + M))" and sz: "bp_size ps \<noteq> Unset"
  obtains ps' h' where "bps_append p ps h = Some (ps', h')" and "heap_ok h' (bps_handles ps' + M)"
    and "same_contents M h h'" and "bps_bytes h' ps' = bps_bytes h ps @ page_bytes h p"
    and "bp_size ps' = bp_size ps" and "size (bps_handles ps') \<le> size (bps_handles ps) + size (page_handles p)"
proof -
  have okp: "heap_ok h (bps_handles ps + (page_handles p + M))" using ok by (simp add: ac_simps)
  have e: "page_is_empty h p = Some (page_bytes h p = [])" by (rule page_is_empty_eq [OF ok])
  have l: "page_len h p = Some (length (page_bytes h p))" by (rule page_okE(2) [OF ok])
  have cur: "bps_current_len h ps = Some (length (cur_bytes h (bp_current ps)))"
  proof (cases "bp_current ps")
    case (Some a)
    then have "heap_ok h (page_handles (PStorage a) + (pages_handles (bp_pages ps) + (page_handles p + M)))"
      using okp by (simp add: bps_handles_def)
    from page_okE(2) [OF this] show ?thesis using Some by (simp add: bps_current_len_def)
  qed (simp add: bps_current_len_def)
  consider (empty) "page_bytes h p = []"
    | (adopt) a where "page_bytes h p \<noteq> []" "cur_bytes h (bp_current ps) = []" "page_into_storage p h = Some (Inr a)"
    | (push) q where "page_bytes h p \<noteq> []" "cur_bytes h (bp_current ps) = []" "page_into_storage p h = Some (Inl q)"
    | (none) "page_bytes h p \<noteq> []" "cur_bytes h (bp_current ps) = []" "page_into_storage p h = None"
    | (fill) "page_bytes h p \<noteq> []" "cur_bytes h (bp_current ps) \<noteq> []"
    by (metis option.exhaust sum.exhaust)
  then show thesis
  proof cases
    case empty
    obtain h' where d: "page_drop p h = Some h'" "heap_ok h' (bps_handles ps + M)" "same_contents (bps_handles ps + M) h h'"
      using ok by (rule page_drop_spec)
    have "bps_bytes h' ps = bps_bytes h ps" using d(3) by (intro bps_bytes_same) simp
    then show thesis using that [of ps h'] d e empty by (simp add: bps_append_def)
  next
    case adopt
    then have p: "p = PStorage a" by (cases p) (auto simp: bind_eq_Some_conv split: if_splits)
    let ?ps = "ps\<lparr>bp_current := Some a\<rparr>"
    have step: "bps_append p ps h =
        do { h \<leftarrow> (case bp_current ps of None \<Rightarrow> Some h | Some old \<Rightarrow> release_shared_vec old h); Some (?ps, h) }"
      using e cur adopt by (simp add: bps_append_def)
    show thesis
    proof (cases "bp_current ps")
      case None
      then show thesis
        using that [of ?ps h] ok step p adopt by (simp add: bps_handles_def bps_bytes_def ac_simps)
    next
      case (Some old)
      let ?F = "add_mset (HMut a) (pages_handles (bp_pages ps) + M)"
      have "heap_ok h (add_mset (HMut old) ?F)" "h_addr (HMut old) = Some old"
        using ok Some p by (simp_all add: bps_handles_def ac_simps add_mset_commute)
      then obtain h' where d: "release_shared_vec old h = Some h'" "heap_ok h' ?F" "same_contents ?F h h'"
        by (rule release_shared_vec_spec)
      have "pages_bytes h' (bp_pages ps) = pages_bytes h (bp_pages ps)" using d(3) by (intro pages_bytes_same) simp
      moreover have "page_bytes h' (PStorage a) = page_bytes h (PStorage a)"
        using d(3) by (intro page_bytes_same) simp
      ultimately show thesis
        using that [of ?ps h'] d step p adopt Some by (simp add: bps_handles_def bps_bytes_def ac_simps)
    qed
  next
    case push
    then have "q = p" by (cases p) (auto simp: bind_eq_Some_conv split: if_splits)
    then show thesis
      using that [of "bps_push_back p ps" h] ok e cur push
      by (simp add: bps_append_def bps_push_back_def bps_handles_def bps_bytes_def ac_simps)
  next
    case none
    then have False using page_okE(2) [OF ok] by (cases p) (auto split: if_splits)
    then show thesis ..
  next
    case fill
    then obtain a where a: "bp_current ps = Some a" by (cases "bp_current ps") auto
    have "heap_ok h (add_mset (HMut a) (pages_handles (bp_pages ps) + (page_handles p + M)))"
      using okp a by (simp add: heap_ok_bps_current)
    then obtain b where b: "hp_get h a = Some b" by (rule cur_okE)
    show thesis
    proof (cases "length (page_bytes h p) \<le> sv_remaining b")
      case True
      obtain ps' h1 where w: "bps_put_slice (page_bytes h p) ps h = Some (ps', h1)"
        "heap_ok h1 (bps_handles ps' + (page_handles p + M))" "same_contents (page_handles p + M) h h1"
        "bps_bytes h1 ps' = bps_bytes h ps @ page_bytes h p" "bp_size ps' = bp_size ps"
        "size (bps_handles ps') = size (bps_handles ps)"
        using okp sz a b True fill(1) by (rule put_slice_fits)
      have "heap_ok h1 (page_handles p + (bps_handles ps' + M))" using w(2) by (simp add: ac_simps)
      then obtain h' where d: "page_drop p h1 = Some h'" "heap_ok h' (bps_handles ps' + M)"
        "same_contents (bps_handles ps' + M) h1 h'" by (rule page_drop_spec)
      have "bps_bytes h' ps' = bps_bytes h1 ps'" using d(3) by (intro bps_bytes_same) simp
      moreover have "same_contents M h h'" using w(3) d(3) same_contents_trans [of M h h1 h'] by simp
      moreover have "bps_append p ps h = Some (ps', h')"
        using e cur l fill a b True w(1) d(1) page_okE(1) [OF ok]
        by (simp add: bps_append_def bps_remaining_mut_def)
      ultimately show thesis using that [of ps' h'] w d by simp
    next
      case False
      let ?ps = "bps_push_back p (bps_push_back (PStorage a) (ps\<lparr>bp_current := None\<rparr>))"
      have "bps_append p ps h = Some (?ps, h)"
        using e cur l fill a b False by (simp add: bps_append_def bps_remaining_mut_def)
      then show thesis
        using that [of ?ps h] ok a by (simp add: bps_push_back_def bps_handles_def bps_bytes_def ac_simps)
    qed
  qed
qed

lemma put_u8_spec:
  assumes ok: "heap_ok h (bps_handles ps + M)" and sz: "bp_size ps \<noteq> Unset"
    and room: "\<And>a b. bp_current ps = Some a \<Longrightarrow> hp_get h a = Some b \<Longrightarrow> 0 < sv_remaining b"
  obtains ps' h' where "bps_put_u8 n ps h = Some (ps', h')" and "heap_ok h' (bps_handles ps' + M)"
    and "same_contents M h h'" and "bps_bytes h' ps' = bps_bytes h ps @ [n]" and "bp_size ps' = bp_size ps"
proof -
  let ?F = "pages_handles (bp_pages ps) + M"
  obtain a h1 b where t: "bps_take_current ps h = Some (a, h1)" "heap_ok h1 (add_mset (HMut a) ?F)"
    "same_contents ?F h h1" "sv_as_ref a h1 = Some (cur_bytes h (bp_current ps))" "hp_get h1 a = Some b"
    "bp_current ps = None \<longrightarrow> 0 < sv_remaining b" "bp_current ps \<noteq> None \<longrightarrow> bp_current ps = Some a \<and> h1 = h"
    using ok sz by (rule take_current_spec)
  have "1 \<le> sv_remaining b" using t(5-7) room by (cases "bp_current ps") (auto simp: Suc_le_eq)
  with t(2,4,5) obtain h' where w: "sv_put_u8 a n h1 = Some h'" "heap_ok h' (add_mset (HMut a) ?F)"
    "same_contents ?F h1 h'" "sv_as_ref a h' = Some (cur_bytes h (bp_current ps) @ [n])"
    by (rule sv_put_u8_spec)
  obtain b' where b': "hp_get h' a = Some b'" using w(2,4) by (rule mut_blockE)
  obtain ps' where pb: "bps_put_back a ps h' = Some ps'" "heap_ok h' (bps_handles ps' + M)"
    "bps_bytes h' ps' = pages_bytes h' (bp_pages ps) @ cur_bytes h (bp_current ps) @ [n]" "bp_size ps' = bp_size ps"
    using w(2,4) b' by (rule put_back_spec)
  have same: "same_contents ?F h h'" using t(3) w(3) by (rule same_contents_trans)
  have "pages_bytes h' (bp_pages ps) = pages_bytes h (bp_pages ps)" using same by (intro pages_bytes_same) simp
  then show thesis
    using that [of ps' h'] t(1) w(1) pb same by (simp add: bps_put_u8_def bps_bytes_def)
qed

section \<open>Taking and moving\<close>

lemma bps_takeE:
  assumes "bps_take ps = (r, ps')"
  shows "r = None \<Longrightarrow> bps_handles ps = {#} \<and> bps_bytes h ps = [] \<and> bps_handles ps' = {#} \<and> bps_bytes h ps' = []"
    and "r = Some p \<Longrightarrow> bps_handles ps = page_handles p + bps_handles ps' \<and>
      bps_bytes h ps = page_bytes h p @ bps_bytes h ps'"
    and "bp_size ps' = bp_size ps"
  using assms
  by (auto simp: bps_take_def bps_handles_def bps_bytes_def split: list.splits option.splits)

lemma bps_take_size: "bp_size (snd (bps_take ps)) = bp_size ps"
  by (auto simp: bps_take_def split: list.splits)

lemma move_to_spec:
  assumes "heap_ok h (bps_handles ps + (bps_handles to + M))" and "bp_size to \<noteq> Unset"
  shows "\<exists>ps' to' h'. bps_move_to ps to h = Some (ps', to', h') \<and> heap_ok h' (bps_handles to' + M) \<and>
    same_contents M h h' \<and> bps_handles ps' = {#} \<and> bps_bytes h' ps' = [] \<and>
    bps_bytes h' to' = bps_bytes h to @ bps_bytes h ps \<and> bp_size to' = bp_size to"
  using assms
proof (induction "bps_num_pages ps" arbitrary: ps to h rule: less_induct)
  case less
  obtain r ps1 where t: "bps_take ps = (r, ps1)" by (cases "bps_take ps")
  show ?case
  proof (cases r)
    case None
    then show ?thesis
      using less.prems t bps_takeE(1) [OF t] by (simp add: bps_move_to.simps [of ps])
  next
    case (Some p)
    have e: "bps_handles ps = page_handles p + bps_handles ps1" "bps_bytes h ps = page_bytes h p @ bps_bytes h ps1"
      using bps_takeE(2) [OF t Some] by simp_all
    have "heap_ok h (page_handles p + (bps_handles to + (bps_handles ps1 + M)))"
      using less.prems e by (simp add: ac_simps)
    then obtain to1 h1 where a: "bps_append p to h = Some (to1, h1)" "heap_ok h1 (bps_handles to1 + (bps_handles ps1 + M))"
      "same_contents (bps_handles ps1 + M) h h1" "bps_bytes h1 to1 = bps_bytes h to @ page_bytes h p"
      "bp_size to1 = bp_size to" using less.prems(2) by (rule append_spec)
    have "bps_num_pages ps1 < bps_num_pages ps" using t Some by (simp add: bps_take_num_pages)
    moreover have "heap_ok h1 (bps_handles ps1 + (bps_handles to1 + M))" using a(2) by (simp add: ac_simps)
    moreover have "bp_size to1 \<noteq> Unset" using a(5) less.prems by simp
    ultimately obtain ps' to' h' where r: "bps_move_to ps1 to1 h1 = Some (ps', to', h')" "heap_ok h' (bps_handles to' + M)"
      "same_contents M h1 h'" "bps_handles ps' = {#}" "bps_bytes h' ps' = []"
      "bps_bytes h' to' = bps_bytes h1 to1 @ bps_bytes h1 ps1" "bp_size to' = bp_size to1"
      using less.hyps [of ps1 h1 to1] by blast
    have "bps_bytes h1 ps1 = bps_bytes h ps1" using a(3) by (intro bps_bytes_same) simp
    moreover have "same_contents M h h'" using a(3) r(3) same_contents_trans [of M h h1 h'] by simp
    moreover have "bps_move_to ps to h = Some (ps', to', h')" using t Some a(1) r(1) by (simp add: bps_move_to.simps [of ps])
    ultimately show ?thesis using r a e by simp
  qed
qed

lemma clear_spec:
  assumes "heap_ok h (bps_handles ps + M)"
  shows "\<exists>ps' h'. bps_clear ps h = Some (ps', h') \<and> heap_ok h' M \<and> same_contents M h h' \<and>
    bps_handles ps' = {#} \<and> bps_bytes h' ps' = []"
  using assms
proof (induction "bps_num_pages ps" arbitrary: ps h rule: less_induct)
  case less
  obtain r ps1 where t: "bps_take ps = (r, ps1)" by (cases "bps_take ps")
  show ?case
  proof (cases r)
    case None
    then show ?thesis using less.prems t bps_takeE(1) [OF t] by (simp add: bps_clear.simps [of ps])
  next
    case (Some p)
    have "heap_ok h (page_handles p + (bps_handles ps1 + M))"
      using less.prems bps_takeE(2) [OF t Some] by (simp add: ac_simps)
    then obtain h1 where d: "page_drop p h = Some h1" "heap_ok h1 (bps_handles ps1 + M)"
      "same_contents (bps_handles ps1 + M) h h1" by (rule page_drop_spec)
    have "bps_num_pages ps1 < bps_num_pages ps" using t Some by (simp add: bps_take_num_pages)
    then obtain ps' h' where r: "bps_clear ps1 h1 = Some (ps', h')" "heap_ok h' M" "same_contents M h1 h'"
      "bps_handles ps' = {#}" "bps_bytes h' ps' = []" using less.hyps [of ps1 h1] d(2) by blast
    have "same_contents M h h'" using d(3) r(3) same_contents_trans [of M h h1 h'] by simp
    moreover have "bps_clear ps h = Some (ps', h')" using t Some d(1) r(1) by (simp add: bps_clear.simps [of ps])
    ultimately show ?thesis using r by simp
  qed
qed

end
