(* ===== verification/Pages_Split.thy ===== *)
theory Pages_Split
  imports Pages_Queue
begin

text \<open>Splitting a queue of pages, freezing and dropping it, and the properties of the paged buffer.\<close>

section \<open>Splitting\<close>

lemma page_bytes_PBytes: "st_as_ref st h = Some xs \<Longrightarrow> page_bytes h (PBytes st) = xs"
  by (simp add: page_bytes_def)

lemma split_page_spec:
  assumes ok: "heap_ok h (page_handles p + (bps_handles to + M))" and sz: "bp_size to \<noteq> Unset"
    and r: "length (page_bytes h p) + METADATA_SIZE < 4294967296"
    and few: "size M + size (bps_handles to) < 4294967294"
  obtains front rest to' h1 h' where "page_split_to p k h = Some (front, rest, h1)"
    and "bps_append front to h1 = Some (to', h')" and "heap_ok h' (page_handles rest + (bps_handles to' + M))"
    and "same_contents M h h'" and "bps_bytes h' to' = bps_bytes h to @ take k (page_bytes h p)"
    and "page_bytes h' rest = drop k (page_bytes h p)" and "bp_size to' = bp_size to"
    and "size (bps_handles to') \<le> size (bps_handles to) + 1"
proof -
  have "size (bps_handles to + M) < 4294967294" using few by simp
  with ok r obtain ot st h1 where s: "page_split_to p k h = Some (PBytes ot, PBytes st, h1)"
    "heap_ok h1 (add_mset (HBytes ot) (add_mset (HBytes st) (bps_handles to + M)))"
    "same_contents (bps_handles to + M) h h1" "st_as_ref ot h1 = Some (take k (page_bytes h p))"
    "st_as_ref st h1 = Some (drop k (page_bytes h p))" by (rule page_split_to_spec)
  have "heap_ok h1 (page_handles (PBytes ot) + (bps_handles to + (page_handles (PBytes st) + M)))"
    using s(2) by (simp add: add_mset_commute)
  then obtain to' h' where a: "bps_append (PBytes ot) to h1 = Some (to', h')"
    "heap_ok h' (bps_handles to' + (page_handles (PBytes st) + M))"
    "same_contents (page_handles (PBytes st) + M) h1 h'"
    "bps_bytes h' to' = bps_bytes h1 to @ page_bytes h1 (PBytes ot)" "bp_size to' = bp_size to"
    "size (bps_handles to') \<le> size (bps_handles to) + size (page_handles (PBytes ot))"
    using sz by (rule append_spec)
  have "bps_bytes h1 to = bps_bytes h to" using s(3) by (intro bps_bytes_same) simp
  moreover have "page_bytes h' (PBytes st) = page_bytes h1 (PBytes st)" using a(3) by (intro page_bytes_same) simp
  moreover have "same_contents M h h'" using s(3) a(3) same_contents_trans [of M h h1 h'] by simp
  moreover have "heap_ok h' (page_handles (PBytes st) + (bps_handles to' + M))" using a(2) by (simp add: ac_simps)
  ultimately show thesis
    using that [of "PBytes ot" "PBytes st" h1 to' h'] s a page_bytes_PBytes by simp
qed

lemma pages_split_into_spec:
  assumes "heap_ok h (pages_handles pgs + (bps_handles to + M))" and "bp_size to \<noteq> Unset"
    and "length (pages_bytes h pgs) + METADATA_SIZE < 4294967296"
    and "size M + size (bps_handles to) + length pgs < 4294967290"
  shows "\<exists>rest left to' h'. pages_split_into pgs k to h = Some (rest, left, to', h') \<and>
    heap_ok h' (pages_handles rest + (bps_handles to' + M)) \<and> same_contents M h h' \<and>
    bps_bytes h' to' = bps_bytes h to @ take k (pages_bytes h pgs) \<and>
    pages_bytes h' rest = drop k (pages_bytes h pgs) \<and> bp_size to' = bp_size to \<and>
    size (bps_handles to') \<le> size (bps_handles to) + length pgs \<and>
    (case left of None \<Rightarrow> k \<le> length (pages_bytes h pgs)
     | Some j \<Rightarrow> rest = [] \<and> j = k - length (pages_bytes h pgs))"
  using assms
proof (induction pgs arbitrary: k to h)
  case Nil
  then show ?case by simp
next
  case (Cons p pgs)
  let ?xs = "page_bytes h p" and ?ys = "pages_bytes h pgs" and ?F = "pages_handles pgs + M"
  have pre: "heap_ok h (page_handles p + (bps_handles to + ?F))"
    "length ?xs + METADATA_SIZE < 4294967296" using Cons.prems by (simp_all add: ac_simps)
  have szp: "size (pages_handles qs) \<le> length qs" for qs
  proof (induction qs)
    case (Cons q qs)
    then show ?case using size_page_handles [of q] by simp
  qed simp
  have few: "size ?F + size (bps_handles to) < 4294967294" using Cons.prems(4) szp [of pgs] by simp
  let ?k = "min (length ?xs) k"
  obtain front rest to1 h1 h2 where s: "page_split_to p ?k h = Some (front, rest, h1)"
    "bps_append front to h1 = Some (to1, h2)" "heap_ok h2 (page_handles rest + (bps_handles to1 + ?F))"
    "same_contents ?F h h2" "bps_bytes h2 to1 = bps_bytes h to @ take ?k ?xs"
    "page_bytes h2 rest = drop ?k ?xs" "bp_size to1 = bp_size to" "size (bps_handles to1) \<le> size (bps_handles to) + 1"
    using pre(1) Cons.prems(2) pre(2) few by (rule split_page_spec)
  have l: "page_len h p = Some (length ?xs)" by (rule page_okE(2) [OF pre(1)])
  have e: "page_is_empty h2 rest = Some (length ?xs \<le> k)"
    using page_is_empty_eq [OF s(3)] s(6) by (simp add: min_def)
  have ys: "pages_bytes h2 pgs = ?ys" using s(4) by (intro pages_bytes_same) simp
  show ?case
  proof (cases "length ?xs \<le> k")
    case False
    then show ?thesis
      using l s e ys by (simp add: Let_def ac_simps)
  next
    case True
    obtain h3 where d: "page_drop rest h2 = Some h3" "heap_ok h3 (bps_handles to1 + ?F)"
      "same_contents (bps_handles to1 + ?F) h2 h3" using s(3) by (rule page_drop_spec)
    have ys3: "pages_bytes h3 pgs = ?ys" using d(3) ys pages_bytes_same [of pgs h2 h3] by simp
    have to3: "bps_bytes h3 to1 = bps_bytes h to @ ?xs"
      using d(3) s(5) True bps_bytes_same [of to1 h2 h3] by (simp add: min_def)
    have "heap_ok h3 (pages_handles pgs + (bps_handles to1 + M))" using d(2) by (simp add: ac_simps)
    moreover have "bp_size to1 \<noteq> Unset" "length (pages_bytes h3 pgs) + METADATA_SIZE < 4294967296"
      "size M + size (bps_handles to1) + length pgs < 4294967290"
      using s(7,8) Cons.prems ys3 by simp_all
    ultimately obtain rs left to' h' where r: "pages_split_into pgs (k - ?k) to1 h3 = Some (rs, left, to', h')"
      "heap_ok h' (pages_handles rs + (bps_handles to' + M))" "same_contents M h3 h'"
      "bps_bytes h' to' = bps_bytes h3 to1 @ take (k - ?k) (pages_bytes h3 pgs)"
      "pages_bytes h' rs = drop (k - ?k) (pages_bytes h3 pgs)" "bp_size to' = bp_size to1"
      "size (bps_handles to') \<le> size (bps_handles to1) + length pgs"
      "case left of None \<Rightarrow> k - ?k \<le> length (pages_bytes h3 pgs)
       | Some j \<Rightarrow> rs = [] \<and> j = k - ?k - length (pages_bytes h3 pgs)"
      using Cons.IH [of h3 to1 "k - ?k"] by blast
    have "same_contents M h h'"
      using s(4) d(3) r(3) same_contents_trans [of M h h2 h3] same_contents_trans [of M h h3 h'] by simp
    moreover have "pages_split_into (p # pgs) k to h = Some (rs, left, to', h')"
      using l s(1,2) e True d(1) r(1) by (simp add: Let_def)
    ultimately show ?thesis
      using r s(7,8) ys3 to3 True by (auto simp: min_def split: option.splits)
  qed
qed

lemma split_into_spec:
  assumes ok: "heap_ok h (bps_handles ps + (bps_handles to + M))" and sz: "bp_size ps \<noteq> Unset" "bp_size to \<noteq> Unset"
    and r: "length (bps_bytes h ps) + METADATA_SIZE < 4294967296"
    and few: "size M + size (bps_handles to) + bps_num_pages ps < 4294967280"
  obtains ps' to' h' where "bps_split_into ps k to h = Some (ps', to', h')"
    and "heap_ok h' (bps_handles ps' + (bps_handles to' + M))" and "same_contents M h h'"
    and "bps_bytes h' to' = bps_bytes h to @ take k (bps_bytes h ps)"
    and "bps_bytes h' ps' = drop k (bps_bytes h ps)"
proof -
  let ?C = "cur_handles (bp_current ps)" and ?ys = "pages_bytes h (bp_pages ps)" and ?cs = "cur_bytes h (bp_current ps)"
  have szc: "size ?C \<le> 1" by (cases "bp_current ps") simp_all
  have "heap_ok h (pages_handles (bp_pages ps) + (bps_handles to + (?C + M)))"
    using ok by (simp add: bps_handles_def ac_simps)
  moreover have "length ?ys + METADATA_SIZE < 4294967296" using r by (simp add: bps_bytes_def)
  moreover have "size (?C + M) + size (bps_handles to) + length (bp_pages ps) < 4294967290"
    using few szc by (auto simp: bps_num_pages_def split: if_splits)
  ultimately obtain rest left to1 h1 where s: "pages_split_into (bp_pages ps) k to h = Some (rest, left, to1, h1)"
    "heap_ok h1 (pages_handles rest + (bps_handles to1 + (?C + M)))" "same_contents (?C + M) h h1"
    "bps_bytes h1 to1 = bps_bytes h to @ take k ?ys" "pages_bytes h1 rest = drop k ?ys" "bp_size to1 = bp_size to"
    "size (bps_handles to1) \<le> size (bps_handles to) + length (bp_pages ps)"
    "case left of None \<Rightarrow> k \<le> length ?ys | Some j \<Rightarrow> rest = [] \<and> j = k - length ?ys"
    using pages_split_into_spec [of h "bp_pages ps" to "?C + M" k] sz(2) by blast
  let ?ps = "ps\<lparr>bp_pages := rest\<rparr>"
  have cs: "cur_bytes h1 (bp_current ps) = ?cs" using s(3) by (intro cur_bytes_same) simp
  have ok1: "heap_ok h1 (bps_handles ?ps + (bps_handles to1 + M))" using s(2) by (simp add: bps_handles_def ac_simps)
  have b1: "bps_bytes h1 ?ps = drop k ?ys @ ?cs" using s(5) cs by (simp add: bps_bytes_def)
  consider (early) "k \<le> length ?ys" "bps_split_into ps k to h = Some (?ps, to1, h1)"
    | (nocur) "length ?ys < k" "bp_current ps = None" "bps_split_into ps k to h = Some (?ps, to1, h1)"
    | (cur) a where "length ?ys < k" "bp_current ps = Some a" "left = Some (k - length ?ys)" "rest = []"
    using s(1,8) by (cases left; cases "bp_current ps"; cases "length ?ys < k")
      (auto simp: bps_split_into_def bps_take_def Let_def)
  then show thesis
  proof cases
    case early
    then show thesis using that [of ?ps to1 h1] ok1 b1 s by (simp add: bps_bytes_def)
  next
    case nocur
    then show thesis using that [of ?ps to1 h1] ok1 b1 s by (simp add: bps_bytes_def)
  next
    case cur
    let ?qs = "?ps\<lparr>bp_current := None\<rparr>" and ?p = "PStorage a" and ?j = "k - length ?ys"
    have okp: "heap_ok h1 (page_handles ?p + (bps_handles to1 + M))" using ok1 cur by (simp add: bps_handles_def)
    have bp: "page_bytes h1 ?p = ?cs" using cs cur by simp
    have j: "min (length ?cs) ?j = length (take ?j ?cs)" by simp
    have "length (page_bytes h1 ?p) + METADATA_SIZE < 4294967296" using r bp by (simp add: bps_bytes_def)
    moreover have "size M + size (bps_handles to1) < 4294967294" using s(7) few by (auto simp: bps_num_pages_def split: if_splits)
    ultimately obtain front q to2 h2 h3 where t: "page_split_to ?p (min (length ?cs) ?j) h1 = Some (front, q, h2)"
      "bps_append front to1 h2 = Some (to2, h3)" "heap_ok h3 (page_handles q + (bps_handles to2 + M))"
      "same_contents M h1 h3" "bps_bytes h3 to2 = bps_bytes h1 to1 @ take (min (length ?cs) ?j) (page_bytes h1 ?p)"
      "page_bytes h3 q = drop (min (length ?cs) ?j) (page_bytes h1 ?p)" "bp_size to2 = bp_size to1"
      using okp s(6) sz(2) split_page_spec [of h1 ?p to1 M] by metis
    have "heap_ok h3 (page_handles q + (bps_handles ?qs + (bps_handles to2 + M)))"
      using t(3) cur by (simp add: bps_handles_def)
    moreover have "bp_size ?qs \<noteq> Unset" using sz by simp
    ultimately obtain ps' h' where u: "bps_append q ?qs h3 = Some (ps', h')" "heap_ok h' (bps_handles ps' + (bps_handles to2 + M))"
      "same_contents (bps_handles to2 + M) h3 h'" "bps_bytes h' ps' = bps_bytes h3 ?qs @ page_bytes h3 q"
      by (rule append_spec)
    have "page_len h1 ?p = Some (length ?cs)" using page_okE(2) [OF okp] bp by simp
    then have "bps_split_into ps k to h = Some (ps', to2, h')"
      using s(1) cur t(1,2) u(1) by (simp add: bps_split_into_def bps_take_def Let_def del: page_len.simps)
    moreover have "same_contents M h h'"
      using s(3) t(4) u(3) same_contents_trans [of M h h1 h3] same_contents_trans [of M h h3 h'] by simp
    moreover have "bps_bytes h' to2 = bps_bytes h3 to2" using u(3) by (intro bps_bytes_same) simp
    ultimately show thesis
      using that [of ps' to2 h'] u t s(4) bp cur by (simp add: bps_bytes_def min_def split: if_splits)
  qed
qed

section \<open>Freezing\<close>

lemma pages_len_eq:
  "heap_ok h (pages_handles pgs + M) \<Longrightarrow> pages_len h pgs c = Some (c + length (pages_bytes h pgs))"
proof (induction pgs arbitrary: c M)
  case (Cons p pgs)
  have "heap_ok h (page_handles p + (pages_handles pgs + M))" using Cons.prems by (simp add: ac_simps)
  moreover have "heap_ok h (pages_handles pgs + (page_handles p + M))" using Cons.prems by (simp add: ac_simps)
  ultimately show ?case using Cons.IH page_okE(2) by simp
qed simp

lemma pages_all_empty_eq:
  "heap_ok h (pages_handles pgs + M) \<Longrightarrow> pages_all_empty h pgs = Some (pages_bytes h pgs = [])"
proof (induction pgs arbitrary: M)
  case (Cons p pgs)
  have "heap_ok h (page_handles p + (pages_handles pgs + M))" using Cons.prems by (simp add: ac_simps)
  moreover have "heap_ok h (pages_handles pgs + (page_handles p + M))" using Cons.prems by (simp add: ac_simps)
  ultimately show ?case using Cons.IH page_is_empty_eq by simp
qed simp

lemma current_len_eq:
  assumes "heap_ok h (bps_handles ps + M)"
  shows "bps_current_len h ps = Some (length (cur_bytes h (bp_current ps)))"
proof (cases "bp_current ps")
  case (Some a)
  then have "heap_ok h (page_handles (PStorage a) + (pages_handles (bp_pages ps) + M))"
    using assms by (simp add: bps_handles_def)
  from page_okE(2) [OF this] show ?thesis using Some by (simp add: bps_current_len_def)
qed (simp add: bps_current_len_def)

lemma bps_len_eq:
  assumes "heap_ok h (bps_handles ps + M)"
  shows "bps_len h ps = Some (length (bps_bytes h ps))" and "bps_is_empty h ps = Some (bps_bytes h ps = [])"
proof -
  have "heap_ok h (pages_handles (bp_pages ps) + (cur_handles (bp_current ps) + M))"
    using assms by (simp add: bps_handles_def ac_simps)
  then show "bps_len h ps = Some (length (bps_bytes h ps))" and "bps_is_empty h ps = Some (bps_bytes h ps = [])"
    using current_len_eq [OF assms] pages_len_eq pages_all_empty_eq
    by (simp_all add: bps_len_def bps_is_empty_def bps_bytes_def)
qed

lemma drain_into_spec:
  assumes "heap_ok h (bps_handles ps + add_mset (HMut a) M)" and "sv_as_ref a h = Some xs"
    and "length xs + length (bps_bytes h ps) + METADATA_SIZE < 4294967296"
  shows "\<exists>ps' a' h'. bps_drain_into ps a h = Some (ps', a', h') \<and> heap_ok h' (add_mset (HMut a') M) \<and>
    same_contents M h h' \<and> sv_as_ref a' h' = Some (xs @ bps_bytes h ps) \<and> bps_handles ps' = {#}"
  using assms
proof (induction "bps_num_pages ps" arbitrary: ps a h xs rule: less_induct)
  case less
  obtain r ps1 where t: "bps_take ps = (r, ps1)" by (cases "bps_take ps")
  show ?case
  proof (cases r)
    case None
    then show ?thesis using less.prems t bps_takeE(1) [OF t] by (simp add: bps_drain_into.simps [of ps])
  next
    case (Some p)
    have e: "bps_handles ps = page_handles p + bps_handles ps1" "bps_bytes h ps = page_bytes h p @ bps_bytes h ps1"
      using bps_takeE(2) [OF t Some] by simp_all
    let ?ys = "page_bytes h p"
    have okp: "heap_ok h (page_handles p + (bps_handles ps1 + add_mset (HMut a) M))"
      "heap_ok h (add_mset (HMut a) (page_handles p + (bps_handles ps1 + M)))"
      using less.prems e by (simp_all add: ac_simps)
    have "length xs + length ?ys + METADATA_SIZE < 4294967296" using less.prems(3) e by simp
    with okp(2) less.prems(2) obtain a1 h1 where w: "bm_put_slice a ?ys h = Some (a1, h1)"
      "heap_ok h1 (add_mset (HMut a1) (page_handles p + (bps_handles ps1 + M)))"
      "same_contents (page_handles p + (bps_handles ps1 + M)) h h1" "sv_as_ref a1 h1 = Some (xs @ ?ys)"
      by (rule bm_put_slice_spec)
    have "heap_ok h1 (page_handles p + add_mset (HMut a1) (bps_handles ps1 + M))" using w(2) by (simp add: ac_simps)
    then obtain h2 where d: "page_drop p h1 = Some h2" "heap_ok h2 (add_mset (HMut a1) (bps_handles ps1 + M))"
      "same_contents (add_mset (HMut a1) (bps_handles ps1 + M)) h1 h2" by (rule page_drop_spec)
    have b2: "bps_bytes h2 ps1 = bps_bytes h ps1"
      using w(3) d(3) bps_bytes_same [of ps1 h h1] bps_bytes_same [of ps1 h1 h2] by simp
    have "heap_ok h2 (bps_handles ps1 + add_mset (HMut a1) M)" "sv_as_ref a1 h2 = Some (xs @ ?ys)"
      "length (xs @ ?ys) + length (bps_bytes h2 ps1) + METADATA_SIZE < 4294967296"
      "bps_num_pages ps1 < bps_num_pages ps"
      using d w(4) b2 e less.prems(3) t Some by (simp_all add: ac_simps bps_take_num_pages)
    then obtain ps' a' h' where r: "bps_drain_into ps1 a1 h2 = Some (ps', a', h')" "heap_ok h' (add_mset (HMut a') M)"
      "same_contents M h2 h'" "sv_as_ref a' h' = Some ((xs @ ?ys) @ bps_bytes h2 ps1)" "bps_handles ps' = {#}"
      using less.hyps [of ps1 h2 a1 "xs @ ?ys"] by blast
    have "same_contents M h h'"
      using w(3) d(3) r(3) same_contents_trans [of M h h1 h2] same_contents_trans [of M h h2 h'] by simp
    moreover have "bps_drain_into ps a h = Some (ps', a', h')"
      using t Some page_okE(1) [OF okp(1)] w(1) d(1) r(1) by (simp add: bps_drain_into.simps [of ps])
    ultimately show ?thesis using r e b2 by simp
  qed
qed

lemma freeze_spec:
  assumes ok: "heap_ok h (bps_handles ps + M)" and r: "length (bps_bytes h ps) + METADATA_SIZE < 4294967296"
  obtains st ps' h' where "bps_freeze ps h = Some (st, ps', h')"
    and "heap_ok h' (add_mset (HBytes st) (bps_handles ps' + M))" and "same_contents M h h'"
    and "st_as_ref st h' = Some (bps_bytes h ps)"
proof -
  note len = bps_len_eq [OF ok]
  consider (empty) "bps_bytes h ps = []" | (one) "bps_bytes h ps \<noteq> []" "bps_num_pages ps = 1"
    | (many) "bps_bytes h ps \<noteq> []" "bps_num_pages ps \<noteq> 1" by blast
  then show thesis
  proof cases
    case empty
    then show thesis using that [of storage_empty ps h] ok len by (simp add: bps_freeze_def heap_ok_add_free)
  next
    case one
    obtain p ps1 where t: "bps_take ps = (Some p, ps1)"
      using one bps_takeE(1) [of ps None] by (cases "bps_take ps"; cases "fst (bps_take ps)") auto
    have e: "bps_handles ps = page_handles p + bps_handles ps1" "bps_bytes h ps = page_bytes h p @ bps_bytes h ps1"
      using bps_takeE(2) [OF t refl] by simp_all
    have "bps_num_pages ps1 = 0" using bps_take_num_pages [OF t] one by simp
    then have nil: "bps_bytes h ps1 = []" "bps_handles ps1 = {#}"
      by (auto simp: bps_num_pages_def bps_bytes_def bps_handles_def split: if_splits)
    have "heap_ok h (page_handles p + M)" "length (page_bytes h p) + METADATA_SIZE < 4294967296"
      using ok e r nil by simp_all
    then obtain st h' where "page_freeze p h = Some (st, h')" "heap_ok h' (add_mset (HBytes st) M)"
      "same_contents M h h'" "st_as_ref st h' = Some (page_bytes h p)" by (rule page_freeze_spec)
    then show thesis using that [of st ps1 h'] t one len e nil by (simp add: bps_freeze_def)
  next
    case many
    let ?F = "bps_handles ps + M" and ?n = "length (bps_bytes h ps)"
    have nz: "bps_num_pages ps \<noteq> 0" using many by (auto simp: bps_num_pages_def bps_bytes_def split: if_splits)
    have u: "Unset \<noteq> Unset \<Longrightarrow> ?n = page_capacity Unset" "length ([] :: u8 list) \<le> ?n" by simp_all
    obtain a h1 where c: "sv_create Unset ?n [] h = Some (a, h1)" "heap_ok h1 (add_mset (HMut a) ?F)"
      "same_contents ?F h h1" "sv_as_ref a h1 = Some []"
      using ok r u(2,1) by (rule sv_create_spec)
    have b1: "bps_bytes h1 ps = bps_bytes h ps" using c(3) by (intro bps_bytes_same) simp
    have "heap_ok h1 (bps_handles ps + add_mset (HMut a) M)" using c(2) by (simp add: ac_simps)
    then obtain ps' a' h2 where d: "bps_drain_into ps a h1 = Some (ps', a', h2)" "heap_ok h2 (add_mset (HMut a') M)"
      "same_contents M h1 h2" "sv_as_ref a' h2 = Some ([] @ bps_bytes h1 ps)" "bps_handles ps' = {#}"
      using drain_into_spec [of h1 ps a M "[]"] c(4) r b1 by auto
    obtain st h' where f: "sv_freeze a' h2 = Some (st, h')" "heap_ok h' (add_mset (HBytes st) M)"
      "same_contents M h2 h'" "st_as_ref st h' = Some ([] @ bps_bytes h1 ps)"
      using d(2,4) by (rule sv_freeze_spec)
    have "same_contents M h h'"
      using c(3) d(3) f(3) same_contents_trans [of M h h1 h2] same_contents_trans [of M h h2 h'] by simp
    then show thesis
      using that [of st ps' h'] many nz len c d f b1 by (simp add: bps_freeze_def sv_with_capacity_def)
  qed
qed

end
