(* ===== verification/Pages_Props.thy ===== *)
theory Pages_Props
  imports Pages_Split Bytes_World
begin

text \<open>The properties of the paged buffer, and two places where pages alias or overflow.\<close>

section \<open>Writing and reading back\<close>

fun bps_put_all :: "u8 list list \<Rightarrow> byte_pages \<Rightarrow> heap \<Rightarrow> (byte_pages \<times> heap) option" where
  "bps_put_all [] ps h = Some (ps, h)"
| "bps_put_all (x # xs) ps h = do { (ps, h) \<leftarrow> bps_put_slice x ps h; bps_put_all xs ps h }"

lemma put_all_spec:
  assumes "heap_ok h (bps_handles ps + M)" and "bp_size ps \<noteq> Unset"
  shows "\<exists>ps' h'. bps_put_all xs ps h = Some (ps', h') \<and> heap_ok h' (bps_handles ps' + M) \<and>
    same_contents M h h' \<and> bps_bytes h' ps' = bps_bytes h ps @ concat xs \<and> bp_size ps' = bp_size ps"
  using assms
proof (induction xs arbitrary: ps h)
  case (Cons x xs)
  obtain ps1 h1 where p: "bps_put_slice x ps h = Some (ps1, h1)" "heap_ok h1 (bps_handles ps1 + M)"
    "same_contents M h h1" "bps_bytes h1 ps1 = bps_bytes h ps @ x" "bp_size ps1 = bp_size ps"
    using put_slice_spec [OF Cons.prems] by blast
  then obtain ps' h' where q: "bps_put_all xs ps1 h1 = Some (ps', h')" "heap_ok h' (bps_handles ps' + M)"
    "same_contents M h1 h'" "bps_bytes h' ps' = bps_bytes h1 ps1 @ concat xs" "bp_size ps' = bp_size ps1"
    using Cons.IH [of h1 ps1] Cons.prems by auto
  have "same_contents M h h'" using p(3) q(3) by (rule same_contents_trans)
  then show ?case using p q by simp
qed simp

lemma bps_new_simps [simp]:
  "bps_handles (bps_new sz) = {#}" "bps_bytes h (bps_new sz) = []" "bp_size (bps_new sz) = sz"
  by (simp_all add: bps_new_def bps_handles_def bps_bytes_def)

text \<open>C12. Writing slices to a \<open>BytePages\<close> returns for every input, whatever page boundaries they cross,
  and \<open>freeze\<close> gives back their concatenation; no buffer outside is affected.\<close>

theorem byte_pages_roundtrip:
  assumes "heap_ok h M" and "sz \<noteq> Unset" and "room (length (concat xs))"
  shows "\<exists>ps h1 st ps' h2. bps_put_all xs (bps_new sz) h = Some (ps, h1) \<and>
    bps_freeze ps h1 = Some (st, ps', h2) \<and> st_as_ref st h2 = Some (concat xs) \<and>
    heap_ok h2 (add_mset (HBytes st) (bps_handles ps' + M)) \<and> same_contents M h h2"
proof -
  obtain ps h1 where p: "bps_put_all xs (bps_new sz) h = Some (ps, h1)" "heap_ok h1 (bps_handles ps + M)"
    "same_contents M h h1" "bps_bytes h1 ps = concat xs"
    using put_all_spec [of h "bps_new sz" M xs] assms by auto
  have "length (bps_bytes h1 ps) + METADATA_SIZE < 4294967296" using assms(3) p(4) by (simp add: room_def)
  with p(2) obtain st ps' h2 where "bps_freeze ps h1 = Some (st, ps', h2)"
    "heap_ok h2 (add_mset (HBytes st) (bps_handles ps' + M))" "same_contents M h1 h2"
    "st_as_ref st h2 = Some (bps_bytes h1 ps)" by (rule freeze_spec)
  moreover from this have "same_contents M h h2" using p(3) same_contents_trans by blast
  ultimately show ?thesis using p by auto
qed

theorem byte_pages_roundtrip_witness:
  "\<exists>ps h1 st ps' h2. bps_put_all [[1, 2], [3]] (bps_new Size4) heap_new = Some (ps, h1) \<and>
    bps_freeze ps h1 = Some (st, ps', h2) \<and> st_as_ref st h2 = Some (concat [[1, 2], [3]]) \<and>
    heap_ok h2 (add_mset (HBytes st) (bps_handles ps' + {#})) \<and> same_contents {#} heap_new h2"
  by (rule byte_pages_roundtrip) (simp_all add: heap_new_ok room_def)

text \<open>C13. \<open>split_into\<close> moves exactly the first bytes of a queue behind the contents of another one,
  without reordering, losing or duplicating a byte, and whatever mixture of representations the
  pages have.\<close>

theorem byte_pages_split:
  assumes "heap_ok h (bps_handles ps + (bps_handles to + M))" and "bp_size ps \<noteq> Unset" and "bp_size to \<noteq> Unset"
    and "room (length (bps_bytes h ps))" and "size M + size (bps_handles to) + bps_num_pages ps < 4294967280"
  shows "\<exists>ps' to' h'. bps_split_into ps k to h = Some (ps', to', h') \<and>
    bps_bytes h' to' = bps_bytes h to @ take k (bps_bytes h ps) \<and>
    bps_bytes h' ps' = drop k (bps_bytes h ps) \<and>
    heap_ok h' (bps_handles ps' + (bps_handles to' + M)) \<and> same_contents M h h'"
proof -
  have "length (bps_bytes h ps) + METADATA_SIZE < 4294967296" using assms(4) by (simp add: room_def)
  with assms(1-3) obtain ps' to' h' where "bps_split_into ps k to h = Some (ps', to', h')"
    "heap_ok h' (bps_handles ps' + (bps_handles to' + M))" "same_contents M h h'"
    "bps_bytes h' to' = bps_bytes h to @ take k (bps_bytes h ps)" "bps_bytes h' ps' = drop k (bps_bytes h ps)"
    using assms(5) by (rule split_into_spec)
  then show ?thesis by blast
qed

theorem byte_pages_split_witness:
  "\<exists>ps' to' h'. bps_split_into \<lparr>bp_size = Size8, bp_pages = [PVec [1, 2, 3], PBytes (Storage_Static [4])],
      bp_current = None\<rparr> 2 (bps_new Size8) heap_new = Some (ps', to', h') \<and>
    bps_bytes h' to' = bps_bytes heap_new (bps_new Size8) @ take 2 [1, 2, 3, 4] \<and>
    bps_bytes h' ps' = drop 2 [1, 2, 3, 4] \<and>
    heap_ok h' (bps_handles ps' + (bps_handles to' + {#})) \<and> same_contents {#} heap_new h'"
proof -
  let ?ps = "\<lparr>bp_size = Size8, bp_pages = [PVec [1, 2, 3], PBytes (Storage_Static [4])], bp_current = None\<rparr>"
  have b: "bps_bytes heap_new ?ps = [1, 2, 3, 4]"
    by (simp add: bps_bytes_def page_bytes_def st_as_ref_def)
  have "heap_ok heap_new (bps_handles ?ps + (bps_handles (bps_new Size8) + {#}))"
    using heap_new_ok by (simp add: bps_handles_def [of "\<lparr>bp_size = _, bp_pages = _, bp_current = _\<rparr>"] heap_ok_add_free)
  from byte_pages_split [OF this, of 2] show ?thesis
    unfolding b by (simp add: room_def bps_num_pages_def)
qed

section \<open>A full page under construction\<close>

lemma put_fills:
  assumes ok: "heap_ok h (bps_handles ps + M)" and sz: "bp_size ps \<noteq> Unset"
    and a: "bp_current ps = Some a" and b: "hp_get h a = Some b"
    and len: "length src = sv_remaining b" and ne: "src \<noteq> []"
  obtains h' b' where "bps_put src ps h = Some (ps, h')" and "heap_ok h' (bps_handles ps + M)"
    and "bps_bytes h' ps = bps_bytes h ps @ src" and "hp_get h' a = Some b'" and "sv_remaining b' = 0"
proof -
  let ?F = "pages_handles (bp_pages ps) + M"
  have ok': "heap_ok h (add_mset (HMut a) ?F)" using ok a by (simp add: heap_ok_bps_current)
  obtain c where c: "sv_as_ref a h = Some (page_bytes h (PStorage a))" using ok' by (rule cur_okE)
  have "length src \<le> sv_remaining b" using len by simp
  with ok' c b obtain h1 h' where w: "sv_write_tail a src h = Some h1"
    "sv_set_len a (sv_len b + length src) h1 = Some h'" "heap_ok h' (add_mset (HMut a) ?F)"
    "same_contents ?F h h'" "sv_as_ref a h' = Some (page_bytes h (PStorage a) @ src)"
    "\<exists>b'. hp_get h' a = Some b' \<and> sv_remaining b' = sv_remaining b - length src" by (rule sv_append_spec)
  obtain b1 where "hp_get h1 a = Some b1" "sv_len b1 = sv_len b"
    using w(1) b by (auto simp: sv_write_tail_def bind_eq_Some_conv)
  then have adv: "bps_advance_mut (length src) ps h1 = Some h'"
    using w(2) a by (simp add: bps_advance_mut_def)
  have "bps_chunk_mut ps h = Some (sv_remaining b, ps, h)"
    using a b by (cases ps) (simp add: bps_chunk_mut_def bps_take_current_def)
  then have "bps_put_loop src ps h = Some (ps, h')"
    using ne a len w(1) adv
    by (simp add: bps_put_loop.simps [of src] bps_put_loop.simps [of "[]"] Let_def)
  then have put: "bps_put src ps h = Some (ps, h')"
    using a b len by (simp add: bps_put_def bps_remaining_mut_def)
  have "pages_bytes h' (bp_pages ps) = pages_bytes h (bp_pages ps)" using w(4) by (intro pages_bytes_same) simp
  moreover have "page_bytes h' (PStorage a) = page_bytes h (PStorage a) @ src" using w(5) by (simp add: page_bytes_def)
  ultimately have "bps_bytes h' ps = bps_bytes h ps @ src" using a by (simp add: bps_bytes_def)
  moreover have "heap_ok h' (bps_handles ps + M)" using w(3) a by (simp add: heap_ok_bps_current)
  ultimately show thesis using that put w(6) len by auto
qed



section \<open>Cloned pages\<close>

text \<open>A clone of a page that holds a vector shares its cursor: advancing the clone, as a partial
  write to a socket does, removes the same bytes from the original.\<close>

theorem byte_page_clone_shares_cursor:
  assumes "hp_get h a = Some b" and "block_ok b" and "sv_ref_count b < 4294967295"
    and "sv_as_ref a h = Some xs" and "n \<le> length xs"
  shows "\<exists>h1 h2. page_clone (PStorage a) h = Some (PStorage a, h1) \<and>
    page_as_ref h1 (PStorage a) = Some xs \<and>
    page_advance_to (PStorage a) n h1 = Some (PStorage a, h2) \<and>
    page_as_ref h2 (PStorage a) = Some (drop n xs)"
proof -
  let ?b = "b\<lparr>sv_ref_count := sv_ref_count b + 1\<rparr>"
  have sl: "mem_slice (sv_mem b) (sv_offset b) (sv_len b) = Some xs" using assms(1,4) by (simp add: sv_as_ref_def)
  have len: "length xs = sv_len b" by (rule mem_slice_length [OF sl])
  have "block_ok ?b" using assms(2) by (simp add: block_ok_def)
  then have "sv_set_start a n (hp_upd h a ?b) = Some (hp_upd h a (?b\<lparr>sv_offset := sv_offset b + n,
      sv_len := sv_len b - n, sv_capacity := sv_capacity b - n\<rparr>))"
    using sv_set_start_eq [of "hp_upd h a ?b" a ?b n] assms(5) len by simp
  moreover have "as_u32 n = n" using assms(2,5) len by (auto simp: block_ok_def)
  moreover have "mem_slice (sv_mem b) (sv_offset b + n) (sv_len b - n) = Some (drop n xs)"
    using mem_slice_drop [OF sl] assms(5) len by simp
  ultimately show ?thesis
    using assms(1,3) sl by (simp add: sv_incr_ref_def sv_as_ref_def)
qed

theorem byte_page_clone_shares_cursor_witness:
  "\<exists>h a h1 h2. page_clone (PStorage a) h = Some (PStorage a, h1) \<and>
    page_as_ref h1 (PStorage a) = Some [1, 2, 3] \<and>
    page_advance_to (PStorage a) 2 h1 = Some (PStorage a, h2) \<and>
    page_as_ref h2 (PStorage a) = Some (drop 2 [1, 2, 3])"
proof -
  have c: "(3 :: nat) + METADATA_SIZE < 4294967296" "length [1 :: u8, 2, 3] \<le> 3"
    "Unset \<noteq> Unset \<Longrightarrow> 3 = page_capacity Unset" by simp_all
  obtain a h b where s: "heap_ok h (add_mset (HMut a) {#})" "sv_as_ref a h = Some [1, 2, 3]"
    "hp_get h a = Some b" "sv_ref_count b = 1"
    using heap_new_ok c by (rule sv_create_spec)
  have bk: "block_ok b" using s(1) by (rule heap_ok_mutE) (use s(3) in simp)
  have "sv_ref_count b < 4294967295" "2 \<le> length [1 :: u8, 2, 3]" using s by simp_all
  from byte_page_clone_shares_cursor [OF s(3) bk this(1) s(2) this(2)] show ?thesis by blast
qed

end
