(* ===== verification/Io_Config.thy ===== *)
theory Io_Config
  imports Time_Types Bytes_Api
begin

text \<open>
  The configuration of a stream, \<open>io/cfg.rs\<close>: the water marks of the read and write buffers, the timeouts, and the
  per-thread pool of read buffers (\<open>LocalCache\<close>) that \<open>BufConfig::get\<close> and \<open>BufConfig::release\<close> share. The buffers are
  the \<open>BytesMut\<close> blocks of the heap of \<open>Bytes_Mem\<close>, so the pool is a table of block addresses. The loop of
  \<open>BufConfig::resize_min\<close> is a partial function: it does not return when the high water mark is 0 and more room is
  needed, and it returns in all other cases; what it returns has the room asked for and the bytes of the old buffer.
\<close>

section \<open>Configuration values\<close>

definition DEFAULT_CACHE_SIZE :: nat where "DEFAULT_CACHE_SIZE = 128"
definition DEFAULT_HIGH :: nat where "DEFAULT_HIGH = 16 * 1024 - 24"
definition DEFAULT_LOW :: nat where "DEFAULT_LOW = 512 + 24"
definition DEFAULT_HALF :: nat where "DEFAULT_HALF = (16 * 1024 - 24) div 2"

record frame_read_rate =
  fr_timeout :: seconds
  fr_max_timeout :: seconds
  fr_rate :: u32

record buf_config =
  bc_high :: nat
  bc_low :: nat
  bc_half :: nat
  bc_idx :: nat
  bc_first :: bool
  bc_cache_size :: nat

record io_config =
  cf_connect_timeout :: millis
  cf_keepalive_timeout :: seconds
  cf_disconnect_timeout :: seconds
  cf_frame_read_rate :: "frame_read_rate option"
  cf_read_buf :: buf_config
  cf_write_buf :: buf_config
  cf_write_page_size :: byte_page_size
  cf_write_buf_threshold :: nat

definition default_buf_config :: "nat \<Rightarrow> bool \<Rightarrow> buf_config" where
  "default_buf_config idx first = \<lparr>bc_high = DEFAULT_HIGH, bc_low = DEFAULT_LOW, bc_half = DEFAULT_HALF,
     bc_idx = idx, bc_first = first, bc_cache_size = DEFAULT_CACHE_SIZE\<rparr>"

definition io_config_new :: "nat \<Rightarrow> io_config" where
  "io_config_new idx = \<lparr>cf_connect_timeout = MILLIS_ZERO, cf_keepalive_timeout = Seconds 0,
     cf_disconnect_timeout = Seconds 1, cf_frame_read_rate = None,
     cf_read_buf = default_buf_config idx True, cf_write_buf = default_buf_config idx False,
     cf_write_page_size = Size16, cf_write_buf_threshold = page_half_capacity Size16\<rparr>"

definition cfg_set_ctx :: "nat \<Rightarrow> io_config \<Rightarrow> io_config" where
  "cfg_set_ctx idx c = c\<lparr>cf_read_buf := (cf_read_buf c)\<lparr>bc_idx := idx\<rparr>, cf_write_buf := (cf_write_buf c)\<lparr>bc_idx := idx\<rparr>\<rparr>"

definition set_connect_timeout :: "millis \<Rightarrow> io_config \<Rightarrow> io_config" where
  "set_connect_timeout t c = c\<lparr>cf_connect_timeout := t\<rparr>"

definition set_keepalive_timeout :: "seconds \<Rightarrow> io_config \<Rightarrow> io_config" where
  "set_keepalive_timeout t c = c\<lparr>cf_keepalive_timeout := t\<rparr>"

definition set_disconnect_timeout :: "seconds \<Rightarrow> io_config \<Rightarrow> io_config" where
  "set_disconnect_timeout t c = c\<lparr>cf_disconnect_timeout := t\<rparr>"

definition set_frame_read_rate :: "seconds \<Rightarrow> seconds \<Rightarrow> u32 \<Rightarrow> io_config \<Rightarrow> io_config" where
  "set_frame_read_rate timeout max_timeout rate c =
     c\<lparr>cf_frame_read_rate := Some \<lparr>fr_timeout = timeout, fr_max_timeout = max_timeout, fr_rate = rate\<rparr>\<rparr>"

definition set_read_buf :: "nat \<Rightarrow> nat \<Rightarrow> nat \<Rightarrow> io_config \<Rightarrow> io_config" where
  "set_read_buf high low cache_size c =
     c\<lparr>cf_read_buf := (cf_read_buf c)\<lparr>bc_cache_size := cache_size, bc_high := high, bc_low := low, bc_half := high div 2\<rparr>\<rparr>"

definition set_write_page_size :: "byte_page_size \<Rightarrow> io_config \<Rightarrow> io_config" where
  "set_write_page_size sz c = c\<lparr>cf_write_page_size := sz\<rparr>"

definition set_write_buf_threshold :: "nat \<Rightarrow> io_config \<Rightarrow> io_config" where
  "set_write_buf_threshold n c = c\<lparr>cf_write_buf_threshold := n\<rparr>"

definition set_write_buf :: "nat \<Rightarrow> nat \<Rightarrow> nat \<Rightarrow> io_config \<Rightarrow> io_config" where
  "set_write_buf high low cache_size c =
     c\<lparr>cf_write_buf := (cf_write_buf c)\<lparr>bc_cache_size := cache_size, bc_high := high, bc_low := low, bc_half := high div 2\<rparr>\<rparr>"

section \<open>The pool of read buffers\<close>

type_synonym local_cache = "(nat list \<times> nat list) list"

definition local_cache_new :: local_cache where
  "local_cache_new = []"

function local_cache_grow :: "nat \<Rightarrow> local_cache \<Rightarrow> local_cache" where
  "local_cache_grow idx c = (if length c \<le> idx then local_cache_grow idx (c @ [([], [])]) else c)"
  by pat_completeness auto
termination by (relation "measure (\<lambda>(idx, c). Suc idx - length c)") auto

declare local_cache_grow.simps [simp del]

definition local_cache_with :: "nat \<Rightarrow> bool \<Rightarrow> (nat list \<Rightarrow> 'r \<times> nat list) \<Rightarrow> local_cache \<Rightarrow> 'r \<times> local_cache" where
  "local_cache_with idx first f c =
     (let c = local_cache_grow idx c; (x, y) = c ! idx in
      if first then (let (r, x) = f x in (r, c[idx := (x, y)]))
      else (let (r, y) = f y in (r, c[idx := (x, y)])))"

text \<open>\<open>Vec::pop\<close> takes the last element.\<close>

definition vec_pop :: "'a list \<Rightarrow> 'a option \<times> 'a list" where
  "vec_pop xs = (if xs = [] then (None, []) else (Some (last xs), butlast xs))"

definition bc_get :: "buf_config \<Rightarrow> local_cache \<Rightarrow> heap \<Rightarrow> (nat \<times> local_cache \<times> heap) option" where
  "bc_get cfg c h =
     (case local_cache_with (bc_idx cfg) (bc_first cfg) vec_pop c of
        (Some a, c) \<Rightarrow> Some (a, c, h)
      | (None, c) \<Rightarrow> do { (a, h) \<leftarrow> sv_with_capacity (bc_high cfg) h; Some (a, c, h) })"

text \<open>Addition on \<open>usize\<close>: it panics on overflow.\<close>

abbreviation (input) usize_limit :: nat where
  "usize_limit \<equiv> 18446744073709551616"

definition usize_add :: "nat \<Rightarrow> nat \<Rightarrow> nat option" where
  "usize_add x y = (if x + y < usize_limit then Some (x + y) else None)"

text \<open>
  The loop of \<open>resize_min\<close>. The outer option says whether the loop returns, the inner one whether its additions stay
  in range.
\<close>

partial_function (option) resize_loop :: "nat \<Rightarrow> nat \<Rightarrow> nat \<Rightarrow> nat \<Rightarrow> nat option option" where
  "resize_loop high n avail new_cap =
     (if avail < n
      then (case (usize_add avail high, usize_add new_cap high) of
              (Some avail, Some new_cap) \<Rightarrow> resize_loop high n avail new_cap
            | _ \<Rightarrow> Some None)
      else Some (Some new_cap))"

declare resize_loop.simps [code]

definition bc_resize_min :: "buf_config \<Rightarrow> nat \<Rightarrow> nat \<Rightarrow> heap \<Rightarrow> (nat \<times> heap) option option" where
  "bc_resize_min cfg a n h =
     (case hp_get h a of None \<Rightarrow> Some None
      | Some b \<Rightarrow>
          if sv_remaining b < n
          then do {
            r \<leftarrow> resize_loop (bc_high cfg) n (sv_remaining b) (sv_capacity b);
            Some (do { new_cap \<leftarrow> r; sv_reserve_capacity a new_cap h }) }
          else Some (Some (a, h)))"

definition bc_resize :: "buf_config \<Rightarrow> nat \<Rightarrow> heap \<Rightarrow> (nat \<times> heap) option option" where
  "bc_resize cfg a h =
     (case hp_get h a of None \<Rightarrow> Some None
      | Some b \<Rightarrow> if sv_remaining b < bc_low cfg then bc_resize_min cfg a (bc_high cfg) h else Some (Some (a, h)))"

definition bc_release :: "buf_config \<Rightarrow> nat \<Rightarrow> local_cache \<Rightarrow> heap \<Rightarrow> (local_cache \<times> heap) option" where
  "bc_release cfg a c h = do {
     b \<leftarrow> hp_get h a;
     if sv_capacity b > bc_low cfg \<and> sv_capacity b \<le> bc_high cfg
     then (case local_cache_with (bc_idx cfg) (bc_first cfg)
               (\<lambda>v. if length v < bc_cache_size cfg then (True, v @ [a]) else (False, v)) c of
             (True, c) \<Rightarrow> do { h \<leftarrow> bm_clear a h; Some (c, h) }
           | (False, c) \<Rightarrow> do { h \<leftarrow> release_shared_vec a h; Some (c, h) })
     else do { h \<leftarrow> release_shared_vec a h; Some (c, h) } }"

section \<open>The loop of resize_min\<close>

lemma resize_loop_zero:
  "resize_loop high n avail new_cap = Some r \<Longrightarrow> high = 0 \<longrightarrow> avail < usize_limit \<longrightarrow> new_cap < usize_limit \<longrightarrow> n \<le> avail"
  by (erule resize_loop.raw_induct [where P = "\<lambda>high n avail new_cap _. high = 0 \<longrightarrow> avail < usize_limit \<longrightarrow>
      new_cap < usize_limit \<longrightarrow> n \<le> avail", rotated])
    (fastforce simp: usize_add_def split: if_splits)

lemma resize_loop_step:
  "avail < n \<Longrightarrow> avail + high < usize_limit \<Longrightarrow> new_cap + high < usize_limit \<Longrightarrow>
    resize_loop high n avail new_cap = resize_loop high n (avail + high) (new_cap + high)"
  by (subst resize_loop.simps) (simp add: usize_add_def)

lemma resize_loop_done: "n \<le> avail \<Longrightarrow> resize_loop high n avail new_cap = Some (Some new_cap)"
  by (subst resize_loop.simps) simp

lemma resize_loop_exists:
  assumes "0 < high" and "avail \<le> new_cap" and "new_cap - avail + n + high < usize_limit"
  shows "\<exists>k. resize_loop high n avail new_cap = Some (Some (new_cap + k * high)) \<and> n \<le> avail + k * high \<and>
    (avail < n \<longrightarrow> avail + k * high < n + high) \<and> (n \<le> avail \<longrightarrow> k = 0)"
  using assms
proof (induction "n - avail" arbitrary: avail new_cap rule: less_induct)
  case less
  show ?case
  proof (cases "avail < n")
    case True
    have "n - (avail + high) < n - avail" "avail + high \<le> new_cap + high"
      "(new_cap + high) - (avail + high) + n + high < usize_limit" using True less.prems by simp_all
    from less.hyps [OF this(1) less.prems(1) this(2,3)] obtain k
      where k: "resize_loop high n (avail + high) (new_cap + high) = Some (Some (new_cap + high + k * high))"
        "n \<le> avail + high + k * high" "avail + high < n \<longrightarrow> avail + high + k * high < n + high"
        "n \<le> avail + high \<longrightarrow> k = 0" by blast
    have "avail + high < usize_limit" "new_cap + high < usize_limit" using True less.prems by linarith+
    then have "resize_loop high n avail new_cap = Some (Some (new_cap + Suc k * high))"
      using True k(1) by (simp add: resize_loop_step add.assoc)
    moreover have "avail + Suc k * high < n + high" using k(3,4) True by (cases "avail + high < n") auto
    ultimately show ?thesis using k(2) True by (intro exI [of _ "Suc k"]) simp
  qed (simp add: resize_loop_done exI [of _ 0])
qed

lemma bc_resize_min_spec:
  assumes ok: "heap_ok h (add_mset (HMut a) M)" and xs: "sv_as_ref a h = Some xs" and b: "hp_get h a = Some b"
    and high: "0 < bc_high cfg \<or> n \<le> sv_remaining b"
    and fits: "length xs + n + bc_high cfg + METADATA_SIZE < 4294967296"
  obtains a' h' b' where "bc_resize_min cfg a n h = Some (Some (a', h'))" and "heap_ok h' (add_mset (HMut a') M)"
    and "same_contents M h h'" and "sv_as_ref a' h' = Some xs" and "hp_get h' a' = Some b'" and "n \<le> sv_remaining b'"
proof (cases "n \<le> sv_remaining b")
  case True
  then show thesis using that ok xs b by (simp add: bc_resize_min_def)
next
  case False
  have bo: "block_ok b" "length xs = sv_len b" using ok xs by (rule mut_blockE, simp add: b)+
  then have len: "sv_capacity b = length xs + sv_remaining b" by (simp add: block_ok_def)
  then obtain k where k: "resize_loop (bc_high cfg) n (sv_remaining b) (sv_capacity b) = Some (Some (sv_capacity b + k * bc_high cfg))"
    "n \<le> sv_remaining b + k * bc_high cfg" "sv_remaining b + k * bc_high cfg < n + bc_high cfg"
    using resize_loop_exists [of "bc_high cfg" "sv_remaining b" "sv_capacity b" n] high fits False by auto
  let ?cap = "sv_capacity b + k * bc_high cfg"
  have "?cap + METADATA_SIZE < 4294967296" "length xs \<le> ?cap" using k(3) fits len by linarith+
  with ok xs obtain a' h' b' where r: "sv_reserve_capacity a ?cap h = Some (a', h')" "heap_ok h' (add_mset (HMut a') M)"
    "same_contents M h h'" "sv_as_ref a' h' = Some xs" "hp_get h' a' = Some b'" "sv_capacity b' = ?cap"
    by (rule sv_reserve_capacity_spec)
  have "block_ok b'" "length xs = sv_len b'" using r(2,4) by (rule mut_blockE, simp add: r(5))+
  then have "n \<le> sv_remaining b'" using r(6) k(2) len by (simp add: block_ok_def)
  then show thesis using that r False b k(1) by (simp add: bc_resize_min_def)
qed

lemma bc_resize_min_diverges:
  assumes "hp_get h a = Some b" and "block_ok b" and "bc_high cfg = 0" and "sv_remaining b < n"
  shows "bc_resize_min cfg a n h = None"
proof -
  have "sv_remaining b < usize_limit" "sv_capacity b < usize_limit" using assms(2) by (simp_all add: block_ok_def)
  then have "resize_loop 0 n (sv_remaining b) (sv_capacity b) = None"
    using resize_loop_zero [of 0 n "sv_remaining b" "sv_capacity b"] assms(4) by (cases "resize_loop 0 n (sv_remaining b) (sv_capacity b)") auto
  then show ?thesis using assms by (simp add: bc_resize_min_def)
qed

section \<open>The contract of the pool\<close>

definition pool_handles :: "local_cache \<Rightarrow> handle multiset" where
  "pool_handles c = mset (map HMut (concat (map (\<lambda>(x, y). x @ y) c)))"

definition pool_ok :: "local_cache \<Rightarrow> heap \<Rightarrow> handle multiset \<Rightarrow> bool" where
  "pool_ok c h M \<longleftrightarrow> heap_ok h (pool_handles c + M) \<and> (\<forall>x. x \<in># pool_handles c \<longrightarrow> content h x = Some [])"

lemma pool_handles_simps [simp]:
  "pool_handles [] = {#}" "pool_handles (xy # c) = mset (map HMut (fst xy @ snd xy)) + pool_handles c"
  "pool_handles (c @ d) = pool_handles c + pool_handles d"
  by (auto simp: pool_handles_def split: prod.split)

lemma pool_handles_update:
  "i < length c \<Longrightarrow> pool_handles (c[i := xy]) + mset (map HMut (fst (c ! i) @ snd (c ! i)))
    = pool_handles c + mset (map HMut (fst xy @ snd xy))"
proof (induction c arbitrary: i)
  case (Cons z c)
  then show ?case by (cases i) (simp_all add: add.assoc add.left_commute)
qed simp

lemma local_cache_grow_handles [simp]: "pool_handles (local_cache_grow idx c) = pool_handles c"
  by (induction idx c rule: local_cache_grow.induct) (subst local_cache_grow.simps, simp)

lemma local_cache_grow_length: "idx < length (local_cache_grow idx c)"
  by (induction idx c rule: local_cache_grow.induct) (subst local_cache_grow.simps, simp)

text \<open>What a table access does to the buffers held by the pool: those of the list it works on are replaced.\<close>

lemma local_cache_with_handles:
  assumes "local_cache_with idx first f c = (r, c')"
  obtains v v' where "f v = (r, v')" and "pool_handles c' + mset (map HMut v) = pool_handles c + mset (map HMut v')"
proof -
  let ?c = "local_cache_grow idx c"
  obtain x y where xy: "?c ! idx = (x, y)" by fastforce
  note upd = pool_handles_update [OF local_cache_grow_length [of idx c]]
  show thesis
  proof (cases first)
    case True
    then have "f x = (r, snd (f x))" "c' = ?c[idx := (snd (f x), y)]"
      using assms xy by (auto simp: local_cache_with_def Let_def split: prod.splits)
    then show thesis using that [of x "snd (f x)"] upd [of "(snd (f x), y)"] xy by (simp add: ac_simps)
  next
    case False
    then have "f y = (r, snd (f y))" "c' = ?c[idx := (x, snd (f y))]"
      using assms xy by (auto simp: local_cache_with_def Let_def split: prod.splits)
    then show thesis using that [of y "snd (f y)"] upd [of "(x, snd (f y))"] xy by (simp add: ac_simps)
  qed
qed

lemma bc_get_spec:
  assumes ok: "pool_ok c h M" and high: "bc_high cfg + METADATA_SIZE < 4294967296"
  obtains a c' h' where "bc_get cfg c h = Some (a, c', h')" and "pool_ok c' h' (add_mset (HMut a) M)"
    and "same_contents M h h'" and "sv_as_ref a h' = Some []"
proof -
  obtain r c' where w: "local_cache_with (bc_idx cfg) (bc_first cfg) vec_pop c = (r, c')" by fastforce
  then obtain v v' where v: "vec_pop v = (r, v')" "pool_handles c' + mset (map HMut v) = pool_handles c + mset (map HMut v')"
    by (rule local_cache_with_handles)
  have hok: "heap_ok h (pool_handles c + M)" using ok by (simp add: pool_ok_def)
  show thesis
  proof (cases "v = []")
    case True
    then have r: "r = None" "pool_handles c' = pool_handles c" using v by (simp_all add: vec_pop_def)
    have "length ([] :: u8 list) \<le> bc_high cfg" and "Unset \<noteq> Unset \<Longrightarrow> bc_high cfg = page_capacity Unset" by simp_all
    with hok high obtain a h' where "sv_create Unset (bc_high cfg) [] h = Some (a, h')"
      "heap_ok h' (add_mset (HMut a) (pool_handles c + M))" "same_contents (pool_handles c + M) h h'" "sv_as_ref a h' = Some []"
      by (rule sv_create_spec)
    then show thesis using that [of a c' h'] w r ok
      by (simp add: bc_get_def sv_with_capacity_def pool_ok_def same_contents_def)
  next
    case False
    then have "mset (map HMut v) = add_mset (HMut (last v)) (mset (map HMut v'))" "r = Some (last v)"
      using v(1) arg_cong [OF append_butlast_last_id [OF False], of "\<lambda>v. mset (map HMut v)"] by (simp_all add: vec_pop_def)
    then have h: "add_mset (HMut (last v)) (pool_handles c') = pool_handles c" "r = Some (last v)" using v(2) by simp_all
    from hok have "heap_ok h (add_mset (HMut (last v)) (pool_handles c' + M))" by (simp flip: h(1))
    moreover have "\<forall>x. x \<in># pool_handles c' \<longrightarrow> content h x = Some []" "sv_as_ref (last v) h = Some []"
      using ok h(1) unfolding pool_ok_def by (metis add_mset_add_single union_iff multi_member_last content.simps(1))+
    ultimately show thesis using that [of "last v" c' h] w h(2) by (simp add: bc_get_def pool_ok_def)
  qed
qed

lemma bc_release_spec:
  assumes ok: "pool_ok c h (add_mset (HMut a) M)"
  obtains c' h' where "bc_release cfg a c h = Some (c', h')" and "pool_ok c' h' M" and "same_contents M h h'"
proof -
  have hok: "heap_ok h (add_mset (HMut a) (pool_handles c + M))" and empt: "\<forall>x. x \<in># pool_handles c \<longrightarrow> content h x = Some []"
    using ok by (simp_all add: pool_ok_def)
  obtain b xs where b: "hp_get h a = Some b" "sv_as_ref a h = Some xs" using hok by (rule heap_ok_mutE)
  obtain h1 where drop: "release_shared_vec a h = Some h1" "heap_ok h1 (pool_handles c + M)"
    "same_contents (pool_handles c + M) h h1" using hok by (rule release_shared_vec_spec) simp_all
  obtain h2 where clear: "bm_clear a h = Some h2" "heap_ok h2 (add_mset (HMut a) (pool_handles c + M))"
    "same_contents (pool_handles c + M) h h2" "sv_as_ref a h2 = Some []"
    using sv_truncate_spec [OF hok b(2), of 0] by (auto simp: bm_clear_def)
  let ?f = "\<lambda>v. if length v < bc_cache_size cfg then (True, v @ [a]) else (False, v)"
  obtain r c' where w: "local_cache_with (bc_idx cfg) (bc_first cfg) ?f c = (r, c')" by fastforce
  then obtain v v' where v: "?f v = (r, v')" "pool_handles c' + mset (map HMut v) = pool_handles c + mset (map HMut v')"
    by (rule local_cache_with_handles)
  have full: "pool_handles c' = pool_handles c" if "\<not> r" using that v by (simp split: if_splits)
  have room: "pool_handles c' = add_mset (HMut a) (pool_handles c)" if r using that v by (auto split: if_splits)
  show thesis
  proof (cases "sv_capacity b > bc_low cfg \<and> sv_capacity b \<le> bc_high cfg")
    case True
    show thesis
    proof (cases r)
      case True
      then show thesis using that [of c' h2] \<open>_ \<and> _\<close> w b clear empt room by (auto simp: bc_release_def pool_ok_def same_contents_def)
    next
      case False
      then show thesis using that [of c' h1] \<open>_ \<and> _\<close> w b drop empt full by (auto simp: bc_release_def pool_ok_def same_contents_def)
    qed
  next
    case False
    then show thesis using that [of c h1] b drop empt by (auto simp: bc_release_def pool_ok_def same_contents_def)
  qed
qed

section \<open>Properties\<close>

text \<open>C38. \<open>BufConfig::resize_min\<close> returns exactly when the high water mark is positive or the buffer already has the
  room: then it yields a buffer with at least the room asked for, the bytes of the old one, and every other buffer
  unchanged; with a high water mark of 0 its loop never ends. The sizes are below the 4 GiB a block can have.\<close>

theorem resize_min_terminates:
  assumes "heap_ok h (add_mset (HMut a) M)" and "sv_as_ref a h = Some xs" and "hp_get h a = Some b"
    and "length xs + n + bc_high cfg + METADATA_SIZE < 4294967296"
  shows "if 0 < bc_high cfg \<or> n \<le> sv_remaining b
    then \<exists>a' h' b'. bc_resize_min cfg a n h = Some (Some (a', h')) \<and> heap_ok h' (add_mset (HMut a') M) \<and>
      same_contents M h h' \<and> sv_as_ref a' h' = Some xs \<and> hp_get h' a' = Some b' \<and> n \<le> sv_remaining b'
    else bc_resize_min cfg a n h = None"
proof (cases "0 < bc_high cfg \<or> n \<le> sv_remaining b")
  case True
  from assms(1-3) this assms(4) obtain a' h' b' where
    "bc_resize_min cfg a n h = Some (Some (a', h'))" "heap_ok h' (add_mset (HMut a') M)" "same_contents M h h'"
    "sv_as_ref a' h' = Some xs" "hp_get h' a' = Some b'" "n \<le> sv_remaining b'" by (rule bc_resize_min_spec)
  with True show ?thesis by auto
next
  case False
  have "block_ok b" using assms(1,2) by (rule mut_blockE) (simp add: assms(3))
  with False assms(3) show ?thesis by (simp add: bc_resize_min_diverges)
qed

lemma empty_block_ok:
  obtains a h b where "sv_create Unset 8 [] heap_new = Some (a, h)" and "heap_ok h {#HMut a#}" and "sv_as_ref a h = Some []"
    and "hp_get h a = Some b" and "sv_remaining b = 8"
proof -
  have "heap_ok heap_new {#}" "8 + METADATA_SIZE < 4294967296" "length ([] :: u8 list) \<le> 8"
    "Unset \<noteq> Unset \<Longrightarrow> 8 = page_capacity Unset" by (simp_all add: heap_new_ok)
  then obtain a h b where "sv_create Unset 8 [] heap_new = Some (a, h)" "heap_ok h {#HMut a#}" "sv_as_ref a h = Some []"
    "hp_get h a = Some b" "sv_remaining b = 8 - length ([] :: u8 list)" by (rule sv_create_spec)
  then show thesis using that by simp
qed

theorem resize_min_terminates_witness:
  "\<exists>a h. sv_create Unset 8 [] heap_new = Some (a, h) \<and>
    (\<exists>a' h' b'. bc_resize_min (default_buf_config 0 True) a 100 h = Some (Some (a', h')) \<and>
      hp_get h' a' = Some b' \<and> 100 \<le> sv_remaining b') \<and>
    bc_resize_min (default_buf_config 0 True\<lparr>bc_high := 0\<rparr>) a 100 h = None"
proof -
  obtain a h b where blk: "sv_create Unset 8 [] heap_new = Some (a, h)" "heap_ok h {#HMut a#}" "sv_as_ref a h = Some []"
    "hp_get h a = Some b" "sv_remaining b = 8" by (rule empty_block_ok)
  have cfg: "bc_high (default_buf_config 0 True) = 16360" by (simp add: default_buf_config_def DEFAULT_HIGH_def)
  from resize_min_terminates [OF blk(2-4), of 100 "default_buf_config 0 True"]
    resize_min_terminates [OF blk(2-4), of 100 "default_buf_config 0 True\<lparr>bc_high := 0\<rparr>"] blk(1,5)
  show ?thesis by (auto simp: cfg)
qed

text \<open>A pooled read buffer never leaks bytes from one user to the next: taking a buffer from the pool, filling it
  with any bytes and giving it back leaves every other buffer as it was, and the buffer the next \<open>BufConfig::get\<close>
  returns is empty and shared with nobody.\<close>

theorem read_pool_recycles_empty:
  assumes "pool_ok c h M" and "bc_high cfg + METADATA_SIZE < 4294967296" and "length ys + METADATA_SIZE < 4294967296"
  shows "\<exists>a1 c1 h1 a2 h2 c3 h3 a4 c4 h4. bc_get cfg c h = Some (a1, c1, h1) \<and> bm_put_slice a1 ys h1 = Some (a2, h2)
    \<and> sv_as_ref a2 h2 = Some ys \<and> bc_release cfg a2 c1 h2 = Some (c3, h3) \<and> bc_get cfg c3 h3 = Some (a4, c4, h4)
    \<and> sv_as_ref a4 h4 = Some [] \<and> pool_ok c4 h4 (add_mset (HMut a4) M) \<and> same_contents M h h4"
proof -
  obtain a1 c1 h1 where 1: "bc_get cfg c h = Some (a1, c1, h1)" "pool_ok c1 h1 (add_mset (HMut a1) M)"
    "same_contents M h h1" "sv_as_ref a1 h1 = Some []" using assms(1,2) by (rule bc_get_spec)
  have "heap_ok h1 (add_mset (HMut a1) (pool_handles c1 + M))" using 1(2) by (simp add: pool_ok_def)
  moreover have "length ([] :: u8 list) + length ys + METADATA_SIZE < 4294967296" using assms(3) by simp
  ultimately obtain a2 h2 where 2: "bm_put_slice a1 ys h1 = Some (a2, h2)" "heap_ok h2 (add_mset (HMut a2) (pool_handles c1 + M))"
    "same_contents (pool_handles c1 + M) h1 h2" "sv_as_ref a2 h2 = Some ([] @ ys)"
    using 1(4) bm_put_slice_spec by metis
  then have "pool_ok c1 h2 (add_mset (HMut a2) M)" using 1(2) by (auto simp: pool_ok_def same_contents_def)
  then obtain c3 h3 where 3: "bc_release cfg a2 c1 h2 = Some (c3, h3)" "pool_ok c3 h3 M" "same_contents M h2 h3"
    by (rule bc_release_spec)
  obtain a4 c4 h4 where 4: "bc_get cfg c3 h3 = Some (a4, c4, h4)" "pool_ok c4 h4 (add_mset (HMut a4) M)"
    "same_contents M h3 h4" "sv_as_ref a4 h4 = Some []" using 3(2) assms(2) by (rule bc_get_spec)
  show ?thesis using 1 2 3 4 by (auto simp: same_contents_def)
qed

theorem read_pool_recycles_empty_witness:
  "\<exists>a1 c1 h1 a2 h2 c3 h3 a4 c4 h4. bc_get (default_buf_config 0 True) [] heap_new = Some (a1, c1, h1)
    \<and> bm_put_slice a1 [1, 2] h1 = Some (a2, h2) \<and> bc_release (default_buf_config 0 True) a2 c1 h2 = Some (c3, h3)
    \<and> bc_get (default_buf_config 0 True) c3 h3 = Some (a4, c4, h4) \<and> sv_as_ref a4 h4 = Some []"
proof -
  have "pool_ok [] heap_new {#}" by (simp add: pool_ok_def heap_new_ok)
  from read_pool_recycles_empty [OF this, of "default_buf_config 0 True" "[1, 2]"] show ?thesis
    by (auto simp: default_buf_config_def DEFAULT_HIGH_def)
qed

end
