(* ===== verification/Io_Buf.thy ===== *)
theory Io_Buf
  imports Prelude
begin

text \<open>
  The stack of buffers of a stream and the chain of filters over it, \<open>io/buf.rs\<close> and \<open>io/filter.rs\<close>. A buffer holds the
  bytes of its \<open>BytesMut\<close> and of its \<open>BytePages\<close>; that these types behave like byte lists is shown for their
  implementation in \<open>Bytes_Refine\<close> and \<open>Pages_Props\<close>. Level 0 of the stack is the application side, the last level but
  one the side of the driver; the last level is a spare, the \<open>next\<close> buffer of the innermost layer.

  A \<open>FilterLayer\<close> is code of the application. It sees its two buffers only through the calls of \<open>FilterBuf\<close>, with
  closures over its own state, so a layer is a program of such calls: the state of the layer, of type \<open>'l\<close>, and for
  each callback the calls it makes and the result it returns.
\<close>

section \<open>Errors and buffers\<close>

datatype error_kind = NotConnected | TimedOut | UnexpectedEof | WriteZero | OtherKind nat

datatype io_error = IoError (err_kind: error_kind) (err_msg: string)

record buffer =
  bf_read :: "u8 list option"
  bf_write :: "u8 list"

text \<open>
  \<open>Stack::buffers\<close> is a vector that is created with two buffers and only grows. It is the list of its top
  buffer, the buffers in between and its last one, so the accesses to the first buffer and to the last but one are
  always in range.
\<close>

record stack =
  sk_top :: buffer
  sk_layers :: "buffer list"
  sk_tail :: buffer

definition buffer_new :: buffer where
  "buffer_new = \<lparr>bf_read = None, bf_write = []\<rparr>"

definition stack_new :: stack where
  "stack_new = \<lparr>sk_top = buffer_new, sk_layers = [], sk_tail = buffer_new\<rparr>"

definition stack_buffers :: "stack \<Rightarrow> buffer list" where
  "stack_buffers s = sk_top s # sk_layers s @ [sk_tail s]"

definition stack_of :: "buffer list \<Rightarrow> stack" where
  "stack_of bs = \<lparr>sk_top = hd bs, sk_layers = butlast (tl bs), sk_tail = last bs\<rparr>"

definition stack_add_layer :: "stack \<Rightarrow> stack" where
  "stack_add_layer s = s\<lparr>sk_top := buffer_new, sk_layers := sk_top s # sk_layers s\<rparr>"

definition stack_last :: "stack \<Rightarrow> buffer" where
  "stack_last s = last (sk_top s # sk_layers s)"

definition stack_set_last :: "buffer \<Rightarrow> stack \<Rightarrow> stack" where
  "stack_set_last b s =
     (if sk_layers s = [] then s\<lparr>sk_top := b\<rparr> else s\<lparr>sk_layers := butlast (sk_layers s) @ [b]\<rparr>)"

text \<open>An emptied read buffer goes back to the pool and its place is left empty.\<close>

definition keep_read :: "u8 list \<Rightarrow> u8 list option" where
  "keep_read b = (if b = [] then None else Some b)"

definition read_bytes :: "buffer \<Rightarrow> u8 list" where
  "read_bytes b = (case bf_read b of None \<Rightarrow> [] | Some r \<Rightarrow> r)"

definition buffer_with_read :: "(u8 list \<Rightarrow> 'r \<times> u8 list) \<Rightarrow> buffer \<Rightarrow> 'r \<times> buffer" where
  "buffer_with_read f b = (let (r, rb) = f (read_bytes b) in (r, b\<lparr>bf_read := keep_read rb\<rparr>))"

definition buffer_with_write :: "(u8 list \<Rightarrow> 'r \<times> u8 list) \<Rightarrow> buffer \<Rightarrow> 'r \<times> buffer" where
  "buffer_with_write f b = (let (r, wb) = f (bf_write b) in (r, b\<lparr>bf_write := wb\<rparr>))"

definition stack_with_read_dst :: "(u8 list \<Rightarrow> 'r \<times> u8 list) \<Rightarrow> stack \<Rightarrow> 'r \<times> stack" where
  "stack_with_read_dst f s = (let (r, b) = buffer_with_read f (sk_top s) in (r, s\<lparr>sk_top := b\<rparr>))"

definition stack_with_write_src :: "(u8 list \<Rightarrow> 'r \<times> u8 list) \<Rightarrow> stack \<Rightarrow> 'r \<times> stack" where
  "stack_with_write_src f s = (let (r, b) = buffer_with_write f (sk_top s) in (r, s\<lparr>sk_top := b\<rparr>))"

definition stack_with_write_dst :: "(u8 list \<Rightarrow> 'r \<times> u8 list) \<Rightarrow> stack \<Rightarrow> 'r \<times> stack" where
  "stack_with_write_dst f s = (let (r, b) = buffer_with_write f (stack_last s) in (r, stack_set_last b s))"

definition stack_write_buf_size :: "stack \<Rightarrow> nat" where
  "stack_write_buf_size s =
     (if sk_layers s = [] then length (bf_write (sk_top s))
      else length (bf_write (sk_top s)) + length (bf_write (stack_last s)))"

definition stack_read_dst_size :: "stack \<Rightarrow> nat" where
  "stack_read_dst_size s = length (read_bytes (sk_top s))"

definition stack_get_read_buf :: "stack \<Rightarrow> u8 list option \<times> stack" where
  "stack_get_read_buf s = (bf_read (stack_last s), stack_set_last ((stack_last s)\<lparr>bf_read := None\<rparr>) s)"

definition stack_set_read_buf :: "u8 list \<Rightarrow> stack \<Rightarrow> stack" where
  "stack_set_read_buf buf s =
     (let b = stack_last s in
      case bf_read b of
        Some first_buf \<Rightarrow> stack_set_last (b\<lparr>bf_read := Some (first_buf @ buf)\<rparr>) s
      | None \<Rightarrow> if buf \<noteq> [] then stack_set_last (b\<lparr>bf_read := Some buf\<rparr>) s else s)"

section \<open>Filter layers\<close>

datatype 'l fb_call =
    With_Read_Src "'l \<Rightarrow> u8 list option \<Rightarrow> 'l \<times> u8 list option"
  | With_Read_Buffers "'l \<Rightarrow> u8 list option \<Rightarrow> u8 list \<Rightarrow> 'l \<times> u8 list option \<times> u8 list"
  | With_Write_Buffers "'l \<Rightarrow> u8 list \<Rightarrow> u8 list \<Rightarrow> 'l \<times> u8 list \<times> u8 list"

record filter_buf =
  fb_curr :: buffer
  fb_next :: buffer
  fb_wants_write :: bool

definition put_read_src :: "u8 list option \<Rightarrow> u8 list option" where
  "put_read_src r = (case r of None \<Rightarrow> None | Some b \<Rightarrow> keep_read b)"

fun fb_do :: "'l fb_call \<Rightarrow> 'l \<Rightarrow> filter_buf \<Rightarrow> 'l \<times> filter_buf" where
  "fb_do (With_Read_Src f) l fb =
     (let (l, src) = f l (bf_read (fb_next fb))
      in (l, fb\<lparr>fb_next := (fb_next fb)\<lparr>bf_read := put_read_src src\<rparr>\<rparr>))"
| "fb_do (With_Read_Buffers f) l fb =
     (let (l, src, dst) = f l (bf_read (fb_next fb)) (read_bytes (fb_curr fb))
      in (l, fb\<lparr>fb_next := (fb_next fb)\<lparr>bf_read := put_read_src src\<rparr>,
               fb_curr := (fb_curr fb)\<lparr>bf_read := keep_read dst\<rparr>\<rparr>))"
| "fb_do (With_Write_Buffers f) l fb =
     (let write_len = (if fb_wants_write fb then 0 else length (bf_write (fb_next fb)));
          (l, curr, nxt) = f l (bf_write (fb_curr fb)) (bf_write (fb_next fb))
      in (l, fb\<lparr>fb_curr := (fb_curr fb)\<lparr>bf_write := curr\<rparr>, fb_next := (fb_next fb)\<lparr>bf_write := nxt\<rparr>,
               fb_wants_write := (fb_wants_write fb \<or> length nxt > write_len)\<rparr>))"

fun fb_run :: "'l fb_call list \<Rightarrow> 'l \<Rightarrow> filter_buf \<Rightarrow> 'l \<times> filter_buf" where
  "fb_run [] l fb = (l, fb)"
| "fb_run (c # cs) l fb = (let (l, fb) = fb_do c l fb in fb_run cs l fb)"

record ('l, 'r) layer_proc =
  lp_calls :: "'l \<Rightarrow> 'l fb_call list"
  lp_result :: "'l \<Rightarrow> io_error + 'r"

record 'l filter_layer =
  ly_read :: "('l, unit) layer_proc"
  ly_write :: "('l, unit) layer_proc"
  ly_shutdown :: "('l, unit poll) layer_proc"

section \<open>The chain of filters\<close>

text \<open>
  \<open>Layer(f, next, shut_down)\<close> over \<open>Base\<close>; \<open>NullFilter\<close> stands for a stream whose filter has been taken away.
\<close>

datatype 'l filter = NullFilter | Base | Layer 'l bool "'l filter"

record filter_ctx =
  fc_idx :: nat
  fc_nbytes :: nat
  fc_buffers :: "buffer list"
  fc_wants_write :: bool
  fc_notify :: bool

definition ctx_new :: "nat \<Rightarrow> bool \<Rightarrow> stack \<Rightarrow> filter_ctx" where
  "ctx_new nbytes wants_write s =
     \<lparr>fc_idx = 0, fc_nbytes = nbytes, fc_buffers = stack_buffers s, fc_wants_write = wants_write, fc_notify = False\<rparr>"

text \<open>\<open>FilterCtx::with_buffer\<close> indexes the buffers of the level and the next one: out of range it panics.\<close>

definition ctx_with_buffer ::
    "('l, 'r) layer_proc \<Rightarrow> 'l \<Rightarrow> filter_ctx \<Rightarrow> ((io_error + 'r) \<times> 'l \<times> filter_ctx) option" where
  "ctx_with_buffer p l ctx =
     (let i = fc_idx ctx; bs = fc_buffers ctx in
      if i + 1 < length bs
      then (case fb_run (lp_calls p l) l \<lparr>fb_curr = bs ! i, fb_next = bs ! (i + 1), fb_wants_write = fc_wants_write ctx\<rparr> of
              (l, fb) \<Rightarrow> Some (lp_result p l, l,
                ctx\<lparr>fc_buffers := bs[i := fb_curr fb, i + 1 := fb_next fb],
                    fc_wants_write := (fc_wants_write ctx \<or> fb_wants_write fb)\<rparr>))
      else None)"

definition ctx_next :: "filter_ctx \<Rightarrow> filter_ctx" where
  "ctx_next ctx = ctx\<lparr>fc_idx := fc_idx ctx + 1\<rparr>"

definition ctx_back :: "filter_ctx \<Rightarrow> filter_ctx" where
  "ctx_back ctx = ctx\<lparr>fc_idx := fc_idx ctx - 1\<rparr>"

definition ctx_clear_write_buf :: "filter_ctx \<Rightarrow> filter_ctx option" where
  "ctx_clear_write_buf ctx =
     (let i = fc_idx ctx; bs = fc_buffers ctx in
      if i < length bs then Some (ctx\<lparr>fc_buffers := bs[i := (bs ! i)\<lparr>bf_write := []\<rparr>]\<rparr>) else None)"

type_synonym ('l, 'r) filter_result = "((io_error + 'r) \<times> 'l filter \<times> filter_ctx) option"

fun filter_process_read_buf :: "'l filter_layer \<Rightarrow> 'l filter \<Rightarrow> filter_ctx \<Rightarrow> ('l, unit) filter_result" where
  "filter_process_read_buf ly NullFilter ctx = Some (Inr (), NullFilter, ctx)"
| "filter_process_read_buf ly Base ctx = Some (Inr (), Base, ctx)"
| "filter_process_read_buf ly (Layer l shut nxt) ctx = do {
     (r, nxt, ctx) \<leftarrow> filter_process_read_buf ly nxt (ctx_next ctx);
     let ctx = ctx_back ctx;
     (case r of
        Inl e \<Rightarrow> Some (Inl e, Layer l shut nxt, ctx)
      | Inr _ \<Rightarrow>
          if shut then Some (Inr (), Layer l shut nxt, ctx)
          else do { (r, l, ctx) \<leftarrow> ctx_with_buffer (ly_read ly) l ctx; Some (r, Layer l shut nxt, ctx) }) }"

fun filter_process_write_buf :: "'l filter_layer \<Rightarrow> 'l filter \<Rightarrow> filter_ctx \<Rightarrow> ('l, unit) filter_result" where
  "filter_process_write_buf ly NullFilter ctx = Some (Inr (), NullFilter, ctx)"
| "filter_process_write_buf ly Base ctx = Some (Inr (), Base, ctx)"
| "filter_process_write_buf ly (Layer l shut nxt) ctx = do {
     (r, l, ctx) \<leftarrow> (if shut then Some (Inr (), l, ctx) else ctx_with_buffer (ly_write ly) l ctx);
     (case r of
        Inl e \<Rightarrow> Some (Inl e, Layer l shut nxt, ctx)
      | Inr _ \<Rightarrow> do {
          (r, nxt, ctx) \<leftarrow> filter_process_write_buf ly nxt (ctx_next ctx);
          Some (r, Layer l shut nxt, ctx_back ctx) }) }"

fun filter_depth :: "'l filter \<Rightarrow> nat" where
  "filter_depth NullFilter = 0"
| "filter_depth Base = 0"
| "filter_depth (Layer l shut nxt) = Suc (filter_depth nxt)"

lemma process_write_depth:
  "filter_process_write_buf ly F ctx = Some (r, F', ctx') \<Longrightarrow> filter_depth F' = filter_depth F"
proof (induction F arbitrary: ctx r F' ctx')
  case (Layer l shut nxt)
  note run = Layer.prems
  obtain q l1 ctx1 where w: "(if shut then Some (Inr (), l, ctx) else ctx_with_buffer (ly_write ly) l ctx) = Some (q, l1, ctx1)"
    using run by (cases "if shut then Some (Inr (), l, ctx) else ctx_with_buffer (ly_write ly) l ctx") auto
  show ?case
  proof (cases q)
    case (Inr u)
    obtain r2 nxt2 ctx2 where n: "filter_process_write_buf ly nxt (ctx_next ctx1) = Some (r2, nxt2, ctx2)" "F' = Layer l1 shut nxt2"
      using run w Inr by (cases "filter_process_write_buf ly nxt (ctx_next ctx1)") auto
    from Layer.IH [OF n(1)] n(2) show ?thesis by simp
  qed (use run w in auto)
qed simp_all

text \<open>
  The part of \<open>Layer::shutdown\<close> before it goes on to the next filter: the callback of the layer, the last bytes of the
  layer pushed down the chain, the mark that the layer is shut down, and its write buffer discarded. \<open>Inl\<close> is an early
  return.
\<close>

definition layer_shut_down ::
    "'l filter_layer \<Rightarrow> 'l \<Rightarrow> 'l filter \<Rightarrow> filter_ctx \<Rightarrow>
      (((io_error + unit poll) \<times> 'l filter \<times> filter_ctx) + ('l \<times> 'l filter \<times> filter_ctx)) option" where
  "layer_shut_down ly l nxt ctx = do {
     (r, l, ctx) \<leftarrow> ctx_with_buffer (ly_shutdown ly) l ctx;
     (case r of
        Inl e \<Rightarrow> Some (Inl (Inl e, Layer l False nxt, ctx))
      | Inr Pending \<Rightarrow> Some (Inl (Inr Pending, Layer l False nxt, ctx))
      | Inr (Ready _) \<Rightarrow> do {
          (r, F, ctx) \<leftarrow> filter_process_write_buf ly (Layer l False nxt) ctx;
          (case (r, F) of
             (Inr _, Layer l _ nxt) \<Rightarrow> do { ctx \<leftarrow> ctx_clear_write_buf ctx; Some (Inr (l, nxt, ctx)) }
           | (Inl e, _) \<Rightarrow> Some (Inl (Inl e, F, ctx))
           | _ \<Rightarrow> None) }) }"

lemma layer_shut_down_depth:
  assumes "layer_shut_down ly l nxt ctx = Some (Inr (l', nxt', ctx'))"
  shows "filter_depth nxt' = filter_depth nxt"
proof -
  note run = assms [unfolded layer_shut_down_def]
  obtain r1 l1 ctx1 where 1: "ctx_with_buffer (ly_shutdown ly) l ctx = Some (r1, l1, ctx1)"
    using run by (cases "ctx_with_buffer (ly_shutdown ly) l ctx") auto
  have "r1 = Inr (Ready ())" using run 1 by (cases r1) (auto split: poll.splits simp del: filter_process_write_buf.simps)
  then obtain r2 F ctx2 where 2: "filter_process_write_buf ly (Layer l1 False nxt) ctx1 = Some (r2, F, ctx2)"
    using run 1 by (cases "filter_process_write_buf ly (Layer l1 False nxt) ctx1") (auto simp del: filter_process_write_buf.simps)
  then obtain shut where "F = Layer l' shut nxt'"
    using run 1 \<open>r1 = _\<close> by (cases r2; cases F) (auto simp del: filter_process_write_buf.simps split: bind_splits)
  with process_write_depth [OF 2] show ?thesis by simp
qed

text \<open>The recursion goes down the chain, whose length the processing of the write buffers does not change.\<close>

primrec filter_shutdown_at :: "nat \<Rightarrow> 'l filter_layer \<Rightarrow> 'l filter \<Rightarrow> filter_ctx \<Rightarrow> ('l, unit poll) filter_result" where
  "filter_shutdown_at 0 ly F ctx = Some (Inr (Ready ()), F, ctx)"
| "filter_shutdown_at (Suc n) ly F ctx =
     (case F of
        Layer l shut nxt \<Rightarrow> do {
          x \<leftarrow> (if shut then Some (Inr (l, nxt, ctx)) else layer_shut_down ly l nxt ctx);
          (case x of
             Inl out \<Rightarrow> Some out
           | Inr (l, nxt, ctx) \<Rightarrow> do {
               (r, nxt, ctx) \<leftarrow> filter_shutdown_at n ly nxt (ctx_next ctx);
               Some (r, Layer l True nxt, ctx_back ctx) }) }
      | _ \<Rightarrow> Some (Inr (Ready ()), F, ctx))"

definition filter_shutdown :: "'l filter_layer \<Rightarrow> 'l filter \<Rightarrow> filter_ctx \<Rightarrow> ('l, unit poll) filter_result" where
  "filter_shutdown ly F ctx = filter_shutdown_at (filter_depth F) ly F ctx"

lemma filter_shutdown_simps:
  "filter_shutdown ly NullFilter ctx = Some (Inr (Ready ()), NullFilter, ctx)"
  "filter_shutdown ly Base ctx = Some (Inr (Ready ()), Base, ctx)"
  "filter_shutdown ly (Layer l True nxt) ctx = do {
     (r, nxt, ctx) \<leftarrow> filter_shutdown ly nxt (ctx_next ctx); Some (r, Layer l True nxt, ctx_back ctx) }"
  "filter_shutdown ly (Layer l False nxt) ctx = do {
     x \<leftarrow> layer_shut_down ly l nxt ctx;
     (case x of
        Inl out \<Rightarrow> Some out
      | Inr (l, nxt, ctx) \<Rightarrow> do {
          (r, nxt, ctx) \<leftarrow> filter_shutdown ly nxt (ctx_next ctx); Some (r, Layer l True nxt, ctx_back ctx) }) }"
proof -
  show "filter_shutdown ly (Layer l False nxt) ctx = do {
     x \<leftarrow> layer_shut_down ly l nxt ctx;
     (case x of
        Inl out \<Rightarrow> Some out
      | Inr (l, nxt, ctx) \<Rightarrow> do {
          (r, nxt, ctx) \<leftarrow> filter_shutdown ly nxt (ctx_next ctx); Some (r, Layer l True nxt, ctx_back ctx) }) }"
  proof (cases "layer_shut_down ly l nxt ctx")
    case (Some x)
    then show ?thesis
      by (cases x) (auto simp: filter_shutdown_def dest: layer_shut_down_depth)
  qed (simp add: filter_shutdown_def)
qed (simp_all add: filter_shutdown_def)

section \<open>Processing the buffers of a stack\<close>

text \<open>
  The callbacks of \<open>IoCallbacks\<close> around the processing are hooks of the application that see the stream from outside;
  they are not part of the model. \<open>process_read_buf\<close> and \<open>process_read_buf_no_cb\<close> differ in them only, as do
  \<open>process_write_buf\<close> and \<open>process_write_buf_no_cb\<close>.
\<close>

definition stack_process_read_buf ::
    "'l filter_layer \<Rightarrow> 'l filter \<Rightarrow> nat \<Rightarrow> stack \<Rightarrow> ((io_error + bool \<times> bool) \<times> 'l filter \<times> stack) option" where
  "stack_process_read_buf ly F nbytes s = do {
     (r, F, ctx) \<leftarrow> filter_process_read_buf ly F (ctx_new nbytes False s);
     Some (map_sum id (\<lambda>_. (fc_wants_write ctx, fc_notify ctx)) r, F, stack_of (fc_buffers ctx)) }"

definition stack_process_write_buf_force ::
    "'l filter_layer \<Rightarrow> 'l filter \<Rightarrow> stack \<Rightarrow> ((io_error + unit) \<times> 'l filter \<times> stack) option" where
  "stack_process_write_buf_force ly F s = do {
     (r, F, ctx) \<leftarrow> filter_process_write_buf ly F (ctx_new 0 True s);
     Some (r, F, stack_of (fc_buffers ctx)) }"

definition stack_process_write_buf ::
    "'l filter_layer \<Rightarrow> 'l filter \<Rightarrow> stack \<Rightarrow> ((io_error + unit) \<times> 'l filter \<times> stack) option" where
  "stack_process_write_buf ly F s =
     (if bf_write (sk_top s) = [] then Some (Inr (), F, s) else stack_process_write_buf_force ly F s)"

definition stack_process_shutdown ::
    "'l filter_layer \<Rightarrow> 'l filter \<Rightarrow> stack \<Rightarrow> ((io_error + unit poll) \<times> 'l filter \<times> stack) option" where
  "stack_process_shutdown ly F s = do {
     (r, F, s) \<leftarrow> stack_process_write_buf ly F s;
     (case r of
        Inl e \<Rightarrow> Some (Inl e, F, s)
      | Inr _ \<Rightarrow> do {
          (r, F, ctx) \<leftarrow> filter_shutdown ly F (ctx_new 0 False s);
          Some (r, F, stack_of (fc_buffers ctx)) }) }"

definition stack_with_filter_buffer ::
    "('l, 'r) layer_proc \<Rightarrow> 'l \<Rightarrow> stack \<Rightarrow> ((io_error + 'r) \<times> 'l \<times> stack) option" where
  "stack_with_filter_buffer p l s = do {
     (r, l, ctx) \<leftarrow> ctx_with_buffer p l (ctx_new 0 False s);
     Some (r, l, stack_of (fc_buffers ctx)) }"

section \<open>No index out of range\<close>

text \<open>
  A chain of \<open>n\<close> layers needs \<open>n + 1\<close> buffers from its level on. With that, no processing panics, the chain and the
  stack keep their lengths, and the levels above are not touched.
\<close>

lemma stack_buffers_of [simp]: "2 \<le> length bs \<Longrightarrow> stack_buffers (stack_of bs) = bs"
  by (cases bs; cases "tl bs") (auto simp: stack_buffers_def stack_of_def)

lemma stack_of_buffers [simp]: "stack_of (stack_buffers s) = s"
  by (cases s) (auto simp: stack_buffers_def stack_of_def butlast_append)

lemma length_stack_buffers [simp]: "length (stack_buffers s) = length (sk_layers s) + 2"
  by (simp add: stack_buffers_def)

definition ctx_fits :: "'l filter \<Rightarrow> filter_ctx \<Rightarrow> bool" where
  "ctx_fits F ctx \<longleftrightarrow> fc_idx ctx + filter_depth F < length (fc_buffers ctx)"

definition same_shape :: "filter_ctx \<Rightarrow> filter_ctx \<Rightarrow> bool" where
  "same_shape ctx ctx' \<longleftrightarrow> fc_idx ctx' = fc_idx ctx \<and> length (fc_buffers ctx') = length (fc_buffers ctx)
     \<and> take (fc_idx ctx) (fc_buffers ctx') = take (fc_idx ctx) (fc_buffers ctx)"

lemma same_shape_refl [simp]: "same_shape ctx ctx" by (simp add: same_shape_def)

lemma same_shape_trans [trans]: "same_shape a b \<Longrightarrow> same_shape b c \<Longrightarrow> same_shape a c" by (auto simp: same_shape_def)

lemma same_shape_back: "same_shape (ctx_next ctx) ctx' \<Longrightarrow> same_shape ctx (ctx_back ctx')"
proof -
  assume s: "same_shape (ctx_next ctx) ctx'"
  have "take (fc_idx ctx) (take (Suc (fc_idx ctx)) (fc_buffers ctx')) = take (fc_idx ctx) (take (Suc (fc_idx ctx)) (fc_buffers ctx))"
    using s by (simp add: same_shape_def ctx_next_def)
  then show ?thesis using s by (simp add: same_shape_def ctx_next_def ctx_back_def)
qed

lemma ctx_with_buffer_total:
  assumes "fc_idx ctx + 1 < length (fc_buffers ctx)"
  obtains r l' ctx' where "ctx_with_buffer p l ctx = Some (r, l', ctx')" and "same_shape ctx ctx'"
proof -
  obtain l' fb where "fb_run (lp_calls p l) l \<lparr>fb_curr = fc_buffers ctx ! fc_idx ctx,
      fb_next = fc_buffers ctx ! (fc_idx ctx + 1), fb_wants_write = fc_wants_write ctx\<rparr> = (l', fb)" by fastforce
  then show thesis using that assms by (simp add: ctx_with_buffer_def Let_def same_shape_def)
qed

lemma ctx_clear_write_buf_total:
  assumes "fc_idx ctx < length (fc_buffers ctx)"
  obtains ctx' where "ctx_clear_write_buf ctx = Some ctx'" and "same_shape ctx ctx'"
  using assms that by (simp add: ctx_clear_write_buf_def Let_def same_shape_def)

lemma ctx_fits_simps [simp]:
  "ctx_fits (Layer l shut nxt) ctx \<Longrightarrow> ctx_fits nxt (ctx_next ctx)"
  "ctx_fits (Layer l shut nxt) ctx \<Longrightarrow> Suc (fc_idx ctx) < length (fc_buffers ctx)"
  by (simp_all add: ctx_fits_def ctx_next_def)

lemma ctx_fits_shape: "ctx_fits F ctx \<Longrightarrow> same_shape ctx ctx' \<Longrightarrow> filter_depth F' = filter_depth F \<Longrightarrow> ctx_fits F' ctx'"
  by (simp add: ctx_fits_def same_shape_def)

definition runs_ok :: "('l, 'r) filter_result \<Rightarrow> 'l filter \<Rightarrow> filter_ctx \<Rightarrow> bool" where
  "runs_ok res F ctx \<longleftrightarrow> (\<exists>r F' ctx'. res = Some (r, F', ctx') \<and> filter_depth F' = filter_depth F \<and> same_shape ctx ctx')"

lemma runs_okE:
  assumes "runs_ok res F ctx"
  obtains r F' ctx' where "res = Some (r, F', ctx')" and "filter_depth F' = filter_depth F" and "same_shape ctx ctx'"
  using assms by (auto simp: runs_ok_def)

lemma process_read_runs: "ctx_fits F ctx \<Longrightarrow> runs_ok (filter_process_read_buf ly F ctx) F ctx"
proof (induction F arbitrary: ctx)
  case (Layer l shut nxt)
  have "ctx_fits nxt (ctx_next ctx)" using Layer.prems by simp
  then obtain r nxt' c where n: "filter_process_read_buf ly nxt (ctx_next ctx) = Some (r, nxt', c)"
    "filter_depth nxt' = filter_depth nxt" "same_shape (ctx_next ctx) c" by (rule Layer.IH [THEN runs_okE])
  have s: "same_shape ctx (ctx_back c)" using n(3) by (rule same_shape_back)
  then have "fc_idx (ctx_back c) + 1 < length (fc_buffers (ctx_back c))" using Layer.prems by (simp add: same_shape_def ctx_fits_def)
  then obtain r' l' c' where w: "ctx_with_buffer (ly_read ly) l (ctx_back c) = Some (r', l', c')" "same_shape (ctx_back c) c'"
    by (rule ctx_with_buffer_total)
  show ?case using n s w same_shape_trans [OF s w(2)] by (cases r) (auto simp: runs_ok_def Let_def)
qed (auto simp: runs_ok_def)

lemma process_write_runs: "ctx_fits F ctx \<Longrightarrow> runs_ok (filter_process_write_buf ly F ctx) F ctx"
proof (induction F arbitrary: ctx)
  case (Layer l shut nxt)
  have "fc_idx ctx + 1 < length (fc_buffers ctx)" using Layer.prems by simp
  then obtain r0 l0 c0 where "ctx_with_buffer (ly_write ly) l ctx = Some (r0, l0, c0)" "same_shape ctx c0"
    by (rule ctx_with_buffer_total)
  then obtain r l' c where w: "(if shut then Some (Inr (), l, ctx) else ctx_with_buffer (ly_write ly) l ctx) = Some (r, l', c)"
    "same_shape ctx c" by (cases shut) auto
  then have "ctx_fits (Layer l shut nxt) c" using Layer.prems by (auto intro: ctx_fits_shape)
  then have "ctx_fits nxt (ctx_next c)" by simp
  then obtain r' nxt' c' where n: "filter_process_write_buf ly nxt (ctx_next c) = Some (r', nxt', c')"
    "filter_depth nxt' = filter_depth nxt" "same_shape (ctx_next c) c'" by (rule Layer.IH [THEN runs_okE])
  from same_shape_trans [OF w(2) same_shape_back [OF n(3)]]
  show ?case using n(1,2) w by (cases r) (auto simp: runs_ok_def)
qed (auto simp: runs_ok_def)

lemma layer_shut_down_runs:
  assumes "ctx_fits (Layer l False nxt) ctx"
  obtains (stop) r F' ctx' where "layer_shut_down ly l nxt ctx = Some (Inl (r, F', ctx'))" and "filter_depth F' = Suc (filter_depth nxt)"
      and "same_shape ctx ctx'"
  | (go) l' nxt' ctx' where "layer_shut_down ly l nxt ctx = Some (Inr (l', nxt', ctx'))" and "filter_depth nxt' = filter_depth nxt"
      and "same_shape ctx ctx'"
proof -
  have "fc_idx ctx + 1 < length (fc_buffers ctx)" using assms by simp
  then obtain r1 l1 c1 where 1: "ctx_with_buffer (ly_shutdown ly) l ctx = Some (r1, l1, c1)" "same_shape ctx c1"
    by (rule ctx_with_buffer_total)
  then have "ctx_fits (Layer l1 False nxt) c1" using assms by (auto intro: ctx_fits_shape)
  then obtain r2 F c2 where 2: "filter_process_write_buf ly (Layer l1 False nxt) c1 = Some (r2, F, c2)"
    "filter_depth F = Suc (filter_depth nxt)" "same_shape c1 c2" by (rule process_write_runs [THEN runs_okE]) simp
  obtain l2 s2 nxt2 where F: "F = Layer l2 s2 nxt2" "filter_depth nxt2 = filter_depth nxt" using 2(2) by (cases F) auto
  have sh: "same_shape ctx c2" using 1(2) 2(3) by (rule same_shape_trans)
  then have "fc_idx c2 < length (fc_buffers c2)" using assms by (simp add: same_shape_def ctx_fits_def)
  then obtain c3 where 3: "ctx_clear_write_buf c2 = Some c3" "same_shape c2 c3" by (rule ctx_clear_write_buf_total)
  note same_shape_trans [OF sh 3(2)]
  consider e where "r1 = Inl e" | "r1 = Inr Pending" | "r1 = Inr (Ready ())" by (cases r1; cases "projr r1") auto
  then show thesis
  proof cases
    case 3
    show thesis
    proof (cases r2)
      case Inl
      then show thesis using stop 1 2 3 F sh by (simp add: layer_shut_down_def del: filter_process_write_buf.simps)
    next
      case (Inr u)
      then show thesis using go 1 2 3 F \<open>ctx_clear_write_buf c2 = _\<close> \<open>same_shape ctx c3\<close>
        by (simp add: layer_shut_down_def del: filter_process_write_buf.simps)
    qed
  qed (use stop 1 in \<open>simp_all add: layer_shut_down_def\<close>)
qed

lemma shutdown_runs: "ctx_fits F ctx \<Longrightarrow> runs_ok (filter_shutdown ly F ctx) F ctx"
proof (induction "filter_depth F" arbitrary: F ctx)
  case 0
  then show ?case by (cases F) (auto simp: filter_shutdown_simps runs_ok_def)
next
  case (Suc n)
  then obtain l shut nxt where F: "F = Layer l shut nxt" "n = filter_depth nxt" by (cases F) auto
  have next_ok: "runs_ok (do { (r, nxt, ctx) \<leftarrow> filter_shutdown ly nxt' (ctx_next c); Some (r, Layer l' True nxt, ctx_back ctx) }) F ctx"
    if d: "filter_depth nxt' = n" and sh: "same_shape ctx c" for l' nxt' c
  proof -
    have "ctx_fits (Layer l' shut nxt') c" using Suc.prems d sh F by (auto intro: ctx_fits_shape)
    then have "ctx_fits nxt' (ctx_next c)" by simp
    with Suc.hyps(1) [OF d [symmetric]] obtain r nxt2 c2 where n: "filter_shutdown ly nxt' (ctx_next c) = Some (r, nxt2, c2)"
      "filter_depth nxt2 = filter_depth nxt'" "same_shape (ctx_next c) c2" by (metis runs_okE)
    from same_shape_trans [OF sh same_shape_back [OF n(3)]] show ?thesis using n(1,2) d F by (auto simp: runs_ok_def)
  qed
  show ?case
  proof (cases shut)
    case True
    then show ?thesis using next_ok [of nxt ctx l] F by (simp add: filter_shutdown_simps)
  next
    case False
    with Suc.prems F have "ctx_fits (Layer l False nxt) ctx" by simp
    then show ?thesis
    proof (cases rule: layer_shut_down_runs [where ly = ly])
      case (stop r F' c)
      then show ?thesis using False F by (auto simp: filter_shutdown_simps runs_ok_def)
    next
      case (go l' nxt' c)
      then show ?thesis using False F next_ok [of nxt' c l'] by (simp add: filter_shutdown_simps)
    qed
  qed
qed

end
