(* ===== verification/Io_Filters.thy ===== *)
theory Io_Filters
  imports Io_Buf
begin

text \<open>
  What the chain of filters promises when its layers are codecs: a layer that moves the bytes of its write buffer,
  encoded, to the next level and the bytes of the next read buffer, decoded, to its own. Then no byte is lost,
  duplicated or reordered on the way through the stack, in either direction, whatever was already queued on the levels,
  and what one side writes is what the other side reads.
\<close>

section \<open>Codec layers\<close>

definition writes_by :: "'l filter_layer \<Rightarrow> ('l \<Rightarrow> u8 list \<Rightarrow> u8 list) \<Rightarrow> bool" where
  "writes_by ly enc \<longleftrightarrow> (\<forall>l fb.
     fst (fb_run (lp_calls (ly_write ly) l) l fb) = l \<and> lp_result (ly_write ly) l = Inr () \<and>
     fb_curr (snd (fb_run (lp_calls (ly_write ly) l) l fb)) = (fb_curr fb)\<lparr>bf_write := []\<rparr> \<and>
     fb_next (snd (fb_run (lp_calls (ly_write ly) l) l fb)) =
       (fb_next fb)\<lparr>bf_write := bf_write (fb_next fb) @ enc l (bf_write (fb_curr fb))\<rparr>)"

definition reads_by :: "'l filter_layer \<Rightarrow> ('l \<Rightarrow> u8 list \<Rightarrow> u8 list) \<Rightarrow> bool" where
  "reads_by ly dec \<longleftrightarrow> (\<forall>l fb.
     fst (fb_run (lp_calls (ly_read ly) l) l fb) = l \<and> lp_result (ly_read ly) l = Inr () \<and>
     fb_curr (snd (fb_run (lp_calls (ly_read ly) l) l fb)) =
       (fb_curr fb)\<lparr>bf_read := keep_read (read_bytes (fb_curr fb) @ dec l (read_bytes (fb_next fb)))\<rparr> \<and>
     fb_next (snd (fb_run (lp_calls (ly_read ly) l) l fb)) = (fb_next fb)\<lparr>bf_read := None\<rparr>)"

definition streaming :: "('l \<Rightarrow> u8 list \<Rightarrow> u8 list) \<Rightarrow> bool" where
  "streaming enc \<longleftrightarrow> (\<forall>l xs ys. enc l (xs @ ys) = enc l xs @ enc l ys)"

lemma streaming_append: "streaming enc \<Longrightarrow> enc l (xs @ ys) = enc l xs @ enc l ys"
  by (simp add: streaming_def)

lemma streaming_Nil [simp]: "streaming enc \<Longrightarrow> enc l [] = []"
  using streaming_append [of enc l "[]" "[]"] by simp

fun open_chain :: "'l filter \<Rightarrow> bool" where
  "open_chain (Layer l shut nxt) \<longleftrightarrow> \<not> shut \<and> open_chain nxt"
| "open_chain _ \<longleftrightarrow> True"

fun chain_enc :: "('l \<Rightarrow> u8 list \<Rightarrow> u8 list) \<Rightarrow> 'l filter \<Rightarrow> u8 list \<Rightarrow> u8 list" where
  "chain_enc enc (Layer l shut nxt) xs = chain_enc enc nxt (enc l xs)"
| "chain_enc enc _ xs = xs"

fun chain_dec :: "('l \<Rightarrow> u8 list \<Rightarrow> u8 list) \<Rightarrow> 'l filter \<Rightarrow> u8 list \<Rightarrow> u8 list" where
  "chain_dec dec (Layer l shut nxt) xs = dec l (chain_dec dec nxt xs)"
| "chain_dec dec _ xs = xs"

lemma chain_enc_append: "streaming enc \<Longrightarrow> chain_enc enc F (xs @ ys) = chain_enc enc F xs @ chain_enc enc F ys"
  by (induction F arbitrary: xs ys) (simp_all add: streaming_append)

lemma chain_enc_Nil [simp]: "streaming enc \<Longrightarrow> chain_enc enc F [] = []"
  by (induction F) simp_all

lemma chain_dec_enc: "(\<And>l xs. dec l (enc l xs) = xs) \<Longrightarrow> chain_dec dec F (chain_enc enc F xs) = xs"
  by (induction F arbitrary: xs) simp_all

section \<open>The write side\<close>

text \<open>
  \<open>queued_out\<close> is what the levels of a stack hold for the driver: the bytes of the innermost level first, then what the
  levels above will become. \<open>pushed\<close> is the stack after the bytes have moved down.
\<close>

fun queued_out :: "('l \<Rightarrow> u8 list \<Rightarrow> u8 list) \<Rightarrow> 'l filter \<Rightarrow> buffer list \<Rightarrow> u8 list" where
  "queued_out enc (Layer l shut nxt) (b # bs) = queued_out enc nxt bs @ chain_enc enc (Layer l shut nxt) (bf_write b)"
| "queued_out enc _ (b # bs) = bf_write b"
| "queued_out enc _ [] = []"

fun pushed :: "('l \<Rightarrow> u8 list \<Rightarrow> u8 list) \<Rightarrow> 'l filter \<Rightarrow> buffer list \<Rightarrow> buffer list" where
  "pushed enc (Layer l shut nxt) (b # c # bs) =
     b\<lparr>bf_write := []\<rparr> # pushed enc nxt (c\<lparr>bf_write := bf_write c @ enc l (bf_write b)\<rparr> # bs)"
| "pushed enc _ bs = bs"

abbreviation ctx_at :: "buffer list \<Rightarrow> nat \<Rightarrow> buffer list \<Rightarrow> bool \<Rightarrow> bool \<Rightarrow> filter_ctx" where
  "ctx_at pre n bs w nt \<equiv>
     \<lparr>fc_idx = length pre, fc_nbytes = n, fc_buffers = pre @ bs, fc_wants_write = w, fc_notify = nt\<rparr>"

lemma ctx_with_buffer_at:
  "ctx_with_buffer p l (ctx_at pre n (b # c # bs) w nt) =
     (case fb_run (lp_calls p l) l \<lparr>fb_curr = b, fb_next = c, fb_wants_write = w\<rparr> of
        (l, fb) \<Rightarrow> Some (lp_result p l, l, ctx_at pre n (fb_curr fb # fb_next fb # bs) (w \<or> fb_wants_write fb) nt))"
  by (simp add: ctx_with_buffer_def nth_append list_update_append split: prod.split)

lemma ctx_with_buffer_writes:
  assumes "writes_by ly enc"
  obtains w' where "ctx_with_buffer (ly_write ly) l (ctx_at pre n (b # c # bs) w nt) = Some (Inr (), l,
    ctx_at pre n (b\<lparr>bf_write := []\<rparr> # c\<lparr>bf_write := bf_write c @ enc l (bf_write b)\<rparr> # bs) w' nt)"
proof -
  let ?fb = "\<lparr>fb_curr = b, fb_next = c, fb_wants_write = w\<rparr>"
  obtain l' fb where run: "fb_run (lp_calls (ly_write ly) l) l ?fb = (l', fb)" by fastforce
  then have "l' = l" "lp_result (ly_write ly) l = Inr ()" "fb_curr fb = b\<lparr>bf_write := []\<rparr>"
    "fb_next fb = c\<lparr>bf_write := bf_write c @ enc l (bf_write b)\<rparr>"
    using assms [unfolded writes_by_def, THEN spec, THEN spec, of l ?fb] by simp_all
  then show thesis using that [of "w \<or> fb_wants_write fb"] run by (simp add: ctx_with_buffer_at)
qed

lemma process_write_pushes:
  assumes "writes_by ly enc"
  shows "open_chain F \<Longrightarrow> filter_depth F < length bs \<Longrightarrow>
    \<exists>w'. filter_process_write_buf ly F (ctx_at pre n bs w nt) = Some (Inr (), F, ctx_at pre n (pushed enc F bs) w' nt)"
proof (induction F arbitrary: pre bs w)
  case (Layer l shut nxt)
  obtain b c rest where bs: "bs = b # c # rest" using Layer.prems(2) by (cases bs; cases "tl bs") auto
  let ?b = "b\<lparr>bf_write := []\<rparr>" and ?c = "c\<lparr>bf_write := bf_write c @ enc l (bf_write b)\<rparr>"
  obtain w1 where 1: "ctx_with_buffer (ly_write ly) l (ctx_at pre n (b # c # rest) w nt) =
      Some (Inr (), l, ctx_at pre n (?b # ?c # rest) w1 nt)" using assms by (rule ctx_with_buffer_writes)
  from Layer.prems bs obtain w2 where 2: "filter_process_write_buf ly nxt (ctx_at (pre @ [?b]) n (?c # rest) w1 nt) =
      Some (Inr (), nxt, ctx_at (pre @ [?b]) n (pushed enc nxt (?c # rest)) w2 nt)"
    using Layer.IH [of "?c # rest" "pre @ [?b]" w1] by auto
  have "ctx_next (ctx_at pre n (?b # ?c # rest) w1 nt) = ctx_at (pre @ [?b]) n (?c # rest) w1 nt"
    "ctx_back (ctx_at (pre @ [?b]) n (pushed enc nxt (?c # rest)) w2 nt) = ctx_at pre n (?b # pushed enc nxt (?c # rest)) w2 nt"
    by (simp_all add: ctx_next_def ctx_back_def)
  with 1 2 Layer.prems(1) show ?case by (simp add: bs del: append_assoc append.simps)
qed auto

lemma queued_out_more:
  "streaming enc \<Longrightarrow> queued_out enc F (b\<lparr>bf_write := bf_write b @ xs\<rparr> # bs) = queued_out enc F (b # bs) @ chain_enc enc F xs"
  by (cases F) (simp_all add: chain_enc_append streaming_append)

lemma pushed_keeps_queued:
  "streaming enc \<Longrightarrow> filter_depth F < length bs \<Longrightarrow> queued_out enc F (pushed enc F bs) = queued_out enc F bs"
proof (induction enc F bs rule: pushed.induct)
  case (1 enc l shut nxt b c bs)
  then show ?case by (simp add: queued_out_more del: queued_out.simps(2,3))
qed auto

lemma pushed_empties:
  "filter_depth F < length bs \<Longrightarrow> i < filter_depth F \<Longrightarrow> bf_write (pushed enc F bs ! i) = []"
proof (induction enc F bs arbitrary: i rule: pushed.induct)
  case (1 enc l shut nxt b c bs)
  then show ?case by (cases i) auto
qed auto

lemma queued_out_base: "filter_depth F = 0 \<Longrightarrow> queued_out enc F (b # bs) = bf_write b"
  by (cases F) auto

lemma pushed_bottom:
  "streaming enc \<Longrightarrow> filter_depth F < length bs \<Longrightarrow> bf_write (pushed enc F bs ! filter_depth F) = queued_out enc F bs"
proof (induction enc F bs rule: pushed.induct)
  case (1 enc l shut nxt b c bs)
  then show ?case by (simp add: queued_out_more del: queued_out.simps(2,3))
qed (auto simp: queued_out_base neq_Nil_conv)

lemma length_pushed [simp]: "length (pushed enc F bs) = length bs"
  by (induction enc F bs rule: pushed.induct) auto

section \<open>The read side\<close>

fun queued_in :: "('l \<Rightarrow> u8 list \<Rightarrow> u8 list) \<Rightarrow> 'l filter \<Rightarrow> buffer list \<Rightarrow> u8 list" where
  "queued_in dec (Layer l shut nxt) (b # bs) = read_bytes b @ dec l (queued_in dec nxt bs)"
| "queued_in dec _ (b # bs) = read_bytes b"
| "queued_in dec _ [] = []"

fun pulled :: "('l \<Rightarrow> u8 list \<Rightarrow> u8 list) \<Rightarrow> 'l filter \<Rightarrow> buffer list \<Rightarrow> buffer list" where
  "pulled dec (Layer l shut nxt) (b # bs) =
     (case pulled dec nxt bs of
        [] \<Rightarrow> [b]
      | c # rest \<Rightarrow> b\<lparr>bf_read := keep_read (read_bytes b @ dec l (read_bytes c))\<rparr> # c\<lparr>bf_read := None\<rparr> # rest)"
| "pulled dec _ bs = bs"

lemma read_bytes_simps [simp]:
  "read_bytes (b\<lparr>bf_read := keep_read xs\<rparr>) = xs" "read_bytes (b\<lparr>bf_read := None\<rparr>) = []"
  "read_bytes (b\<lparr>bf_read := Some xs\<rparr>) = xs" "read_bytes (b\<lparr>bf_write := ys\<rparr>) = read_bytes b"
  by (simp_all add: read_bytes_def keep_read_def)

lemma length_pulled: "filter_depth F < length bs \<Longrightarrow> length (pulled dec F bs) = length bs"
proof (induction dec F bs rule: pulled.induct)
  case (1 dec l shut nxt b bs)
  then show ?case by (cases "pulled dec nxt bs") auto
qed auto

lemma ctx_with_buffer_reads:
  assumes "reads_by ly dec"
  obtains w' where "ctx_with_buffer (ly_read ly) l (ctx_at pre n (b # c # bs) w nt) = Some (Inr (), l,
    ctx_at pre n (b\<lparr>bf_read := keep_read (read_bytes b @ dec l (read_bytes c))\<rparr> # c\<lparr>bf_read := None\<rparr> # bs) w' nt)"
proof -
  let ?fb = "\<lparr>fb_curr = b, fb_next = c, fb_wants_write = w\<rparr>"
  obtain l' fb where run: "fb_run (lp_calls (ly_read ly) l) l ?fb = (l', fb)" by fastforce
  then have "l' = l" "lp_result (ly_read ly) l = Inr ()" "fb_next fb = c\<lparr>bf_read := None\<rparr>"
    "fb_curr fb = b\<lparr>bf_read := keep_read (read_bytes b @ dec l (read_bytes c))\<rparr>"
    using assms [unfolded reads_by_def, THEN spec, THEN spec, of l ?fb] by simp_all
  then show thesis using that [of "w \<or> fb_wants_write fb"] run by (simp add: ctx_with_buffer_at)
qed

lemma process_read_pulls:
  assumes "reads_by ly dec"
  shows "open_chain F \<Longrightarrow> filter_depth F < length bs \<Longrightarrow>
    \<exists>w'. filter_process_read_buf ly F (ctx_at pre n bs w nt) = Some (Inr (), F, ctx_at pre n (pulled dec F bs) w' nt)"
proof (induction F arbitrary: pre bs w)
  case (Layer l shut nxt)
  obtain b bs' where bs: "bs = b # bs'" "filter_depth nxt < length bs'" using Layer.prems(2) by (cases bs) auto
  obtain c rest where p: "pulled dec nxt bs' = c # rest" using length_pulled [OF bs(2), of dec] bs(2) by (cases "pulled dec nxt bs'") auto
  obtain w1 where 1: "filter_process_read_buf ly nxt (ctx_at (pre @ [b]) n bs' w nt) =
      Some (Inr (), nxt, ctx_at (pre @ [b]) n (c # rest) w1 nt)"
    using Layer.IH [of bs' "pre @ [b]" w] Layer.prems(1) bs(2) p by auto
  obtain w2 where 2: "ctx_with_buffer (ly_read ly) l (ctx_at pre n (b # c # rest) w1 nt) = Some (Inr (), l,
    ctx_at pre n (b\<lparr>bf_read := keep_read (read_bytes b @ dec l (read_bytes c))\<rparr> # c\<lparr>bf_read := None\<rparr> # rest) w2 nt)"
    using assms by (rule ctx_with_buffer_reads)
  have "ctx_next (ctx_at pre n bs w nt) = ctx_at (pre @ [b]) n bs' w nt"
    "ctx_back (ctx_at (pre @ [b]) n (c # rest) w1 nt) = ctx_at pre n (b # c # rest) w1 nt"
    by (simp_all add: ctx_next_def ctx_back_def bs)
  with 1 2 Layer.prems(1) show ?case by (simp add: bs p Let_def del: append_assoc append.simps)
qed auto

lemma pulled_top: "filter_depth F < length bs \<Longrightarrow> read_bytes (hd (pulled dec F bs)) = queued_in dec F bs"
proof (induction dec F bs rule: pulled.induct)
  case (1 dec l shut nxt b bs)
  then show ?case using length_pulled [of nxt bs dec] by (cases "pulled dec nxt bs") auto
qed (auto simp: hd_conv_nth neq_Nil_conv)

text \<open>When only the innermost level has something to read, the chain decodes it.\<close>

lemma queued_in_bottom:
  assumes "\<And>l. dec l [] = []"
  shows "filter_depth F = length bs \<Longrightarrow> \<forall>b \<in> set bs. bf_read b = None \<Longrightarrow>
    queued_in dec F (bs @ b # rest) = chain_dec dec F (read_bytes b)"
proof (induction F arbitrary: bs)
  case (Layer l shut nxt)
  then obtain c bs' where "bs = c # bs'" by (cases bs) auto
  with Layer show ?case by (simp add: read_bytes_def)
qed auto

section \<open>Properties of stacks\<close>

lemma stack_last_nth: "stack_last s = stack_buffers s ! length (sk_layers s)"
  by (cases "sk_layers s" rule: rev_cases) (auto simp: stack_last_def stack_buffers_def nth_append nth_Cons')

lemma stack_process_write_spec:
  assumes "writes_by ly enc" and "streaming enc" and "open_chain F" and "filter_depth F = length (sk_layers s)"
  obtains s' where "stack_process_write_buf_force ly F s = Some (Inr (), F, s')"
    and "stack_buffers s' = pushed enc F (stack_buffers s)" and "length (sk_layers s') = length (sk_layers s)"
    and "bf_write (stack_last s') = queued_out enc F (stack_buffers s)"
proof -
  let ?bs = "stack_buffers s"
  have d: "filter_depth F < length ?bs" using assms(4) by simp
  obtain w where run: "filter_process_write_buf ly F (ctx_at [] 0 ?bs True False) = Some (Inr (), F, ctx_at [] 0 (pushed enc F ?bs) w False)"
    using process_write_pushes [OF assms(1,3) d, of "[]" 0 True False] by auto
  define s' where "s' = stack_of (pushed enc F ?bs)"
  have b: "stack_buffers s' = pushed enc F ?bs" by (simp add: s'_def)
  then have l: "length (sk_layers s') = length (sk_layers s)" using length_stack_buffers [of s'] by simp
  then have "stack_last s' = pushed enc F ?bs ! filter_depth F" by (simp add: stack_last_nth b assms(4))
  then have "bf_write (stack_last s') = queued_out enc F ?bs" using pushed_bottom [OF assms(2) d] by simp
  then show thesis using that b l run by (simp add: stack_process_write_buf_force_def ctx_new_def s'_def)
qed

lemma stack_process_read_spec:
  assumes "reads_by ly dec" and "open_chain F" and "filter_depth F = length (sk_layers s)"
  obtains s' u where "stack_process_read_buf ly F n s = Some (Inr u, F, s')"
    and "stack_buffers s' = pulled dec F (stack_buffers s)" and "length (sk_layers s') = length (sk_layers s)"
    and "read_bytes (sk_top s') = queued_in dec F (stack_buffers s)"
proof -
  let ?bs = "stack_buffers s"
  have d: "filter_depth F < length ?bs" using assms(3) by simp
  obtain w where run: "filter_process_read_buf ly F (ctx_at [] n ?bs False False) = Some (Inr (), F, ctx_at [] n (pulled dec F ?bs) w False)"
    using process_read_pulls [OF assms(1,2) d, of "[]" n False False] by auto
  define s' where "s' = stack_of (pulled dec F ?bs)"
  have b: "stack_buffers s' = pulled dec F ?bs" using length_pulled [OF d, of dec] by (simp add: s'_def)
  then have l: "length (sk_layers s') = length (sk_layers s)" using length_stack_buffers [of s'] length_pulled [OF d, of dec] by simp
  have "sk_top s' = hd (pulled dec F ?bs)" by (simp add: s'_def stack_of_def)
  then have "read_bytes (sk_top s') = queued_in dec F ?bs" using pulled_top [OF d, of dec] by simp
  then show thesis using that b l run by (simp add: stack_process_read_buf_def ctx_new_def s'_def)
qed

lemma stack_set_read_buf_buffers:
  assumes "bf_read (stack_last p) = None"
  obtains b where "stack_buffers (stack_set_read_buf w p) = butlast (butlast (stack_buffers p)) @ b # [sk_tail p]"
    and "read_bytes b = w" and "length (sk_layers (stack_set_read_buf w p)) = length (sk_layers p)"
proof (cases "w = []")
  case True
  then show thesis using that [of "stack_last p"] assms
    by (cases "sk_layers p" rule: rev_cases)
      (auto simp: stack_set_read_buf_def stack_buffers_def stack_last_def read_bytes_def butlast_append)
next
  case False
  then show thesis using that [of "(stack_last p)\<lparr>bf_read := Some w\<rparr>"] assms
    by (cases "sk_layers p" rule: rev_cases)
      (auto simp: stack_set_read_buf_def stack_set_last_def stack_buffers_def stack_last_def butlast_append)
qed

text \<open>C33. Processing the write buffers of a chain of codec layers conserves the outgoing stream: what the driver finds
  in its buffer is exactly what all levels had queued for it, in order; the levels above are left empty, and
  \<open>write_buf_size\<close>, which looks at the first and the last level only, counts all of it.\<close>

theorem filter_write_conserves:
  assumes "writes_by ly enc" and "streaming enc" and "open_chain F" and "filter_depth F = length (sk_layers s)"
  shows "\<exists>s'. stack_process_write_buf_force ly F s = Some (Inr (), F, s')
    \<and> bf_write (stack_last s') = queued_out enc F (stack_buffers s)
    \<and> queued_out enc F (stack_buffers s') = queued_out enc F (stack_buffers s)
    \<and> (\<forall>i < length (sk_layers s). bf_write (stack_buffers s' ! i) = [])
    \<and> stack_write_buf_size s' = length (queued_out enc F (stack_buffers s))"
proof -
  from assms obtain s' where s': "stack_process_write_buf_force ly F s = Some (Inr (), F, s')"
    "stack_buffers s' = pushed enc F (stack_buffers s)" "length (sk_layers s') = length (sk_layers s)"
    "bf_write (stack_last s') = queued_out enc F (stack_buffers s)" by (rule stack_process_write_spec)
  have d: "filter_depth F < length (stack_buffers s)" using assms(4) by simp
  have e: "\<forall>i < length (sk_layers s). bf_write (stack_buffers s' ! i) = []"
    using pushed_empties [OF d] by (simp add: s'(2) assms(4))
  then have "sk_layers s' \<noteq> [] \<Longrightarrow> bf_write (sk_top s') = []" using s'(3) spec [OF e, of 0]
    by (cases "sk_layers s'"; cases "sk_layers s") (simp_all add: stack_buffers_def)
  then have "stack_write_buf_size s' = length (bf_write (stack_last s'))"
    by (simp add: stack_write_buf_size_def stack_last_def)
  then show ?thesis using s' e pushed_keeps_queued [OF assms(2) d] by simp
qed

definition xor_layer :: "u8 filter_layer" where
  "xor_layer = \<lparr>
     ly_read = \<lparr>lp_calls = (\<lambda>_. [With_Read_Buffers (\<lambda>k src dst. (k, None, dst @ map (\<lambda>x. k XOR x) (case src of None \<Rightarrow> [] | Some b \<Rightarrow> b)))]),
       lp_result = (\<lambda>_. Inr ())\<rparr>,
     ly_write = \<lparr>lp_calls = (\<lambda>_. [With_Write_Buffers (\<lambda>k curr nxt. (k, [], nxt @ map (\<lambda>x. k XOR x) curr))]),
       lp_result = (\<lambda>_. Inr ())\<rparr>,
     ly_shutdown = \<lparr>lp_calls = (\<lambda>_. []), lp_result = (\<lambda>_. Inr (Ready ()))\<rparr>\<rparr>"

definition xor_code :: "u8 \<Rightarrow> u8 list \<Rightarrow> u8 list" where
  "xor_code k = map (\<lambda>x. k XOR x)"

lemma xor_layer_codec:
  "writes_by xor_layer xor_code" "reads_by xor_layer xor_code" "streaming xor_code" "xor_code k (xor_code k xs) = xs"
  by (auto simp: writes_by_def reads_by_def streaming_def xor_layer_def xor_code_def Let_def read_bytes_def put_read_src_def
      xor.assoc [symmetric] split: option.splits intro!: map_idI)

theorem filter_write_conserves_witness:
  "\<exists>s'. stack_process_write_buf_force xor_layer (Layer 1 False Base)
      (snd (stack_with_write_src (\<lambda>_. ((), [3, 4])) (stack_add_layer stack_new))) = Some (Inr (), Layer 1 False Base, s')
    \<and> bf_write (stack_last s') = [2, 5]"
proof -
  let ?s = "snd (stack_with_write_src (\<lambda>_. ((), [3, 4])) (stack_add_layer stack_new))"
  have "filter_depth (Layer 1 False Base) = length (sk_layers ?s)"
    by (simp add: stack_with_write_src_def buffer_with_write_def stack_add_layer_def stack_new_def)
  from filter_write_conserves [OF xor_layer_codec(1,3) _ this] show ?thesis
    by (auto simp: stack_with_write_src_def buffer_with_write_def stack_add_layer_def stack_new_def stack_buffers_def
        buffer_new_def xor_code_def)
qed

text \<open>C10. What one side writes the other side reads: two streams with the same chain of codec layers, nothing queued on
  the levels of either. The bytes written to the first, once processed, leave its driver; handed to the driver of the
  second and processed there, they arrive unchanged.\<close>

theorem filter_chain_delivers:
  assumes "writes_by ly enc" and "reads_by ly dec" and "streaming enc" and "\<And>l xs. dec l (enc l xs) = xs" and "open_chain F"
    and "filter_depth F = length (sk_layers s)" and "filter_depth F = length (sk_layers p)"
    and "queued_out enc F (stack_buffers s) = []" and "\<forall>b \<in> set (stack_buffers p). bf_read b = None"
  shows "\<exists>s' p' u. stack_process_write_buf_force ly F (snd (stack_with_write_src (\<lambda>w. ((), w @ xs)) s)) = Some (Inr (), F, s')
    \<and> stack_process_read_buf ly F n (stack_set_read_buf (bf_write (stack_last s')) p) = Some (Inr u, F, p')
    \<and> read_bytes (sk_top p') = xs"
proof -
  let ?s = "snd (stack_with_write_src (\<lambda>w. ((), w @ xs)) s)"
  have "stack_buffers ?s = (sk_top s)\<lparr>bf_write := bf_write (sk_top s) @ xs\<rparr> # sk_layers s @ [sk_tail s]" "sk_layers ?s = sk_layers s"
    by (simp_all add: stack_with_write_src_def buffer_with_write_def stack_buffers_def)
  then have out: "queued_out enc F (stack_buffers ?s) = chain_enc enc F xs" and d: "filter_depth F = length (sk_layers ?s)"
    using queued_out_more [OF assms(3), of F "sk_top s" xs "sk_layers s @ [sk_tail s]"] assms(6,8)
    by (simp_all add: stack_buffers_def)
  from assms(1,3,5) d obtain s' where s': "stack_process_write_buf_force ly F ?s = Some (Inr (), F, s')"
    "bf_write (stack_last s') = chain_enc enc F xs" by (rule stack_process_write_spec) (simp add: out)
  have "bf_read (stack_last p) = None" using assms(9) by (simp add: stack_last_nth)
  then obtain b where b: "stack_buffers (stack_set_read_buf (chain_enc enc F xs) p) = butlast (butlast (stack_buffers p)) @ b # [sk_tail p]"
    "read_bytes b = chain_enc enc F xs" "length (sk_layers (stack_set_read_buf (chain_enc enc F xs) p)) = length (sk_layers p)"
    by (rule stack_set_read_buf_buffers)
  obtain p' u where p': "stack_process_read_buf ly F n (stack_set_read_buf (chain_enc enc F xs) p) = Some (Inr u, F, p')"
    "read_bytes (sk_top p') = queued_in dec F (stack_buffers (stack_set_read_buf (chain_enc enc F xs) p))"
    using assms(2,5,7) b(3) by (metis stack_process_read_spec)
  have nil: "dec l [] = []" for l using assms(4) [of l "[]"] assms(3) by simp
  have "filter_depth F = length (butlast (butlast (stack_buffers p)))" "\<forall>c \<in> set (butlast (butlast (stack_buffers p))). bf_read c = None"
    using assms(7,9) by (auto dest: in_set_butlastD)
  from queued_in_bottom [of dec F _ b "[sk_tail p]", OF nil this] have "queued_in dec F (stack_buffers (stack_set_read_buf (chain_enc enc F xs) p)) = xs"
    by (simp add: b chain_dec_enc assms(4))
  then show ?thesis using s' p' by auto
qed

theorem filter_chain_delivers_witness:
  "let F = Layer 5 False (Layer 9 False Base); s = stack_add_layer (stack_add_layer stack_new) in
   \<exists>s' p' u. stack_process_write_buf_force xor_layer F (snd (stack_with_write_src (\<lambda>w. ((), w @ [1, 2, 3])) s)) = Some (Inr (), F, s')
    \<and> stack_process_read_buf xor_layer F 3 (stack_set_read_buf (bf_write (stack_last s')) s) = Some (Inr u, F, p')
    \<and> read_bytes (sk_top p') = [1, 2, 3]"
proof -
  let ?F = "Layer 5 False (Layer 9 False Base)" and ?s = "stack_add_layer (stack_add_layer stack_new)"
  have "open_chain ?F" "filter_depth ?F = length (sk_layers ?s)" "queued_out xor_code ?F (stack_buffers ?s) = []"
    "\<forall>b \<in> set (stack_buffers ?s). bf_read b = None"
    by (simp_all add: stack_add_layer_def stack_new_def stack_buffers_def buffer_new_def xor_code_def)
  from filter_chain_delivers [OF xor_layer_codec(1-3) xor_layer_codec(4) this(1,2,2,3,4), of "[1, 2, 3]" 3]
  show ?thesis by simp
qed

end
