(* ===== verification/Io_State.thy ===== *)
theory Io_State
  imports Io_Config Io_Buf Io_Flags Local_Waker
begin

text \<open>
  The state of a stream, \<open>IoState\<close> of \<open>io/io.rs\<close>, shared by the application (\<open>Io\<close>, \<open>IoRef\<close>), the read and write tasks of the
  driver (\<open>IoContext\<close>) and the timers, and the operations of \<open>io/io.rs\<close>, \<open>io/ioref.rs\<close>, \<open>io/ctx.rs\<close> and \<open>io/utils.rs\<close> on it.

  The tasks an operation wakes, the writes it schedules and the drop of the driver's handle are appended to \<open>st_log\<close>;
  \<open>Io_Delayed_Write\<close> is an entry of the polling driver, for a \<open>Handle::write\<close> it puts off. The driver is code outside this
  component: \<open>Handle::write\<close> and \<open>Handle::notify\<close> are parameters of the operations that call them, as are the filter layers.
  Operations that process the filters return \<open>None\<close> when an index of the buffer stack is out of range (a panic).
\<close>

section \<open>State\<close>

datatype io_effect = Io_Wake task | Io_Schedule_Write "nat option" | Io_Drop_Handle | Io_Delayed_Write

record 'l io_state =
  st_filter :: "'l filter"
  st_sealed :: bool
  st_id :: "nat option"
  st_cfg :: io_config
  st_flags :: u16
  st_error :: "io_error option"
  st_read_task :: local_waker
  st_write_task :: local_waker
  st_dispatch_task :: local_waker
  st_buffer :: stack
  st_handle :: bool
  st_timeout :: nat
  st_shutdown_timeout :: bool
  st_disconnect :: "local_waker list option"
  st_log :: "io_effect list"

record 'l io_env =
  ev_layer :: "'l filter_layer"
  ev_write :: "'l io_state \<Rightarrow> 'l io_state"
  ev_notify :: "'l io_state \<Rightarrow> 'l io_state"

definition io_state_empty :: "u16 \<Rightarrow> io_config \<Rightarrow> 'l io_state" where
  "io_state_empty flags cfg = \<lparr>st_filter = NullFilter, st_sealed = False, st_id = None, st_cfg = cfg, st_flags = flags,
     st_error = None, st_read_task = lw_new, st_write_task = lw_new, st_dispatch_task = lw_new, st_buffer = stack_new,
     st_handle = False, st_timeout = 0, st_shutdown_timeout = False, st_disconnect = None, st_log = []\<rparr>"

text \<open>\<open>Io::new\<close> with the key the stream table gives to the new stream; the driver's \<open>start\<close> only returns the handle.\<close>

definition io_new :: "io_config \<Rightarrow> nat \<Rightarrow> 'l io_state" where
  "io_new cfg key = (io_state_empty (flags_new (cf_write_buf_threshold cfg > 0)) cfg)
     \<lparr>st_filter := Base, st_id := (if key = 0 then None else Some key), st_handle := True\<rparr>"

definition ioref_create_empty :: "nat \<Rightarrow> 'l io_state" where
  "ioref_create_empty idx = io_state_empty flags_new_stopped (io_config_new idx)"

abbreviation upd_flags :: "(u16 \<Rightarrow> u16) \<Rightarrow> 'l io_state \<Rightarrow> 'l io_state" where
  "upd_flags f s \<equiv> s\<lparr>st_flags := f (st_flags s)\<rparr>"

section \<open>IoState\<close>

definition io_wake_read_task :: "'l io_state \<Rightarrow> 'l io_state" where
  "io_wake_read_task s = (let (w, ws) = lw_wake (st_read_task s) in s\<lparr>st_read_task := w, st_log := st_log s @ map Io_Wake ws\<rparr>)"

definition io_wake_write_task :: "'l io_state \<Rightarrow> 'l io_state" where
  "io_wake_write_task s = (let (w, ws) = lw_wake (st_write_task s) in s\<lparr>st_write_task := w, st_log := st_log s @ map Io_Wake ws\<rparr>)"

definition io_wake_dispatch_task :: "'l io_state \<Rightarrow> 'l io_state" where
  "io_wake_dispatch_task s = (let (w, ws) = lw_wake (st_dispatch_task s) in s\<lparr>st_dispatch_task := w, st_log := st_log s @ map Io_Wake ws\<rparr>)"

definition io_register_dispatch :: "task \<Rightarrow> 'l io_state \<Rightarrow> 'l io_state" where
  "io_register_dispatch cx s = s\<lparr>st_dispatch_task := fst (lw_register (st_dispatch_task s) cx)\<rparr>"

definition io_register_read :: "task \<Rightarrow> 'l io_state \<Rightarrow> 'l io_state" where
  "io_register_read cx s = s\<lparr>st_read_task := fst (lw_register (st_read_task s) cx)\<rparr>"

definition io_register_write :: "task \<Rightarrow> 'l io_state \<Rightarrow> 'l io_state" where
  "io_register_write cx s = s\<lparr>st_write_task := fst (lw_register (st_write_task s) cx)\<rparr>"

definition io_notify_timeout :: "'l io_state \<Rightarrow> 'l io_state" where
  "io_notify_timeout s =
     (let (f, unset) = flags_check_dispatcher_timeout_unset (st_flags s); s = s\<lparr>st_flags := f\<rparr>
      in if unset then io_wake_dispatch_task s else s)"

definition io_notify_disconnect :: "'l io_state \<Rightarrow> 'l io_state" where
  "io_notify_disconnect s =
     (case st_disconnect s of
        None \<Rightarrow> s
      | Some ws \<Rightarrow> s\<lparr>st_disconnect := None, st_log := st_log s @ map Io_Wake (concat (map lw_woken ws))\<rparr>)"

definition io_error :: "'l io_state \<Rightarrow> io_error option" where
  "io_error s = st_error s"

definition io_error_or_disconnected :: "'l io_state \<Rightarrow> io_error" where
  "io_error_or_disconnected s = (case io_error s of Some e \<Rightarrow> e | None \<Rightarrow> IoError NotConnected ''Disconnected'')"

definition io_filters_stopped :: "'l io_state \<Rightarrow> 'l io_state" where
  "io_filters_stopped s =
     upd_flags flags_set_filters_stopped (io_wake_dispatch_task (io_wake_write_task (io_wake_read_task s)))"

definition io_terminate_connection :: "io_error option \<Rightarrow> 'l io_state \<Rightarrow> 'l io_state" where
  "io_terminate_connection err s =
     (if flags_is_terminated (st_flags s) then s
      else
        let s = (if err \<noteq> None then s\<lparr>st_error := err\<rparr> else s);
            s = upd_flags flags_set_terminate s;
            s = io_notify_disconnect (io_wake_dispatch_task (io_wake_write_task (io_wake_read_task s)))
        in s\<lparr>st_handle := False, st_log := st_log s @ (if st_handle s then [Io_Drop_Handle] else [])\<rparr>)"

definition io_start_shutdown :: "'l io_state \<Rightarrow> 'l io_state" where
  "io_start_shutdown s =
     (if flags_is_stopping_any (st_flags s) then s
      else io_wake_write_task (io_wake_read_task (upd_flags flags_set_filter_stopping s)))"

definition is_rd_backpressure_needed :: "nat \<Rightarrow> 'l io_state \<Rightarrow> bool" where
  "is_rd_backpressure_needed n s \<longleftrightarrow> n \<ge> bc_high (cf_read_buf (st_cfg s))"

definition is_wr_backpressure_needed :: "nat \<Rightarrow> 'l io_state \<Rightarrow> bool" where
  "is_wr_backpressure_needed n s \<longleftrightarrow> n \<ge> bc_high (cf_write_buf (st_cfg s))"

definition should_disable_wr_backpressure :: "nat \<Rightarrow> 'l io_state \<Rightarrow> bool" where
  "should_disable_wr_backpressure n s \<longleftrightarrow> n \<le> bc_half (cf_write_buf (st_cfg s))"

section \<open>Processing the filters\<close>

definition st_process_read_buf :: "'l io_env \<Rightarrow> nat \<Rightarrow> 'l io_state \<Rightarrow> ((io_error + bool \<times> bool) \<times> 'l io_state) option" where
  "st_process_read_buf E nbytes s = do {
     (r, F, b) \<leftarrow> stack_process_read_buf (ev_layer E) (st_filter s) nbytes (st_buffer s);
     Some (r, s\<lparr>st_filter := F, st_buffer := b\<rparr>) }"

definition st_process_write_buf :: "'l io_env \<Rightarrow> 'l io_state \<Rightarrow> ((io_error + unit) \<times> 'l io_state) option" where
  "st_process_write_buf E s = do {
     (r, F, b) \<leftarrow> stack_process_write_buf (ev_layer E) (st_filter s) (st_buffer s);
     Some (r, s\<lparr>st_filter := F, st_buffer := b\<rparr>) }"

definition st_process_write_buf_force :: "'l io_env \<Rightarrow> 'l io_state \<Rightarrow> ((io_error + unit) \<times> 'l io_state) option" where
  "st_process_write_buf_force E s = do {
     (r, F, b) \<leftarrow> stack_process_write_buf_force (ev_layer E) (st_filter s) (st_buffer s);
     Some (r, s\<lparr>st_filter := F, st_buffer := b\<rparr>) }"

definition st_process_shutdown :: "'l io_env \<Rightarrow> 'l io_state \<Rightarrow> ((io_error + unit poll) \<times> 'l io_state) option" where
  "st_process_shutdown E s = do {
     (r, F, b) \<leftarrow> stack_process_shutdown (ev_layer E) (st_filter s) (st_buffer s);
     Some (r, s\<lparr>st_filter := F, st_buffer := b\<rparr>) }"

definition st_write_buf_size :: "'l io_state \<Rightarrow> nat" where
  "st_write_buf_size s = stack_write_buf_size (st_buffer s)"

section \<open>IoRef: writing\<close>

text \<open>The handle is taken out of the state for the time of the call, so the driver cannot be entered twice.\<close>

definition ioref_call_write :: "'l io_env \<Rightarrow> 'l io_state \<Rightarrow> bool \<times> 'l io_state" where
  "ioref_call_write E s =
     (let s = (if st_handle s
               then (ev_write E (upd_flags flags_unset_write_paused (s\<lparr>st_handle := False\<rparr>)))\<lparr>st_handle := True\<rparr>
               else s)
      in (\<not> flags_is_write_paused (st_flags s), s))"

definition ioref_call_notify :: "'l io_env \<Rightarrow> 'l io_state \<Rightarrow> 'l io_state" where
  "ioref_call_notify E s = (if st_handle s then (ev_notify E (s\<lparr>st_handle := False\<rparr>))\<lparr>st_handle := True\<rparr> else s)"

definition ioref_schedule_write :: "'l io_state \<Rightarrow> 'l io_state" where
  "ioref_schedule_write s =
     (if flags_is_wr_send_scheduled (st_flags s) then s
      else (upd_flags flags_set_wr_send_scheduled s)\<lparr>st_log := st_log s @ [Io_Schedule_Write (st_id s)]\<rparr>)"

definition ioref_consolidate_write_state :: "'l io_env \<Rightarrow> bool \<Rightarrow> 'l io_state \<Rightarrow> 'l io_state" where
  "ioref_consolidate_write_state E force s =
     (let n = st_write_buf_size s;
          s = (if n > 0 \<and> flags_is_write_paused (st_flags s)
               then if flags_is_direct_wr_enabled (st_flags s) \<and> (force \<or> n \<ge> cf_write_buf_threshold (st_cfg s))
                    then (case ioref_call_write E s of
                            (True, s) \<Rightarrow> ioref_schedule_write s
                          | (False, s) \<Rightarrow> upd_flags flags_unset_wr_send_scheduled s)
                    else ioref_schedule_write s
               else s)
      in if \<not> flags_is_wr_backpressure (st_flags s) \<and> is_wr_backpressure_needed n s
         then io_wake_dispatch_task (upd_flags flags_set_wr_backpressure s)
         else s)"

definition ioref_with_write_buf ::
    "'l io_env \<Rightarrow> (u8 list \<Rightarrow> 'r \<times> u8 list) \<Rightarrow> 'l io_state \<Rightarrow> (io_error + 'r) \<times> 'l io_state" where
  "ioref_with_write_buf E f s =
     (if flags_is_stopping_any (st_flags s)
      then if flags_is_closed (st_flags s) then (Inl (io_error_or_disconnected s), s)
           else (Inl (IoError (OtherKind 0) ''I/O stream is closing''), s)
      else let (r, b) = stack_with_write_src f (st_buffer s)
           in (Inr r, ioref_consolidate_write_state E False (s\<lparr>st_buffer := b\<rparr>)))"

definition ioref_encode ::
    "'l io_env \<Rightarrow> ('i \<Rightarrow> u8 list \<Rightarrow> ('e + unit) \<times> u8 list) \<Rightarrow> 'i \<Rightarrow> 'l io_state \<Rightarrow> ('e + unit) \<times> 'l io_state" where
  "ioref_encode E encodev item s =
     (case ioref_with_write_buf E (encodev item) s of (Inl _, s) \<Rightarrow> (Inr (), s) | (Inr r, s) \<Rightarrow> (r, s))"

definition ioref_encode_slice :: "'l io_env \<Rightarrow> u8 list \<Rightarrow> 'l io_state \<Rightarrow> (io_error + unit) \<times> 'l io_state" where
  "ioref_encode_slice E src s = ioref_with_write_buf E (\<lambda>b. ((), b @ src)) s"

definition ioref_encode_bytes :: "'l io_env \<Rightarrow> u8 list \<Rightarrow> 'l io_state \<Rightarrow> (io_error + unit) \<times> 'l io_state" where
  "ioref_encode_bytes E src s = ioref_with_write_buf E (\<lambda>b. ((), b @ src)) s"

definition ioref_with_write_dst_buf :: "(u8 list \<Rightarrow> 'r \<times> u8 list) \<Rightarrow> 'l io_state \<Rightarrow> 'r \<times> 'l io_state" where
  "ioref_with_write_dst_buf f s = (let (r, b) = stack_with_write_dst f (st_buffer s) in (r, s\<lparr>st_buffer := b\<rparr>))"

definition ioref_send_buf :: "'l io_env \<Rightarrow> 'l io_state \<Rightarrow> (io_error + unit) \<times> 'l io_state" where
  "ioref_send_buf E s =
     (let s = ioref_consolidate_write_state E True s in
      if flags_is_stopping_any (st_flags s)
      then (case st_error s of Some e \<Rightarrow> (Inl e, s\<lparr>st_error := None\<rparr>) | None \<Rightarrow> (Inr (), s))
      else (Inr (), s))"

definition ioref_ops_send_buf :: "'l io_env \<Rightarrow> 'l io_state \<Rightarrow> 'l io_state" where
  "ioref_ops_send_buf E s =
     (if flags_is_wr_send_scheduled (st_flags s)
      then
        let s = upd_flags flags_unset_wr_send_scheduled s in
        if flags_is_write_paused (st_flags s)
        then (case ioref_call_write E s of
                (True, s) \<Rightarrow> upd_flags flags_unset_write_paused (io_wake_write_task s)
              | (False, s) \<Rightarrow> s)
        else io_wake_write_task s
      else s)"

fun filter_is_transparent :: "'l filter \<Rightarrow> bool" where
  "filter_is_transparent Base = True"
| "filter_is_transparent _ = False"

text \<open>\<open>Handle::write_bufs\<close> is the parameter \<open>wb\<close>; \<open>None\<close> is a driver that cannot write now.\<close>

definition ioref_try_write_vectored ::
    "(u8 list list \<Rightarrow> 'l io_state \<Rightarrow> (io_error + nat) option \<times> 'l io_state) \<Rightarrow> u8 list list \<Rightarrow> 'l io_state \<Rightarrow> (io_error + nat) \<times> 'l io_state" where
  "ioref_try_write_vectored wb bufs s =
     (if flags_is_stopping_any (st_flags s) \<or> st_write_buf_size s \<noteq> 0 \<or> \<not> filter_is_transparent (st_filter s)
      then (Inr 0, s)
      else if \<not> st_handle s then (Inr 0, s)
      else (case wb bufs (s\<lparr>st_handle := False\<rparr>) of
              (Some r, s) \<Rightarrow> (r, s\<lparr>st_handle := True\<rparr>)
            | (None, s) \<Rightarrow> (Inr 0, s\<lparr>st_handle := True\<rparr>)))"

section \<open>IoRef: reading\<close>

definition ioref_update_read_destination :: "nat \<Rightarrow> 'l io_state \<Rightarrow> 'l io_state" where
  "ioref_update_read_destination n s =
     (if flags_is_rd_backpressure (st_flags s) \<and> is_rd_backpressure_needed n s then s
      else
        let s = (if flags_is_rd_backpressure (st_flags s) then upd_flags flags_unset_all_read_flags s
                 else upd_flags flags_unset_read_ready s)
        in if flags_is_read_paused (st_flags s) then upd_flags flags_unset_read_paused (io_wake_read_task s) else s)"

definition ioref_with_read_buf :: "(u8 list \<Rightarrow> 'r \<times> u8 list) \<Rightarrow> 'l io_state \<Rightarrow> 'r \<times> 'l io_state" where
  "ioref_with_read_buf f s =
     (let (r, b) = stack_with_read_dst f (st_buffer s); s = s\<lparr>st_buffer := b\<rparr>
      in (r, ioref_update_read_destination (stack_read_dst_size b) s))"

definition ioref_decode :: "(u8 list \<Rightarrow> ('e + 'i option) \<times> u8 list) \<Rightarrow> 'l io_state \<Rightarrow> ('e + 'i option) \<times> 'l io_state" where
  "ioref_decode decode s =
     (let (r, b) = stack_with_read_dst decode (st_buffer s);
          s = upd_flags flags_unset_read_ready (s\<lparr>st_buffer := b\<rparr>)
      in (r, ioref_update_read_destination (stack_read_dst_size b) s))"

record 'i decoded =
  dc_item :: "'i option"
  dc_remains :: nat
  dc_consumed :: nat

text \<open>\<open>len - buf.len()\<close> panics on underflow, when the decoder has made the buffer longer.\<close>

definition ioref_decode_item ::
    "(u8 list \<Rightarrow> ('e + 'i option) \<times> u8 list) \<Rightarrow> 'l io_state \<Rightarrow> (('e + 'i decoded) \<times> 'l io_state) option" where
  "ioref_decode_item decode s =
     (let len = stack_read_dst_size (st_buffer s);
          (r, b) = stack_with_read_dst decode (st_buffer s);
          n = stack_read_dst_size b;
          s = ioref_update_read_destination n (upd_flags flags_unset_read_ready (s\<lparr>st_buffer := b\<rparr>))
      in case r of
           Inl e \<Rightarrow> Some (Inl e, s)
         | Inr item \<Rightarrow> if n \<le> len then Some (Inr \<lparr>dc_item = item, dc_remains = n, dc_consumed = len - n\<rparr>, s) else None)"

definition ioref_close :: "'l io_state \<Rightarrow> 'l io_state" where
  "ioref_close s = io_start_shutdown s"

text \<open>\<open>error.take()\<close> in the condition has already removed the first error when the else branch reads it again.\<close>

definition ioref_close_with :: "io_error \<Rightarrow> 'l io_state \<Rightarrow> 'l io_state" where
  "ioref_close_with err s =
     (let taken = st_error s; s = s\<lparr>st_error := None\<rparr>;
          s = (if taken = None then s\<lparr>st_error := Some err\<rparr> else s\<lparr>st_error := st_error s\<rparr>)
      in io_start_shutdown s)"

definition ioref_terminate :: "'l io_state \<Rightarrow> 'l io_state" where
  "ioref_terminate s = io_terminate_connection None s"

definition ioref_with_buf ::
    "'l io_env \<Rightarrow> ('l, 'r) layer_proc \<Rightarrow> 'l \<Rightarrow> 'l io_state \<Rightarrow> ((io_error + 'r) \<times> 'l io_state) option" where
  "ioref_with_buf E p l s = do {
     (r, _, b) \<leftarrow> stack_with_filter_buffer p l (st_buffer s);
     Some (r, ioref_consolidate_write_state E False (s\<lparr>st_buffer := b\<rparr>)) }"

definition ioref_notify_dispatcher :: "'l io_state \<Rightarrow> 'l io_state" where
  "ioref_notify_dispatcher s = io_wake_dispatch_task s"

section \<open>Disconnect notifications\<close>

text \<open>The token \<open>None\<close> stands for \<open>usize::MAX\<close>.\<close>

definition ext_register_disconnect :: "'l io_state \<Rightarrow> nat \<times> 'l io_state" where
  "ext_register_disconnect s =
     (case st_disconnect s of
        Some ws \<Rightarrow> (length ws, s\<lparr>st_disconnect := Some (ws @ [lw_new])\<rparr>)
      | None \<Rightarrow> (0, s\<lparr>st_disconnect := Some [lw_new]\<rparr>))"

definition ext_poll_disconnect :: "nat \<Rightarrow> task \<Rightarrow> 'l io_state \<Rightarrow> (unit poll \<times> 'l io_state) option" where
  "ext_poll_disconnect token cx s =
     (case st_disconnect s of
        Some ws \<Rightarrow>
          if token < length ws
          then Some (Pending, s\<lparr>st_disconnect := Some (ws[token := fst (lw_register (ws ! token) cx)])\<rparr>)
          else None
      | None \<Rightarrow> Some (Ready (), s))"

definition on_disconnect_new :: "bool \<Rightarrow> 'l io_state \<Rightarrow> nat option \<times> 'l io_state" where
  "on_disconnect_new disconnected s =
     (if disconnected then (None, s) else (let (t, s) = ext_register_disconnect s in (Some t, s)))"

definition ioref_on_disconnect :: "'l io_state \<Rightarrow> nat option \<times> 'l io_state" where
  "ioref_on_disconnect s = on_disconnect_new (flags_is_stopping (st_flags s)) s"

definition on_disconnect_poll_ready :: "nat option \<Rightarrow> task \<Rightarrow> 'l io_state \<Rightarrow> (unit poll \<times> 'l io_state) option" where
  "on_disconnect_poll_ready token cx s =
     (case token of
        None \<Rightarrow> Some (Ready (), s)
      | Some t \<Rightarrow> if flags_is_stopping (st_flags s) then Some (Ready (), s) else ext_poll_disconnect t cx s)"

definition on_disconnect_clone :: "nat option \<Rightarrow> 'l io_state \<Rightarrow> nat option \<times> 'l io_state" where
  "on_disconnect_clone token s = on_disconnect_new (token = None) s"

section \<open>Io\<close>

definition io_pause :: "'l io_state \<Rightarrow> 'l io_state" where
  "io_pause s = (if flags_is_read_paused (st_flags s) then s else upd_flags flags_set_read_paused (io_wake_read_task s))"

definition io_poll_read_ready :: "task \<Rightarrow> 'l io_state \<Rightarrow> (io_error + unit option) poll \<times> 'l io_state" where
  "io_poll_read_ready cx s =
     (if flags_is_closed (st_flags s) then (Ready (Inr None), s)
      else
        let ready = flags_is_read_ready (st_flags s) in
        if flags_is_read_paused_or_backpressure (st_flags s)
        then
          let s = io_wake_read_task (upd_flags flags_unset_read_paused (upd_flags flags_unset_all_read_flags s))
          in if ready then (Ready (Inr (Some ())), s) else (Pending, io_register_dispatch cx s)
        else if ready then (Ready (Inr (Some ())), s)
        else
          let s = (if flags_is_read_paused (st_flags s)
                   then upd_flags flags_unset_read_paused (io_wake_read_task s) else s)
          in (Pending, io_register_dispatch cx s))"

definition io_poll_read_notify :: "task \<Rightarrow> 'l io_state \<Rightarrow> (io_error + unit option) poll \<times> 'l io_state" where
  "io_poll_read_notify cx s =
     (if flags_is_stopping (st_flags s) then (Ready (Inr None), s)
      else
        let (f, notified) = flags_check_read_notifed (st_flags s); s = s\<lparr>st_flags := f\<rparr> in
        if notified then (Ready (Inr (Some ())), s)
        else
          let (p, s) = io_poll_read_ready cx (upd_flags flags_set_read_notify s);
              s = (case p of Ready _ \<Rightarrow> io_register_dispatch cx s | Pending \<Rightarrow> s)
          in (Pending, io_register_dispatch cx s))"

datatype 'e recv_error = Recv_KeepAlive | Recv_WriteBackpressure | Recv_Decoder 'e | Recv_PeerGone "io_error option"

definition io_poll_recv_decode ::
    "(u8 list \<Rightarrow> ('e + 'i option) \<times> u8 list) \<Rightarrow> task \<Rightarrow> 'l io_state \<Rightarrow> (('e recv_error + 'i decoded) \<times> 'l io_state) option" where
  "io_poll_recv_decode decode cx s = do {
     (r, s) \<leftarrow> ioref_decode_item decode (upd_flags flags_unset_read_ready s);
     Some (case r of
        Inl e \<Rightarrow> (Inl (Recv_Decoder e), s)
      | Inr d \<Rightarrow>
          if dc_item d \<noteq> None then (Inr d, s)
          else if flags_is_stopping (st_flags s) then (Inl (Recv_PeerGone (io_error s)), s)
          else
            let (f, timeout) = flags_check_dispatcher_timeout (st_flags s); s = s\<lparr>st_flags := f\<rparr> in
            if timeout then (Inl Recv_KeepAlive, s)
            else if flags_is_wr_backpressure (st_flags s) then (Inl Recv_WriteBackpressure, s)
            else
              (case io_poll_read_ready cx s of
                 (Pending, s) \<Rightarrow> (Inr d, s)
               | (Ready (Inr (Some _)), s) \<Rightarrow> (Inr d, s)
               | (Ready (Inl e), s) \<Rightarrow> (Inl (Recv_PeerGone (Some e)), s)
               | (Ready (Inr None), s) \<Rightarrow> (Inl (Recv_PeerGone None), s))) }"

definition io_poll_recv ::
    "(u8 list \<Rightarrow> ('e + 'i option) \<times> u8 list) \<Rightarrow> task \<Rightarrow> 'l io_state \<Rightarrow> (('e recv_error + 'i) poll \<times> 'l io_state) option" where
  "io_poll_recv decode cx s = do {
     (r, s) \<leftarrow> io_poll_recv_decode decode cx s;
     Some (case r of
        Inl e \<Rightarrow> (Ready (Inl e), s)
      | Inr d \<Rightarrow> (case dc_item d of Some i \<Rightarrow> (Ready (Inr i), s) | None \<Rightarrow> (Pending, s))) }"

definition io_poll_flush :: "'l io_env \<Rightarrow> task \<Rightarrow> bool \<Rightarrow> 'l io_state \<Rightarrow> ((io_error + unit) poll \<times> 'l io_state) option" where
  "io_poll_flush E cx full s = do {
     (r, s) \<leftarrow> st_process_write_buf_force E s;
     (case r of
        Inl e \<Rightarrow> Some (Ready (Inl e), s)
      | Inr _ \<Rightarrow>
          let s = ioref_consolidate_write_state E False s;
              len = st_write_buf_size s
          in if len > 0 \<and> flags_is_closed (st_flags s) then Some (Ready (Inl (io_error_or_disconnected s)), s)
             else if len > 0 \<and> full
             then Some (Pending, io_register_dispatch cx (upd_flags flags_set_wants_write_flush s))
             else if len > 0 \<and> is_wr_backpressure_needed len s
             then Some (Pending, io_register_dispatch cx (upd_flags flags_set_wr_backpressure s))
             else if flags_is_closed (st_flags s) \<and> \<not> flags_is_write_flush (st_flags s)
             then Some (Ready (Inl (io_error_or_disconnected s)), s)
             else Some (Ready (Inr ()), upd_flags flags_unset_wr_backpressure_and_flush s)) }"

definition io_poll_shutdown :: "task \<Rightarrow> 'l io_state \<Rightarrow> (io_error + unit) poll \<times> 'l io_state" where
  "io_poll_shutdown cx s =
     (if flags_is_stopping (st_flags s)
      then (case io_error s of Some e \<Rightarrow> (Ready (Inl e), s) | None \<Rightarrow> (Ready (Inr ()), s))
      else
        let s = (if flags_is_stopping_filters (st_flags s) then s else io_start_shutdown s);
            s = upd_flags flags_unset_read_paused (upd_flags flags_unset_all_read_flags s)
        in (Pending, io_register_dispatch cx (io_wake_read_task s)))"

datatype io_status_update = Upd_KeepAlive | Upd_WriteBackpressure | Upd_PeerGone "io_error option"

definition io_poll_status_update :: "task \<Rightarrow> 'l io_state \<Rightarrow> io_status_update poll \<times> 'l io_state" where
  "io_poll_status_update cx s =
     (let s = io_register_dispatch cx s in
      if flags_is_closed (st_flags s) then (Ready (Upd_PeerGone (io_error s)), s)
      else
        let (f, timeout) = flags_check_dispatcher_timeout (st_flags s); s = s\<lparr>st_flags := f\<rparr> in
        if timeout then (Ready Upd_KeepAlive, s)
        else if flags_is_wr_backpressure (st_flags s)
        then (Ready Upd_WriteBackpressure,
              if should_disable_wr_backpressure (st_write_buf_size s) s then upd_flags flags_unset_wr_backpressure s else s)
        else (Pending, s))"

definition io_poll_read_pause :: "task \<Rightarrow> 'l io_state \<Rightarrow> io_status_update poll \<times> 'l io_state" where
  "io_poll_read_pause cx s = io_poll_status_update cx (io_pause s)"

definition io_poll_dispatch :: "task \<Rightarrow> 'l io_state \<Rightarrow> 'l io_state" where
  "io_poll_dispatch cx s = io_register_dispatch cx s"

section \<open>Filters of a stream\<close>

definition io_add_filter :: "'l io_env \<Rightarrow> 'l \<Rightarrow> 'l io_state \<Rightarrow> 'l io_state option" where
  "io_add_filter E nf s = do {
     (r, s) \<leftarrow> st_process_write_buf E s;
     let s = (case r of Inl e \<Rightarrow> io_terminate_connection (Some e) s | Inr _ \<Rightarrow> s);
     let s = s\<lparr>st_buffer := stack_add_layer (st_buffer s)\<rparr>;
     s \<leftarrow> (if st_filter s = NullFilter then None else Some (s\<lparr>st_filter := Layer nf False (st_filter s)\<rparr>));
     (r, s) \<leftarrow> st_process_read_buf E 0 s;
     Some (case r of Inl e \<Rightarrow> io_terminate_connection (Some e) s | Inr _ \<Rightarrow> s) }"

definition io_map_filter :: "'l io_env \<Rightarrow> ('l filter \<Rightarrow> 'l filter) \<Rightarrow> 'l io_state \<Rightarrow> 'l io_state option" where
  "io_map_filter E f s = do {
     (r, s) \<leftarrow> st_process_write_buf E s;
     let s = (case r of Inl e \<Rightarrow> io_terminate_connection (Some e) s | Inr _ \<Rightarrow> s);
     if st_filter s = NullFilter \<or> st_sealed s then None else Some (s\<lparr>st_filter := f (st_filter s)\<rparr>) }"

definition io_seal :: "'l io_state \<Rightarrow> 'l io_state option" where
  "io_seal s = (if st_filter s = NullFilter then None else Some (s\<lparr>st_sealed := True\<rparr>))"

definition io_set_config :: "io_config \<Rightarrow> 'l io_state \<Rightarrow> 'l io_state" where
  "io_set_config cfg s = s\<lparr>st_cfg := cfg\<rparr>"

text \<open>
  Dropping the stream; its timer and its entry in the stream table are the business of \<open>io/ops.rs\<close>.
\<close>

definition io_drop :: "'l io_state \<Rightarrow> 'l io_state" where
  "io_drop s =
     (if st_filter s \<noteq> NullFilter
      then (io_terminate_connection None s)\<lparr>st_filter := NullFilter, st_sealed := False\<rparr>
      else s)"

section \<open>IoContext\<close>

datatype readiness = Rdy_Ready | Rdy_Shutdown | Rdy_Terminate

datatype io_task_status = Task_Io | Task_Pause | Task_Stop

fun readiness_merge :: "readiness poll \<Rightarrow> readiness poll \<Rightarrow> readiness poll" where
  "readiness_merge Pending v2 = Pending"
| "readiness_merge (Ready Rdy_Ready) v2 = v2"
| "readiness_merge (Ready Rdy_Terminate) v2 = Ready Rdy_Terminate"
| "readiness_merge (Ready Rdy_Shutdown) v2 = (if v2 = Ready Rdy_Terminate then Ready Rdy_Terminate else Ready Rdy_Shutdown)"

definition base_poll_read_ready :: "task \<Rightarrow> 'l io_state \<Rightarrow> readiness poll \<times> 'l io_state" where
  "base_poll_read_ready cx s =
     (if flags_is_closed (st_flags s) then (Ready Rdy_Terminate, s)
      else
        let s = io_register_read cx s in
        if flags_is_stopping_filters (st_flags s) then (Ready Rdy_Ready, s)
        else if flags_is_read_paused_or_backpressure (st_flags s) then (Pending, s)
        else (Ready Rdy_Ready, s))"

definition base_poll_write_ready :: "task \<Rightarrow> 'l io_state \<Rightarrow> readiness poll \<times> 'l io_state" where
  "base_poll_write_ready cx s =
     (if flags_is_closed (st_flags s) then (Ready Rdy_Terminate, s)
      else
        let s = io_register_write cx s in
        if flags_is_stopping (st_flags s) then (Ready Rdy_Shutdown, s)
        else if flags_is_write_paused (st_flags s) then (Pending, s)
        else (Ready Rdy_Ready, s))"

text \<open>A layer passes the readiness polls on to the filter below it.\<close>

fun filter_poll_read_ready :: "'l filter \<Rightarrow> task \<Rightarrow> 'l io_state \<Rightarrow> readiness poll \<times> 'l io_state" where
  "filter_poll_read_ready NullFilter cx s = (Ready Rdy_Terminate, s)"
| "filter_poll_read_ready Base cx s = base_poll_read_ready cx s"
| "filter_poll_read_ready (Layer l shut nxt) cx s = filter_poll_read_ready nxt cx s"

fun filter_poll_write_ready :: "'l filter \<Rightarrow> task \<Rightarrow> 'l io_state \<Rightarrow> readiness poll \<times> 'l io_state" where
  "filter_poll_write_ready NullFilter cx s = (Ready Rdy_Terminate, s)"
| "filter_poll_write_ready Base cx s = base_poll_write_ready cx s"
| "filter_poll_write_ready (Layer l shut nxt) cx s = filter_poll_write_ready nxt cx s"

definition ctx_stop :: "io_error option \<Rightarrow> 'l io_state \<Rightarrow> 'l io_state" where
  "ctx_stop e s = io_terminate_connection e s"

definition ctx_is_stopped :: "'l io_state \<Rightarrow> bool" where
  "ctx_is_stopped s \<longleftrightarrow> flags_is_closed (st_flags s)"

definition ctx_notify :: "'l io_state \<Rightarrow> 'l io_state" where
  "ctx_notify s = io_wake_read_task s"

text \<open>The bytes of the buffer handed to the driver; its capacity is the matter of \<open>Io_Config\<close>.\<close>

definition ctx_get_read_buf :: "'l io_state \<Rightarrow> u8 list \<times> 'l io_state" where
  "ctx_get_read_buf s =
     (if flags_is_read_ready (st_flags s) then ([], s)
      else (case stack_get_read_buf (st_buffer s) of
              (Some buf, b) \<Rightarrow> (buf, s\<lparr>st_buffer := b\<rparr>)
            | (None, b) \<Rightarrow> ([], s\<lparr>st_buffer := b\<rparr>)))"

definition ctx_with_write_buf ::
    "'l io_env \<Rightarrow> (u8 list \<Rightarrow> 'r \<times> u8 list) \<Rightarrow> 'l io_state \<Rightarrow> ('r \<times> 'l io_state) option" where
  "ctx_with_write_buf E f s = do {
     (r, s) \<leftarrow> st_process_write_buf E s;
     let s = (case r of Inl e \<Rightarrow> io_terminate_connection (Some e) s | Inr _ \<Rightarrow> s);
     let (r, b) = stack_with_write_dst f (st_buffer s);
     Some (r, s\<lparr>st_buffer := b\<rparr>) }"

text \<open>The two notifications of a successful \<open>update_write_status\<close>: to the dispatcher, and to the tasks that wait for a flush.\<close>

definition ctx_write_notify_dispatch :: "nat \<Rightarrow> 'l io_state \<Rightarrow> 'l io_state" where
  "ctx_write_notify_dispatch len s =
     (if flags_is_write_flush (st_flags s)
      then if len = 0 then io_wake_dispatch_task s else s
      else if flags_is_wr_backpressure (st_flags s) \<and> should_disable_wr_backpressure len s
      then io_wake_dispatch_task s else s)"

definition ctx_write_notify_tasks :: "bool \<Rightarrow> 'l io_state \<Rightarrow> 'l io_state" where
  "ctx_write_notify_tasks written s =
     (if written \<and> flags_is_write_notify (st_flags s)
      then io_wake_write_task (io_wake_read_task (upd_flags flags_unset_write_notify s)) else s)"

definition ctx_update_write_status :: "io_error + bool \<Rightarrow> 'l io_state \<Rightarrow> io_task_status \<times> 'l io_state" where
  "ctx_update_write_status status s =
     (case status of
        Inl err \<Rightarrow> (Task_Stop, io_terminate_connection (Some err) s)
      | Inr written \<Rightarrow>
          let len = st_write_buf_size s;
              s = ctx_write_notify_tasks written (ctx_write_notify_dispatch len s)
          in if flags_is_closed (st_flags s) then (Task_Stop, s)
             else if len = 0
             then let s = upd_flags flags_set_write_paused s
                  in (Task_Pause, if flags_is_stopping_filters (st_flags s) then io_wake_read_task s else s)
             else (Task_Io, upd_flags flags_unset_write_paused s))"

text \<open>What \<open>update_read_status\<close> does once the filters have processed the new bytes.\<close>

definition ctx_read_processed :: "'l io_env \<Rightarrow> nat \<Rightarrow> bool \<Rightarrow> bool \<Rightarrow> 'l io_state \<Rightarrow> 'l io_state option" where
  "ctx_read_processed E orig wants_write notify s =
     (let n = stack_read_dst_size (st_buffer s);
          s = (if n > orig
               then io_wake_dispatch_task
                 (if is_rd_backpressure_needed n s then upd_flags flags_set_read_ready_and_backpressure s
                  else upd_flags flags_set_read_ready s)
               else s);
          s = (if flags_is_read_notify (st_flags s)
               then upd_flags flags_set_read_notifed (io_wake_dispatch_task s) else s)
      in do {
        s \<leftarrow> (if wants_write
             then do {
               (r, s) \<leftarrow> st_process_write_buf_force E s;
               Some (case r of
                  Inl err \<Rightarrow> io_terminate_connection (Some err) s
                | Inr _ \<Rightarrow> ioref_consolidate_write_state E False s) }
             else Some s);
        Some (if notify then ioref_call_notify E s else s) })"

text \<open>The result of processing the bytes read, with the error the status or a filter reports.\<close>

definition ctx_read_result ::
    "'l io_env \<Rightarrow> nat \<Rightarrow> io_error + nat \<Rightarrow> 'l io_state \<Rightarrow> ((io_error + unit) \<times> 'l io_state) option" where
  "ctx_read_result E orig status s =
     (case status of
        Inl e \<Rightarrow> Some (Inl e, s)
      | Inr nbytes \<Rightarrow>
          if nbytes = 0 then Some (Inr (), s)
          else do {
            (r, s) \<leftarrow> st_process_read_buf E nbytes s;
            (case r of
               Inl e \<Rightarrow> Some (Inl e, s)
             | Inr (wants_write, notify) \<Rightarrow> do {
                 s \<leftarrow> ctx_read_processed E orig wants_write notify s; Some (Inr (), s) }) })"

definition ctx_update_read_status ::
    "'l io_env \<Rightarrow> u8 list \<Rightarrow> io_error + nat \<Rightarrow> 'l io_state \<Rightarrow> (io_task_status \<times> 'l io_state) option" where
  "ctx_update_read_status E buf status s =
     (let orig = stack_read_dst_size (st_buffer s);
          s = s\<lparr>st_buffer := stack_set_read_buf buf (st_buffer s)\<rparr>
      in do {
        (result, s) \<leftarrow> ctx_read_result E orig status s;
        Some (case result of
           Inl err \<Rightarrow> (Task_Stop, io_terminate_connection (Some err) s)
         | Inr _ \<Rightarrow>
             if flags_is_closed (st_flags s) then (Task_Stop, s)
             else if flags_is_read_paused_or_backpressure (st_flags s) then (Task_Pause, s)
             else (Task_Io, s)) })"

definition ctx_shutdown :: "bool \<Rightarrow> task \<Rightarrow> 'l io_state \<Rightarrow> unit poll \<times> 'l io_state" where
  "ctx_shutdown flush cx s =
     (if flush \<and> \<not> flags_is_stopping (st_flags s)
      then if flags_is_write_paused (st_flags s) then (Ready (), s)
           else (Pending, io_register_write cx (io_register_read cx (upd_flags flags_set_write_notify s)))
      else if \<not> flags_is_closed (st_flags s) then (Pending, io_register_write cx (io_register_read cx s))
      else (Ready (), s))"

text \<open>\<open>elapsed\<close> says whether the disconnect timer, started here when it is not running, has fired.\<close>

definition ctx_shutdown_filters :: "'l io_env \<Rightarrow> bool \<Rightarrow> 'l io_state \<Rightarrow> 'l io_state option" where
  "ctx_shutdown_filters E elapsed s =
     (if \<not> flags_is_shutting_down_filters (st_flags s) then Some s
      else do {
        (r, s) \<leftarrow> st_process_shutdown E s;
        Some (case r of
           Inl err \<Rightarrow> io_terminate_connection (Some err) s
         | Inr p \<Rightarrow>
             let ready = (p \<noteq> Pending);
                 s = ioref_consolidate_write_state E True s
             in if ready \<and> flags_is_write_paused (st_flags s) \<and> \<not> flags_is_wr_send_scheduled (st_flags s)
                then io_filters_stopped s
                else if \<not> ready \<and> (flags_is_read_paused (st_flags s) \<or> flags_is_read_ready_and_backpressure (st_flags s))
                then io_filters_stopped s
                else if elapsed then io_filters_stopped (s\<lparr>st_shutdown_timeout := False\<rparr>)
                else s\<lparr>st_shutdown_timeout := True\<rparr>) })"

definition ctx_poll_read_ready :: "'l io_env \<Rightarrow> bool \<Rightarrow> task \<Rightarrow> 'l io_state \<Rightarrow> (readiness poll \<times> 'l io_state) option" where
  "ctx_poll_read_ready E elapsed cx s = do {
     s \<leftarrow> ctx_shutdown_filters E elapsed s;
     Some (filter_poll_read_ready (st_filter s) cx s) }"

definition ctx_poll_write_ready :: "task \<Rightarrow> 'l io_state \<Rightarrow> readiness poll \<times> 'l io_state" where
  "ctx_poll_write_ready cx s = filter_poll_write_ready (st_filter s) cx s"

end
