(* ===== verification/Io_Ops.thy ===== *)
theory Io_Ops
  imports Io_State Wakeup
begin

text \<open>
  The calls that the parties of a stream make, as one datatype, so that a history of a stream is a list of calls in any
  order: the application through \<open>IoRef\<close>, the dispatcher that owns the \<open>Io\<close>, the stream manager, and the tasks of the
  driver. A driver writes with \<open>IoContext::with_write_buf\<close>, from which it takes bytes off the front, followed by
  \<open>update_write_status\<close>, and it reads with \<open>get_read_buf\<close>, to which it appends bytes, followed by \<open>update_read_status\<close>.
\<close>

section \<open>What a driver does\<close>

definition drv_write :: "'l io_env \<Rightarrow> nat \<Rightarrow> io_error + bool \<Rightarrow> 'l io_state \<Rightarrow> (io_task_status \<times> 'l io_state) option" where
  "drv_write E n res s = do {
     (_, s) \<leftarrow> ctx_with_write_buf E (\<lambda>b. ((), drop n b)) s;
     Some (ctx_update_write_status res s) }"

definition drv_read :: "'l io_env \<Rightarrow> u8 list \<Rightarrow> io_error + unit \<Rightarrow> 'l io_state \<Rightarrow> (io_task_status \<times> 'l io_state) option" where
  "drv_read E xs res s =
     (let (buf, s) = ctx_get_read_buf s
      in ctx_update_read_status E (buf @ xs) (map_sum id (\<lambda>_. length xs) res) s)"

text \<open>
  The calls of a driver inside \<open>Handle::write\<close>: writes and, on an error or an end of the stream, a stop; or a note that the
  write is put off.
\<close>

inductive drv_run :: "'l io_env \<Rightarrow> 'l io_state \<Rightarrow> 'l io_state \<Rightarrow> bool" for E where
  drv_refl: "drv_run E s s"
| drv_take: "drv_run E s s1 \<Longrightarrow> ctx_with_write_buf E (\<lambda>b. ((), drop n b)) s1 = Some ((), s2) \<Longrightarrow> drv_run E s s2"
| drv_status: "drv_run E s s1 \<Longrightarrow> ctx_update_write_status res s1 = (r, s2) \<Longrightarrow> drv_run E s s2"
| drv_stop: "drv_run E s s1 \<Longrightarrow> drv_run E s (ctx_stop e s1)"
| drv_wake: "drv_run E s s1 \<Longrightarrow> drv_run E s (ctx_notify s1)"
| drv_delay: "drv_run E s s1 \<Longrightarrow> drv_run E s (s1\<lparr>st_log := st_log s1 @ [Io_Delayed_Write]\<rparr>)"

section \<open>Calls\<close>

datatype 'l io_op =
    With_Write "u8 list \<Rightarrow> u8 list"
  | With_Read "u8 list \<Rightarrow> u8 list"
  | Decode "u8 list \<Rightarrow> u8 list"
  | Send_Buf
  | Close
  | Terminate
  | Notify_Dispatcher
  | Notify_Timeout
  | On_Disconnect
  | Io_Pause
  | Poll_Read_Ready task
  | Poll_Read_Notify task
  | Poll_Flush task bool
  | Poll_Shutdown task
  | Poll_Status task
  | Poll_Dispatch task
  | Ops_Send
  | Drv_Write nat "io_error + bool"
  | Drv_Read "u8 list" "io_error + unit"
  | Drv_Poll_Read bool task
  | Drv_Poll_Write task
  | Drv_Shutdown bool task
  | Drv_Stop "io_error option"

fun io_do :: "'l io_env \<Rightarrow> 'l io_op \<Rightarrow> 'l io_state \<Rightarrow> 'l io_state option" where
  "io_do E (With_Write f) s = Some (snd (ioref_with_write_buf E (\<lambda>b. ((), f b)) s))"
| "io_do E (With_Read f) s = Some (snd (ioref_with_read_buf (\<lambda>b. ((), f b)) s))"
| "io_do E (Decode f) s = Some (snd (ioref_decode (\<lambda>b. (Inr None :: unit + unit option, f b)) s))"
| "io_do E Send_Buf s = Some (snd (ioref_send_buf E s))"
| "io_do E Close s = Some (ioref_close s)"
| "io_do E Terminate s = Some (ioref_terminate s)"
| "io_do E Notify_Dispatcher s = Some (ioref_notify_dispatcher s)"
| "io_do E Notify_Timeout s = Some (io_notify_timeout s)"
| "io_do E On_Disconnect s = Some (snd (ioref_on_disconnect s))"
| "io_do E Io_Pause s = Some (io_pause s)"
| "io_do E (Poll_Read_Ready cx) s = Some (snd (io_poll_read_ready cx s))"
| "io_do E (Poll_Read_Notify cx) s = Some (snd (io_poll_read_notify cx s))"
| "io_do E (Poll_Flush cx full) s = map_option snd (io_poll_flush E cx full s)"
| "io_do E (Poll_Shutdown cx) s = Some (snd (io_poll_shutdown cx s))"
| "io_do E (Poll_Status cx) s = Some (snd (io_poll_status_update cx s))"
| "io_do E (Poll_Dispatch cx) s = Some (io_poll_dispatch cx s)"
| "io_do E Ops_Send s = Some (ioref_ops_send_buf E s)"
| "io_do E (Drv_Write n res) s = map_option snd (drv_write E n res s)"
| "io_do E (Drv_Read xs res) s = map_option snd (drv_read E xs res s)"
| "io_do E (Drv_Poll_Read elapsed cx) s = map_option snd (ctx_poll_read_ready E elapsed cx s)"
| "io_do E (Drv_Poll_Write cx) s = Some (snd (ctx_poll_write_ready cx s))"
| "io_do E (Drv_Shutdown flush cx) s = Some (snd (ctx_shutdown flush cx s))"
| "io_do E (Drv_Stop e) s = Some (ctx_stop e s)"

fun io_run :: "'l io_env \<Rightarrow> 'l io_op list \<Rightarrow> 'l io_state \<Rightarrow> 'l io_state option" where
  "io_run E [] s = Some s"
| "io_run E (x # xs) s = do { s \<leftarrow> io_do E x s; io_run E xs s }"

lemma io_run_append: "io_run E (xs @ ys) s = do { s \<leftarrow> io_run E xs s; io_run E ys s }"
  by (induction xs arbitrary: s) (auto split: bind_splits)

end
