(* ===== verification/Io_Sizes.thy ===== *)
theory Io_Sizes
  imports Io_Buf
begin

text \<open>
  How the processing of the filters changes the amount of queued output. The code relies on \<open>wants_write\<close>: when the
  processing of a read does not ask for a write, no level holds more output than before. That needs a layer that does not
  put output into its own buffer while reading, and a write callback that fails before it has produced anything;
  \<open>layer_ok\<close> says so of the layers of an application.
\<close>

definition wlen :: "buffer \<Rightarrow> nat" where
  "wlen b = length (bf_write b)"

definition layer_ok :: "'l filter_layer \<Rightarrow> bool" where
  "layer_ok ly \<longleftrightarrow>
     (\<forall>l fb. wlen (fb_curr (snd (fb_run (lp_calls (ly_read ly) l) l fb))) \<le> wlen (fb_curr fb)) \<and>
     (\<forall>l fb. wlen (fb_curr (snd (fb_run (lp_calls (ly_write ly) l) l fb))) \<le> wlen (fb_curr fb)) \<and>
     (\<forall>l fb e. lp_result (ly_write ly) (fst (fb_run (lp_calls (ly_write ly) l) l fb)) = Inl e \<longrightarrow>
        wlen (fb_next (snd (fb_run (lp_calls (ly_write ly) l) l fb))) \<le> wlen (fb_next fb))"

definition no_more :: "buffer list \<Rightarrow> buffer list \<Rightarrow> bool" where
  "no_more bs bs' \<longleftrightarrow> list_all2 (\<lambda>b b'. wlen b' \<le> wlen b) bs bs'"

lemma no_more_refl [simp]: "no_more bs bs"
  by (simp add: no_more_def list_all2_refl)

lemma no_more_trans: "no_more a b \<Longrightarrow> no_more b c \<Longrightarrow> no_more a c"
  unfolding no_more_def by (rule list_all2_trans) auto

lemma no_more_update2:
  "i + 1 < length bs \<Longrightarrow> wlen b \<le> wlen (bs ! i) \<Longrightarrow> wlen c \<le> wlen (bs ! (i + 1)) \<Longrightarrow> no_more bs (bs[i := b, i + 1 := c])"
  by (auto simp: no_more_def list_all2_conv_all_nth nth_list_update)

lemma fb_do_next:
  "\<not> fb_wants_write (snd (fb_do c l fb)) \<Longrightarrow> \<not> fb_wants_write fb \<and> wlen (fb_next (snd (fb_do c l fb))) \<le> wlen (fb_next fb)"
  by (cases c) (auto simp: Let_def wlen_def split: prod.splits)

lemma fb_run_next:
  "\<not> fb_wants_write (snd (fb_run cs l fb)) \<Longrightarrow> \<not> fb_wants_write fb \<and> wlen (fb_next (snd (fb_run cs l fb))) \<le> wlen (fb_next fb)"
proof (induction cs arbitrary: l fb)
  case (Cons c cs)
  obtain l1 fb1 where 1: "fb_do c l fb = (l1, fb1)" by fastforce
  then have "\<not> fb_wants_write fb1 \<and> wlen (fb_next (snd (fb_run cs l1 fb1))) \<le> wlen (fb_next fb1)" using Cons by simp
  with fb_do_next [of c l fb] 1 show ?case by simp
qed simp

lemma ctx_with_buffer_read_sizes:
  assumes "layer_ok ly" and "ctx_with_buffer (ly_read ly) l ctx = Some (r, l', ctx')" and "\<not> fc_wants_write ctx'"
  shows "\<not> fc_wants_write ctx \<and> no_more (fc_buffers ctx) (fc_buffers ctx')"
proof -
  let ?i = "fc_idx ctx" and ?bs = "fc_buffers ctx"
  let ?fb = "\<lparr>fb_curr = ?bs ! ?i, fb_next = ?bs ! (?i + 1), fb_wants_write = fc_wants_write ctx\<rparr>"
  obtain fb where run: "fb_run (lp_calls (ly_read ly) l) l ?fb = (l', fb)" and i: "?i + 1 < length ?bs"
    and c: "ctx' = ctx\<lparr>fc_buffers := ?bs[?i := fb_curr fb, ?i + 1 := fb_next fb], fc_wants_write := (fc_wants_write ctx \<or> fb_wants_write fb)\<rparr>"
    using assms(2) by (auto simp: ctx_with_buffer_def Let_def split: if_splits prod.splits)
  have "wlen (fb_curr fb) \<le> wlen (?bs ! ?i)" using assms(1) run unfolding layer_ok_def by (metis filter_buf.select_convs(1) snd_conv)
  moreover have "wlen (fb_next fb) \<le> wlen (?bs ! (?i + 1))"
    using fb_run_next [of "lp_calls (ly_read ly) l" l ?fb] run assms(3) c by simp
  ultimately show ?thesis using no_more_update2 [OF i] assms(3) c by simp
qed

lemma process_read_sizes:
  assumes "layer_ok ly"
  shows "filter_process_read_buf ly F ctx = Some (r, F', ctx') \<Longrightarrow> \<not> fc_wants_write ctx' \<Longrightarrow>
    \<not> fc_wants_write ctx \<and> no_more (fc_buffers ctx) (fc_buffers ctx')"
proof (induction F arbitrary: ctx r F' ctx')
  case (Layer l shut nxt)
  note run = Layer.prems(1)
  obtain r1 nxt1 c1 where 1: "filter_process_read_buf ly nxt (ctx_next ctx) = Some (r1, nxt1, c1)"
    using run by (cases "filter_process_read_buf ly nxt (ctx_next ctx)") auto
  note IH = Layer.IH [OF 1]
  have c: "fc_wants_write (ctx_back c1) = fc_wants_write c1" "fc_buffers (ctx_back c1) = fc_buffers c1"
    "fc_wants_write (ctx_next ctx) = fc_wants_write ctx" "fc_buffers (ctx_next ctx) = fc_buffers ctx"
    by (simp_all add: ctx_back_def ctx_next_def)
  show ?case
  proof (cases "shut \<or> (\<exists>e. r1 = Inl e)")
    case True
    then have "ctx' = ctx_back c1" using run 1 by (auto simp: Let_def split: sum.splits if_splits)
    then show ?thesis using IH Layer.prems(2) c by simp
  next
    case False
    then obtain l2 where "ctx_with_buffer (ly_read ly) l (ctx_back c1) = Some (r, l2, ctx')"
      using run 1 by (cases r1) (auto simp: Let_def split: bind_splits)
    from ctx_with_buffer_read_sizes [OF assms this Layer.prems(2)] IH c no_more_trans show ?thesis by metis
  qed
qed auto

lemma ctx_with_buffer_write_sizes:
  assumes "layer_ok ly" and "ctx_with_buffer (ly_write ly) l ctx = Some (r, l', ctx')"
  shows "r = Inl e \<Longrightarrow> no_more (fc_buffers ctx) (fc_buffers ctx')"
    and "i < fc_idx ctx \<Longrightarrow> fc_buffers ctx' ! i = fc_buffers ctx ! i"
    and "wlen (fc_buffers ctx' ! fc_idx ctx) \<le> wlen (fc_buffers ctx ! fc_idx ctx)"
    and "i > fc_idx ctx + 1 \<Longrightarrow> fc_buffers ctx' ! i = fc_buffers ctx ! i"
    and "fc_idx ctx' = fc_idx ctx" and "length (fc_buffers ctx') = length (fc_buffers ctx)"
proof -
  let ?i = "fc_idx ctx" and ?bs = "fc_buffers ctx"
  let ?fb = "\<lparr>fb_curr = ?bs ! ?i, fb_next = ?bs ! (?i + 1), fb_wants_write = fc_wants_write ctx\<rparr>"
  obtain fb where run: "fb_run (lp_calls (ly_write ly) l) l ?fb = (l', fb)" and i: "?i + 1 < length ?bs"
    and c: "ctx' = ctx\<lparr>fc_buffers := ?bs[?i := fb_curr fb, ?i + 1 := fb_next fb], fc_wants_write := (fc_wants_write ctx \<or> fb_wants_write fb)\<rparr>"
    and r: "r = lp_result (ly_write ly) l'"
    using assms(2) by (auto simp: ctx_with_buffer_def Let_def split: if_splits prod.splits)
  have cu: "wlen (fb_curr fb) \<le> wlen (?bs ! ?i)" using assms(1) run unfolding layer_ok_def by (metis filter_buf.select_convs(1) snd_conv)
  show "no_more ?bs (fc_buffers ctx')" if "r = Inl e"
  proof -
    have "wlen (fb_next fb) \<le> wlen (?bs ! (?i + 1))"
      using assms(1) run r that unfolding layer_ok_def by (metis filter_buf.select_convs(2) snd_conv fst_conv)
    then show ?thesis using no_more_update2 [OF i cu] c by simp
  qed
  show "wlen (fc_buffers ctx' ! fc_idx ctx) \<le> wlen (fc_buffers ctx ! fc_idx ctx)" using cu c i by simp
qed (use assms(2) in \<open>auto simp: ctx_with_buffer_def Let_def split: if_splits prod.splits\<close>)

text \<open>A failed processing of the write buffers leaves the first and the innermost level with no more than they had.\<close>

lemma process_write_error_sizes:
  assumes "layer_ok ly"
  shows "filter_process_write_buf ly F ctx = Some (Inl e, F', ctx') \<Longrightarrow> fc_idx ctx + filter_depth F < length (fc_buffers ctx) \<Longrightarrow>
    wlen (fc_buffers ctx' ! (fc_idx ctx + filter_depth F)) \<le> wlen (fc_buffers ctx ! (fc_idx ctx + filter_depth F))
    \<and> (filter_depth F > 0 \<longrightarrow> wlen (fc_buffers ctx' ! fc_idx ctx) \<le> wlen (fc_buffers ctx ! fc_idx ctx))
    \<and> (\<forall>i < fc_idx ctx. fc_buffers ctx' ! i = fc_buffers ctx ! i)"
proof (induction F arbitrary: ctx F' ctx')
  case (Layer l shut nxt)
  note run = Layer.prems(1)
  have i: "fc_idx ctx + 1 < length (fc_buffers ctx)" using Layer.prems(2) by simp
  show ?case
  proof (cases "\<exists>l1 c1 e1. \<not> shut \<and> ctx_with_buffer (ly_write ly) l ctx = Some (Inl e1, l1, c1)")
    case True
    then obtain l1 e1 where 1: "ctx_with_buffer (ly_write ly) l ctx = Some (Inl e1, l1, ctx')" "\<not> shut"
      using run by auto
    from ctx_with_buffer_write_sizes(1) [OF assms 1(1) refl] have nm: "no_more (fc_buffers ctx) (fc_buffers ctx')" .
    show ?thesis using nm Layer.prems(2) ctx_with_buffer_write_sizes(2) [OF assms 1(1)]
      by (auto simp: no_more_def list_all2_conv_all_nth)
  next
    case False
    obtain q l1 c1 where w: "(if shut then Some (Inr (), l, ctx) else ctx_with_buffer (ly_write ly) l ctx) = Some (q, l1, c1)"
      using run by (cases "if shut then Some (Inr (), l, ctx) else ctx_with_buffer (ly_write ly) l ctx") auto
    then have q: "q = Inr ()" using False by (cases q; cases shut) auto
    obtain nxt2 c2 where n: "filter_process_write_buf ly nxt (ctx_next c1) = Some (Inl e, nxt2, c2)" "ctx' = ctx_back c2"
      using run w q by (cases "filter_process_write_buf ly nxt (ctx_next c1)") auto
    have "fc_idx c1 = fc_idx ctx \<and> length (fc_buffers c1) = length (fc_buffers ctx) \<and>
        (\<forall>i < fc_idx ctx. fc_buffers c1 ! i = fc_buffers ctx ! i) \<and>
        wlen (fc_buffers c1 ! fc_idx ctx) \<le> wlen (fc_buffers ctx ! fc_idx ctx) \<and>
        (\<forall>i > fc_idx ctx + 1. fc_buffers c1 ! i = fc_buffers ctx ! i)"
    proof (cases shut)
      case False
      then have "ctx_with_buffer (ly_write ly) l ctx = Some (Inr (), l1, c1)" using w q by simp
      note sz = ctx_with_buffer_write_sizes(2-6) [OF assms this]
      show ?thesis
        by (intro conjI allI impI sz)
    qed (use w in simp)
    then have c1: "fc_idx c1 = fc_idx ctx" "length (fc_buffers c1) = length (fc_buffers ctx)"
      "\<forall>i < fc_idx ctx. fc_buffers c1 ! i = fc_buffers ctx ! i"
      "wlen (fc_buffers c1 ! fc_idx ctx) \<le> wlen (fc_buffers ctx ! fc_idx ctx)"
      "\<forall>i > fc_idx ctx + 1. fc_buffers c1 ! i = fc_buffers ctx ! i" by auto
    have "fc_idx (ctx_next c1) + filter_depth nxt < length (fc_buffers (ctx_next c1))"
      using Layer.prems(2) c1 by (simp add: ctx_next_def)
    note IH = Layer.IH [OF n(1) this]
    have d: "filter_depth nxt > 0" using n(1) by (cases nxt) auto
    have "fc_idx ctx + filter_depth (Layer l shut nxt) = fc_idx (ctx_next c1) + filter_depth nxt"
      "fc_buffers ctx' = fc_buffers c2" "fc_buffers (ctx_next c1) = fc_buffers c1" "fc_idx (ctx_next c1) = Suc (fc_idx ctx)"
      by (simp_all add: n(2) c1(1) ctx_next_def ctx_back_def)
    moreover from this d have "fc_buffers c1 ! (fc_idx ctx + filter_depth (Layer l shut nxt)) = fc_buffers ctx ! (fc_idx ctx + filter_depth (Layer l shut nxt))"
      using c1(5) by simp
    ultimately show ?thesis using IH c1(3,4) by simp
  qed
qed auto

section \<open>Stacks\<close>

definition stack_fits :: "'l filter \<Rightarrow> stack \<Rightarrow> bool" where
  "stack_fits F s \<longleftrightarrow> filter_depth F = length (sk_layers s)"

lemma ctx_fits_new: "stack_fits F s \<Longrightarrow> ctx_fits F (ctx_new n w s)"
  by (simp add: stack_fits_def ctx_fits_def ctx_new_def)

lemma stack_size_nth:
  "stack_write_buf_size s = (if sk_layers s = [] then wlen (stack_buffers s ! 0)
     else wlen (stack_buffers s ! 0) + wlen (stack_buffers s ! length (sk_layers s)))"
proof -
  have "stack_last s = stack_buffers s ! length (sk_layers s)"
    by (cases "sk_layers s" rule: rev_cases) (auto simp: stack_last_def stack_buffers_def nth_append nth_Cons')
  then show ?thesis by (simp add: stack_write_buf_size_def wlen_def) (simp add: stack_buffers_def)
qed

lemma stack_of_shape:
  assumes "same_shape (ctx_new n w s) ctx'"
  shows "stack_buffers (stack_of (fc_buffers ctx')) = fc_buffers ctx'" and "length (sk_layers (stack_of (fc_buffers ctx'))) = length (sk_layers s)"
proof -
  have len: "length (fc_buffers ctx') = length (sk_layers s) + 2" using assms by (simp add: same_shape_def ctx_new_def)
  then show b: "stack_buffers (stack_of (fc_buffers ctx')) = fc_buffers ctx'" by simp
  show "length (sk_layers (stack_of (fc_buffers ctx'))) = length (sk_layers s)"
    using length_stack_buffers [of "stack_of (fc_buffers ctx')"] unfolding b by (simp add: len)
qed

lemma stack_process_read_runs:
  assumes "stack_fits F s"
  obtains r F' s' where "stack_process_read_buf ly F n s = Some (r, F', s')" and "stack_fits F' s'"
    and "length (sk_layers s') = length (sk_layers s)"
    and "layer_ok ly \<longrightarrow> (\<forall>nt. r = Inr (False, nt) \<longrightarrow> stack_write_buf_size s' \<le> stack_write_buf_size s)"
proof -
  obtain r F' c where run: "filter_process_read_buf ly F (ctx_new n False s) = Some (r, F', c)"
    "filter_depth F' = filter_depth F" "same_shape (ctx_new n False s) c"
    using process_read_runs [OF ctx_fits_new [OF assms]] by (rule runs_okE)
  let ?s = "stack_of (fc_buffers c)"
  note sh = stack_of_shape [OF run(3)]
  have "stack_write_buf_size ?s \<le> stack_write_buf_size s" if "layer_ok ly" "\<not> fc_wants_write c"
  proof -
    from process_read_sizes [OF that(1) run(1) that(2)] have "no_more (stack_buffers s) (stack_buffers ?s)"
      unfolding sh(1) by (simp add: ctx_new_def)
    then have "wlen (stack_buffers ?s ! i) \<le> wlen (stack_buffers s ! i)" if "i < length (sk_layers s) + 2" for i
      using that by (auto simp: no_more_def list_all2_conv_all_nth)
    from this [of 0] this [of "length (sk_layers s)"] show ?thesis
      using sh(2) by (auto simp: stack_size_nth)
  qed
  then show thesis using that [of "map_sum id (\<lambda>_. (fc_wants_write c, fc_notify c)) r" F' ?s] run sh assms
    by (cases r) (auto simp: stack_process_read_buf_def stack_fits_def)
qed

lemma stack_process_write_force_runs:
  assumes "stack_fits F s"
  obtains r F' s' where "stack_process_write_buf_force ly F s = Some (r, F', s')" and "stack_fits F' s'"
    and "length (sk_layers s') = length (sk_layers s)"
    and "layer_ok ly \<longrightarrow> (\<forall>e. r = Inl e \<longrightarrow> stack_write_buf_size s' \<le> stack_write_buf_size s)"
proof -
  obtain r F' c where run: "filter_process_write_buf ly F (ctx_new 0 True s) = Some (r, F', c)"
    "filter_depth F' = filter_depth F" "same_shape (ctx_new 0 True s) c"
    using process_write_runs [OF ctx_fits_new [OF assms]] by (rule runs_okE)
  let ?s = "stack_of (fc_buffers c)"
  note sh = stack_of_shape [OF run(3)]
  have "stack_write_buf_size ?s \<le> stack_write_buf_size s" if "layer_ok ly" "r = Inl e" for e
  proof -
    have "fc_idx (ctx_new 0 True s) + filter_depth F < length (fc_buffers (ctx_new 0 True s))"
      using assms by (simp add: stack_fits_def ctx_new_def)
    from process_write_error_sizes [OF that(1) run(1) [unfolded that(2)] this] show ?thesis
      using sh assms by (auto simp: stack_size_nth stack_fits_def ctx_new_def)
  qed
  then show thesis using that [of r F' ?s] run sh assms
    by (auto simp: stack_process_write_buf_force_def stack_fits_def)
qed

lemma stack_process_write_runs:
  assumes "stack_fits F s"
  obtains r F' s' where "stack_process_write_buf ly F s = Some (r, F', s')" and "stack_fits F' s'"
    and "length (sk_layers s') = length (sk_layers s)"
    and "stack_write_buf_size s = 0 \<longrightarrow> stack_write_buf_size s' = 0"
proof (cases "bf_write (sk_top s) = []")
  case True
  then show thesis using that [of "Inr ()" F s] assms by (simp add: stack_process_write_buf_def)
next
  case False
  obtain r F' s' where "stack_process_write_buf_force ly F s = Some (r, F', s')" "stack_fits F' s'"
    "length (sk_layers s') = length (sk_layers s)" using assms by (rule stack_process_write_force_runs)
  moreover have "stack_write_buf_size s \<noteq> 0" using False by (simp add: stack_write_buf_size_def)
  ultimately show thesis using that [of r F' s'] False by (simp add: stack_process_write_buf_def)
qed

lemma stack_process_shutdown_runs:
  assumes "stack_fits F s"
  obtains r F' s' where "stack_process_shutdown ly F s = Some (r, F', s')" and "stack_fits F' s'"
    and "length (sk_layers s') = length (sk_layers s)"
proof -
  obtain r1 F1 s1 where 1: "stack_process_write_buf ly F s = Some (r1, F1, s1)" "stack_fits F1 s1"
    "length (sk_layers s1) = length (sk_layers s)" using assms by (rule stack_process_write_runs)
  obtain r2 F2 c where 2: "filter_shutdown ly F1 (ctx_new 0 False s1) = Some (r2, F2, c)"
    "filter_depth F2 = filter_depth F1" "same_shape (ctx_new 0 False s1) c"
    using shutdown_runs [OF ctx_fits_new [OF 1(2)]] by (rule runs_okE)
  note sh = stack_of_shape [OF 2(3)]
  show thesis
  proof (cases r1)
    case (Inl e)
    then show thesis using that [of "Inl e" F1 s1] 1 by (simp add: stack_process_shutdown_def)
  next
    case (Inr u)
    then show thesis using that [of r2 F2 "stack_of (fc_buffers c)"] 1 2 sh by (simp add: stack_process_shutdown_def stack_fits_def)
  qed
qed

end
