(* ===== verification/Io_Inv.thy ===== *)
theory Io_Inv
  imports Io_Ops Io_Sizes
begin

text \<open>
  The invariant of a stream, and the calls that leave the writing side alone (\<open>quiet\<close>). The heart of the invariant is
  \<open>write_ok\<close>: bytes never lie in the write buffer of an open stream without a write under way or scheduled.
\<close>

section \<open>Fields an operation leaves alone\<close>

lemma io_wake_fields [simp]:
  "st_flags (io_wake_read_task s) = st_flags s" "st_flags (io_wake_write_task s) = st_flags s" "st_flags (io_wake_dispatch_task s) = st_flags s"
  "st_buffer (io_wake_read_task s) = st_buffer s" "st_buffer (io_wake_write_task s) = st_buffer s" "st_buffer (io_wake_dispatch_task s) = st_buffer s"
  "st_filter (io_wake_read_task s) = st_filter s" "st_filter (io_wake_write_task s) = st_filter s" "st_filter (io_wake_dispatch_task s) = st_filter s"
  "st_handle (io_wake_read_task s) = st_handle s" "st_handle (io_wake_write_task s) = st_handle s" "st_handle (io_wake_dispatch_task s) = st_handle s"
  "st_cfg (io_wake_read_task s) = st_cfg s" "st_cfg (io_wake_write_task s) = st_cfg s" "st_cfg (io_wake_dispatch_task s) = st_cfg s"
  "st_error (io_wake_read_task s) = st_error s" "st_error (io_wake_write_task s) = st_error s" "st_error (io_wake_dispatch_task s) = st_error s"
  by (simp_all add: io_wake_read_task_def io_wake_write_task_def io_wake_dispatch_task_def split: prod.splits)

lemma io_register_fields [simp]:
  "st_flags (io_register_read cx s) = st_flags s" "st_flags (io_register_write cx s) = st_flags s" "st_flags (io_register_dispatch cx s) = st_flags s"
  "st_buffer (io_register_read cx s) = st_buffer s" "st_buffer (io_register_write cx s) = st_buffer s" "st_buffer (io_register_dispatch cx s) = st_buffer s"
  "st_filter (io_register_read cx s) = st_filter s" "st_filter (io_register_write cx s) = st_filter s" "st_filter (io_register_dispatch cx s) = st_filter s"
  "st_handle (io_register_read cx s) = st_handle s" "st_handle (io_register_write cx s) = st_handle s" "st_handle (io_register_dispatch cx s) = st_handle s"
  by (simp_all add: io_register_read_def io_register_write_def io_register_dispatch_def)

lemma io_notify_disconnect_fields [simp]:
  "st_flags (io_notify_disconnect s) = st_flags s" "st_buffer (io_notify_disconnect s) = st_buffer s" "st_filter (io_notify_disconnect s) = st_filter s"
  "st_handle (io_notify_disconnect s) = st_handle s" "st_cfg (io_notify_disconnect s) = st_cfg s" "st_error (io_notify_disconnect s) = st_error s"
  by (simp_all add: io_notify_disconnect_def split: option.splits)

lemma st_size_simps [simp]:
  "st_write_buf_size (io_wake_read_task s) = st_write_buf_size s" "st_write_buf_size (io_wake_write_task s) = st_write_buf_size s"
  "st_write_buf_size (io_wake_dispatch_task s) = st_write_buf_size s" "st_write_buf_size (io_register_read cx s) = st_write_buf_size s"
  "st_write_buf_size (io_register_write cx s) = st_write_buf_size s" "st_write_buf_size (io_register_dispatch cx s) = st_write_buf_size s"
  "st_write_buf_size (s\<lparr>st_flags := f\<rparr>) = st_write_buf_size s" "st_write_buf_size (s\<lparr>st_handle := h\<rparr>) = st_write_buf_size s"
  "st_write_buf_size (s\<lparr>st_log := l\<rparr>) = st_write_buf_size s" "st_write_buf_size (s\<lparr>st_error := e\<rparr>) = st_write_buf_size s"
  by (simp_all add: st_write_buf_size_def)

lemma io_terminate_fields [simp]:
  "bit (st_flags (io_terminate_connection e s)) n \<longleftrightarrow> bit (st_flags s) n \<or> \<not> bit (st_flags s) 0 \<and> (n = 0 \<or> n = 1 \<or> n = 2 \<or> n = 6)"
  "st_buffer (io_terminate_connection e s) = st_buffer s" "st_filter (io_terminate_connection e s) = st_filter s"
  "st_cfg (io_terminate_connection e s) = st_cfg s" "st_write_buf_size (io_terminate_connection e s) = st_write_buf_size s"
  "st_handle (io_terminate_connection e s) \<longleftrightarrow> st_handle s \<and> bit (st_flags s) 0"
  by (auto simp: io_terminate_connection_def Let_def io_flags st_write_buf_size_def)

section \<open>The invariant\<close>

definition flags_ok :: "u16 \<Rightarrow> bool" where
  "flags_ok f \<longleftrightarrow> (bit f 0 \<longrightarrow> bit f 1) \<and> (bit f 1 \<longrightarrow> bit f 2) \<and> (bit f 7 \<longrightarrow> bit f 4)"

definition write_ok :: "'l io_state \<Rightarrow> bool" where
  "write_ok s \<longleftrightarrow> bit (st_flags s) 1 \<or> st_write_buf_size s = 0 \<or> \<not> bit (st_flags s) 9 \<or> bit (st_flags s) 11"

definition io_inv :: "'l io_state \<Rightarrow> bool" where
  "io_inv s \<longleftrightarrow> flags_ok (st_flags s) \<and> write_ok s \<and> (st_handle s \<or> bit (st_flags s) 0) \<and> stack_fits (st_filter s) (st_buffer s)"

lemma io_inv_fields [simp]: "io_inv (s\<lparr>st_log := l\<rparr>) = io_inv s" "io_inv (s\<lparr>st_timeout := h\<rparr>) = io_inv s"
  by (simp_all add: io_inv_def write_ok_def st_write_buf_size_def)

text \<open>
  What holds while the driver works inside \<open>Handle::write\<close>, when the handle is out of the state, and inside
  \<open>Handle::notify\<close>, when a write may also be scheduled (\<open>p\<close>).
\<close>

definition drv_inv :: "bool \<Rightarrow> 'l io_state \<Rightarrow> bool" where
  "drv_inv p s \<longleftrightarrow> flags_ok (st_flags s) \<and> (bit (st_flags s) 1 \<or> st_write_buf_size s = 0 \<or> \<not> bit (st_flags s) 9 \<or> p)
     \<and> stack_fits (st_filter s) (st_buffer s)"

lemma io_new_inv: "io_inv (io_new cfg key)"
  by (auto simp: io_inv_def write_ok_def flags_ok_def stack_fits_def io_new_def io_state_empty_def flags_new_def
      st_write_buf_size_def stack_write_buf_size_def stack_new_def buffer_new_def flag_simps)

section \<open>The driver\<close>

text \<open>
  A step never withdraws a stop, and the handle of the driver is either still there or was dropped, once; a stream that is
  terminated and has its handle keeps it.
\<close>

definition handles :: "'l io_state \<Rightarrow> nat" where
  "handles s = (if st_handle s then 1 else 0) + count_list (st_log s) Io_Drop_Handle"

definition advances :: "'l io_state \<Rightarrow> 'l io_state \<Rightarrow> bool" where
  "advances s s' \<longleftrightarrow> (\<forall>n < 3. bit (st_flags s) n \<longrightarrow> bit (st_flags s') n) \<and> handles s' = handles s \<and>
     (st_handle s \<and> bit (st_flags s) 0 \<longrightarrow> st_handle s')"

lemma handles_wake [simp]:
  "handles (io_wake_read_task s) = handles s" "handles (io_wake_write_task s) = handles s" "handles (io_wake_dispatch_task s) = handles s"
  by (auto simp: handles_def io_wake_read_task_def io_wake_write_task_def io_wake_dispatch_task_def count_list_0_iff split: prod.splits)

lemma handles_notify_disconnect [simp]: "handles (io_notify_disconnect s) = handles s"
  by (auto simp: handles_def io_notify_disconnect_def count_list_0_iff split: option.splits)

lemma handles_register [simp]:
  "handles (io_register_read cx s) = handles s" "handles (io_register_write cx s) = handles s" "handles (io_register_dispatch cx s) = handles s"
  by (simp_all add: handles_def io_register_read_def io_register_write_def io_register_dispatch_def)

lemma handles_updates [simp]:
  "handles (s\<lparr>st_flags := f\<rparr>) = handles s" "handles (s\<lparr>st_buffer := b\<rparr>) = handles s" "handles (s\<lparr>st_filter := F\<rparr>) = handles s"
  "handles (s\<lparr>st_error := e\<rparr>) = handles s" "handles (s\<lparr>st_shutdown_timeout := t\<rparr>) = handles s"
  "handles (s\<lparr>st_disconnect := d\<rparr>) = handles s"
  by (simp_all add: handles_def)

lemma handles_terminate [simp]: "handles (io_terminate_connection e s) = handles s"
proof -
  let ?s1 = "upd_flags flags_set_terminate (if e \<noteq> None then s\<lparr>st_error := e\<rparr> else s)"
  let ?s2 = "io_notify_disconnect (io_wake_dispatch_task (io_wake_write_task (io_wake_read_task ?s1)))"
  have "handles (?s2\<lparr>st_handle := False, st_log := st_log ?s2 @ (if st_handle ?s2 then [Io_Drop_Handle] else [])\<rparr>) = handles ?s2"
    unfolding handles_def by simp
  also have "handles ?s2 = handles s" by simp
  finally show ?thesis by (simp add: io_terminate_connection_def Let_def)
qed

lemma advances_refl [simp]: "advances s s" by (simp add: advances_def)

lemma advances_trans [trans]: "advances a b \<Longrightarrow> advances b c \<Longrightarrow> advances a c" by (simp add: advances_def)

lemma advances_simps [simp]:
  "advances a (s\<lparr>st_buffer := b\<rparr>) = advances a s" "advances a (s\<lparr>st_filter := F\<rparr>) = advances a s" "advances a (s\<lparr>st_error := e\<rparr>) = advances a s"
  "advances a (s\<lparr>st_shutdown_timeout := t\<rparr>) = advances a s" "advances (s\<lparr>st_buffer := b\<rparr>) c = advances s c"
  "advances (s\<lparr>st_filter := F\<rparr>) c = advances s c"
  "advances a (io_wake_read_task s) = advances a s" "advances a (io_wake_write_task s) = advances a s" "advances a (io_wake_dispatch_task s) = advances a s"
  by (simp_all add: advances_def)

lemma advances_flags [simp]:
  "advances a (upd_flags flags_unset_wr_send_scheduled s) = advances a s" "advances a (upd_flags flags_set_wr_backpressure s) = advances a s"
  "advances a (upd_flags flags_unset_write_paused s) = advances a s" "advances (upd_flags flags_unset_wr_send_scheduled s) c = advances s c"
  by (simp_all add: advances_def io_flags)

lemma advances_terminate [simp]: "advances a s \<Longrightarrow> advances a (io_terminate_connection e s)"
  by (auto simp: advances_def)

lemma advances_bit: "advances s s' \<Longrightarrow> bit (st_flags s) n \<Longrightarrow> n < 3 \<Longrightarrow> bit (st_flags s') n"
  by (simp add: advances_def)

lemma stack_drop_last:
  "length (sk_layers (snd (stack_with_write_dst (\<lambda>b. ((), drop n b)) k))) = length (sk_layers k)"
  "stack_write_buf_size (snd (stack_with_write_dst (\<lambda>b. ((), drop n b)) k)) \<le> stack_write_buf_size k"
  by (cases "sk_layers k" rule: rev_cases;
      auto simp: stack_with_write_dst_def buffer_with_write_def stack_set_last_def stack_last_def stack_write_buf_size_def)+

lemma drv_take_spec:
  assumes "flags_ok (st_flags s)" and "stack_fits (st_filter s) (st_buffer s)"
  obtains s' where "ctx_with_write_buf E (\<lambda>b. ((), drop n b)) s = Some ((), s')" and "flags_ok (st_flags s')"
    and "stack_fits (st_filter s') (st_buffer s')" and "advances s s'"
    and "st_write_buf_size s = 0 \<longrightarrow> st_write_buf_size s' = 0" and "st_handle s' \<longrightarrow> st_handle s"
    and "bit (st_flags s') 9 = bit (st_flags s) 9" and "bit (st_flags s') 11 = bit (st_flags s) 11"
    and "st_handle s \<longrightarrow> st_handle s' \<or> bit (st_flags s') 0"
proof -
  obtain r F b where p: "stack_process_write_buf (ev_layer E) (st_filter s) (st_buffer s) = Some (r, F, b)" "stack_fits F b"
    "stack_write_buf_size (st_buffer s) = 0 \<longrightarrow> stack_write_buf_size b = 0"
    using assms(2) by (rule stack_process_write_runs)
  let ?s1 = "s\<lparr>st_filter := F, st_buffer := b\<rparr>"
  define s2 where "s2 = (case r of Inl e \<Rightarrow> io_terminate_connection (Some e) ?s1 | Inr _ \<Rightarrow> ?s1)"
  define b' where "b' = snd (stack_with_write_dst (\<lambda>b. ((), drop n b)) b)"
  have s2: "st_buffer s2 = b" "st_filter s2 = F" "flags_ok (st_flags s2)" "advances s s2" "st_handle s2 \<longrightarrow> st_handle s"
    "bit (st_flags s2) 9 = bit (st_flags s) 9" "bit (st_flags s2) 11 = bit (st_flags s) 11"
    "st_handle s \<longrightarrow> st_handle s2 \<or> bit (st_flags s2) 0"
    using assms(1) by (auto simp: s2_def flags_ok_def advances_def split: sum.splits)
  have b': "stack_with_write_dst (\<lambda>b. ((), drop n b)) (st_buffer s2) = ((), b')" using s2(1) by (simp add: b'_def prod_eq_iff)
  have run: "ctx_with_write_buf E (\<lambda>b. ((), drop n b)) s = Some ((), s2\<lparr>st_buffer := b'\<rparr>)"
    by (simp add: ctx_with_write_buf_def st_process_write_buf_def p(1) Let_def b' flip: s2_def)
  have "stack_fits F b'" "stack_write_buf_size b = 0 \<Longrightarrow> stack_write_buf_size b' = 0"
    using p(2) stack_drop_last [of n b] by (auto simp: stack_fits_def b'_def)
  then show thesis using that [OF run] s2 p(3) by (simp add: advances_def st_write_buf_size_def)
qed

lemma write_notify_fields [simp]:
  "st_flags (ctx_write_notify_dispatch n s) = st_flags s" "st_buffer (ctx_write_notify_dispatch n s) = st_buffer s"
  "st_filter (ctx_write_notify_dispatch n s) = st_filter s" "st_handle (ctx_write_notify_dispatch n s) = st_handle s"
  "bit (st_flags (ctx_write_notify_tasks w s)) k \<longleftrightarrow> bit (st_flags s) k \<and> (w \<longrightarrow> k \<noteq> 10)"
  "st_buffer (ctx_write_notify_tasks w s) = st_buffer s" "st_filter (ctx_write_notify_tasks w s) = st_filter s"
  "st_handle (ctx_write_notify_tasks w s) = st_handle s" "handles (ctx_write_notify_dispatch n s) = handles s"
  "handles (ctx_write_notify_tasks w s) = handles s"
  by (auto simp: ctx_write_notify_dispatch_def ctx_write_notify_tasks_def io_flags)

lemma update_write_status_spec:
  assumes ok: "flags_ok (st_flags s)" and run: "ctx_update_write_status res s = (r, s')"
  shows "flags_ok (st_flags s')" and "st_filter s' = st_filter s" and "st_buffer s' = st_buffer s" and "advances s s'"
    and "st_handle s' \<longrightarrow> st_handle s" and "bit (st_flags s') 1 \<or> st_write_buf_size s' = 0 \<or> \<not> bit (st_flags s') 9"
    and "bit (st_flags s') 11 = bit (st_flags s) 11" and "st_handle s \<longrightarrow> st_handle s' \<or> bit (st_flags s') 0"
proof -
  have "flags_ok (st_flags s') \<and> st_filter s' = st_filter s \<and> st_buffer s' = st_buffer s \<and> advances s s' \<and>
    (st_handle s' \<longrightarrow> st_handle s) \<and> (bit (st_flags s') 1 \<or> st_write_buf_size s = 0 \<or> \<not> bit (st_flags s') 9) \<and>
    bit (st_flags s') 11 = bit (st_flags s) 11 \<and> (st_handle s \<longrightarrow> st_handle s' \<or> bit (st_flags s') 0)"
  proof (cases res)
    case (Inl e)
    then show ?thesis using assms by (auto simp: ctx_update_write_status_def flags_ok_def advances_def)
  next
    case (Inr w)
    let ?s1 = "ctx_write_notify_tasks w (ctx_write_notify_dispatch (st_write_buf_size s) s)"
    consider "flags_is_closed (st_flags ?s1)" "s' = ?s1" | "st_write_buf_size s = 0" "s' = upd_flags flags_set_write_paused ?s1 \<or>
        s' = io_wake_read_task (upd_flags flags_set_write_paused ?s1)" | "s' = upd_flags flags_unset_write_paused ?s1"
      using run Inr by (auto simp: ctx_update_write_status_def Let_def split: if_splits)
    then show ?thesis using ok by cases (auto simp: io_flags flags_ok_def advances_def)
  qed
  then show "flags_ok (st_flags s')" "st_filter s' = st_filter s" "st_buffer s' = st_buffer s" "advances s s'"
    "st_handle s' \<longrightarrow> st_handle s" "bit (st_flags s') 1 \<or> st_write_buf_size s' = 0 \<or> \<not> bit (st_flags s') 9"
    "bit (st_flags s') 11 = bit (st_flags s) 11" "st_handle s \<longrightarrow> st_handle s' \<or> bit (st_flags s') 0"
    by (simp_all add: st_write_buf_size_def)
qed

lemma drv_run_inv:
  "drv_run E s s' \<Longrightarrow> drv_inv p s \<Longrightarrow>
    drv_inv p s' \<and> advances s s' \<and> (st_handle s' \<longrightarrow> st_handle s) \<and> (st_handle s \<longrightarrow> st_handle s' \<or> bit (st_flags s') 0) \<and>
    bit (st_flags s') 11 = bit (st_flags s) 11"
proof (induction rule: drv_run.induct)
  case (drv_take s s1 n s2)
  then have i: "drv_inv p s1" and le: "advances s s1" and h: "st_handle s \<longrightarrow> st_handle s1 \<or> bit (st_flags s1) 0"
    "st_handle s1 \<longrightarrow> st_handle s" "bit (st_flags s1) 11 = bit (st_flags s) 11" by simp_all
  then have "flags_ok (st_flags s1)" "stack_fits (st_filter s1) (st_buffer s1)" by (simp_all add: drv_inv_def)
  then obtain s' where t: "ctx_with_write_buf E (\<lambda>b. ((), drop n b)) s1 = Some ((), s')" "flags_ok (st_flags s')"
    "stack_fits (st_filter s') (st_buffer s')" "advances s1 s'" "st_write_buf_size s1 = 0 \<longrightarrow> st_write_buf_size s' = 0"
    "st_handle s' \<longrightarrow> st_handle s1" "bit (st_flags s') 9 = bit (st_flags s1) 9" "bit (st_flags s') 11 = bit (st_flags s1) 11"
    "st_handle s1 \<longrightarrow> st_handle s' \<or> bit (st_flags s') 0" by (rule drv_take_spec)
  have s2: "s2 = s'" using t(1) drv_take.hyps(2) by simp
  have b: "bit (st_flags s1) 0 \<longrightarrow> bit (st_flags s') 0" "bit (st_flags s1) 1 \<longrightarrow> bit (st_flags s') 1" using t(4) by (auto simp: advances_def)
  have "drv_inv p s'" using i t(2,3,5,7) b(2) unfolding drv_inv_def by blast
  then show ?case unfolding s2 using advances_trans [OF le t(4)] h t(6,8,9) b(1) by blast
next
  case (drv_status s s1 res r s2)
  then have i: "flags_ok (st_flags s1)" "stack_fits (st_filter s1) (st_buffer s1)" and le: "advances s s1"
    and h: "st_handle s \<longrightarrow> st_handle s1 \<or> bit (st_flags s1) 0" "st_handle s1 \<longrightarrow> st_handle s" "bit (st_flags s1) 11 = bit (st_flags s) 11"
    by (simp_all add: drv_inv_def)
  note u = update_write_status_spec [OF i(1) drv_status.hyps(2)]
  have b: "bit (st_flags s1) 0 \<longrightarrow> bit (st_flags s2) 0" using u(4) by (auto simp: advances_def)
  have "drv_inv p s2" using u i(2) unfolding drv_inv_def by auto
  then show ?case using advances_trans [OF le u(4)] h u(5,7,8) b by blast
next
  case (drv_stop s s1 e)
  then show ?case by (auto simp: ctx_stop_def drv_inv_def flags_ok_def advances_def)
next
  case (drv_wake s s1)
  then show ?case by (auto simp: ctx_notify_def drv_inv_def advances_def)
next
  case (drv_delay s s1)
  then show ?case by (auto simp: drv_inv_def advances_def handles_def)
qed auto

text \<open>What the driver does outside the calls, on an event: the same steps, with the handle in the state.\<close>

lemma drv_run_io_inv:
  assumes "drv_run E s s'" and "io_inv s"
  shows "io_inv s'" and "advances s s'"
proof -
  have "drv_inv (bit (st_flags s) 11) s" using assms(2) by (auto simp: drv_inv_def io_inv_def write_ok_def)
  note d = drv_run_inv [OF assms(1) this]
  then have "bit (st_flags s) 0 \<longrightarrow> bit (st_flags s') 0" by (auto simp: advances_def)
  with d assms(2) show "io_inv s'" "advances s s'" by (auto simp: drv_inv_def io_inv_def write_ok_def)
qed

lemma with_write_buf_total:
  assumes "stack_fits (st_filter s) (st_buffer s)"
  obtains r s' where "ctx_with_write_buf E f s = Some (r, s')"
proof -
  obtain r F b where "stack_process_write_buf (ev_layer E) (st_filter s) (st_buffer s) = Some (r, F, b)"
    using assms by (rule stack_process_write_runs)
  then show thesis using that by (auto simp: ctx_with_write_buf_def st_process_write_buf_def Let_def split_beta)
qed

section \<open>Operations that leave the writing side alone\<close>

definition quiet :: "'l io_state \<Rightarrow> 'l io_state \<Rightarrow> bool" where
  "quiet s s' \<longleftrightarrow> advances s s' \<and> (flags_ok (st_flags s) \<longrightarrow> flags_ok (st_flags s')) \<and>
     st_write_buf_size s' \<le> st_write_buf_size s \<and> st_filter s' = st_filter s \<and>
     length (sk_layers (st_buffer s')) = length (sk_layers (st_buffer s)) \<and>
     bit (st_flags s') 9 = bit (st_flags s) 9 \<and> bit (st_flags s') 11 = bit (st_flags s) 11 \<and>
     (st_handle s \<longrightarrow> st_handle s' \<or> bit (st_flags s') 0)"

lemma quiet_inv: "quiet s s' \<Longrightarrow> io_inv s \<Longrightarrow> io_inv s' \<and> advances s s'"
  by (auto simp: quiet_def io_inv_def write_ok_def stack_fits_def advances_def)

lemma quiet_trans: "quiet a b \<Longrightarrow> quiet b c \<Longrightarrow> quiet a c"
  by (auto simp: quiet_def advances_def)

named_theorems quiets

lemma quiet_basic [quiets]:
  "quiet s s" "quiet s (io_wake_read_task s)" "quiet s (io_wake_write_task s)" "quiet s (io_wake_dispatch_task s)"
  "quiet s (io_register_read cx s)" "quiet s (io_register_write cx s)" "quiet s (io_register_dispatch cx s)"
  "quiet s (io_terminate_connection e s)"
  by (auto simp: quiet_def advances_def flags_ok_def)

lemma quiet_flags:
  assumes "\<And>n. n < 3 \<Longrightarrow> bit (st_flags s) n \<Longrightarrow> bit (f (st_flags s)) n"
    and "flags_ok (st_flags s) \<Longrightarrow> flags_ok (f (st_flags s))"
    and "bit (f (st_flags s)) 9 = bit (st_flags s) 9" and "bit (f (st_flags s)) 11 = bit (st_flags s) 11"
  shows "quiet s (upd_flags f s)"
  using assms by (auto simp: quiet_def advances_def)

lemma quiet_updates [quiets]:
  "quiet s (upd_flags flags_set_filter_stopping s)"
  "quiet s (upd_flags flags_unset_read_ready s)" "quiet s (upd_flags flags_unset_all_read_flags s)"
  "quiet s (upd_flags flags_set_read_notify s)" "quiet s (upd_flags flags_set_wants_write_flush s)"
  "quiet s (upd_flags flags_set_wr_backpressure s)" "quiet s (upd_flags flags_unset_wr_backpressure s)"
  "quiet s (upd_flags flags_unset_wr_backpressure_and_flush s)" "quiet s (upd_flags flags_set_write_notify s)"
  "quiet s (upd_flags flags_set_read_paused s)" "quiet s (upd_flags flags_set_read_ready s)"
  "quiet s (upd_flags flags_set_read_ready_and_backpressure s)" "quiet s (upd_flags flags_set_read_notifed s)"
  by (rule quiet_flags; auto simp: flags_ok_def io_flags)+

lemma quiet_filters_stopped: "bit (st_flags s) 2 \<Longrightarrow> quiet s (io_filters_stopped s)"
  unfolding io_filters_stopped_def
  by (rule quiet_trans [OF quiet_trans [OF quiet_basic(2) quiet_trans [OF quiet_basic(3) quiet_basic(4)]] quiet_flags])
     (auto simp: flags_ok_def io_flags)

lemma quiet_unset_read_paused: "\<not> bit (st_flags s) 7 \<Longrightarrow> quiet s (upd_flags flags_unset_read_paused s)"
  by (rule quiet_flags) (auto simp: flags_ok_def io_flags)

lemma quiet_resume: "quiet s (upd_flags flags_unset_read_paused (upd_flags flags_unset_all_read_flags s))"
  by (rule quiet_trans [OF quiet_updates(3) quiet_unset_read_paused]) (simp add: io_flags)

lemma quiet_start_shutdown [quiets]: "quiet s (io_start_shutdown s)"
  unfolding io_start_shutdown_def
  using quiet_trans [OF quiet_updates(1) quiet_trans [OF quiet_basic(2) quiet_basic(3)]] quiet_basic(1) by auto

lemma quiet_update_read_destination [quiets]: "quiet s (ioref_update_read_destination n s)"
proof -
  let ?s1 = "if flags_is_rd_backpressure (st_flags s) then upd_flags flags_unset_all_read_flags s else upd_flags flags_unset_read_ready s"
  have 1: "quiet s ?s1" "\<not> bit (st_flags ?s1) 7" by (auto intro: quiets simp: io_flags)
  from 1(2) have "quiet ?s1 (upd_flags flags_unset_read_paused (io_wake_read_task ?s1))"
    by (intro quiet_trans [OF quiet_basic(2) quiet_unset_read_paused]) simp
  with 1(1) show ?thesis
    unfolding ioref_update_read_destination_def Let_def using quiet_trans quiet_basic(1) by (smt (verit))
qed

lemma stack_read_dst_size_write [simp]:
  "stack_write_buf_size (snd (stack_with_read_dst f k)) = stack_write_buf_size k"
  "sk_layers (snd (stack_with_read_dst f k)) = sk_layers k"
  by (auto simp: stack_with_read_dst_def buffer_with_read_def stack_write_buf_size_def stack_last_def split: prod.splits option.splits)

lemma quiet_buffer: "stack_write_buf_size b \<le> stack_write_buf_size (st_buffer s) \<Longrightarrow>
    length (sk_layers b) = length (sk_layers (st_buffer s)) \<Longrightarrow> quiet s (s\<lparr>st_buffer := b\<rparr>)"
  by (simp add: quiet_def st_write_buf_size_def advances_def)

lemma quiet_with_read [quiets]: "quiet s (snd (ioref_with_read_buf f s))"
  by (auto simp: ioref_with_read_buf_def Let_def split_beta intro: quiet_trans [OF quiet_buffer quiet_update_read_destination])

lemma quiet_decode [quiets]: "quiet s (snd (ioref_decode f s))"
proof -
  let ?b = "snd (stack_with_read_dst f (st_buffer s))"
  have "quiet s (s\<lparr>st_buffer := ?b\<rparr>)" by (rule quiet_buffer) simp_all
  from quiet_trans [OF quiet_trans [OF this quiet_updates(2)] quiet_update_read_destination] show ?thesis
    by (simp add: ioref_decode_def Let_def split_beta)
qed

lemma quiet_notify_timeout [quiets]: "quiet s (io_notify_timeout s)"
proof -
  have 1: "quiet s (upd_flags (fst \<circ> flags_check_dispatcher_timeout_unset) s)"
    by (rule quiet_flags) (auto simp: flags_ok_def io_flags)
  show ?thesis using 1 quiet_trans [OF 1 quiet_basic(4)] by (simp add: io_notify_timeout_def Let_def split_beta)
qed

lemma quiet_on_disconnect [quiets]: "quiet s (snd (ioref_on_disconnect s))"
  by (auto simp: ioref_on_disconnect_def on_disconnect_new_def ext_register_disconnect_def quiet_def advances_def
      st_write_buf_size_def split: option.splits)

lemma quiet_pause [quiets]: "quiet s (io_pause s)"
  using quiet_trans [OF quiet_basic(2) quiet_updates(10)] quiet_basic(1) by (auto simp: io_pause_def)

lemma quiet_poll_read_ready [quiets]: "quiet s (snd (io_poll_read_ready cx s))"
proof -
  let ?r = "io_wake_read_task (upd_flags flags_unset_read_paused (upd_flags flags_unset_all_read_flags s))"
  have 1: "quiet s ?r" by (rule quiet_trans [OF quiet_resume quiet_basic(2)])
  consider "snd (io_poll_read_ready cx s) = s" | "snd (io_poll_read_ready cx s) = ?r"
    | "snd (io_poll_read_ready cx s) = io_register_dispatch cx ?r" | "snd (io_poll_read_ready cx s) = io_register_dispatch cx s"
    by (cases "bit (st_flags s) 0 \<or> bit (st_flags s) 1"; cases "bit (st_flags s) 4 \<or> bit (st_flags s) 7"; cases "bit (st_flags s) 6")
      (simp_all add: io_poll_read_ready_def io_flags disj_commute)
  then show ?thesis using 1 quiet_trans [OF 1 quiet_basic(7)] by cases (auto intro: quiets)
qed

lemma quiet_poll_read_notify [quiets]: "quiet s (snd (io_poll_read_notify cx s))"
proof -
  let ?s1 = "upd_flags (fst \<circ> flags_check_read_notifed) s"
  let ?s2 = "snd (io_poll_read_ready cx (upd_flags flags_set_read_notify ?s1))"
  have 1: "quiet s ?s1" by (rule quiet_flags) (auto simp: flags_ok_def io_flags)
  have 2: "quiet s ?s2" by (rule quiet_trans [OF quiet_trans [OF 1 quiet_updates(4)] quiet_poll_read_ready])
  note 3 = quiet_trans [OF 2 quiet_basic(7)]
  show ?thesis using 1 3 quiet_trans [OF 3 quiet_basic(7)] quiet_basic(1)
    by (auto simp: io_poll_read_notify_def Let_def split_beta split: poll.split)
qed

lemma quiet_poll_shutdown [quiets]: "quiet s (snd (io_poll_shutdown cx s))"
proof -
  let ?s1 = "if flags_is_stopping_filters (st_flags s) then s else io_start_shutdown s"
  have "quiet s ?s1" by (auto intro: quiets)
  from quiet_trans [OF quiet_trans [OF this quiet_resume] quiet_trans [OF quiet_basic(2) quiet_basic(7)]] quiet_basic(1)
  show ?thesis by (auto simp: io_poll_shutdown_def Let_def split: option.split)
qed

lemma quiet_poll_status [quiets]: "quiet s (snd (io_poll_status_update cx s))"
proof -
  let ?s1 = "io_register_dispatch cx s"
  let ?s2 = "upd_flags (fst \<circ> flags_check_dispatcher_timeout) ?s1"
  have 1: "quiet s ?s1" by (rule quiets)
  have "quiet ?s1 ?s2" by (rule quiet_flags) (auto simp: flags_ok_def io_flags)
  from quiet_trans [OF 1 this] have 2: "quiet s ?s2" .
  show ?thesis using 1 2 quiet_trans [OF 2 quiet_updates(7)] by (auto simp: io_poll_status_update_def Let_def split_beta)
qed

lemma quiet_poll_ready [quiets]:
  "quiet s (snd (filter_poll_read_ready F cx s))" "quiet s (snd (filter_poll_write_ready F cx s))"
  by (induction F) (auto simp: base_poll_read_ready_def base_poll_write_ready_def Let_def intro: quiets)

lemma quiet_ctx_shutdown [quiets]: "quiet s (snd (ctx_shutdown flush cx s))"
  using quiet_trans [OF quiet_trans [OF quiet_updates(9) quiet_basic(5)] quiet_basic(6)] quiet_trans [OF quiet_basic(5,6)] quiet_basic(1)
  by (auto simp: ctx_shutdown_def)

fun reads_only :: "'l io_op \<Rightarrow> bool" where
  "reads_only (With_Write f) = False"
| "reads_only Send_Buf = False"
| "reads_only (Poll_Flush cx full) = False"
| "reads_only Ops_Send = False"
| "reads_only (Drv_Write n res) = False"
| "reads_only (Drv_Read xs res) = False"
| "reads_only (Drv_Poll_Read elapsed cx) = False"
| "reads_only _ = True"

lemma reads_only_quiet:
  assumes "reads_only x"
  obtains s' where "io_do E x s = Some s'" and "quiet s s'"
  using assms by (cases x) (auto simp: ioref_close_def ioref_terminate_def ioref_notify_dispatcher_def io_poll_dispatch_def
      ctx_poll_write_ready_def ctx_stop_def intro: quiets)

end
