(* ===== verification/Io_Write.thy ===== *)
theory Io_Write
  imports Io_Inv
begin

text \<open>
  The writing side of a stream. A driver is assumed to do inside \<open>Handle::write\<close> what a driver does elsewhere: to write, to
  stop the stream and to wake (\<open>drv_run\<close>), and to have the default method for \<open>Handle::notify\<close>. The locale \<open>stream_driver\<close> states that, and the invariant
  of a stream is preserved by every call that the parties of a stream make. \<open>Poll_Item\<close> interprets the locale on the
  polling driver and on the drivers that leave \<open>Handle::write\<close> empty.
\<close>

text \<open>The handle is borrowed by a call: out of the state for its time, and back after it.\<close>

lemma advances_borrow:
  assumes "st_handle s" and "\<forall>n < 3. bit (st_flags s) n \<longrightarrow> bit (st_flags s0) n" and "st_log s0 = st_log s" and "\<not> st_handle s0"
    and "advances s0 t" and "st_handle t \<longrightarrow> st_handle s0"
  shows "advances s (t\<lparr>st_handle := True\<rparr>)"
  using assms by (auto simp: advances_def handles_def)

locale stream_driver =
  fixes E :: "'l io_env"
  assumes write_runs: "drv_run E s (ev_write E s)"
    and notify_wakes: "ev_notify E s = ctx_notify s"
begin

lemma notify_runs: "drv_run E s (ev_notify E s)"
  unfolding notify_wakes by (rule drv_run.drv_wake [OF drv_run.drv_refl])

definition pre_inv :: "'l io_state \<Rightarrow> bool" where
  "pre_inv s \<longleftrightarrow> flags_ok (st_flags s) \<and> (st_handle s \<or> bit (st_flags s) 0) \<and> stack_fits (st_filter s) (st_buffer s)"

lemma io_inv_pre: "io_inv s \<Longrightarrow> pre_inv s"
  by (simp add: io_inv_def pre_inv_def)

lemma call_write_spec:
  assumes "pre_inv s" and "ioref_call_write E s = (yes, s')"
  shows "pre_inv s'" and "advances s s'" and "yes \<longleftrightarrow> \<not> bit (st_flags s') 9"
    and "bit (st_flags s') 1 \<or> st_write_buf_size s' = 0 \<or> \<not> bit (st_flags s') 9"
proof -
  let ?s0 = "upd_flags flags_unset_write_paused (s\<lparr>st_handle := False\<rparr>)"
  have "drv_inv False ?s0" using assms(1) by (simp add: drv_inv_def pre_inv_def flags_ok_def io_flags)
  with drv_run_inv [OF write_runs] have r: "drv_inv False (ev_write E ?s0)" "advances ?s0 (ev_write E ?s0)"
    "st_handle (ev_write E ?s0) \<longrightarrow> st_handle ?s0" by blast+
  consider (none) "\<not> st_handle s" "s' = s" | (some) "st_handle s" "s' = (ev_write E ?s0)\<lparr>st_handle := True\<rparr>"
    using assms(2) by (cases "st_handle s") (simp_all add: ioref_call_write_def Let_def)
  then have "pre_inv s' \<and> advances s s' \<and> (bit (st_flags s') 1 \<or> st_write_buf_size s' = 0 \<or> \<not> bit (st_flags s') 9)"
  proof cases
    case none
    then show ?thesis using assms(1) by (simp add: pre_inv_def flags_ok_def)
  next
    case some
    have "advances s s'" unfolding some(2) by (rule advances_borrow [OF some(1) _ _ _ r(2,3)]) (simp_all add: io_flags)
    then show ?thesis using r(1) some by (simp add: pre_inv_def drv_inv_def)
  qed
  then show "pre_inv s'" "advances s s'" "bit (st_flags s') 1 \<or> st_write_buf_size s' = 0 \<or> \<not> bit (st_flags s') 9"
    by blast+
  show "yes \<longleftrightarrow> \<not> bit (st_flags s') 9" using assms(2) by (cases "st_handle s") (auto simp: ioref_call_write_def Let_def flags_is_write_paused_bits)
qed

lemma schedule_write_spec:
  assumes "pre_inv s"
  shows "io_inv (ioref_schedule_write s)" and "advances s (ioref_schedule_write s)"
  using assms by (auto simp: ioref_schedule_write_def pre_inv_def io_inv_def write_ok_def flags_ok_def advances_def handles_def io_flags)

lemma consolidate_inv:
  assumes "pre_inv s"
  shows "io_inv (ioref_consolidate_write_state E force s)" and "advances s (ioref_consolidate_write_state E force s)"
proof -
  let ?n = "st_write_buf_size s"
  define s1 where "s1 = (if ?n > 0 \<and> flags_is_write_paused (st_flags s)
      then if flags_is_direct_wr_enabled (st_flags s) \<and> (force \<or> ?n \<ge> cf_write_buf_threshold (st_cfg s))
           then (case ioref_call_write E s of (True, s) \<Rightarrow> ioref_schedule_write s | (False, s) \<Rightarrow> upd_flags flags_unset_wr_send_scheduled s)
           else ioref_schedule_write s
      else s)"
  have s1: "io_inv s1 \<and> advances s s1"
  proof (cases "?n > 0 \<and> flags_is_write_paused (st_flags s)")
    case True
    show ?thesis
    proof (cases "flags_is_direct_wr_enabled (st_flags s) \<and> (force \<or> ?n \<ge> cf_write_buf_threshold (st_cfg s))")
      case direct: True
      obtain yes s2 where c: "ioref_call_write E s = (yes, s2)" by fastforce
      note w = call_write_spec [OF assms c]
      show ?thesis
      proof (cases yes)
        case True
        then have "s1 = ioref_schedule_write s2" using \<open>_ \<and> flags_is_write_paused _\<close> direct c by (simp add: s1_def)
        then show ?thesis using schedule_write_spec [OF w(1)] w(2) advances_trans by auto
      next
        case False
        then have s1: "s1 = upd_flags flags_unset_wr_send_scheduled s2" using \<open>_ \<and> flags_is_write_paused _\<close> direct c by (simp add: s1_def)
        have "bit (st_flags s2) 1 \<or> st_write_buf_size s2 = 0" using w(3,4) False by simp
        then show ?thesis using w(1,2) unfolding s1
          by (auto simp: pre_inv_def io_inv_def write_ok_def flags_ok_def io_flags)
      qed
    next
      case False
      then have "s1 = ioref_schedule_write s" using True unfolding s1_def by (simp only: if_True if_False simp_thms)
      then show ?thesis using schedule_write_spec [OF assms] by simp
    qed
  next
    case False
    then have "s1 = s" unfolding s1_def by (simp only: if_False)
    then show ?thesis using assms False by (auto simp: pre_inv_def io_inv_def write_ok_def flags_is_write_paused_bits)
  qed
  have "ioref_consolidate_write_state E force s = s1 \<or>
      ioref_consolidate_write_state E force s = io_wake_dispatch_task (upd_flags flags_set_wr_backpressure s1)"
    by (simp add: ioref_consolidate_write_state_def Let_def flip: s1_def)
  then show "io_inv (ioref_consolidate_write_state E force s)" "advances s (ioref_consolidate_write_state E force s)"
    using s1 by (auto simp: io_inv_def write_ok_def flags_ok_def io_flags)
qed

lemma with_write_inv:
  assumes "io_inv s"
  shows "io_inv (snd (ioref_with_write_buf E f s))" and "advances s (snd (ioref_with_write_buf E f s))"
proof -
  obtain r b where b: "stack_with_write_src f (st_buffer s) = (r, b)" by fastforce
  then have "sk_layers b = sk_layers (st_buffer s)" by (auto simp: stack_with_write_src_def split: prod.splits)
  then have "pre_inv (s\<lparr>st_buffer := b\<rparr>)" using assms by (simp add: pre_inv_def io_inv_def stack_fits_def)
  from consolidate_inv [OF this, of False] assms b
  show "io_inv (snd (ioref_with_write_buf E f s))" "advances s (snd (ioref_with_write_buf E f s))"
    by (simp_all add: ioref_with_write_buf_def)
qed

lemma send_buf_inv:
  assumes "io_inv s"
  shows "io_inv (snd (ioref_send_buf E s))" and "advances s (snd (ioref_send_buf E s))"
  using consolidate_inv [OF io_inv_pre [OF assms], of True]
  by (auto simp: ioref_send_buf_def Let_def io_inv_def write_ok_def split: option.splits)

lemma ops_send_inv:
  assumes "io_inv s"
  shows "io_inv (ioref_ops_send_buf E s)" and "advances s (ioref_ops_send_buf E s)"
proof -
  let ?s = "upd_flags flags_unset_wr_send_scheduled s"
  have pre: "pre_inv ?s" using assms by (simp add: pre_inv_def io_inv_def flags_ok_def io_flags)
  obtain yes s2 where c: "ioref_call_write E ?s = (yes, s2)" by fastforce
  note w = call_write_spec [OF pre c]
  have le: "advances s s2" using w(2) by (simp add: io_flags)
  consider (idle) "ioref_ops_send_buf E s = s" | (task) "ioref_ops_send_buf E s = io_wake_write_task ?s" "\<not> bit (st_flags s) 9"
    | (more) "ioref_ops_send_buf E s = upd_flags flags_unset_write_paused (io_wake_write_task s2)"
    | (sent) "ioref_ops_send_buf E s = s2" "\<not> yes"
    using c by (cases "bit (st_flags s) 11"; cases "bit (st_flags s) 9"; cases yes) (simp_all add: ioref_ops_send_buf_def io_flags)
  then have "io_inv (ioref_ops_send_buf E s) \<and> advances s (ioref_ops_send_buf E s)"
  proof cases
    case idle
    then show ?thesis using assms by simp
  next
    case task
    then show ?thesis using pre by (simp add: io_inv_def pre_inv_def write_ok_def flags_ok_def io_flags)
  next
    case more
    then show ?thesis using w(1) le advances_flags(3) [of s "io_wake_write_task s2"]
      by (simp add: io_inv_def pre_inv_def write_ok_def flags_ok_def io_flags)
  next
    case sent
    then show ?thesis using w(1,3,4) le by (auto simp: io_inv_def pre_inv_def write_ok_def)
  qed
  then show "io_inv (ioref_ops_send_buf E s)" "advances s (ioref_ops_send_buf E s)" by blast+
qed

lemma poll_flush_inv:
  assumes "layer_ok (ev_layer E)" and "io_inv s"
  obtains s' where "io_do E (Poll_Flush cx full) s = Some s'" and "io_inv s'" and "advances s s'"
proof -
  have fits: "stack_fits (st_filter s) (st_buffer s)" using assms(2) by (simp add: io_inv_def)
  obtain r F b where p: "stack_process_write_buf_force (ev_layer E) (st_filter s) (st_buffer s) = Some (r, F, b)" "stack_fits F b"
    "layer_ok (ev_layer E) \<longrightarrow> (\<forall>e. r = Inl e \<longrightarrow> stack_write_buf_size b \<le> stack_write_buf_size (st_buffer s))"
    using fits by (rule stack_process_write_force_runs)
  let ?s1 = "s\<lparr>st_filter := F, st_buffer := b\<rparr>"
  have run: "st_process_write_buf_force E s = Some (r, ?s1)" by (simp add: st_process_write_buf_force_def p(1))
  show thesis
  proof (cases r)
    case (Inl e)
    then have "io_inv ?s1" using assms p by (auto simp: io_inv_def write_ok_def st_write_buf_size_def)
    moreover have "io_do E (Poll_Flush cx full) s = Some ?s1" using run Inl by (simp add: io_poll_flush_def)
    ultimately show thesis by (intro that [of ?s1]) simp_all
  next
    case (Inr u)
    define s2 where "s2 = ioref_consolidate_write_state E False ?s1"
    have "pre_inv ?s1" using assms(2) p(2) by (simp add: pre_inv_def io_inv_def)
    from consolidate_inv [OF this, of False] have 2: "io_inv s2" "advances ?s1 s2" by (auto simp: s2_def)
    have "advances s ?s1" by simp
    with 2 have le: "advances s s2" using advances_trans by blast
    let ?full = "io_register_dispatch cx (upd_flags flags_set_wants_write_flush s2)"
    let ?bp = "io_register_dispatch cx (upd_flags flags_set_wr_backpressure s2)"
    have q: "quiet s2 s2" "quiet s2 ?full" "quiet s2 ?bp" "quiet s2 (upd_flags flags_unset_wr_backpressure_and_flush s2)"
      using quiet_trans [OF quiet_updates(5) quiet_basic(7)] quiet_trans [OF quiet_updates(6) quiet_basic(7)] by (auto intro: quiets)
    have "map_option snd (io_poll_flush E cx full s)
        \<in> {Some s2, Some ?full, Some ?bp, Some (upd_flags flags_unset_wr_backpressure_and_flush s2)}"
      unfolding io_poll_flush_def run Inr Let_def by (simp flip: s2_def)
    then obtain s' where s': "io_do E (Poll_Flush cx full) s = Some s'" "quiet s2 s'"
      using q by auto
    with quiet_inv [OF s'(2) 2(1)] le advances_trans show thesis by (intro that [of s']) auto
  qed
qed

lemma call_notify_inv:
  assumes "io_inv s"
  shows "io_inv (ioref_call_notify E s)" and "advances s (ioref_call_notify E s)"
proof -
  let ?s0 = "s\<lparr>st_handle := False\<rparr>"
  have "drv_inv (bit (st_flags s) 11) ?s0" using assms by (auto simp: drv_inv_def io_inv_def write_ok_def)
  with drv_run_inv [OF notify_runs] have "drv_inv (bit (st_flags s) 11) (ev_notify E ?s0)" "advances ?s0 (ev_notify E ?s0)"
    "bit (st_flags (ev_notify E ?s0)) 11 = bit (st_flags s) 11" by fastforce+
  note r = this
  have "st_handle (ev_notify E ?s0) \<longrightarrow> st_handle ?s0" using drv_run_inv [OF notify_runs \<open>drv_inv _ ?s0\<close>] by blast
  then have "st_handle s \<Longrightarrow> advances s ((ev_notify E ?s0)\<lparr>st_handle := True\<rparr>)"
    by (intro advances_borrow [OF _ _ _ _ r(2)]) simp_all
  then show "advances s (ioref_call_notify E s)" by (simp add: ioref_call_notify_def)
  show "io_inv (ioref_call_notify E s)"
    using assms r(1,3) by (auto simp: ioref_call_notify_def io_inv_def drv_inv_def write_ok_def)
qed

lemma read_processed_inv:
  assumes pre0: "pre_inv s" and ok: "\<not> wants_write \<longrightarrow> write_ok s"
  obtains s' where "ctx_read_processed E orig wants_write notify s = Some s'" and "io_inv s'" and "advances s s'"
proof -
  let ?n = "stack_read_dst_size (st_buffer s)"
  define s1 where "s1 = (if ?n > orig then io_wake_dispatch_task
      (if is_rd_backpressure_needed ?n s then upd_flags flags_set_read_ready_and_backpressure s else upd_flags flags_set_read_ready s) else s)"
  define s2 where "s2 = (if flags_is_read_notify (st_flags s1) then upd_flags flags_set_read_notifed (io_wake_dispatch_task s1) else s1)"
  have "quiet s s1" unfolding s1_def
    using quiet_trans [OF quiet_updates(12) quiet_basic(4)] quiet_trans [OF quiet_updates(11) quiet_basic(4)] quiet_basic(1) by auto
  moreover have "quiet s1 s2" unfolding s2_def using quiet_trans [OF quiet_basic(4) quiet_updates(13)] quiet_basic(1) by auto
  ultimately have q: "quiet s s2" by (rule quiet_trans)
  then have pre: "pre_inv s2" and le: "advances s s2" using pre0 advances_bit [of s s2 0] by (auto simp: quiet_def pre_inv_def stack_fits_def)
  have "\<exists>s3. (if wants_write then do { (r, s) \<leftarrow> st_process_write_buf_force E s2;
          Some (case r of Inl err \<Rightarrow> io_terminate_connection (Some err) s | Inr _ \<Rightarrow> ioref_consolidate_write_state E False s) }
        else Some s2) = Some s3 \<and> io_inv s3 \<and> advances s s3"
  proof (cases wants_write)
    case False
    then have "io_inv s" using pre0 ok by (simp add: io_inv_def pre_inv_def)
    then show ?thesis using False quiet_inv [OF q] by simp
  next
    case True
    have fits: "stack_fits (st_filter s2) (st_buffer s2)" using pre by (simp add: pre_inv_def)
    then obtain r F b where p: "stack_process_write_buf_force (ev_layer E) (st_filter s2) (st_buffer s2) = Some (r, F, b)" "stack_fits F b"
      by (rule stack_process_write_force_runs)
    let ?s3 = "s2\<lparr>st_filter := F, st_buffer := b\<rparr>"
    have run: "st_process_write_buf_force E s2 = Some (r, ?s3)" by (simp add: st_process_write_buf_force_def p(1))
    have 3: "pre_inv ?s3" "advances s ?s3" using pre p(2) le by (simp_all add: pre_inv_def)
    show ?thesis
    proof (cases r)
      case (Inl e)
      then show ?thesis using True run 3 by (auto simp: pre_inv_def io_inv_def write_ok_def flags_ok_def)
    next
      case (Inr u)
      then show ?thesis using True run 3(2) consolidate_inv [OF 3(1), of False] advances_trans by auto
    qed
  qed
  then obtain s3 where s3: "ctx_read_processed E orig wants_write notify s = Some (if notify then ioref_call_notify E s3 else s3)"
    "io_inv s3" "advances s s3"
    unfolding ctx_read_processed_def Let_def by (fold s1_def, fold s2_def) auto
  have "io_inv (if notify then ioref_call_notify E s3 else s3)" "advances s (if notify then ioref_call_notify E s3 else s3)"
    using s3(2,3) call_notify_inv [OF s3(2)] advances_trans by auto
  then show thesis by (rule that [OF s3(1)])
qed

lemma stack_set_last_read:
  assumes "bf_write b = bf_write (stack_last k)"
  shows "stack_write_buf_size (stack_set_last b k) = stack_write_buf_size k"
    and "length (sk_layers (stack_set_last b k)) = length (sk_layers k)"
  using assms by (cases "sk_layers k" rule: rev_cases; simp add: stack_set_last_def stack_last_def stack_write_buf_size_def)+

lemma get_set_read_quiet:
  "quiet s (snd (ctx_get_read_buf s))" "quiet s (s\<lparr>st_buffer := stack_set_read_buf buf (st_buffer s)\<rparr>)"
proof -
  let ?g = "s\<lparr>st_buffer := snd (stack_get_read_buf (st_buffer s))\<rparr>"
  have "quiet s ?g" by (rule quiet_buffer) (simp_all add: stack_get_read_buf_def stack_set_last_read)
  moreover have "snd (ctx_get_read_buf s) = s \<or> snd (ctx_get_read_buf s) = ?g"
    by (simp add: ctx_get_read_buf_def split_beta split: option.split)
  ultimately show "quiet s (snd (ctx_get_read_buf s))" using quiet_basic(1) by auto
  show "quiet s (s\<lparr>st_buffer := stack_set_read_buf buf (st_buffer s)\<rparr>)"
    by (rule quiet_buffer) (simp_all add: stack_set_read_buf_def stack_set_last_read Let_def split: option.split)
qed

lemma read_result_inv:
  assumes "layer_ok (ev_layer E)" and "io_inv s"
  obtains result s' where "ctx_read_result E orig status s = Some (result, s')" and "pre_inv s'" and "advances s s'"
    and "(\<exists>u. result = Inr u) \<longrightarrow> write_ok s'"
proof (cases "\<exists>n. status = Inr n \<and> n \<noteq> 0")
  case False
  then show thesis
    using that assms(2) by (cases status) (auto simp: ctx_read_result_def io_inv_def io_inv_pre)
next
  case True
  then obtain n where n: "status = Inr n" "n \<noteq> 0" by blast
  have fits: "stack_fits (st_filter s) (st_buffer s)" using assms(2) by (simp add: io_inv_def)
  then obtain r F b where p: "stack_process_read_buf (ev_layer E) (st_filter s) n (st_buffer s) = Some (r, F, b)" "stack_fits F b"
    "layer_ok (ev_layer E) \<longrightarrow> (\<forall>nt. r = Inr (False, nt) \<longrightarrow> stack_write_buf_size b \<le> stack_write_buf_size (st_buffer s))"
    by (rule stack_process_read_runs)
  let ?s1 = "s\<lparr>st_filter := F, st_buffer := b\<rparr>"
  have run: "st_process_read_buf E n s = Some (r, ?s1)" by (simp add: st_process_read_buf_def p(1))
  have 1: "pre_inv ?s1" "advances s ?s1" using assms(2) p(2) by (simp_all add: pre_inv_def io_inv_def)
  show thesis
  proof (cases r)
    case (Inl e)
    then show thesis using that [of "Inl e" ?s1] n run 1 by (simp add: ctx_read_result_def)
  next
    case (Inr wn)
    obtain w nt where wn: "wn = (w, nt)" by fastforce
    have "\<not> w \<longrightarrow> write_ok ?s1" using p(3) assms Inr wn by (auto simp: write_ok_def io_inv_def st_write_buf_size_def)
    with 1(1) obtain s' where "ctx_read_processed E orig w nt ?s1 = Some s'" "io_inv s'" "advances ?s1 s'"
      by (rule read_processed_inv)
    then show thesis using that [of "Inr ()" s'] n run Inr wn advances_trans [OF 1(2)]
      by (simp add: ctx_read_result_def io_inv_def io_inv_pre)
  qed
qed

lemma drv_read_inv:
  assumes "layer_ok (ev_layer E)" and "io_inv s"
  obtains s' where "io_do E (Drv_Read xs res) s = Some s'" and "io_inv s'" and "advances s s'"
proof -
  let ?g = "ctx_get_read_buf s"
  let ?orig = "stack_read_dst_size (st_buffer (snd ?g))" and ?st = "map_sum id (\<lambda>_. length xs) res"
  define s1 where "s1 = (snd ?g)\<lparr>st_buffer := stack_set_read_buf (fst ?g @ xs) (st_buffer (snd ?g))\<rparr>"
  have "quiet s s1" unfolding s1_def by (rule quiet_trans [OF get_set_read_quiet])
  from quiet_inv [OF this assms(2)] have 1: "io_inv s1" "advances s s1" by auto
  obtain result s2 where 2: "ctx_read_result E ?orig ?st s1 = Some (result, s2)" "pre_inv s2" "advances s1 s2"
    "(\<exists>u. result = Inr u) \<longrightarrow> write_ok s2" using assms(1) 1(1) by (rule read_result_inv)
  note le = advances_trans [OF 1(2) 2(3)]
  show thesis
  proof (cases result)
    case (Inl err)
    then have "io_do E (Drv_Read xs res) s = Some (io_terminate_connection (Some err) s2)"
      using 2(1) by (simp add: drv_read_def ctx_update_read_status_def Let_def split_beta flip: s1_def)
    then show thesis
    proof (rule that)
      show "io_inv (io_terminate_connection (Some err) s2)" "advances s (io_terminate_connection (Some err) s2)"
        using 2(2) le by (auto simp: pre_inv_def io_inv_def write_ok_def flags_ok_def)
    qed
  next
    case (Inr u)
    then have "io_do E (Drv_Read xs res) s = Some s2"
      using 2(1) by (simp add: drv_read_def ctx_update_read_status_def Let_def split_beta flip: s1_def)
    then show thesis using 2(2,4) le Inr by (intro that [of s2]) (simp_all add: pre_inv_def io_inv_def)
  qed
qed

lemma drv_poll_read_inv:
  assumes "io_inv s"
  obtains s' where "io_do E (Drv_Poll_Read elapsed cx) s = Some s'" and "io_inv s'" and "advances s s'"
proof -
  obtain s1 where 1: "ctx_shutdown_filters E elapsed s = Some s1" "io_inv s1" "advances s s1"
  proof (cases "flags_is_shutting_down_filters (st_flags s)")
    case False
    then show thesis using that [of s] assms by (simp add: ctx_shutdown_filters_def)
  next
    case True
    have fits: "stack_fits (st_filter s) (st_buffer s)" using assms by (simp add: io_inv_def)
    then obtain r F b where p: "stack_process_shutdown (ev_layer E) (st_filter s) (st_buffer s) = Some (r, F, b)" "stack_fits F b"
      by (rule stack_process_shutdown_runs)
    let ?s1 = "s\<lparr>st_filter := F, st_buffer := b\<rparr>"
    have run: "st_process_shutdown E s = Some (r, ?s1)" by (simp add: st_process_shutdown_def p(1))
    have 1: "pre_inv ?s1" "advances s ?s1" using assms p(2) by (simp_all add: pre_inv_def io_inv_def)
    show thesis
    proof (cases r)
      case (Inl err)
      then show thesis using that [of "io_terminate_connection (Some err) ?s1"] True run 1
        by (auto simp: ctx_shutdown_filters_def pre_inv_def io_inv_def write_ok_def flags_ok_def)
    next
      case (Inr p)
      define s2 where "s2 = ioref_consolidate_write_state E True ?s1"
      have 2: "io_inv s2" "advances s s2" using consolidate_inv [OF 1(1), of True] 1(2) advances_trans unfolding s2_def by blast+
      then have b2: "bit (st_flags s2) 2" using True advances_bit [of s s2 2] by (simp add: io_flags)
      have "quiet s2 (s2\<lparr>st_shutdown_timeout := t\<rparr>)" for t by (simp add: quiet_def st_write_buf_size_def)
      moreover from b2 have "quiet s2 (io_filters_stopped s2)"
        "quiet (s2\<lparr>st_shutdown_timeout := False\<rparr>) (io_filters_stopped (s2\<lparr>st_shutdown_timeout := False\<rparr>))"
        by (simp_all add: quiet_filters_stopped)
      ultimately have q: "quiet s2 (io_filters_stopped s2)" "quiet s2 (s2\<lparr>st_shutdown_timeout := True\<rparr>)"
        "quiet s2 (io_filters_stopped (s2\<lparr>st_shutdown_timeout := False\<rparr>))" using quiet_trans by blast+
      have "ctx_shutdown_filters E elapsed s \<in> {Some (io_filters_stopped s2), Some (s2\<lparr>st_shutdown_timeout := True\<rparr>),
          Some (io_filters_stopped (s2\<lparr>st_shutdown_timeout := False\<rparr>))}"
        using True run Inr by (simp add: ctx_shutdown_filters_def Let_def flip: s2_def)
      then obtain s3 where "ctx_shutdown_filters E elapsed s = Some s3" "quiet s2 s3" using q by auto
      then show thesis using that quiet_inv [OF _ 2(1)] advances_trans [OF 2(2)] by metis
    qed
  qed
  have "quiet s1 (snd (filter_poll_read_ready (st_filter s1) cx s1))" by (rule quiets)
  from quiet_inv [OF this 1(2)] advances_trans [OF 1(3)] show thesis
    by (intro that [of "snd (filter_poll_read_ready (st_filter s1) cx s1)"]) (auto simp: ctx_poll_read_ready_def 1(1))
qed

lemma drv_write_op_inv:
  assumes "io_inv s"
  obtains s' where "io_do E (Drv_Write n res) s = Some s'" and "io_inv s'" and "advances s s'"
proof -
  have "stack_fits (st_filter s) (st_buffer s)" using assms by (simp add: io_inv_def)
  then obtain r0 s1 where 1: "ctx_with_write_buf E (\<lambda>b. ((), drop n b)) s = Some (r0, s1)" by (rule with_write_buf_total)
  obtain r s' where 2: "ctx_update_write_status res s1 = (r, s')" by fastforce
  have "drv_run E s s'" using drv_run.drv_status [OF drv_run.drv_take [OF drv_run.drv_refl] 2] 1 by simp
  then show thesis using that [of s'] drv_run_io_inv [OF _ assms] 1 2 by (simp add: drv_write_def)
qed

lemma io_do_inv:
  assumes "layer_ok (ev_layer E)" and "io_inv s"
  obtains s' where "io_do E x s = Some s'" and "io_inv s'" and "advances s s'"
proof (cases "reads_only x")
  case True
  then obtain s' where "io_do E x s = Some s'" "quiet s s'" by (rule reads_only_quiet)
  then show thesis using that quiet_inv [OF _ assms(2)] by blast
next
  case False
  then show thesis
  proof (cases x)
    case (With_Write f)
    then show thesis using with_write_inv [OF assms(2)]
      by (intro that [of "snd (ioref_with_write_buf E (\<lambda>b. ((), f b)) s)"]) simp_all
  next
    case Send_Buf
    then show thesis using send_buf_inv [OF assms(2)] by (intro that [of "snd (ioref_send_buf E s)"]) simp_all
  next
    case (Poll_Flush cx full)
    from assms obtain s' where "io_do E x s = Some s'" "io_inv s'" "advances s s'" unfolding Poll_Flush by (rule poll_flush_inv)
    then show thesis by (rule that)
  next
    case Ops_Send
    then show thesis using ops_send_inv [OF assms(2)] by (intro that [of "ioref_ops_send_buf E s"]) simp_all
  next
    case (Drv_Write n res)
    from assms(2) obtain s' where "io_do E x s = Some s'" "io_inv s'" "advances s s'" unfolding Drv_Write by (rule drv_write_op_inv)
    then show thesis by (rule that)
  next
    case (Drv_Read xs res)
    from assms obtain s' where "io_do E x s = Some s'" "io_inv s'" "advances s s'" unfolding Drv_Read by (rule drv_read_inv)
    then show thesis by (rule that)
  next
    case (Drv_Poll_Read elapsed cx)
    from assms(2) obtain s' where "io_do E x s = Some s'" "io_inv s'" "advances s s'" unfolding Drv_Poll_Read by (rule drv_poll_read_inv)
    then show thesis by (rule that)
  qed (use False in simp_all)
qed

lemma io_run_inv:
  "layer_ok (ev_layer E) \<Longrightarrow> io_inv s \<Longrightarrow> \<exists>s'. io_run E xs s = Some s' \<and> io_inv s' \<and> advances s s'"
proof (induction xs arbitrary: s)
  case (Cons x xs)
  obtain s1 where 1: "io_do E x s = Some s1" "io_inv s1" "advances s s1" using Cons.prems by (rule io_do_inv)
  obtain s2 where 2: "io_run E xs s1 = Some s2" "io_inv s2" "advances s1 s2" using Cons.IH [OF Cons.prems(1) 1(2)] by blast
  show ?case using 1(1) 2(1,2) advances_trans [OF 1(3) 2(3)] by simp
qed simp

end

end
