(* ===== verification/Poll_Item.thy ===== *)
theory Poll_Item
  imports Io_Write
begin

text \<open>
  One stream of the polling driver, \<open>StreamItem\<close> of \<open>net/polling/stream.rs\<close>: a socket, the flags of its registration with the
  poller and the stream state. What lies outside is a parameter: the sizes of the pages in which the write buffer is stored
  (\<open>BytePages\<close> is the matter of \<open>Byte_Pages\<close>) and the results of the system calls, as the macro \<open>syscall!(break ..)\<close>
  returns them.
\<close>

section \<open>Data\<close>

definition MAX_WRITE_SIZE :: nat where "MAX_WRITE_SIZE = 64 * 1024"
definition MAX_WRITE_ITEMS :: nat where "MAX_WRITE_ITEMS = 16"

abbreviation FL_RD :: u8 where "FL_RD \<equiv> flag 0"
abbreviation FL_WR :: u8 where "FL_WR \<equiv> flag 1"
abbreviation ARM_RD :: u8 where "ARM_RD \<equiv> flag 2"
abbreviation ARM_WR :: u8 where "ARM_WR \<equiv> flag 3"
abbreviation DROPPED_PRI :: u8 where "DROPPED_PRI \<equiv> flag 4"
abbreviation DROPPED_SEC :: u8 where "DROPPED_SEC \<equiv> flag 5"

record 'l stream_item =
  si_fd :: nat
  si_flags :: u8
  si_ctx :: "'l io_state"

record poll_event =
  pe_readable :: bool
  pe_writable :: bool
  pe_interrupt :: bool

record kernel =
  kn_sizes :: "nat list"
  kn_write :: "u8 list list \<Rightarrow> (io_error + nat) poll"
  kn_read :: "(io_error + u8 list) poll"

section \<open>Writing\<close>

text \<open>The bytes of the buffer in pages of the given sizes; what is left is one more page.\<close>

fun split_pages :: "nat list \<Rightarrow> u8 list \<Rightarrow> u8 list list" where
  "split_pages [] b = (if b = [] then [] else [b])"
| "split_pages (n # ns) b = (if b = [] then [] else take n b # split_pages ns (drop n b))"

lemma concat_split_pages [simp]: "concat (split_pages ns b) = b"
  by (induction ns b rule: split_pages.induct) auto

text \<open>Pages are taken until sixteen are taken or their size reaches \<open>MAX_WRITE_SIZE\<close>; the rest stays in the buffer.\<close>

fun gather :: "nat \<Rightarrow> nat \<Rightarrow> u8 list list \<Rightarrow> u8 list list \<times> u8 list list" where
  "gather num sz [] = ([], [])"
| "gather num sz (p # ps) =
     (let sz = sz + length p; num = num + 1 in
      if num = MAX_WRITE_ITEMS \<or> sz \<ge> MAX_WRITE_SIZE then ([p], ps)
      else (let (ts, rs) = gather num sz ps in (p # ts, rs)))"

fun advance_pages :: "nat \<Rightarrow> u8 list list \<Rightarrow> u8 list list" where
  "advance_pages written [] = []"
| "advance_pages written (p # ps) =
     (let len = min (length p) written; p = drop len p; written = written - len in
      if written = 0 then p # ps else p # advance_pages written ps)"

text \<open>
  The closure of \<open>StreamItem::write\<close>: the result of the write, whether the stream is stopped (a write of zero bytes) and the
  bytes left. The operator \<open>?\<close> returns before the pages are put back, so an error loses them.
\<close>

definition write_pages :: "kernel \<Rightarrow> u8 list \<Rightarrow> ((io_error + bool) \<times> bool) \<times> u8 list" where
  "write_pages k b =
     (let (ts, rs) = gather 0 0 (split_pages (kn_sizes k) b) in
      if ts = [] then ((Inr False, False), concat rs)
      else (case kn_write k ts of
              Ready (Inl e) \<Rightarrow> ((Inl e, False), concat rs)
            | Ready (Inr n) \<Rightarrow> ((Inr (n > 0), n = 0), concat (advance_pages n ts @ rs))
            | Pending \<Rightarrow> ((Inr False, False), concat (ts @ rs))))"

definition item_write :: "'l io_env \<Rightarrow> kernel \<Rightarrow> 'l io_state \<Rightarrow> (io_task_status \<times> 'l io_state) option" where
  "item_write E k s = do {
     ((res, stop), s) \<leftarrow> ctx_with_write_buf E (write_pages k) s;
     let s = (if stop then ctx_stop None s else s);
     Some (ctx_update_write_status res s) }"

text \<open>\<open>StreamItem::write_bufs\<close>, the write that bypasses the buffer.\<close>

definition item_write_bufs :: "kernel \<Rightarrow> u8 list list \<Rightarrow> 'l io_state \<Rightarrow> (io_error + nat) \<times> 'l io_state" where
  "item_write_bufs k bufs s =
     (let bufs = take MAX_WRITE_ITEMS bufs in
      if bufs = [] then (Inr 0, s)
      else (case kn_write k bufs of
              Ready (Inl e) \<Rightarrow> (Inl e, s)
            | Ready (Inr n) \<Rightarrow> if n = 0 then (Inl (IoError WriteZero []), ctx_stop None s) else (Inr n, s)
            | Pending \<Rightarrow> (Inr 0, s)))"

section \<open>Reading\<close>

definition item_read :: "'l io_env \<Rightarrow> kernel \<Rightarrow> 'l io_state \<Rightarrow> (io_task_status \<times> 'l io_state) option" where
  "item_read E k s =
     (let (buf, s) = ctx_get_read_buf s in
      case kn_read k of
        Ready (Inl e) \<Rightarrow> ctx_update_read_status E buf (Inl e) s
      | Ready (Inr xs) \<Rightarrow>
          if xs = [] then ctx_update_read_status E buf (Inr 0) (ctx_stop None s)
          else ctx_update_read_status E (buf @ xs) (Inr (length xs)) s
      | Pending \<Rightarrow> ctx_update_read_status E buf (Inr 0) s)"

section \<open>The driver behind \<open>Handle\<close>\<close>

text \<open>
  \<open>WeakStreamCtl::write\<close>. While the driver handles an event its table of streams is taken, and the write is put off.
  A panic inside the filters, which \<open>Io_Sizes\<close> excludes, leaves the state. \<open>Handle::notify\<close> is the default method.
\<close>

definition layer_env :: "'l filter_layer \<Rightarrow> 'l io_env" where
  "layer_env ly = \<lparr>ev_layer = ly, ev_write = \<lambda>s. s, ev_notify = ctx_notify\<rparr>"

definition poll_write :: "'l filter_layer \<Rightarrow> kernel \<Rightarrow> bool \<Rightarrow> 'l io_state \<Rightarrow> 'l io_state" where
  "poll_write ly k busy s =
     (if busy then s\<lparr>st_log := st_log s @ [Io_Delayed_Write]\<rparr>
      else (case item_write (layer_env ly) k s of Some (_, s') \<Rightarrow> s' | None \<Rightarrow> s))"

definition poll_env :: "'l filter_layer \<Rightarrow> kernel \<Rightarrow> bool \<Rightarrow> 'l io_env" where
  "poll_env ly k busy = \<lparr>ev_layer = ly, ev_write = poll_write ly k busy, ev_notify = ctx_notify\<rparr>"

section \<open>What a write does to the buffer\<close>

lemma gather_concat: "gather num sz ps = (ts, rs) \<Longrightarrow> ps = ts @ rs"
  by (induction num sz ps arbitrary: ts rule: gather.induct) (auto simp: Let_def split: if_splits prod.splits)

lemma gather_length: "gather num sz ps = (ts, rs) \<Longrightarrow> num < MAX_WRITE_ITEMS \<Longrightarrow> num + length ts \<le> MAX_WRITE_ITEMS"
  by (induction num sz ps arbitrary: ts rule: gather.induct) (fastforce simp: Let_def split: if_splits prod.splits)+

lemma gather_empty: "gather num sz ps = ([], rs) \<Longrightarrow> ps = []"
  by (cases ps) (auto simp: Let_def split: if_splits prod.splits)

lemma concat_advance_pages: "concat (advance_pages n ps) = drop n (concat ps)"
  by (induction n ps rule: advance_pages.induct) (auto simp: Let_def min_def)

lemma write_pages_drops:
  obtains n where "snd (write_pages k b) = drop n b"
proof -
  obtain ts rs where g: "gather 0 0 (split_pages (kn_sizes k) b) = (ts, rs)" by fastforce
  then have b: "b = concat ts @ concat rs" using gather_concat [OF g] by (metis concat_append concat_split_pages)
  show thesis
  proof (cases "ts = []")
    case True
    then show thesis using that [of 0] b g by (simp add: write_pages_def)
  next
    case False
    show thesis
    proof (cases "kn_write k ts")
      case Pending
      then show thesis using that [of 0] b g False by (simp add: write_pages_def)
    next
      case (Ready r)
      show thesis
      proof (cases r)
        case (Inl e)
        then show thesis using that [of "length (concat ts)"] b g False Ready by (simp add: write_pages_def)
      next
        case (Inr n)
        have "kn_write k ts = Ready (Inr n)" using Ready Inr by simp
        then show thesis using that [of "min n (length (concat ts))"] b g False
          by (simp add: write_pages_def concat_advance_pages min_def)
      qed
    qed
  qed
qed

lemma stack_with_write_dst_cong:
  "snd (f (bf_write (stack_last k))) = snd (g (bf_write (stack_last k))) \<Longrightarrow>
    snd (stack_with_write_dst f k) = snd (stack_with_write_dst g k)"
  by (simp add: stack_with_write_dst_def buffer_with_write_def split_beta Let_def)

lemma ctx_with_write_buf_drops:
  assumes "ctx_with_write_buf E f s = Some (r, s')" and drops: "\<And>b. \<exists>n. snd (f b) = drop n b" and "ev_layer E' = ev_layer E"
  obtains n where "ctx_with_write_buf E' (\<lambda>b. ((), drop n b)) s = Some ((), s')"
proof -
  obtain r1 s1 where p: "st_process_write_buf E s = Some (r1, s1)"
    using assms(1) by (auto simp: ctx_with_write_buf_def split: bind_splits)
  define s2 where "s2 = (case r1 of Inl e \<Rightarrow> io_terminate_connection (Some e) s1 | Inr _ \<Rightarrow> s1)"
  obtain n where n: "snd (f (bf_write (stack_last (st_buffer s2)))) = drop n (bf_write (stack_last (st_buffer s2)))" using drops by blast
  have "snd (stack_with_write_dst f (st_buffer s2)) = snd (stack_with_write_dst (\<lambda>b. ((), drop n b)) (st_buffer s2))"
    using n by (intro stack_with_write_dst_cong) simp
  moreover have "st_process_write_buf E' s = Some (r1, s1)" using p assms(3) by (simp add: st_process_write_buf_def)
  ultimately have "ctx_with_write_buf E' (\<lambda>b. ((), drop n b)) s = Some ((), s')"
    using assms(1) p by (simp add: ctx_with_write_buf_def Let_def split_beta flip: s2_def)
  then show thesis by (rule that)
qed

lemma item_write_runs:
  assumes "item_write E k s = Some (r, s')" and "ev_layer E' = ev_layer E"
  shows "drv_run E' s s'"
proof -
  obtain res stop s1 where 1: "ctx_with_write_buf E (write_pages k) s = Some ((res, stop), s1)"
    "ctx_update_write_status res (if stop then ctx_stop None s1 else s1) = (r, s')"
    using assms(1) by (auto simp: item_write_def split: bind_splits)
  have "\<exists>n. snd (write_pages k b) = drop n b" for b using write_pages_drops [of k b] by metis
  then obtain n where "ctx_with_write_buf E' (\<lambda>b. ((), drop n b)) s = Some ((), s1)"
    using ctx_with_write_buf_drops [OF 1(1) _ assms(2)] by metis
  then have "drv_run E' s s1" by (rule drv_run.drv_take [OF drv_run.drv_refl])
  then have "drv_run E' s (if stop then ctx_stop None s1 else s1)" by (simp add: drv_run.drv_stop)
  then show ?thesis using 1(2) by (rule drv_run.drv_status)
qed

lemma poll_write_runs: "drv_run E s (poll_write (ev_layer E) k busy s)"
  using item_write_runs [of "layer_env (ev_layer E)" k s _ _ E] drv_run.drv_refl drv_run.drv_delay [OF drv_run.drv_refl]
  by (auto simp: poll_write_def layer_env_def split: option.splits)

interpretation poll: stream_driver "poll_env ly k busy"
proof
  fix s
  show "drv_run (poll_env ly k busy) s (ev_write (poll_env ly k busy) s)"
    using poll_write_runs [of "poll_env ly k busy" s k busy] by (simp add: poll_env_def)
  show "ev_notify (poll_env ly k busy) s = ctx_notify s" by (simp add: poll_env_def)
qed

text \<open>The completion-based drivers and the test stream keep the empty \<open>Handle::write\<close>; their write task does the writing.\<close>

interpretation completion: stream_driver "layer_env ly"
  by unfold_locales (simp_all add: layer_env_def drv_run.drv_refl)

end
