(* ===== verification/Io_Sched.thy ===== *)
theory Io_Sched
  imports Poll_Item
begin

text \<open>
  Which calls schedule a write: the flag \<open>WR_SEND_OP\<close> is set only together with a request to the stream manager under the id
  of the stream, and no call changes the id. The law \<open>sched\<close> says so for one call; it is closed under composition, so each
  operation follows from its parts.
\<close>

definition sched :: "'l io_state \<Rightarrow> 'l io_state \<Rightarrow> bool" where
  "sched s s' \<longleftrightarrow> st_id s' = st_id s \<and> (\<exists>l. st_log s' = st_log s @ l \<and>
     (bit (st_flags s') 11 \<longrightarrow> bit (st_flags s) 11 \<or> Io_Schedule_Write (st_id s) \<in> set l))"

lemma sched_refl [simp]: "sched s s"
  by (simp add: sched_def)

lemma sched_trans: "sched a b \<Longrightarrow> sched b c \<Longrightarrow> sched a c"
  by (fastforce simp: sched_def)

lemma sched_step: "sched b c \<Longrightarrow> sched a b \<Longrightarrow> sched a c"
  by (rule sched_trans)

named_theorems scheds

lemma sched_basic [scheds]:
  "sched s (io_wake_read_task s)" "sched s (io_wake_write_task s)" "sched s (io_wake_dispatch_task s)"
  "sched s (io_register_read cx s)" "sched s (io_register_write cx s)" "sched s (io_register_dispatch cx s)"
  "sched s (io_notify_disconnect s)" "sched s (ioref_schedule_write s)"
  by (auto simp: sched_def io_wake_read_task_def io_wake_write_task_def io_wake_dispatch_task_def io_register_read_def io_register_write_def
      io_register_dispatch_def io_notify_disconnect_def ioref_schedule_write_def io_flags split: prod.splits option.splits)

lemma sched_fields [simp]:
  "sched a (s\<lparr>st_buffer := b\<rparr>) = sched a s" "sched a (s\<lparr>st_filter := F\<rparr>) = sched a s" "sched a (s\<lparr>st_error := e\<rparr>) = sched a s"
  "sched a (s\<lparr>st_handle := h\<rparr>) = sched a s" "sched a (s\<lparr>st_shutdown_timeout := t\<rparr>) = sched a s" "sched a (s\<lparr>st_disconnect := d\<rparr>) = sched a s"
  "sched (s\<lparr>st_buffer := b\<rparr>) c = sched s c" "sched (s\<lparr>st_filter := F\<rparr>) c = sched s c" "sched (s\<lparr>st_handle := h\<rparr>) c = sched s c"
  by (simp_all add: sched_def)

lemma sched_flags: "(bit (f (st_flags s)) 11 \<longrightarrow> bit (st_flags s) 11) \<Longrightarrow> sched s (upd_flags f s)"
  by (simp add: sched_def)

lemmas sched_steps = sched_basic [THEN sched_step] sched_flags [THEN sched_step]

lemma sched_terminate [scheds]: "sched s (io_terminate_connection e s)"
proof -
  have drop: "sched a (x\<lparr>st_handle := h, st_log := st_log x @ l\<rparr>)" if "sched a x" for a x :: "'a io_state" and h l
    using that by (auto simp: sched_def)
  show ?thesis by (auto simp: io_terminate_connection_def Let_def intro!: drop sched_steps simp: io_flags)
qed

lemmas sched_intros = sched_steps sched_terminate [THEN sched_step]

lemma sched_start_shutdown [scheds]: "sched s (io_start_shutdown s)"
  by (auto simp: io_start_shutdown_def io_flags intro!: sched_intros)

lemma sched_filters_stopped [scheds]: "sched s (io_filters_stopped s)"
  by (auto simp: io_filters_stopped_def io_flags intro!: sched_intros)

lemma sched_update_read_destination [scheds]: "sched s (ioref_update_read_destination n s)"
  by (auto simp: ioref_update_read_destination_def Let_def io_flags intro!: sched_intros)

lemma sched_with_read [scheds]: "sched s (snd (ioref_with_read_buf f s))"
  by (auto simp: ioref_with_read_buf_def Let_def split_beta intro!: sched_step [OF sched_update_read_destination])

lemma sched_decode [scheds]: "sched s (snd (ioref_decode f s))"
  by (auto simp: ioref_decode_def Let_def split_beta io_flags intro!: sched_step [OF sched_update_read_destination] sched_intros)

lemma sched_notify_timeout [scheds]: "sched s (io_notify_timeout s)"
proof -
  have "sched s (s\<lparr>st_flags := fst (flags_check_dispatcher_timeout_unset (st_flags s))\<rparr>)"
    by (rule sched_flags) (simp add: flags_check_dispatcher_timeout_unset_def flag_simps)
  then show ?thesis by (auto simp: io_notify_timeout_def Let_def split_beta intro!: sched_intros)
qed

lemma sched_on_disconnect [scheds]: "sched s (snd (ioref_on_disconnect s))"
  by (auto simp: ioref_on_disconnect_def on_disconnect_new_def ext_register_disconnect_def split: option.splits)

lemma sched_pause [scheds]: "sched s (io_pause s)"
  by (auto simp: io_pause_def io_flags intro!: sched_intros)

lemma sched_poll_read_ready [scheds]: "sched s (snd (io_poll_read_ready cx s))"
  by (auto simp: io_poll_read_ready_def Let_def io_flags intro!: sched_intros)

lemma sched_poll_read_notify [scheds]: "sched s (snd (io_poll_read_notify cx s))"
proof -
  let ?s1 = "s\<lparr>st_flags := fst (flags_check_read_notifed (st_flags s))\<rparr>"
  have 1: "sched s ?s1" by (rule sched_flags) (simp add: flags_check_read_notifed_def flag_simps)
  have 2: "sched s (snd (io_poll_read_ready cx (upd_flags flags_set_read_notify ?s1)))"
    by (rule sched_step [OF sched_poll_read_ready sched_step [OF sched_flags 1]]) (simp add: io_flags)
  show ?thesis using 1 2 by (auto simp: io_poll_read_notify_def Let_def split_beta intro!: sched_intros split: poll.split)
qed

lemma sched_poll_shutdown [scheds]: "sched s (snd (io_poll_shutdown cx s))"
  by (auto simp: io_poll_shutdown_def Let_def io_flags intro!: sched_intros sched_start_shutdown split: option.split)

lemma sched_poll_status [scheds]: "sched s (snd (io_poll_status_update cx s))"
proof -
  let ?s1 = "io_register_dispatch cx s"
  let ?s2 = "?s1\<lparr>st_flags := fst (flags_check_dispatcher_timeout (st_flags ?s1))\<rparr>"
  have 1: "sched s ?s1" by (rule scheds)
  have 2: "sched s ?s2" by (rule sched_step [OF sched_flags 1]) (simp add: flags_check_dispatcher_timeout_def flag_simps)
  have 3: "sched s (upd_flags flags_unset_wr_backpressure ?s2)" by (rule sched_step [OF sched_flags 2]) (simp add: io_flags)
  have "snd (io_poll_status_update cx s) \<in> {?s1, ?s2, upd_flags flags_unset_wr_backpressure ?s2}"
    by (simp add: io_poll_status_update_def Let_def split_beta)
  then show ?thesis using 1 2 3 by auto
qed

lemma sched_poll_ready [scheds]:
  "sched s (snd (filter_poll_read_ready F cx s))" "sched s (snd (filter_poll_write_ready F cx s))"
  by (induction F) (auto simp: base_poll_read_ready_def base_poll_write_ready_def Let_def intro!: sched_intros)

lemma sched_ctx_shutdown [scheds]: "sched s (snd (ctx_shutdown flush cx s))"
  by (auto simp: ctx_shutdown_def io_flags intro!: sched_intros)

lemma reads_only_sched: "reads_only x \<Longrightarrow> io_do E x s = Some s' \<Longrightarrow> sched s s'"
  by (cases x) (auto simp: ioref_close_def ioref_terminate_def ioref_notify_dispatcher_def io_poll_dispatch_def
      ctx_poll_write_ready_def ctx_stop_def intro: scheds)

section \<open>Writing\<close>

lemma sched_process:
  "st_process_write_buf E s = Some (r, s') \<Longrightarrow> sched s s'" "st_process_write_buf_force E s = Some (r, s') \<Longrightarrow> sched s s'"
  "st_process_read_buf E n s = Some (r', s') \<Longrightarrow> sched s s'" "st_process_shutdown E s = Some (r'', s') \<Longrightarrow> sched s s'"
  by (auto simp: st_process_write_buf_def st_process_write_buf_force_def st_process_read_buf_def st_process_shutdown_def split: bind_splits)

lemma sched_with_write_buf:
  assumes "ctx_with_write_buf E f s = Some (r, s')"
  shows "sched s s'"
proof -
  obtain q t where p: "st_process_write_buf E s = Some (q, t)" using assms by (auto simp: ctx_with_write_buf_def split: bind_splits)
  note t = sched_process(1) [OF p]
  show ?thesis using assms p t sched_trans [OF t sched_terminate]
    by (cases q) (auto simp: ctx_with_write_buf_def Let_def split_beta)
qed

lemma sched_write_notify [scheds]: "sched s (ctx_write_notify_dispatch len s)" "sched s (ctx_write_notify_tasks written s)"
  by (auto simp: ctx_write_notify_dispatch_def ctx_write_notify_tasks_def io_flags intro!: sched_intros)

lemma sched_update_write_status: "sched s (snd (ctx_update_write_status res s))"
proof (cases res)
  case (Inr written)
  define t where "t = ctx_write_notify_tasks written (ctx_write_notify_dispatch (st_write_buf_size s) s)"
  have t: "sched s t" unfolding t_def by (rule sched_trans [OF sched_write_notify])
  have p: "sched s (upd_flags flags_set_write_paused t)" "sched s (upd_flags flags_unset_write_paused t)"
    by (rule sched_step [OF sched_flags t]; simp add: io_flags)+
  have "snd (ctx_update_write_status res s) \<in> {t, upd_flags flags_set_write_paused t, upd_flags flags_unset_write_paused t,
      io_wake_read_task (upd_flags flags_set_write_paused t)}"
    by (simp add: ctx_update_write_status_def Let_def Inr t_def)
  then show ?thesis using t p sched_step [OF sched_basic(1) p(1)] by auto
qed (simp add: ctx_update_write_status_def sched_terminate)

lemma sched_drv_run: "drv_run E s s' \<Longrightarrow> sched s s'"
proof (induction rule: drv_run.induct)
  case (drv_status s s1 res r s2)
  then show ?case using sched_update_write_status [of s1 res] sched_trans by auto
next
  case (drv_delay s s1)
  then show ?case by (auto simp: sched_def)
qed (auto simp: ctx_stop_def ctx_notify_def intro: sched_intros sched_step [OF sched_with_write_buf])

context stream_driver
begin

lemma sched_call_write: "sched s (snd (ioref_call_write E s))"
proof -
  let ?s0 = "upd_flags flags_unset_write_paused (s\<lparr>st_handle := False\<rparr>)"
  have "sched s ?s0" by (rule sched_step [OF sched_flags]) (simp_all add: io_flags)
  then have "sched s (ev_write E ?s0)" by (rule sched_step [OF sched_drv_run [OF write_runs]])
  then show ?thesis by (simp add: ioref_call_write_def Let_def)
qed

lemma sched_consolidate: "sched s (ioref_consolidate_write_state E force s)"
proof -
  obtain yes s2 where c: "ioref_call_write E s = (yes, s2)" by fastforce
  have "sched s s2" using sched_call_write [of s] c by simp
  then show ?thesis using c
    by (cases yes) (auto simp: ioref_consolidate_write_state_def Let_def io_flags intro!: sched_intros)
qed

lemma sched_writes:
  "sched s (snd (ioref_with_write_buf E f s))" "sched s (snd (ioref_send_buf E s))" "sched s (ioref_ops_send_buf E s)"
proof -
  show "sched s (snd (ioref_with_write_buf E f s))"
    by (auto simp: ioref_with_write_buf_def Let_def split_beta intro!: sched_step [OF sched_consolidate])
  show "sched s (snd (ioref_send_buf E s))"
    using sched_consolidate [of s True] by (auto simp: ioref_send_buf_def Let_def split: option.split)
  let ?s1 = "upd_flags flags_unset_wr_send_scheduled s"
  obtain yes s2 where c: "ioref_call_write E ?s1 = (yes, s2)" by fastforce
  have 1: "sched s ?s1" by (auto simp: io_flags intro!: sched_intros)
  have "sched s s2" using sched_trans [OF 1 sched_call_write] c by (metis snd_conv)
  then show "sched s (ioref_ops_send_buf E s)" using c 1
    by (cases yes) (auto simp: ioref_ops_send_buf_def Let_def io_flags intro!: sched_intros)
qed

lemma sched_poll_flush: "io_poll_flush E cx full s = Some (r, s') \<Longrightarrow> sched s s'"
proof -
  assume a: "io_poll_flush E cx full s = Some (r, s')"
  then obtain q t where p: "st_process_write_buf_force E s = Some (q, t)" by (auto simp: io_poll_flush_def split: bind_splits)
  note t = sched_process(2) [OF p]
  define u where "u = ioref_consolidate_write_state E False t"
  have u: "sched s u" unfolding u_def by (rule sched_trans [OF t sched_consolidate])
  then have "sched s (io_register_dispatch cx (upd_flags flags_set_wants_write_flush u))" "sched s (io_register_dispatch cx (upd_flags flags_set_wr_backpressure u))"
    "sched s (upd_flags flags_unset_wr_backpressure_and_flush u)" by (auto simp: io_flags intro!: sched_intros)
  then show ?thesis using a p t u by (cases q) (auto simp: io_poll_flush_def Let_def simp flip: u_def split: if_splits)
qed

lemma sched_shutdown_filters: "ctx_shutdown_filters E elapsed s = Some s' \<Longrightarrow> sched s s'"
proof -
  assume a: "ctx_shutdown_filters E elapsed s = Some s'"
  show ?thesis
  proof (cases "flags_is_shutting_down_filters (st_flags s)")
    case True
    then obtain q t where p: "st_process_shutdown E s = Some (q, t)" using a by (auto simp: ctx_shutdown_filters_def split: bind_splits)
    note t = sched_process(4) [OF p]
    define u where "u = ioref_consolidate_write_state E True t"
    have u: "sched s u" unfolding u_def by (rule sched_trans [OF t sched_consolidate])
    have "sched s (io_filters_stopped u)" "sched s (io_filters_stopped (u\<lparr>st_shutdown_timeout := False\<rparr>))" "sched s (io_terminate_connection e t)" for e
      using u t by (auto intro!: sched_step [OF sched_filters_stopped] sched_intros)
    then show ?thesis using a True p t u
      by (cases q) (auto simp: ctx_shutdown_filters_def Let_def simp flip: u_def split: if_splits)
  qed (use a in \<open>simp add: ctx_shutdown_filters_def\<close>)
qed

lemma sched_call_notify: "sched s (ioref_call_notify E s)"
  by (auto simp: ioref_call_notify_def notify_wakes ctx_notify_def intro!: sched_intros)

lemma sched_read_processed: "ctx_read_processed E orig ww nt s = Some s' \<Longrightarrow> sched s s'"
proof -
  let ?n = "stack_read_dst_size (st_buffer s)"
  define s1 where "s1 = (if ?n > orig then io_wake_dispatch_task
      (if is_rd_backpressure_needed ?n s then upd_flags flags_set_read_ready_and_backpressure s else upd_flags flags_set_read_ready s) else s)"
  define s2 where "s2 = (if flags_is_read_notify (st_flags s1) then upd_flags flags_set_read_notifed (io_wake_dispatch_task s1) else s1)"
  have eq: "ctx_read_processed E orig ww nt s = do {
      s \<leftarrow> (if ww then do { (r, s) \<leftarrow> st_process_write_buf_force E s2;
             Some (case r of Inl err \<Rightarrow> io_terminate_connection (Some err) s | Inr _ \<Rightarrow> ioref_consolidate_write_state E False s) } else Some s2);
      Some (if nt then ioref_call_notify E s else s) }" by (simp only: ctx_read_processed_def Let_def s1_def s2_def)
  have "sched s s1" by (auto simp: s1_def io_flags intro!: sched_intros)
  then have 2: "sched s s2" by (auto simp: s2_def io_flags intro!: sched_intros)
  assume a: "ctx_read_processed E orig ww nt s = Some s'"
  obtain s3 where 3: "sched s s3" "s' = (if nt then ioref_call_notify E s3 else s3)"
  proof (cases ww)
    case True
    then obtain q t where p: "st_process_write_buf_force E s2 = Some (q, t)"
      using a unfolding eq by (auto split: bind_splits)
    note t = sched_trans [OF 2 sched_process(2) [OF p]]
    define s3 where "s3 = (case q of Inl err \<Rightarrow> io_terminate_connection (Some err) t | Inr _ \<Rightarrow> ioref_consolidate_write_state E False t)"
    have "sched s s3" using sched_trans [OF t sched_terminate] sched_trans [OF t sched_consolidate] by (simp add: s3_def split: sum.split)
    moreover have "s' = (if nt then ioref_call_notify E s3 else s3)"
      using a [unfolded eq] p True by (auto simp: s3_def)
    ultimately show thesis by (rule that)
  next
    case False
    show thesis by (rule that [OF 2]) (use a [unfolded eq] False in simp)
  qed
  then show ?thesis using sched_trans [OF 3(1) sched_call_notify] by auto
qed

lemma sched_update_read_status:
  assumes "ctx_update_read_status E buf status s = Some (r, s')"
  shows "sched s s'"
proof -
  let ?s1 = "s\<lparr>st_buffer := stack_set_read_buf buf (st_buffer s)\<rparr>"
  obtain q t where t: "ctx_read_result E (stack_read_dst_size (st_buffer s)) status ?s1 = Some (q, t)"
    using assms by (auto simp: ctx_update_read_status_def Let_def split: bind_splits)
  have "sched ?s1 t"
  proof (cases status)
    case (Inr n)
    show ?thesis
    proof (cases "n = 0")
      case False
      then obtain p u where u: "st_process_read_buf E n ?s1 = Some (p, u)" using t Inr by (auto simp: ctx_read_result_def split: bind_splits)
      note su = sched_process(3) [OF u]
      show ?thesis using t Inr False u su sched_trans [OF su sched_read_processed]
        by (cases p) (auto simp: ctx_read_result_def bind_eq_Some_conv)
    qed (use t Inr in \<open>simp add: ctx_read_result_def\<close>)
  qed (use t in \<open>simp add: ctx_read_result_def\<close>)
  then have "sched s t" by simp
  with sched_trans [OF this sched_terminate] show ?thesis using assms t
    by (cases q) (auto simp: ctx_update_read_status_def Let_def split: if_splits)
qed

lemma sched_driver_calls:
  "drv_write E n res s = Some (r, s') \<Longrightarrow> sched s s'" "drv_read E xs res' s = Some (r, s') \<Longrightarrow> sched s s'"
  "ctx_poll_read_ready E elapsed cx s = Some (r', s') \<Longrightarrow> sched s s'"
proof -
  assume "drv_write E n res s = Some (r, s')"
  then obtain u t where t: "ctx_with_write_buf E (\<lambda>b. ((), drop n b)) s = Some (u, t)" "s' = snd (ctx_update_write_status res t)"
    by (auto simp: drv_write_def split: bind_splits)
  show "sched s s'" unfolding t(2) by (rule sched_trans [OF sched_with_write_buf [OF t(1)] sched_update_write_status])
next
  have rd: "sched s (snd (ctx_get_read_buf s))" by (auto simp: ctx_get_read_buf_def split: prod.split option.split)
  assume "drv_read E xs res' s = Some (r, s')"
  then have "ctx_update_read_status E (fst (ctx_get_read_buf s) @ xs) (map_sum id (\<lambda>_. length xs) res') (snd (ctx_get_read_buf s)) = Some (r, s')"
    by (simp add: drv_read_def split_beta)
  from sched_trans [OF rd sched_update_read_status [OF this]] show "sched s s'" .
next
  assume "ctx_poll_read_ready E elapsed cx s = Some (r', s')"
  then obtain t where t: "ctx_shutdown_filters E elapsed s = Some t" "s' = snd (filter_poll_read_ready (st_filter t) cx t)"
    by (auto simp: ctx_poll_read_ready_def split: bind_splits)
  show "sched s s'" unfolding t(2) by (rule sched_trans [OF sched_shutdown_filters [OF t(1)] sched_poll_ready(1)])
qed

lemma io_do_sched:
  assumes "io_do E x s = Some s'"
  shows "sched s s'"
proof (cases "reads_only x")
  case True
  then show ?thesis using assms by (rule reads_only_sched)
next
  case False
  then show ?thesis using assms by (cases x) (auto simp: sched_writes dest: sched_poll_flush sched_driver_calls)
qed

end

end
