(* ===== verification/Io_Timers.thy ===== *)
theory Io_Timers
  imports Prelude
begin

text \<open>
  The one-second timers of the streams, \<open>TimerStorage\<close> of \<open>io/ops.rs\<close>, with which the dispatcher measures keep-alive and
  read timeouts. A timer is the id of a stream in the set of the second at which it is due; one task ticks once a second as
  long as there is such a second. Numbers are \<open>u32\<close>: a sum that does not fit panics. The seconds since the base of the
  storage are a parameter of \<open>register\<close>. A \<open>HashSet\<close> is a list; the order in which it is drained plays no role.
\<close>

section \<open>Data and operations\<close>

definition CAP :: nat where "CAP = 64"

definition u32_add :: "nat \<Rightarrow> nat \<Rightarrow> nat option" where
  "u32_add a b = (if a + b < 2 ^ 32 then Some (a + b) else None)"

type_synonym io_id = "nat option"

record timer_storage =
  ts_running :: bool
  ts_current :: nat
  ts_cache :: "io_id list list"
  ts_notifications :: "(nat \<times> io_id list) list"

definition timer_storage_new :: timer_storage where
  "timer_storage_new = \<lparr>ts_running = False, ts_current = 0, ts_cache = [], ts_notifications = []\<rparr>"

text \<open>\<open>BTreeMap\<close>: the entries in the order of their keys.\<close>

fun bt_insert :: "nat \<Rightarrow> 'v \<Rightarrow> (nat \<times> 'v) list \<Rightarrow> (nat \<times> 'v) list" where
  "bt_insert k v [] = [(k, v)]"
| "bt_insert k v ((k', v') # m) = (if k < k' then (k, v) # (k', v') # m else if k = k' then (k, v) # m else (k', v') # bt_insert k v m)"

definition ts_unregister :: "nat \<Rightarrow> io_id \<Rightarrow> timer_storage \<Rightarrow> timer_storage" where
  "ts_unregister hnd i t =
     (case map_of (ts_notifications t) hnd of
        None \<Rightarrow> t
      | Some ids \<Rightarrow> t\<lparr>ts_notifications := bt_insert hnd (removeAll i ids) (ts_notifications t)\<rparr>)"

definition ts_register :: "nat \<Rightarrow> nat \<Rightarrow> io_id \<Rightarrow> timer_storage \<Rightarrow> (nat \<times> timer_storage) option" where
  "ts_register elapsed timeout i t = do {
     let t = (if ts_running t then t else t\<lparr>ts_current := elapsed mod 2 ^ 32\<rparr>);
     hnd \<leftarrow> u32_add (ts_current t) timeout;
     let t = (case map_of (ts_notifications t) hnd of
                Some ids \<Rightarrow> t\<lparr>ts_notifications := bt_insert hnd (List.insert i ids) (ts_notifications t)\<rparr>
              | None \<Rightarrow>
                  (case ts_cache t of
                     [] \<Rightarrow> t\<lparr>ts_notifications := bt_insert hnd (List.insert i []) (ts_notifications t)\<rparr>
                   | items # c \<Rightarrow> t\<lparr>ts_notifications := bt_insert hnd (List.insert i items) (ts_notifications t), ts_cache := c\<rparr>));
     Some (hnd, t\<lparr>ts_running := True\<rparr>) }"

definition timer_update :: "nat \<Rightarrow> nat \<Rightarrow> nat \<Rightarrow> io_id \<Rightarrow> timer_storage \<Rightarrow> (nat \<times> timer_storage) option" where
  "timer_update hnd elapsed timeout i t = do {
     new_hnd \<leftarrow> u32_add (ts_current t) timeout;
     same \<leftarrow> (if hnd = new_hnd then Some True else do { n \<leftarrow> u32_add new_hnd 1; Some (hnd = n) });
     if same then Some (hnd, t) else ts_register elapsed timeout i (ts_unregister hnd i t) }"

text \<open>One round of the loop in \<open>run_timer\<close>: the sets that are due, in order, are drained and returned.\<close>

fun ts_due :: "nat \<Rightarrow> (nat \<times> io_id list) list \<Rightarrow> io_id list list \<times> (nat \<times> io_id list) list" where
  "ts_due current [] = ([], [])"
| "ts_due current ((k, ids) # m) =
     (if k \<le> current then (let (fired, m) = ts_due current m in (ids # fired, m)) else ([], (k, ids) # m))"

definition ts_recycle :: "io_id list list \<Rightarrow> io_id list list \<Rightarrow> io_id list list" where
  "ts_recycle fired cache = fold (\<lambda>_ c. if length c \<le> CAP then c @ [[]] else c) fired cache"

definition ts_tick :: "timer_storage \<Rightarrow> (io_id list \<times> timer_storage) option" where
  "ts_tick t = do {
     next \<leftarrow> u32_add (ts_current t) 1;
     let (fired, m) = ts_due (ts_current t) (ts_notifications t);
     Some (concat fired, t\<lparr>ts_current := next, ts_notifications := m, ts_cache := ts_recycle fired (ts_cache t), ts_running := (m \<noteq> [])\<rparr>) }"

text \<open>The guard of the task, when the task is dropped.\<close>

definition ts_guard_drop :: "timer_storage \<Rightarrow> timer_storage" where
  "ts_guard_drop t = t\<lparr>ts_running := False, ts_notifications := []\<rparr>"

section \<open>The ordered map\<close>

definition bt_ok :: "(nat \<times> 'v) list \<Rightarrow> bool" where
  "bt_ok m \<longleftrightarrow> sorted_wrt (<) (map fst m)"

lemma bt_insert_keys: "set (map fst (bt_insert k v m)) = insert k (set (map fst m))"
  by (induction m rule: bt_insert.induct) auto

lemma bt_insert_ne [simp]: "bt_insert k v m \<noteq> []"
  by (induction m rule: bt_insert.induct) auto

lemma bt_insert_ok: "bt_ok m \<Longrightarrow> bt_ok (bt_insert k v m)"
proof (induction k v m rule: bt_insert.induct)
  case (2 k v k' v' m)
  then show ?case using bt_insert_keys [of k v m] by (auto simp: bt_ok_def)
qed (simp add: bt_ok_def)

lemma map_of_bt_insert: "bt_ok m \<Longrightarrow> map_of (bt_insert k v m) j = (if j = k then Some v else map_of m j)"
  by (induction k v m rule: bt_insert.induct) (auto simp: bt_ok_def)

lemma bt_ok_map_of: "bt_ok m \<Longrightarrow> (k, v) \<in> set m \<longleftrightarrow> map_of m k = Some v"
  by (simp add: bt_ok_def strict_sorted_iff)

lemma ts_due_split:
  assumes "bt_ok m" and "ts_due c m = (fired, rest)"
  shows "bt_ok rest" and "map_of rest k = (if k \<le> c then None else map_of m k)"
    and "set (concat fired) = {i. \<exists>k ids. k \<le> c \<and> map_of m k = Some ids \<and> i \<in> set ids}"
proof -
  have "bt_ok rest \<and> (\<forall>k. map_of rest k = (if k \<le> c then None else map_of m k)) \<and>
    set (concat fired) = {i. \<exists>k ids. k \<le> c \<and> map_of m k = Some ids \<and> i \<in> set ids}"
    using assms
  proof (induction c m arbitrary: fired rule: ts_due.induct)
    case (2 c k ids m)
    show ?case
    proof (cases "k \<le> c")
      case True
      obtain f where f: "ts_due c m = (f, rest)" "fired = ids # f" using 2(3) True by (auto split: prod.splits)
      have "bt_ok m" "\<forall>k' \<in> set (map fst m). k < k'" using 2(2) by (auto simp: bt_ok_def)
      moreover from this(2) have "map_of m k = None" by (force simp: map_of_eq_None_iff)
      moreover from this have "{i. \<exists>j js. j \<le> c \<and> map_of ((k, ids) # m) j = Some js \<and> i \<in> set js} =
          set ids \<union> {i. \<exists>j js. j \<le> c \<and> map_of m j = Some js \<and> i \<in> set js}" (is "?L = ?R")
      proof (intro set_eqI iffI)
        fix i assume "i \<in> ?R"
        then show "i \<in> ?L" using True \<open>map_of m k = None\<close> by (cases "i \<in> set ids") (force, force)
      qed (auto split: if_splits)
      ultimately show ?thesis using 2(1) [OF True _ f(1)] f(2) True by auto
    next
      case False
      then have "map_of ((k, ids) # m) j = None" if "j \<le> c" for j
        using 2(2) that by (force simp: bt_ok_def map_of_eq_None_iff)
      then show ?thesis using 2(2,3) False by auto
    qed
  qed simp
  then show "bt_ok rest" "map_of rest k = (if k \<le> c then None else map_of m k)"
    "set (concat fired) = {i. \<exists>k ids. k \<le> c \<and> map_of m k = Some ids \<and> i \<in> set ids}" by blast+
qed

section \<open>The timers as a stream of calls\<close>

definition timer_ok :: "timer_storage \<Rightarrow> bool" where
  "timer_ok t \<longleftrightarrow> bt_ok (ts_notifications t) \<and> (ts_running t \<longleftrightarrow> ts_notifications t \<noteq> []) \<and> set (ts_cache t) \<subseteq> {[]}"

definition timers_of :: "io_id \<Rightarrow> timer_storage \<Rightarrow> nat set" where
  "timers_of i t = {k. \<exists>ids. map_of (ts_notifications t) k = Some ids \<and> i \<in> set ids}"

datatype timer_call =
    Tm_Tick
  | Tm_Register nat nat io_id
  | Tm_Update nat nat nat io_id
  | Tm_Unregister nat io_id

fun timer_do :: "timer_call \<Rightarrow> timer_storage \<Rightarrow> (io_id list \<times> timer_storage) option" where
  "timer_do Tm_Tick t = ts_tick t"
| "timer_do (Tm_Register elapsed timeout i) t = map_option (\<lambda>(hnd, t). ([], t)) (ts_register elapsed timeout i t)"
| "timer_do (Tm_Update hnd elapsed timeout i) t = map_option (\<lambda>(hnd, t). ([], t)) (timer_update hnd elapsed timeout i t)"
| "timer_do (Tm_Unregister hnd i) t = Some ([], ts_unregister hnd i t)"

fun timer_run :: "timer_call list \<Rightarrow> timer_storage \<Rightarrow> (io_id list \<times> timer_storage) option" where
  "timer_run [] t = Some ([], t)"
| "timer_run (c # cs) t = do { (f, t) \<leftarrow> timer_do c t; (fs, t) \<leftarrow> timer_run cs t; Some (f @ fs, t) }"

lemma recycle_empty: "set c \<subseteq> {[]} \<Longrightarrow> set (ts_recycle fired c) \<subseteq> {[]}"
  unfolding ts_recycle_def by (induction fired arbitrary: c) auto

lemma unregister_ok:
  assumes "timer_ok t"
  shows "timer_ok (ts_unregister hnd i t)" and "timers_of j (ts_unregister hnd i t) = timers_of j t - (if j = i then {hnd} else {})"
    and "ts_current (ts_unregister hnd i t) = ts_current t" and "ts_running (ts_unregister hnd i t) = ts_running t"
proof -
  show "timer_ok (ts_unregister hnd i t)"
    using assms by (auto simp: ts_unregister_def timer_ok_def bt_insert_ok split: option.split)
  show "timers_of j (ts_unregister hnd i t) = timers_of j t - (if j = i then {hnd} else {})"
    using assms by (auto simp: ts_unregister_def timers_of_def timer_ok_def map_of_bt_insert split: option.splits)
  show "ts_current (ts_unregister hnd i t) = ts_current t" "ts_running (ts_unregister hnd i t) = ts_running t"
    by (simp_all add: ts_unregister_def split: option.split)
qed

lemma register_spec:
  assumes ok: "timer_ok t" and "ts_register elapsed timeout i t = Some (hnd, t')"
  shows "timer_ok t'" and "timers_of j t' = (if j = i then {hnd} else {}) \<union> timers_of j t" and "hnd = ts_current t' + timeout"
    and "ts_current t' = (if ts_running t then ts_current t else elapsed mod 2 ^ 32)" and "ts_running t'"
proof -
  let ?c = "if ts_running t then ts_current t else elapsed mod 2 ^ 32"
  have hnd: "hnd = ?c + timeout" using assms(2) by (auto simp: ts_register_def u32_add_def Let_def split: if_splits)
  define ids where "ids = (case map_of (ts_notifications t) hnd of Some ids \<Rightarrow> ids | None \<Rightarrow> [])"
  obtain c where t': "t' = t\<lparr>ts_current := ?c, ts_notifications := bt_insert hnd (List.insert i ids) (ts_notifications t), ts_cache := c, ts_running := True\<rparr>"
    and c: "set c \<subseteq> {[]}"
  proof -
    have "timer_storage.ts_cache t = items # cs \<Longrightarrow> items = [] \<and> set cs \<subseteq> {[]}" for items cs using ok by (auto simp: timer_ok_def)
    then show thesis using assms(2) ok that [of "case map_of (ts_notifications t) hnd of Some _ \<Rightarrow> ts_cache t | None \<Rightarrow> tl (ts_cache t)"]
      by (auto simp: ts_register_def u32_add_def Let_def ids_def timer_ok_def split: if_splits option.splits list.splits)
  qed
  show "timer_ok t'" using ok c by (simp add: t' timer_ok_def bt_insert_ok)
  show "timers_of j t' = (if j = i then {hnd} else {}) \<union> timers_of j t"
    using ok by (auto simp: t' timers_of_def timer_ok_def map_of_bt_insert ids_def split: option.splits if_splits)
  show "hnd = ts_current t' + timeout" "ts_current t' = ?c" "ts_running t'" using hnd by (simp_all add: t')
qed

lemma tick_spec:
  assumes ok: "timer_ok t" and "ts_tick t = Some (fired, t')"
  shows "timer_ok t'" and "timers_of j t' = {k \<in> timers_of j t. k > ts_current t}" and "ts_current t' = Suc (ts_current t)"
    and "j \<in> set fired \<longleftrightarrow> (\<exists>k \<in> timers_of j t. k \<le> ts_current t)"
proof -
  obtain f m where d: "ts_due (ts_current t) (ts_notifications t) = (f, m)" by fastforce
  have b: "bt_ok (ts_notifications t)" using ok by (simp add: timer_ok_def)
  note due = ts_due_split [OF b d]
  have t': "fired = concat f" "t' = t\<lparr>ts_current := Suc (ts_current t), ts_notifications := m, ts_cache := ts_recycle f (ts_cache t), ts_running := (m \<noteq> [])\<rparr>"
    using assms(2) d by (auto simp: ts_tick_def u32_add_def split: if_splits)
  show "timer_ok t'" using ok due(1) recycle_empty [of "ts_cache t" f] by (simp add: t' timer_ok_def)
  show "timers_of j t' = {k \<in> timers_of j t. k > ts_current t}" by (auto simp: t' timers_of_def due(2) split: if_splits)
  show "ts_current t' = Suc (ts_current t)" by (simp add: t')
  show "j \<in> set fired \<longleftrightarrow> (\<exists>k \<in> timers_of j t. k \<le> ts_current t)" unfolding t'(1) due(3) by (auto simp: timers_of_def)
qed

fun call_of :: "timer_call \<Rightarrow> io_id" where
  "call_of Tm_Tick = None"
| "call_of (Tm_Register elapsed timeout i) = i"
| "call_of (Tm_Update hnd elapsed timeout i) = i"
| "call_of (Tm_Unregister hnd i) = i"

lemma update_spec:
  assumes ok: "timer_ok t" and up: "timer_update hnd elapsed timeout i t = Some (hnd', t')"
  shows "timer_ok t'" and "j \<noteq> i \<Longrightarrow> timers_of j t' = timers_of j t" and "ts_running t \<Longrightarrow> ts_current t' = ts_current t"
    and "ts_current t' \<in> {ts_current t, elapsed mod 2 ^ 32}"
proof -
  let ?u = "ts_unregister hnd i t"
  consider "t' = t" | "ts_register elapsed timeout i ?u = Some (hnd', t')"
    using up by (auto simp: timer_update_def split: bind_splits if_splits)
  then have "timer_ok t' \<and> (j \<noteq> i \<longrightarrow> timers_of j t' = timers_of j t) \<and> (ts_running t \<longrightarrow> ts_current t' = ts_current t) \<and>
      ts_current t' \<in> {ts_current t, elapsed mod 2 ^ 32}"
  proof cases
    case 2
    note r = register_spec [OF unregister_ok(1) [OF ok] 2]
    show ?thesis using r(1,4) r(2) [of j] unregister_ok [OF ok, where i = i and hnd = hnd] by auto
  qed (use ok in simp)
  then show "timer_ok t'" "j \<noteq> i \<Longrightarrow> timers_of j t' = timers_of j t" "ts_running t \<Longrightarrow> ts_current t' = ts_current t"
    "ts_current t' \<in> {ts_current t, elapsed mod 2 ^ 32}" by blast+
qed

text \<open>A call of another stream leaves the timers of \<open>i\<close> and, as long as a timer is set, the clock alone.\<close>

lemma other_timer_call:
  assumes ok: "timer_ok t" and "c \<noteq> Tm_Tick" and i: "call_of c \<noteq> i" and "timer_do c t = Some (fired, t')"
  shows "timer_ok t'" and "timers_of i t' = timers_of i t" and "fired = []" and "ts_running t \<Longrightarrow> ts_current t' = ts_current t"
proof -
  have "timer_ok t' \<and> timers_of i t' = timers_of i t \<and> fired = [] \<and> (ts_running t \<longrightarrow> ts_current t' = ts_current t)"
  proof (cases c)
    case (Tm_Register elapsed timeout j)
    then obtain hnd where "ts_register elapsed timeout j t = Some (hnd, t')" "fired = []" using assms(4) by auto
    then show ?thesis using register_spec [OF ok] i Tm_Register by auto
  next
    case (Tm_Update hnd elapsed timeout j)
    then obtain hnd' where "timer_update hnd elapsed timeout j t = Some (hnd', t')" "fired = []" using assms(4) by auto
    then show ?thesis using update_spec [OF ok] i Tm_Update by auto
  next
    case (Tm_Unregister hnd j)
    then show ?thesis using assms(4) unregister_ok [OF ok] i by auto
  qed (use assms(2) in simp)
  then show "timer_ok t'" "timers_of i t' = timers_of i t" "fired = []" "ts_running t \<Longrightarrow> ts_current t' = ts_current t" by blast+
qed

lemma timers_running: "timer_ok t \<Longrightarrow> timers_of i t \<noteq> {} \<Longrightarrow> ts_running t"
  by (auto simp: timer_ok_def timers_of_def)

definition ticks :: "timer_call list \<Rightarrow> nat" where
  "ticks cs = count_list cs Tm_Tick"

lemma run_not_due:
  assumes "timer_ok t" and "timers_of i t = {}" and "\<forall>c \<in> set cs. c = Tm_Tick \<or> call_of c \<noteq> i" and "timer_run cs t = Some (fired, t')"
  shows "i \<notin> set fired"
  using assms
proof (induction cs arbitrary: t fired)
  case (Cons c cs)
  obtain f t1 fs where 1: "timer_do c t = Some (f, t1)" "timer_run cs t1 = Some (fs, t')" "fired = f @ fs"
    using Cons.prems(4) by (auto split: bind_splits)
  have "timer_ok t1 \<and> timers_of i t1 = {} \<and> i \<notin> set f"
  proof (cases "c = Tm_Tick")
    case True
    then have tk: "ts_tick t = Some (f, t1)" using 1(1) by simp
    show ?thesis using tick_spec(1) [OF Cons.prems(1) tk] tick_spec(2,4) [OF Cons.prems(1) tk, of i] Cons.prems(2) by auto
  next
    case False
    then show ?thesis using other_timer_call [OF Cons.prems(1) False _ 1(1), of i] Cons.prems(2,3) by auto
  qed
  then show ?case using Cons.IH [OF _ _ _ 1(2)] Cons.prems(3) 1(3) by auto
qed simp

lemma run_due:
  assumes "timer_ok t" and "timers_of i t = {hnd}" and "ts_current t \<le> hnd" and "\<forall>c \<in> set cs. c = Tm_Tick \<or> call_of c \<noteq> i"
    and "timer_run cs t = Some (fired, t')"
  shows "i \<in> set fired \<longleftrightarrow> ts_current t + ticks cs > hnd"
  using assms
proof (induction cs arbitrary: t fired)
  case (Cons c cs)
  obtain f t1 fs where 1: "timer_do c t = Some (f, t1)" "timer_run cs t1 = Some (fs, t')" "fired = f @ fs"
    using Cons.prems(5) by (auto split: bind_splits)
  have others: "\<forall>c \<in> set cs. c = Tm_Tick \<or> call_of c \<noteq> i" using Cons.prems(4) by simp
  show ?case
  proof (cases "c = Tm_Tick")
    case True
    then have tk: "ts_tick t = Some (f, t1)" using 1(1) by simp
    note t1 = tick_spec [OF Cons.prems(1) tk]
    show ?thesis
    proof (cases "ts_current t = hnd")
      case True
      then show ?thesis using t1(4) [of i] Cons.prems(2) 1(3) \<open>c = Tm_Tick\<close> by (simp add: ticks_def)
    next
      case False
      then have lt: "ts_current t < hnd" using Cons.prems(3) by simp
      have a: "timers_of i t1 = {hnd}" "i \<notin> set f" "ts_current t1 \<le> hnd"
        unfolding t1(2) [of i] t1(3) t1(4) [of i] Cons.prems(2) using lt by auto
      have "i \<in> set fs \<longleftrightarrow> ts_current t1 + ticks cs > hnd" using t1(1) a(1,3) others 1(2) by (rule Cons.IH)
      then show ?thesis using a(2) 1(3) t1(3) \<open>c = Tm_Tick\<close> by (simp add: ticks_def)
    qed
  next
    case False
    have i: "call_of c \<noteq> i" using Cons.prems(4) False by auto
    note oth = other_timer_call [OF Cons.prems(1) False i 1(1)]
    have "ts_current t1 = ts_current t" using oth(4) timers_running [OF Cons.prems(1), of i] Cons.prems(2) by simp
    then have a: "timers_of i t1 = {hnd}" "ts_current t1 \<le> hnd" "ts_current t1 = ts_current t" using oth(2) Cons.prems(2,3) by simp_all
    have "i \<in> set fs \<longleftrightarrow> ts_current t1 + ticks cs > hnd" using oth(1) a(1,2) others 1(2) by (rule Cons.IH)
    then show ?thesis using a(3) oth(3) 1(3) False by (simp add: ticks_def)
  qed
qed (simp add: ticks_def)

section \<open>The clock fits\<close>

text \<open>Timeouts are \<open>Seconds\<close>, of sixteen bits; \<open>B\<close> bounds the clock when a call reads it.\<close>

fun call_fits :: "nat \<Rightarrow> timer_call \<Rightarrow> bool" where
  "call_fits B (Tm_Register elapsed timeout i) \<longleftrightarrow> elapsed \<le> B \<and> timeout < 2 ^ 16"
| "call_fits B (Tm_Update hnd elapsed timeout i) \<longleftrightarrow> elapsed \<le> B \<and> timeout < 2 ^ 16"
| "call_fits B _ = True"

lemma register_returns:
  assumes "ts_current t \<le> B" and "elapsed \<le> B" and "timeout < 2 ^ 16" and "B + 2 ^ 16 < 2 ^ 32"
  shows "\<exists>hnd t'. ts_register elapsed timeout i t = Some (hnd, t')"
proof -
  have "elapsed mod 2 ^ 32 \<le> B" using assms(2) by (metis le_trans mod_less_eq_dividend)
  then have "(if ts_running t then ts_current t else elapsed mod 2 ^ 32) + timeout < 2 ^ 32" using assms(1,3,4) by auto
  then have "\<exists>h. u32_add (ts_current (if ts_running t then t else t\<lparr>ts_current := elapsed mod 2 ^ 32\<rparr>)) timeout = Some h"
    by (auto simp: u32_add_def)
  then show ?thesis by (auto simp: ts_register_def Let_def)
qed

lemma update_returns:
  assumes "ts_current t \<le> B" and "elapsed \<le> B" and "timeout < 2 ^ 16" and "B + 2 ^ 16 < 2 ^ 32"
  shows "\<exists>hnd' t'. timer_update hnd elapsed timeout i t = Some (hnd', t')"
proof -
  have n: "u32_add (ts_current t) timeout = Some (ts_current t + timeout)" "u32_add (ts_current t + timeout) 1 = Some (ts_current t + timeout + 1)"
    using assms by (simp_all add: u32_add_def)
  have "ts_current (ts_unregister hnd i t) \<le> B" using assms(1) by (simp add: ts_unregister_def split: option.split)
  from register_returns [OF this assms(2-4)] show ?thesis by (auto simp: timer_update_def n [unfolded One_nat_def])
qed

lemma timer_do_returns:
  assumes ok: "timer_ok t" and "ts_current t \<le> B" and "call_fits B c" and "B + 2 ^ 16 < 2 ^ 32"
  shows "\<exists>f t'. timer_do c t = Some (f, t') \<and> timer_ok t' \<and> ts_current t' \<le> B + ticks [c]"
proof (cases c)
  case Tm_Tick
  have "\<exists>f t'. ts_tick t = Some (f, t')" using assms(2,4) by (simp add: ts_tick_def u32_add_def split_beta)
  then show ?thesis using tick_spec(1,3) [OF ok] Tm_Tick assms(2) by (fastforce simp: ticks_def)
next
  case (Tm_Register elapsed timeout j)
  then obtain hnd t' where r: "ts_register elapsed timeout j t = Some (hnd, t')" using register_returns [of t B] assms(2-4) by fastforce
  have "elapsed mod 2 ^ 32 \<le> B" using assms(3) Tm_Register by (metis call_fits.simps(1) le_trans mod_less_eq_dividend)
  then show ?thesis using register_spec(1,4) [OF ok r] Tm_Register r assms(2) by (auto simp: ticks_def)
next
  case (Tm_Update hnd elapsed timeout j)
  then obtain hnd' t' where r: "timer_update hnd elapsed timeout j t = Some (hnd', t')" using update_returns [of t B] assms(2-4) by fastforce
  have "elapsed mod 2 ^ 32 \<le> B" using assms(3) Tm_Update by (metis call_fits.simps(2) le_trans mod_less_eq_dividend)
  then show ?thesis using update_spec(1,4) [OF ok r] Tm_Update r assms(2) by (auto simp: ticks_def)
next
  case (Tm_Unregister hnd j)
  then show ?thesis using unregister_ok(1,3) [OF ok] assms(2) by (simp add: ticks_def)
qed

lemma call_fits_mono: "call_fits B c \<Longrightarrow> B \<le> B' \<Longrightarrow> call_fits B' c"
  by (cases c) auto

lemma ticks_Cons: "ticks (c # cs) = ticks [c] + ticks cs"
  by (simp add: ticks_def)

lemma timer_run_returns:
  assumes "timer_ok t" and "ts_current t \<le> B" and "\<forall>c \<in> set cs. call_fits B c" and "B + ticks cs + 2 ^ 16 < 2 ^ 32"
  shows "\<exists>f t'. timer_run cs t = Some (f, t')"
  using assms
proof (induction cs arbitrary: t B)
  case (Cons c cs)
  let ?B = "B + ticks [c]"
  have b: "?B + ticks cs + 2 ^ 16 < 2 ^ 32" "B + 2 ^ 16 < 2 ^ 32" using Cons.prems(4) ticks_Cons [of c cs] by simp_all
  obtain f t1 where 1: "timer_do c t = Some (f, t1)" "timer_ok t1" "ts_current t1 \<le> ?B"
    using timer_do_returns [OF Cons.prems(1,2) _ b(2), of c] Cons.prems(3) by auto
  have "\<forall>x \<in> set cs. call_fits ?B x" using Cons.prems(3) call_fits_mono [of B _ ?B] by simp
  with 1(2,3) have "\<exists>f t'. timer_run cs t1 = Some (f, t')" using b(1) by (rule Cons.IH)
  then show ?case using 1(1) by auto
qed simp

section \<open>A timer fires on time\<close>



end
