(* ===== verification/Io_Wake.thy ===== *)
theory Io_Wake
  imports Poll_Item
begin

text \<open>
  No wake-up of a stream is lost. Three tasks wait on a stream: the dispatcher for bytes to read, the read side of the
  driver's task for room in the read buffer, and its write side for bytes to write. Each is woken by whoever makes its
  next poll succeed, for every interleaving of the calls of the other parties. \<open>keeps\<close> is the one-call form: the calls of the
  others either leave the task waiting for a condition that does not hold, or wake it.
\<close>

section \<open>When a poll succeeds\<close>

definition rd_ready :: "u16 \<Rightarrow> bool" where
  "rd_ready f \<longleftrightarrow> bit f 0 \<or> bit f 1 \<or> bit f 2 \<or> \<not> (bit f 4 \<or> bit f 7)"

text \<open>While a write is scheduled the stream manager still owes the wake-up of the write side.\<close>

definition wr_ready :: "u16 \<Rightarrow> bool" where
  "wr_ready f \<longleftrightarrow> bit f 0 \<or> bit f 1 \<or> \<not> bit f 9 \<and> \<not> bit f 11"

definition dsp_ready :: "u16 \<Rightarrow> bool" where
  "dsp_ready f \<longleftrightarrow> bit f 0 \<or> bit f 1 \<or> bit f 6"

definition closed_ready :: "u16 \<Rightarrow> bool" where
  "closed_ready f \<longleftrightarrow> bit f 0 \<or> bit f 1"

lemmas ready_defs = rd_ready_def wr_ready_def dsp_ready_def closed_ready_def

definition keeps :: "('l io_state \<Rightarrow> task option) \<Rightarrow> (u16 \<Rightarrow> bool) \<Rightarrow> 'l io_state \<Rightarrow> 'l io_state \<Rightarrow> bool" where
  "keeps W r s s' \<longleftrightarrow> (\<exists>new. st_log s' = st_log s @ new \<and>
     (\<forall>w. W s = Some w \<and> \<not> r (st_flags s) \<longrightarrow> W s' = Some w \<and> \<not> r (st_flags s') \<or> Io_Wake w \<in> set new))"

abbreviation keeps_rd :: "'l io_state \<Rightarrow> 'l io_state \<Rightarrow> bool" where "keeps_rd \<equiv> keeps st_read_task rd_ready"
abbreviation keeps_wr :: "'l io_state \<Rightarrow> 'l io_state \<Rightarrow> bool" where "keeps_wr \<equiv> keeps st_write_task wr_ready"
abbreviation keeps_dsp :: "'l io_state \<Rightarrow> 'l io_state \<Rightarrow> bool" where "keeps_dsp \<equiv> keeps st_dispatch_task dsp_ready"
abbreviation keeps_cl :: "'l io_state \<Rightarrow> 'l io_state \<Rightarrow> bool" where "keeps_cl \<equiv> keeps st_write_task closed_ready"

lemma keeps_refl [simp]: "keeps W r s s" by (simp add: keeps_def)

lemma keeps_trans: "keeps W r a b \<Longrightarrow> keeps W r b c \<Longrightarrow> keeps W r a c"
proof -
  assume "keeps W r a b" and "keeps W r b c"
  then obtain n1 n2 where "st_log b = st_log a @ n1" "st_log c = st_log b @ n2"
    and "\<forall>w. W a = Some w \<and> \<not> r (st_flags a) \<longrightarrow> W b = Some w \<and> \<not> r (st_flags b) \<or> Io_Wake w \<in> set n1"
    and "\<forall>w. W b = Some w \<and> \<not> r (st_flags b) \<longrightarrow> W c = Some w \<and> \<not> r (st_flags c) \<or> Io_Wake w \<in> set n2"
    unfolding keeps_def by blast
  then show ?thesis unfolding keeps_def by (intro exI [of _ "n1 @ n2"]) auto
qed

section \<open>Fields\<close>

lemma wake_tasks [simp]:
  "st_read_task (io_wake_read_task s) = None" "st_write_task (io_wake_read_task s) = st_write_task s" "st_dispatch_task (io_wake_read_task s) = st_dispatch_task s"
  "st_read_task (io_wake_write_task s) = st_read_task s" "st_write_task (io_wake_write_task s) = None" "st_dispatch_task (io_wake_write_task s) = st_dispatch_task s"
  "st_read_task (io_wake_dispatch_task s) = st_read_task s" "st_write_task (io_wake_dispatch_task s) = st_write_task s" "st_dispatch_task (io_wake_dispatch_task s) = None"
  "st_log (io_wake_read_task s) = st_log s @ map Io_Wake (lw_woken (st_read_task s))"
  "st_log (io_wake_write_task s) = st_log s @ map Io_Wake (lw_woken (st_write_task s))"
  "st_log (io_wake_dispatch_task s) = st_log s @ map Io_Wake (lw_woken (st_dispatch_task s))"
  by (simp_all add: io_wake_read_task_def io_wake_write_task_def io_wake_dispatch_task_def split_beta)

lemma register_tasks [simp]:
  "st_read_task (io_register_dispatch cx s) = st_read_task s" "st_write_task (io_register_dispatch cx s) = st_write_task s" "st_dispatch_task (io_register_dispatch cx s) = Some cx"
  "st_read_task (io_register_read cx s) = Some cx" "st_write_task (io_register_read cx s) = st_write_task s" "st_dispatch_task (io_register_read cx s) = st_dispatch_task s"
  "st_read_task (io_register_write cx s) = st_read_task s" "st_write_task (io_register_write cx s) = Some cx" "st_dispatch_task (io_register_write cx s) = st_dispatch_task s"
  "st_log (io_register_dispatch cx s) = st_log s" "st_log (io_register_read cx s) = st_log s" "st_log (io_register_write cx s) = st_log s"
  by (simp_all add: io_register_dispatch_def io_register_read_def io_register_write_def)

lemma notify_disconnect_tasks [simp]:
  "st_read_task (io_notify_disconnect s) = st_read_task s" "st_write_task (io_notify_disconnect s) = st_write_task s"
  "st_dispatch_task (io_notify_disconnect s) = st_dispatch_task s" "\<exists>new. st_log (io_notify_disconnect s) = st_log s @ new"
  by (simp_all add: io_notify_disconnect_def split: option.splits)

lemma terminate_tasks:
  assumes "\<not> bit (st_flags s) 0"
  shows "\<exists>new. st_log (io_terminate_connection e s) = st_log s @ map Io_Wake (lw_woken (st_read_task s)) @
      map Io_Wake (lw_woken (st_write_task s)) @ map Io_Wake (lw_woken (st_dispatch_task s)) @ new"
proof -
  let ?s1 = "upd_flags flags_set_terminate (if e \<noteq> None then s\<lparr>st_error := e\<rparr> else s)"
  obtain new where "st_log (io_notify_disconnect (io_wake_dispatch_task (io_wake_write_task (io_wake_read_task ?s1)))) =
      st_log (io_wake_dispatch_task (io_wake_write_task (io_wake_read_task ?s1))) @ new" using notify_disconnect_tasks(4) by blast
  then show ?thesis using assms by (auto simp: io_terminate_connection_def Let_def io_flags)
qed

lemma in_woken [simp]: "w \<in> set (lw_woken lw) \<longleftrightarrow> lw = Some w"
  by (cases lw) auto

definition a_task :: "('l io_state \<Rightarrow> task option) \<Rightarrow> bool" where
  "a_task W \<longleftrightarrow> W \<in> {st_read_task, st_write_task, st_dispatch_task}"

lemma a_tasks [simp]: "a_task st_read_task" "a_task st_write_task" "a_task st_dispatch_task"
  by (simp_all add: a_task_def)

lemma keeps_terminate: "a_task W \<Longrightarrow> keeps W r s (io_terminate_connection e s)"
proof (cases "bit (st_flags s) 0")
  case True
  then show ?thesis by (simp add: io_terminate_connection_def io_flags)
next
  case False
  assume "a_task W"
  then show ?thesis using terminate_tasks [OF False, of e] by (fastforce simp: keeps_def a_task_def)
qed

lemma keeps_wake:
  assumes "a_task W"
  shows "keeps W r s (io_wake_read_task s)" and "keeps W r s (io_wake_write_task s)" and "keeps W r s (io_wake_dispatch_task s)"
  using assms by (auto simp: keeps_def a_task_def)

lemma keeps_same:
  assumes "a_task W" and "st_log s' = st_log s" and "st_flags s' = st_flags s" and "W s' = W s"
  shows "keeps W r s s'"
  using assms by (auto simp: keeps_def)

lemma keeps_buffers: "a_task W \<Longrightarrow> keeps W r s (s\<lparr>st_buffer := b\<rparr>)" "a_task W \<Longrightarrow> keeps W r s (s\<lparr>st_filter := F, st_buffer := b\<rparr>)"
  by (auto intro!: keeps_same simp: a_task_def)

lemma keeps_flags: "a_task W \<Longrightarrow> (\<not> r (st_flags s) \<Longrightarrow> \<not> r (f (st_flags s))) \<Longrightarrow> keeps W r s (upd_flags f s)"
  by (auto simp: keeps_def a_task_def)

section \<open>The driver\<close>

lemma with_write_buf_keeps:
  assumes "ctx_with_write_buf E f s = Some (r, s')" and W: "a_task W"
  shows "keeps W R s s'"
proof -
  obtain r1 F b where p: "stack_process_write_buf (ev_layer E) (st_filter s) (st_buffer s) = Some (r1, F, b)"
    using assms by (auto simp: ctx_with_write_buf_def st_process_write_buf_def split: bind_splits)
  let ?s1 = "s\<lparr>st_filter := F, st_buffer := b\<rparr>"
  define s2 where "s2 = (case r1 of Inl e \<Rightarrow> io_terminate_connection (Some e) ?s1 | Inr _ \<Rightarrow> ?s1)"
  have s': "s' = s2\<lparr>st_buffer := snd (stack_with_write_dst f (st_buffer s2))\<rparr>"
    using assms p by (simp add: ctx_with_write_buf_def st_process_write_buf_def Let_def split_beta flip: s2_def)
  have "keeps W R ?s1 s2" using keeps_terminate [OF W] by (simp add: s2_def split: sum.split)
  then show ?thesis unfolding s' by (rule keeps_trans [OF keeps_trans [OF keeps_buffers(2) [OF W]] keeps_buffers(1) [OF W]])
qed

lemma write_notify_keeps:
  assumes W: "a_task W" and r: "\<And>f. \<not> r f \<Longrightarrow> \<not> r (flags_unset_write_notify f)"
  shows "keeps W r s (ctx_write_notify_tasks w (ctx_write_notify_dispatch n s))"
proof -
  have "keeps W r t (ctx_write_notify_dispatch n t)" for t using keeps_wake [OF W] by (simp add: ctx_write_notify_dispatch_def)
  moreover have "keeps W r t (upd_flags flags_unset_write_notify t)" for t using r by (intro keeps_flags [OF W])
  then have "keeps W r t (io_wake_write_task (io_wake_read_task (upd_flags flags_unset_write_notify t)))" for t
    by (rule keeps_trans [OF keeps_trans [OF _ keeps_wake(1) [OF W]] keeps_wake(2) [OF W]])
  then have "keeps W r t (ctx_write_notify_tasks w t)" for t by (simp add: ctx_write_notify_tasks_def)
  ultimately show ?thesis using keeps_trans by blast
qed

text \<open>Conditions that do not depend on the flags that writing sets.\<close>

definition not_written :: "(u16 \<Rightarrow> bool) \<Rightarrow> bool" where
  "not_written r \<longleftrightarrow> (\<forall>f. \<not> r f \<longrightarrow> \<not> r (flags_unset_write_notify f) \<and> \<not> r (flags_set_write_paused f) \<and>
     \<not> r (flags_unset_write_paused f) \<and> \<not> r (flags_set_wr_send_scheduled f) \<and> \<not> r (flags_unset_wr_send_scheduled f) \<and>
     \<not> r (flags_set_wr_backpressure f) \<and> \<not> r (flags_set_wants_write_flush f) \<and> \<not> r (flags_unset_wr_backpressure_and_flush f))"

lemma not_writtenD:
  assumes "not_written r" and "\<not> r f"
  shows "\<not> r (flags_unset_write_notify f)" and "\<not> r (flags_set_write_paused f)" and "\<not> r (flags_unset_write_paused f)"
    and "\<not> r (flags_set_wr_send_scheduled f)" and "\<not> r (flags_unset_wr_send_scheduled f)" and "\<not> r (flags_set_wr_backpressure f)"
    and "\<not> r (flags_set_wants_write_flush f)" and "\<not> r (flags_unset_wr_backpressure_and_flush f)"
  using assms unfolding not_written_def by blast+

lemma not_written_keeps:
  assumes "a_task W" and "not_written r"
  shows "keeps W r s (upd_flags flags_set_write_paused s)" and "keeps W r s (upd_flags flags_unset_write_paused s)"
    and "keeps W r s (upd_flags flags_unset_wr_send_scheduled s)" and "keeps W r s (upd_flags flags_set_wants_write_flush s)"
    and "keeps W r s (upd_flags flags_set_wr_backpressure s)" and "keeps W r s (upd_flags flags_unset_wr_backpressure_and_flush s)"
  by (rule keeps_flags [OF assms(1)], erule not_writtenD [OF assms(2)])+

lemma not_written [simp]: "not_written rd_ready" "not_written dsp_ready" "not_written closed_ready"
  by (simp_all add: not_written_def ready_defs io_flags)

lemma update_write_status_keeps:
  assumes W: "a_task W" and r: "not_written r"
  shows "keeps W r s (snd (ctx_update_write_status res s))"
proof (cases res)
  case (Inl e)
  then show ?thesis using keeps_terminate [OF W] by (simp add: ctx_update_write_status_def)
next
  case (Inr w)
  let ?s1 = "ctx_write_notify_tasks w (ctx_write_notify_dispatch (st_write_buf_size s) s)"
  have 1: "keeps W r s ?s1" by (rule write_notify_keeps [OF W]) (rule not_writtenD(1) [OF r])
  have "keeps W r ?s1 (upd_flags flags_set_write_paused ?s1)" "keeps W r ?s1 (upd_flags flags_unset_write_paused ?s1)"
    by (rule not_written_keeps [OF W r])+
  with 1 have 2: "keeps W r s (upd_flags flags_set_write_paused ?s1)" "keeps W r s (upd_flags flags_unset_write_paused ?s1)"
    using keeps_trans by blast+
  have "snd (ctx_update_write_status (Inr w) s) \<in> {?s1, upd_flags flags_unset_write_paused ?s1,
      upd_flags flags_set_write_paused ?s1, io_wake_read_task (upd_flags flags_set_write_paused ?s1)}"
    by (simp add: ctx_update_write_status_def Let_def)
  then show ?thesis using 1 2 keeps_trans [OF 2(1) keeps_wake(1) [OF W]] Inr by auto
qed

lemma drv_run_keeps: "drv_run E s s' \<Longrightarrow> a_task W \<Longrightarrow> not_written r \<Longrightarrow> keeps W r s s'"
proof (induction rule: drv_run.induct)
  case (drv_take s s1 n s2)
  then show ?case using with_write_buf_keeps [OF drv_take.hyps(2)] keeps_trans by blast
next
  case (drv_status s s1 res ra s2)
  then have "keeps W r s1 s2" using update_write_status_keeps [of W r s1 res] by simp
  then show ?case using drv_status keeps_trans by blast
next
  case (drv_stop s s1 e)
  then show ?case unfolding ctx_stop_def using keeps_terminate keeps_trans by blast
next
  case (drv_wake s s1)
  then show ?case unfolding ctx_notify_def using keeps_wake(1) keeps_trans by blast
next
  case (drv_delay s s1)
  then have "keeps W r s1 (s1\<lparr>st_log := st_log s1 @ [Io_Delayed_Write]\<rparr>)" by (auto simp: keeps_def a_task_def)
  then show ?case using drv_delay keeps_trans by blast
qed simp

section \<open>Writing\<close>

lemma keeps_handle: "a_task W \<Longrightarrow> keeps W r s (s\<lparr>st_handle := h\<rparr>)" "a_task W \<Longrightarrow> keeps W r s (s\<lparr>st_error := e\<rparr>)"
  by (auto intro!: keeps_same simp: a_task_def)

lemma schedule_write_keeps: "a_task W \<Longrightarrow> not_written r \<or> r = wr_ready \<Longrightarrow> keeps W r s (ioref_schedule_write s)"
proof -
  assume W: "a_task W" and r: "not_written r \<or> r = wr_ready"
  let ?s1 = "upd_flags flags_set_wr_send_scheduled s"
  have "keeps W r s ?s1" using r by (intro keeps_flags [OF W]) (auto simp: wr_ready_def io_flags dest: not_writtenD(4))
  moreover have "keeps W r ?s1 (?s1\<lparr>st_log := st_log s @ [Io_Schedule_Write (st_id s)]\<rparr>)"
    using W by (auto simp: keeps_def a_task_def)
  ultimately show ?thesis using keeps_trans unfolding ioref_schedule_write_def by auto
qed

context stream_driver
begin

lemma call_write_keeps:
  assumes W: "a_task W" and r: "not_written r"
  shows "keeps W r s (snd (ioref_call_write E s))"
proof -
  let ?s1 = "s\<lparr>st_handle := False\<rparr>"
  let ?s2 = "upd_flags flags_unset_write_paused ?s1"
  have "keeps W r ?s1 ?s2" by (rule not_written_keeps [OF W r])
  from keeps_trans [OF keeps_trans [OF keeps_handle(1) [OF W] this] drv_run_keeps [OF write_runs W r]]
  have "keeps W r s (ev_write E ?s2)" .
  from keeps_trans [OF this keeps_handle(1) [OF W]] show ?thesis by (simp add: ioref_call_write_def Let_def)
qed

lemma call_notify_keeps:
  assumes W: "a_task W"
  shows "keeps W r s (ioref_call_notify E s)"
proof -
  have "keeps W r s (ctx_notify (s\<lparr>st_handle := False\<rparr>))"
    unfolding ctx_notify_def by (rule keeps_trans [OF keeps_handle(1) [OF W] keeps_wake(1) [OF W]])
  from keeps_trans [OF this keeps_handle(1) [OF W]] show ?thesis by (simp add: ioref_call_notify_def notify_wakes)
qed

text \<open>A direct write that leaves bytes behind schedules another write, so the write side is not forgotten.\<close>

lemma direct_write_keeps_wr:
  assumes "ioref_call_write E s = (yes, s2)"
  shows "keeps_wr s (if yes then ioref_schedule_write s2 else upd_flags flags_unset_wr_send_scheduled s2)"
proof -
  obtain new where new: "st_log s2 = st_log s @ new"
    "\<forall>w. st_write_task s = Some w \<and> \<not> closed_ready (st_flags s) \<longrightarrow> st_write_task s2 = Some w \<and> \<not> closed_ready (st_flags s2) \<or> Io_Wake w \<in> set new"
    using call_write_keeps [of st_write_task closed_ready s] assms by (auto simp: keeps_def)
  have yes: "yes \<longleftrightarrow> \<not> bit (st_flags s2) 9"
    using assms by (cases "st_handle s") (auto simp: ioref_call_write_def Let_def flags_is_write_paused_bits)
  show ?thesis
  proof (cases yes)
    case True
    have "st_write_task (ioref_schedule_write s2) = st_write_task s2" "bit (st_flags (ioref_schedule_write s2)) 11"
      "bit (st_flags (ioref_schedule_write s2)) 0 = bit (st_flags s2) 0" "bit (st_flags (ioref_schedule_write s2)) 1 = bit (st_flags s2) 1"
      "\<exists>m. st_log (ioref_schedule_write s2) = st_log s2 @ m" by (auto simp: ioref_schedule_write_def io_flags)
    then show ?thesis using new True by (auto simp: keeps_def wr_ready_def closed_ready_def)
  next
    case False
    then show ?thesis using new yes by (auto simp: keeps_def wr_ready_def closed_ready_def io_flags)
  qed
qed

lemma consolidate_keeps:
  assumes W: "a_task W" and r: "not_written r \<or> W = st_write_task \<and> r = wr_ready"
  shows "keeps W r s (ioref_consolidate_write_state E force s)"
proof -
  let ?n = "st_write_buf_size s"
  define s1 where "s1 = (if ?n > 0 \<and> flags_is_write_paused (st_flags s)
      then if flags_is_direct_wr_enabled (st_flags s) \<and> (force \<or> ?n \<ge> cf_write_buf_threshold (st_cfg s))
           then (case ioref_call_write E s of (True, s) \<Rightarrow> ioref_schedule_write s | (False, s) \<Rightarrow> upd_flags flags_unset_wr_send_scheduled s)
           else ioref_schedule_write s
      else s)"
  obtain yes s2 where c: "ioref_call_write E s = (yes, s2)" by fastforce
  let ?d = "if yes then ioref_schedule_write s2 else upd_flags flags_unset_wr_send_scheduled s2"
  have d: "keeps W r s ?d"
  proof (cases "not_written r")
    case True
    have "keeps W r s s2" using call_write_keeps [OF W True, of s] c by simp
    moreover have "keeps W r s2 (upd_flags flags_unset_wr_send_scheduled s2)" by (rule not_written_keeps [OF W True])
    then have "keeps W r s2 ?d" using True schedule_write_keeps [OF W] by simp
    ultimately show ?thesis by (rule keeps_trans)
  next
    case False
    then show ?thesis using r direct_write_keeps_wr [OF c] by simp
  qed
  have "s1 \<in> {?d, ioref_schedule_write s, s}" using c by (cases yes) (simp_all add: s1_def)
  then have 1: "keeps W r s s1" using d schedule_write_keeps [OF W, of r s] r by auto
  have "keeps W r s1 (upd_flags flags_set_wr_backpressure s1)"
    using r by (intro keeps_flags [OF W]) (auto simp: wr_ready_def io_flags dest: not_writtenD(6))
  from keeps_trans [OF keeps_trans [OF 1 this] keeps_wake(3) [OF W]] 1
  show ?thesis by (simp add: ioref_consolidate_write_state_def Let_def flip: s1_def)
qed

end

section \<open>The calls of the other parties\<close>

definition party :: "('l io_state \<Rightarrow> task option) \<Rightarrow> (u16 \<Rightarrow> bool) \<Rightarrow> bool" where
  "party W r \<longleftrightarrow> W = st_read_task \<and> r = rd_ready \<or> W = st_write_task \<and> r = wr_ready \<or> W = st_dispatch_task \<and> r = dsp_ready"

lemma party_simps [simp]: "party st_read_task rd_ready" "party st_write_task wr_ready" "party st_dispatch_task dsp_ready"
  by (simp_all add: party_def)

lemma party_task: "party W r \<Longrightarrow> a_task W"
  by (auto simp: party_def a_task_def)

lemma party_writes: "party W r \<Longrightarrow> not_written r \<or> W = st_write_task \<and> r = wr_ready"
  by (auto simp: party_def)

lemma party_flags:
  assumes "party W r"
  shows "keeps W r s (upd_flags flags_unset_read_ready s)" and "keeps W r s (upd_flags flags_set_read_notify s)"
    and "keeps W r s (upd_flags flags_set_read_notifed s)" and "keeps W r s (upd_flags flags_set_wants_write_flush s)"
    and "keeps W r s (upd_flags flags_set_wr_backpressure s)" and "keeps W r s (upd_flags flags_unset_wr_backpressure s)"
    and "keeps W r s (upd_flags flags_unset_wr_backpressure_and_flush s)" and "keeps W r s (upd_flags flags_set_write_notify s)"
    and "keeps W r s (upd_flags flags_set_read_paused s)" and "keeps W r s (upd_flags (fst \<circ> flags_check_read_notifed) s)"
    and "keeps W r s (upd_flags (fst \<circ> flags_check_dispatcher_timeout) s)"
    and "keeps W r s (upd_flags (fst \<circ> flags_check_dispatcher_timeout_unset) s)"
  using assms by (auto intro!: keeps_flags [OF party_task [OF assms]] simp: party_def ready_defs io_flags)

text \<open>A flag that may make the poll of a task succeed is set before the task is woken.\<close>

lemma keeps_before_wake:
  "keeps st_read_task r s (io_wake_read_task (upd_flags f s))" "keeps st_dispatch_task r s (io_wake_dispatch_task (upd_flags f s))"
  by (auto simp: keeps_def)

lemma party_start_shutdown:
  assumes "party W r"
  shows "keeps W r s (io_start_shutdown s)"
proof -
  let ?s1 = "upd_flags flags_set_filter_stopping s"
  have "keeps W r s (io_wake_read_task ?s1)"
  proof (cases "W = st_read_task")
    case True
    then show ?thesis by (simp add: keeps_before_wake)
  next
    case False
    then have "keeps W r s ?s1" using assms by (auto intro!: keeps_flags simp: party_def ready_defs io_flags)
    then show ?thesis by (rule keeps_trans [OF _ keeps_wake(1) [OF party_task [OF assms]]])
  qed
  from keeps_trans [OF this keeps_wake(2) [OF party_task [OF assms]]] show ?thesis by (simp add: io_start_shutdown_def)
qed

lemma party_filters_stopped:
  assumes "party W r"
  shows "keeps W r s (io_filters_stopped s)"
  using assms by (auto simp: party_def io_filters_stopped_def keeps_def)

lemma party_read_ready:
  assumes "party W r" and "f \<in> {flags_set_read_ready, flags_set_read_ready_and_backpressure}"
  shows "keeps W r s (io_wake_dispatch_task (upd_flags f s))"
proof (cases "W = st_dispatch_task")
  case True
  then show ?thesis by (simp add: keeps_before_wake)
next
  case False
  then have "keeps W r s (upd_flags f s)" using assms by (auto intro!: keeps_flags simp: party_def ready_defs io_flags)
  then show ?thesis by (rule keeps_trans [OF _ keeps_wake(3) [OF party_task [OF assms(1)]]])
qed

text \<open>Resuming the read side: the flags go first, then the task is woken; or the other way round.\<close>

lemma party_resume:
  assumes "party W r"
  shows "keeps W r s (io_wake_read_task (upd_flags flags_unset_read_paused (upd_flags flags_unset_all_read_flags s)))"
proof (cases "W = st_read_task")
  case True
  then show ?thesis by (auto simp: keeps_def)
next
  case False
  then have "keeps W r s (upd_flags (flags_unset_read_paused \<circ> flags_unset_all_read_flags) s)"
    using assms by (intro keeps_flags) (auto simp: party_def ready_defs io_flags)
  then have "keeps W r s (upd_flags flags_unset_read_paused (upd_flags flags_unset_all_read_flags s))" by simp
  then show ?thesis by (rule keeps_trans [OF _ keeps_wake(1) [OF party_task [OF assms]]])
qed

lemma party_unpause:
  assumes "party W r"
  shows "keeps W r s (upd_flags flags_unset_read_paused (io_wake_read_task s))"
  using assms by (auto simp: party_def keeps_def ready_defs io_flags)

lemma party_update_read_destination:
  assumes "party W r" and "flags_ok (st_flags s)"
  shows "keeps W r s (ioref_update_read_destination n s)"
proof -
  let ?s1 = "if flags_is_rd_backpressure (st_flags s) then upd_flags flags_unset_all_read_flags s else upd_flags flags_unset_read_ready s"
  have "keeps W r s (upd_flags flags_unset_all_read_flags s)" if "flags_is_rd_backpressure (st_flags s)"
    using assms that by (intro keeps_flags [OF party_task [OF assms(1)]]) (auto simp: party_def ready_defs flags_ok_def io_flags)
  then have 1: "keeps W r s ?s1" using party_flags(1) [OF assms(1)] by simp
  have "ioref_update_read_destination n s \<in> {s, ?s1, upd_flags flags_unset_read_paused (io_wake_read_task ?s1)}"
    by (simp add: ioref_update_read_destination_def Let_def)
  then show ?thesis using 1 keeps_trans [OF 1 party_unpause [OF assms(1)]] by auto
qed

datatype io_waiter = Reader | Writer | Dispatcher

fun waits_as :: "io_waiter \<Rightarrow> 'l io_state \<Rightarrow> task option" where
  "waits_as Reader s = st_read_task s"
| "waits_as Writer s = st_write_task s"
| "waits_as Dispatcher s = st_dispatch_task s"

fun would_return :: "io_waiter \<Rightarrow> u16 \<Rightarrow> bool" where
  "would_return Reader f = rd_ready f"
| "would_return Writer f = wr_ready f"
| "would_return Dispatcher f = dsp_ready f"

text \<open>
  The calls of the others: all but the polls of the waiting side itself. A write of the driver is a call of the writing side:
  the driver, not the task, goes on with what it did not write.
\<close>

fun other_call :: "io_waiter \<Rightarrow> 'l io_op \<Rightarrow> bool" where
  "other_call Reader (Drv_Poll_Read e cx) = False"
| "other_call Reader (Drv_Shutdown fl cx) = False"
| "other_call Writer (Drv_Write n res) = False"
| "other_call Writer (Drv_Poll_Write cx) = False"
| "other_call Writer (Drv_Shutdown fl cx) = False"
| "other_call Dispatcher (Poll_Read_Ready cx) = False"
| "other_call Dispatcher (Poll_Read_Notify cx) = False"
| "other_call Dispatcher (Poll_Flush cx full) = False"
| "other_call Dispatcher (Poll_Shutdown cx) = False"
| "other_call Dispatcher (Poll_Status cx) = False"
| "other_call Dispatcher (Poll_Dispatch cx) = False"
| "other_call _ _ = True"

abbreviation keeps_as :: "io_waiter \<Rightarrow> 'l io_state \<Rightarrow> 'l io_state \<Rightarrow> bool" where
  "keeps_as p \<equiv> keeps (waits_as p) (would_return p)"

lemma waits_as_eq: "waits_as Reader = st_read_task" "waits_as Writer = st_write_task" "waits_as Dispatcher = st_dispatch_task"
  "would_return Reader = rd_ready" "would_return Writer = wr_ready" "would_return Dispatcher = dsp_ready"
  by (rule ext, simp)+

lemma party_as [simp]: "party (waits_as p) (would_return p)"
  by (cases p) (simp_all add: waits_as_eq)

lemma task_as [simp]: "a_task (waits_as p)"
  by (cases p) (simp_all add: waits_as_eq)

lemma keeps_register:
  "p \<noteq> Dispatcher \<Longrightarrow> keeps_as p s (io_register_dispatch cx s)"
  "p \<noteq> Reader \<Longrightarrow> keeps_as p s (io_register_read cx s)"
  "p \<noteq> Writer \<Longrightarrow> keeps_as p s (io_register_write cx s)"
  by (cases p; simp add: keeps_def)+

lemma keeps_pause: "keeps_as p s (io_pause s)"
  using keeps_trans [OF keeps_wake(1) [OF task_as] party_flags(9) [OF party_as], of p s] by (simp add: io_pause_def)

lemma keeps_poll_read_ready:
  assumes "p \<noteq> Dispatcher"
  shows "keeps_as p s (snd (io_poll_read_ready cx s))"
proof -
  let ?r = "io_wake_read_task (upd_flags flags_unset_read_paused (upd_flags flags_unset_all_read_flags s))"
  have 1: "keeps_as p s ?r" by (rule party_resume) simp
  have "snd (io_poll_read_ready cx s) \<in> {s, ?r, io_register_dispatch cx ?r, io_register_dispatch cx s}"
    by (cases "bit (st_flags s) 0 \<or> bit (st_flags s) 1"; cases "bit (st_flags s) 4 \<or> bit (st_flags s) 7"; cases "bit (st_flags s) 6")
      (simp_all add: io_poll_read_ready_def io_flags disj_commute)
  then show ?thesis using 1 keeps_trans [OF 1 keeps_register(1) [OF assms]] keeps_register(1) [OF assms] by auto
qed

lemma keeps_poll_read_notify:
  assumes "p \<noteq> Dispatcher"
  shows "keeps_as p s (snd (io_poll_read_notify cx s))"
proof -
  let ?s1 = "upd_flags (fst \<circ> flags_check_read_notifed) s"
  let ?s2 = "snd (io_poll_read_ready cx (upd_flags flags_set_read_notify ?s1))"
  have 1: "keeps_as p s ?s1" by (rule party_flags) simp
  have 2: "keeps_as p s ?s2" by (rule keeps_trans [OF keeps_trans [OF 1 party_flags(2)] keeps_poll_read_ready [OF assms]]) simp
  note 3 = keeps_trans [OF 2 keeps_register(1) [OF assms]]
  have "snd (io_poll_read_notify cx s) \<in> {s, ?s1, io_register_dispatch cx ?s2, io_register_dispatch cx (io_register_dispatch cx ?s2)}"
    by (simp add: io_poll_read_notify_def Let_def split_beta split: poll.split)
  then show ?thesis using 1 3 keeps_trans [OF 3 keeps_register(1) [OF assms]] by auto
qed

lemma keeps_poll_shutdown:
  assumes "p \<noteq> Dispatcher"
  shows "keeps_as p s (snd (io_poll_shutdown cx s))"
proof -
  let ?s1 = "if flags_is_stopping_filters (st_flags s) then s else io_start_shutdown s"
  have "keeps_as p s ?s1" by (simp add: party_start_shutdown)
  from keeps_trans [OF keeps_trans [OF this party_resume] keeps_register(1) [OF assms]]
  show ?thesis by (auto simp: io_poll_shutdown_def Let_def split: option.split)
qed

lemma keeps_poll_status:
  assumes "p \<noteq> Dispatcher"
  shows "keeps_as p s (snd (io_poll_status_update cx s))"
proof -
  let ?s1 = "io_register_dispatch cx s"
  let ?s2 = "upd_flags (fst \<circ> flags_check_dispatcher_timeout) ?s1"
  have 1: "keeps_as p s ?s1" by (rule keeps_register(1) [OF assms])
  have 2: "keeps_as p s ?s2" by (rule keeps_trans [OF 1 party_flags(11)]) simp
  have 3: "keeps_as p s (upd_flags flags_unset_wr_backpressure ?s2)" by (rule keeps_trans [OF 2 party_flags(6)]) simp
  have "snd (io_poll_status_update cx s) \<in> {?s1, ?s2, upd_flags flags_unset_wr_backpressure ?s2}"
    by (simp add: io_poll_status_update_def Let_def split_beta)
  then show ?thesis using 1 2 3 by auto
qed

lemma keeps_poll_ready:
  "p \<noteq> Reader \<Longrightarrow> keeps_as p s (snd (filter_poll_read_ready F cx s))" "p \<noteq> Writer \<Longrightarrow> keeps_as p s (snd (filter_poll_write_ready F cx s))"
  by (induction F) (auto simp: base_poll_read_ready_def base_poll_write_ready_def Let_def keeps_register)

lemma keeps_ctx_shutdown:
  assumes "p \<noteq> Reader" and "p \<noteq> Writer"
  shows "keeps_as p s (snd (ctx_shutdown fl cx s))"
proof -
  have 1: "keeps_as p t (io_register_write cx (io_register_read cx t))" for t
    by (rule keeps_trans [OF keeps_register(2) [OF assms(1)] keeps_register(3) [OF assms(2)]])
  have "keeps_as p s (upd_flags flags_set_write_notify s)" by (rule party_flags) simp
  from 1 [of s] keeps_trans [OF this 1] show ?thesis by (simp add: ctx_shutdown_def)
qed

lemma keeps_notify_timeout: "keeps_as p s (io_notify_timeout s)"
proof -
  have 1: "keeps_as p s (upd_flags (fst \<circ> flags_check_dispatcher_timeout_unset) s)" by (rule party_flags) simp
  show ?thesis using 1 keeps_trans [OF 1 keeps_wake(3)] by (simp add: io_notify_timeout_def Let_def split_beta)
qed

lemma keeps_on_disconnect: "keeps_as p s (snd (ioref_on_disconnect s))"
  by (cases p) (auto simp: ioref_on_disconnect_def on_disconnect_new_def ext_register_disconnect_def keeps_def split: option.splits)

lemma keeps_reads:
  assumes "flags_ok (st_flags s)"
  shows "keeps_as p s (snd (ioref_with_read_buf f s))" and "keeps_as p s (snd (ioref_decode g s))"
proof -
  let ?s1 = "s\<lparr>st_buffer := snd (stack_with_read_dst f (st_buffer s))\<rparr>"
  have "keeps_as p ?s1 (ioref_update_read_destination n ?s1)" for n using assms by (intro party_update_read_destination) simp_all
  from keeps_trans [OF keeps_buffers(1) [OF task_as] this] show "keeps_as p s (snd (ioref_with_read_buf f s))"
    by (simp add: ioref_with_read_buf_def Let_def split_beta)
  let ?s2 = "s\<lparr>st_buffer := snd (stack_with_read_dst g (st_buffer s))\<rparr>"
  let ?s3 = "upd_flags flags_unset_read_ready ?s2"
  have "keeps_as p ?s3 (ioref_update_read_destination n ?s3)" for n
    using assms by (intro party_update_read_destination) (simp_all add: flags_ok_def io_flags)
  from keeps_trans [OF keeps_trans [OF keeps_buffers(1) [OF task_as] party_flags(1) [OF party_as]] this] show "keeps_as p s (snd (ioref_decode g s))"
    by (simp add: ioref_decode_def Let_def split_beta)
qed

context stream_driver
begin

lemma consolidate_keeps_as: "keeps_as p s (ioref_consolidate_write_state E force s)"
  by (rule consolidate_keeps) (simp_all add: party_writes)

lemma with_write_keeps: "keeps_as p s (snd (ioref_with_write_buf E f s))"
  using keeps_trans [OF keeps_buffers(1) [OF task_as] consolidate_keeps_as]
  by (auto simp: ioref_with_write_buf_def split_beta)

lemma send_buf_keeps: "keeps_as p s (snd (ioref_send_buf E s))"
  using keeps_trans [OF consolidate_keeps_as keeps_handle(2) [OF task_as]] consolidate_keeps_as
  by (auto simp: ioref_send_buf_def Let_def split: option.split)

lemma ops_send_keeps: "keeps_as p s (ioref_ops_send_buf E s)"
proof -
  let ?s = "upd_flags flags_unset_wr_send_scheduled s"
  obtain yes s2 where c: "ioref_call_write E ?s = (yes, s2)" by fastforce
  have yes: "yes \<longleftrightarrow> \<not> bit (st_flags s2) 9"
    using c by (cases "st_handle s") (auto simp: ioref_call_write_def Let_def flags_is_write_paused_bits)
  have res: "ioref_ops_send_buf E s = s \<or> \<not> bit (st_flags s) 9 \<and> ioref_ops_send_buf E s = io_wake_write_task ?s \<or>
      bit (st_flags s) 9 \<and> ioref_ops_send_buf E s = (if yes then upd_flags flags_unset_write_paused (io_wake_write_task s2) else s2)"
    using c by (cases "bit (st_flags s) 11"; cases "bit (st_flags s) 9"; cases yes) (simp_all add: ioref_ops_send_buf_def io_flags)
  show ?thesis
  proof (cases "p = Writer")
    case False
    then have r: "not_written (would_return p)" by (cases p) (simp_all add: waits_as_eq)
    have 1: "keeps_as p s ?s" by (rule not_written_keeps [OF task_as r])
    have 2: "keeps_as p s s2" using keeps_trans [OF 1 call_write_keeps [OF task_as r]] c by (metis snd_conv)
    have "keeps_as p s (upd_flags flags_unset_write_paused (io_wake_write_task s2))"
      by (rule keeps_trans [OF keeps_trans [OF 2 keeps_wake(2) [OF task_as]] not_written_keeps(2) [OF task_as r]])
    then show ?thesis using res 2 keeps_trans [OF 1 keeps_wake(2) [OF task_as]] by auto
  next
    case True
    have "keeps_cl s ?s" by (rule not_written_keeps) simp_all
    from keeps_trans [OF this call_write_keeps [of st_write_task closed_ready ?s]] c have 2: "keeps_cl s s2" by simp
    have "keeps_wr s (io_wake_write_task ?s)" by (auto simp: keeps_def)
    moreover have "keeps_wr s (upd_flags flags_unset_write_paused (io_wake_write_task s2))"
      using 2 by (auto simp: keeps_def wr_ready_def closed_ready_def)
    moreover have "\<not> yes \<Longrightarrow> keeps_wr s s2" using 2 yes by (auto simp: keeps_def wr_ready_def closed_ready_def)
    ultimately show ?thesis using res True by (auto simp: waits_as_eq)
  qed
qed

lemma poll_flush_keeps:
  assumes "p \<noteq> Dispatcher" and "io_poll_flush E cx full s = Some (r, s')"
  shows "keeps_as p s s'"
proof -
  obtain r1 F b where p: "stack_process_write_buf_force (ev_layer E) (st_filter s) (st_buffer s) = Some (r1, F, b)"
    using assms(2) by (auto simp: io_poll_flush_def st_process_write_buf_force_def split: bind_splits)
  let ?s1 = "s\<lparr>st_filter := F, st_buffer := b\<rparr>"
  define s2 where "s2 = ioref_consolidate_write_state E False ?s1"
  have 1: "keeps_as p s ?s1" by (rule keeps_buffers) simp
  have 2: "keeps_as p s s2" unfolding s2_def by (rule keeps_trans [OF 1 consolidate_keeps_as])
  have reg: "keeps_as p t (io_register_dispatch cx t)" for t by (rule keeps_register(1) [OF assms(1)])
  have "s' \<in> {?s1, s2, io_register_dispatch cx (upd_flags flags_set_wants_write_flush s2),
      io_register_dispatch cx (upd_flags flags_set_wr_backpressure s2), upd_flags flags_unset_wr_backpressure_and_flush s2}"
    using assms(2) p by (auto simp: io_poll_flush_def st_process_write_buf_force_def Let_def split: sum.splits if_splits simp flip: s2_def)
  then show ?thesis using 1 2 keeps_trans [OF keeps_trans [OF 2 party_flags(4)] reg] keeps_trans [OF keeps_trans [OF 2 party_flags(5)] reg]
      keeps_trans [OF 2 party_flags(7)] by auto
qed

lemma read_processed_keeps:
  assumes "ctx_read_processed E orig wants_write notify s = Some s'"
  shows "keeps_as p s s'"
proof -
  let ?n = "stack_read_dst_size (st_buffer s)"
  define s1 where "s1 = (if ?n > orig then io_wake_dispatch_task
      (if is_rd_backpressure_needed ?n s then upd_flags flags_set_read_ready_and_backpressure s else upd_flags flags_set_read_ready s) else s)"
  define s2 where "s2 = (if flags_is_read_notify (st_flags s1) then upd_flags flags_set_read_notifed (io_wake_dispatch_task s1) else s1)"
  have 1: "keeps_as p s s1" unfolding s1_def
    using party_read_ready [of "waits_as p" "would_return p" flags_set_read_ready s]
      party_read_ready [of "waits_as p" "would_return p" flags_set_read_ready_and_backpressure s] by simp
  have 2: "keeps_as p s s2" unfolding s2_def
    using 1 keeps_trans [OF keeps_trans [OF 1 keeps_wake(3) [OF task_as]] party_flags(3) [OF party_as]] by simp
  obtain s3 where s3: "s' = (if notify then ioref_call_notify E s3 else s3)"
    "(if wants_write then do { (r, s) \<leftarrow> st_process_write_buf_force E s2;
          Some (case r of Inl err \<Rightarrow> io_terminate_connection (Some err) s | Inr _ \<Rightarrow> ioref_consolidate_write_state E False s) }
        else Some s2) = Some s3"
    using assms [unfolded ctx_read_processed_def Let_def, folded s1_def, folded s2_def] unfolding bind_eq_Some_conv by auto
  have "keeps_as p s s3"
  proof (cases wants_write)
    case True
    then obtain r F b where "stack_process_write_buf_force (ev_layer E) (st_filter s2) (st_buffer s2) = Some (r, F, b)"
      using s3(2) by (cases "stack_process_write_buf_force (ev_layer E) (st_filter s2) (st_buffer s2)") (auto simp: st_process_write_buf_force_def)
    with True s3(2) have "s3 = (case r of Inl err \<Rightarrow> io_terminate_connection (Some err) (s2\<lparr>st_filter := F, st_buffer := b\<rparr>)
        | Inr _ \<Rightarrow> ioref_consolidate_write_state E False (s2\<lparr>st_filter := F, st_buffer := b\<rparr>))"
      by (simp add: st_process_write_buf_force_def)
    moreover have 3: "keeps_as p s (s2\<lparr>st_filter := F, st_buffer := b\<rparr>)" for F b
      by (rule keeps_trans [OF 2 keeps_buffers(2) [OF task_as]])
    ultimately show ?thesis
      using keeps_trans [OF 3 keeps_terminate [OF task_as]] keeps_trans [OF 3 consolidate_keeps_as] by (simp split: sum.split)
  qed (use s3(2) 2 in simp)
  then show ?thesis using s3(1) keeps_trans [OF _ call_notify_keeps [OF task_as]] by auto
qed

lemma drv_read_keeps:
  assumes "drv_read E xs res s = Some (r, s')"
  shows "keeps_as p s s'"
proof -
  let ?g = "ctx_get_read_buf s"
  define s1 where "s1 = (snd ?g)\<lparr>st_buffer := stack_set_read_buf (fst ?g @ xs) (st_buffer (snd ?g))\<rparr>"
  obtain result s2 where 2: "ctx_read_result E (stack_read_dst_size (st_buffer (snd ?g))) (map_sum id (\<lambda>_. length xs) res) s1 = Some (result, s2)"
    and s': "s' = (case result of Inl err \<Rightarrow> io_terminate_connection (Some err) s2 | Inr _ \<Rightarrow> s2)"
    using assms by (auto simp: drv_read_def ctx_update_read_status_def Let_def split_beta simp flip: s1_def split: bind_splits sum.splits if_splits)
  have "\<exists>b. snd ?g = s\<lparr>st_buffer := b\<rparr>"
    by (auto simp: ctx_get_read_buf_def split: prod.splits option.splits intro: exI [of _ "st_buffer s"])
  then obtain b where "s1 = s\<lparr>st_buffer := b\<rparr>" by (auto simp: s1_def)
  then have 1: "keeps_as p s s1" by (simp add: keeps_buffers)
  have "keeps_as p s1 s2"
  proof (cases "\<exists>n. map_sum id (\<lambda>_. length xs) res = Inr n \<and> n \<noteq> 0")
    case False
    then show ?thesis using 2 by (cases res) (auto simp: ctx_read_result_def split: if_splits)
  next
    case True
    then obtain rr F b where "(case rr of Inl e \<Rightarrow> Some (Inl e, s1\<lparr>st_filter := F, st_buffer := b\<rparr>)
        | Inr (wants_write, notify) \<Rightarrow> do { s \<leftarrow> ctx_read_processed E (stack_read_dst_size (st_buffer (snd ?g))) wants_write notify
              (s1\<lparr>st_filter := F, st_buffer := b\<rparr>); Some (Inr (), s) }) = Some (result, s2)"
      using 2 by (auto simp: ctx_read_result_def st_process_read_buf_def split: bind_splits if_splits)
    moreover have "keeps_as p s1 (s1\<lparr>st_filter := F, st_buffer := b\<rparr>)" for F b by (rule keeps_buffers) simp
    ultimately show ?thesis using keeps_trans [OF _ read_processed_keeps] by (fastforce split: sum.splits bind_splits prod.splits)
  qed
  with 1 have "keeps_as p s s2" by (rule keeps_trans)
  then show ?thesis using s' keeps_trans [OF _ keeps_terminate [OF task_as]] by (auto split: sum.split)
qed

lemma drv_poll_read_keeps:
  assumes "p \<noteq> Reader" and "ctx_poll_read_ready E elapsed cx s = Some (r, s')"
  shows "keeps_as p s s'"
proof -
  obtain s1 where 1: "ctx_shutdown_filters E elapsed s = Some s1" "s' = snd (filter_poll_read_ready (st_filter s1) cx s1)"
    using assms(2) by (auto simp: ctx_poll_read_ready_def split: bind_splits)
  have "keeps_as p s s1"
  proof (cases "flags_is_shutting_down_filters (st_flags s)")
    case False
    then show ?thesis using 1(1) by (simp add: ctx_shutdown_filters_def)
  next
    case True
    then obtain rr F b where p: "stack_process_shutdown (ev_layer E) (st_filter s) (st_buffer s) = Some (rr, F, b)"
      using 1(1) by (auto simp: ctx_shutdown_filters_def st_process_shutdown_def split: bind_splits)
    let ?t = "s\<lparr>st_filter := F, st_buffer := b\<rparr>"
    define s2 where "s2 = ioref_consolidate_write_state E True ?t"
    have t: "keeps_as p s ?t" by (rule keeps_buffers) simp
    have 2: "keeps_as p s s2" unfolding s2_def by (rule keeps_trans [OF t consolidate_keeps_as])
    have "keeps_as p u (u\<lparr>st_shutdown_timeout := x\<rparr>)" for u x by (cases p) (auto intro!: keeps_same)
    with 2 have 3: "keeps_as p s (s2\<lparr>st_shutdown_timeout := x\<rparr>)" for x using keeps_trans by blast
    have "s1 \<in> {io_terminate_connection (Some e) ?t | e. True} \<union>
        {io_filters_stopped s2, s2\<lparr>st_shutdown_timeout := True\<rparr>, io_filters_stopped (s2\<lparr>st_shutdown_timeout := False\<rparr>)}"
      using 1(1) True p by (auto simp: ctx_shutdown_filters_def st_process_shutdown_def Let_def split: sum.splits if_splits simp flip: s2_def)
    then show ?thesis using 3 keeps_trans [OF t keeps_terminate [OF task_as]] keeps_trans [OF 2 party_filters_stopped [OF party_as]]
        keeps_trans [OF 3 party_filters_stopped [OF party_as]] by auto
  qed
  then show ?thesis unfolding 1(2) by (rule keeps_trans [OF _ keeps_poll_ready(1) [OF assms(1)]])
qed

lemma io_do_keeps:
  assumes "io_do E x s = Some s'" and "other_call p x" and "flags_ok (st_flags s)"
  shows "keeps_as p s s'"
proof (cases x)
  case (Drv_Write n res)
  then have r: "not_written (would_return p)" using assms(2) by (cases p) (simp_all add: waits_as_eq)
  obtain s1 where 1: "ctx_with_write_buf E (\<lambda>b. ((), drop n b)) s = Some ((), s1)" "s' = snd (ctx_update_write_status res s1)"
    using assms(1) Drv_Write by (auto simp: drv_write_def split: bind_splits)
  show ?thesis unfolding 1(2) by (rule keeps_trans [OF with_write_buf_keeps [OF 1(1) task_as] update_write_status_keeps [OF task_as r]])
next
  case (Drv_Read xs res)
  then show ?thesis using assms(1) drv_read_keeps by auto
next
  case (Drv_Poll_Read e cx)
  then have "p \<noteq> Reader" using assms(2) by auto
  then show ?thesis using Drv_Poll_Read assms(1) drv_poll_read_keeps by auto
next
  case (Poll_Flush cx full)
  then have "p \<noteq> Dispatcher" using assms(2) by auto
  then show ?thesis using Poll_Flush assms(1) poll_flush_keeps by auto
next
  case (With_Read f)
  then show ?thesis using assms(1) keeps_reads(1) [OF assms(3)] by auto
next
  case (Decode f)
  then show ?thesis using assms(1) keeps_reads(2) [OF assms(3)] by auto
qed (use assms in \<open>cases p; auto simp: ioref_close_def ioref_terminate_def ioref_notify_dispatcher_def io_poll_dispatch_def
    ctx_poll_write_ready_def ctx_stop_def with_write_keeps send_buf_keeps ops_send_keeps party_start_shutdown keeps_terminate keeps_wake
    keeps_notify_timeout keeps_on_disconnect keeps_pause keeps_poll_read_ready keeps_poll_read_notify keeps_poll_shutdown
    keeps_poll_status keeps_register keeps_poll_ready keeps_ctx_shutdown\<close>)+

end

end
