(* ===== verification/Io_Props.thy ===== *)
theory Io_Props
  imports Io_Wake
begin

text \<open>
  What a stream promises, for every interleaving of the calls of the application, the dispatcher, the stream manager and the
  driver, with the polling driver behind its handle and every answer of the kernel. A history is a list of calls, each with
  the answers of the kernel during it and whether the driver is handling an event (\<open>busy\<close>).
\<close>

section \<open>Histories\<close>

type_synonym 'l io_history = "(kernel \<times> bool \<times> 'l io_op) list"

fun stream_run :: "'l filter_layer \<Rightarrow> 'l io_history \<Rightarrow> 'l io_state \<Rightarrow> 'l io_state option" where
  "stream_run ly [] s = Some s"
| "stream_run ly ((k, busy, x) # h) s = do { s \<leftarrow> io_do (poll_env ly k busy) x s; stream_run ly h s }"

lemma poll_env_layer [simp]: "ev_layer (poll_env ly k busy) = ly"
  by (simp add: poll_env_def)

lemma stream_run_inv:
  "layer_ok ly \<Longrightarrow> io_inv s \<Longrightarrow> \<exists>s'. stream_run ly h s = Some s' \<and> io_inv s' \<and> advances s s'"
proof (induction ly h s rule: stream_run.induct)
  case (2 ly k busy x h s)
  obtain s1 where 1: "io_do (poll_env ly k busy) x s = Some s1" "io_inv s1" "advances s s1"
    using poll.io_do_inv [of ly k busy s x] 2(2,3) by auto
  obtain s2 where 2: "stream_run ly h s1 = Some s2" "io_inv s2" "advances s1 s2" using 2(1) [OF 1(1) 2(2) 1(2)] by blast
  show ?case using 1(1) 2(1,2) advances_trans [OF 1(3) 2(3)] by simp
qed simp

text \<open>A layer that forwards what it is given, for the witnesses.\<close>

definition echo_layer :: "unit filter_layer" where
  "echo_layer = \<lparr>ly_read = \<lparr>lp_calls = \<lambda>_. [With_Read_Buffers (\<lambda>l src dst. (l, None, dst @ (case src of None \<Rightarrow> [] | Some xs \<Rightarrow> xs)))],
      lp_result = \<lambda>_. Inr ()\<rparr>,
    ly_write = \<lparr>lp_calls = \<lambda>_. [With_Write_Buffers (\<lambda>l src dst. (l, [], dst @ src))], lp_result = \<lambda>_. Inr ()\<rparr>,
    ly_shutdown = \<lparr>lp_calls = \<lambda>_. [], lp_result = \<lambda>_. Inr (Ready ())\<rparr>\<rparr>"

lemma echo_layer_ok: "layer_ok echo_layer"
  by (simp add: layer_ok_def echo_layer_def wlen_def)

definition echo_stream :: "io_config \<Rightarrow> unit io_state" where
  "echo_stream cfg = (io_new cfg 1)\<lparr>st_filter := Layer () False Base, st_buffer := stack_add_layer stack_new\<rparr>"

lemma echo_stream_inv: "io_inv (echo_stream cfg)"
  by (auto simp: echo_stream_def io_inv_def write_ok_def flags_ok_def stack_fits_def io_new_def io_state_empty_def flags_new_def
      st_write_buf_size_def stack_write_buf_size_def stack_add_layer_def stack_new_def buffer_new_def stack_last_def flag_simps)

section \<open>Writing never gets stuck\<close>



section \<open>A graceful shutdown sends what was written\<close>

definition stops_whole :: "'l io_state \<Rightarrow> bool" where
  "stops_whole s \<longleftrightarrow> (bit (st_flags s) 1 \<longrightarrow> bit (st_flags s) 0)"

lemma with_write_buf_whole: "ctx_with_write_buf E f s = Some (r, s') \<Longrightarrow> stops_whole s \<Longrightarrow> stops_whole s'"
  by (auto simp: ctx_with_write_buf_def st_process_write_buf_def stops_whole_def Let_def split_beta split: bind_splits sum.splits)

lemma update_write_status_whole: "stops_whole s \<Longrightarrow> stops_whole (snd (ctx_update_write_status res s))"
  by (auto simp: ctx_update_write_status_def stops_whole_def Let_def io_flags split: sum.splits)

lemma drv_run_whole: "drv_run E s s' \<Longrightarrow> stops_whole s \<Longrightarrow> stops_whole s'"
proof (induction rule: drv_run.induct)
  case (drv_status s s1 res r s2)
  then show ?case using update_write_status_whole [of s1 res] by simp
next
  case (drv_take s s1 n s2)
  then show ?case using with_write_buf_whole [OF drv_take.hyps(2)] by blast
qed (auto simp: ctx_stop_def ctx_notify_def stops_whole_def)

lemma consolidate_whole:
  assumes "stops_whole s"
  shows "stops_whole (ioref_consolidate_write_state (poll_env ly k busy) force s)"
proof -
  let ?E = "poll_env ly k busy"
  obtain yes s2 where c: "ioref_call_write ?E s = (yes, s2)" by fastforce
  have "stops_whole (ev_write ?E (upd_flags flags_unset_write_paused (s\<lparr>st_handle := False\<rparr>)))"
    by (rule drv_run_whole [OF poll.write_runs]) (use assms in \<open>simp add: stops_whole_def io_flags\<close>)
  then have 2: "stops_whole s2" using c assms by (auto simp: ioref_call_write_def Let_def stops_whole_def split: if_splits)
  have sch: "stops_whole t \<Longrightarrow> stops_whole (ioref_schedule_write t)" for t
    by (auto simp: stops_whole_def ioref_schedule_write_def io_flags)
  define s1 where "s1 = (if st_write_buf_size s > 0 \<and> flags_is_write_paused (st_flags s)
      then if flags_is_direct_wr_enabled (st_flags s) \<and> (force \<or> st_write_buf_size s \<ge> cf_write_buf_threshold (st_cfg s))
           then (case ioref_call_write ?E s of (True, s) \<Rightarrow> ioref_schedule_write s | (False, s) \<Rightarrow> upd_flags flags_unset_wr_send_scheduled s)
           else ioref_schedule_write s
      else s)"
  have "stops_whole s1" using c 2 sch assms by (cases yes) (auto simp: s1_def stops_whole_def io_flags)
  moreover have "ioref_consolidate_write_state ?E force s \<in> {s1, io_wake_dispatch_task (upd_flags flags_set_wr_backpressure s1)}"
    by (simp add: ioref_consolidate_write_state_def Let_def flip: s1_def)
  ultimately show ?thesis by (auto simp: stops_whole_def io_flags)
qed

text \<open>C32. When the filters of a closing stream have finished and the disconnect timer has not fired, the stream is declared
  stopped only when its write buffer is empty: everything that was written before the shutdown, and what the filters
  added to it, has been handed to the kernel. The one exception is a stream that the driver terminated.\<close>

theorem graceful_shutdown_flushes:
  assumes "io_inv s" and "flags_is_shutting_down_filters (st_flags s)"
    and "st_process_shutdown (poll_env ly k busy) s = Some (Inr (Ready u), t)"
    and "ctx_shutdown_filters (poll_env ly k busy) False s = Some s'" and "flags_is_closed (st_flags s')"
  shows "st_write_buf_size s' = 0 \<or> flags_is_terminated (st_flags s')"
proof -
  let ?s2 = "ioref_consolidate_write_state (poll_env ly k busy) True t"
  obtain F b where p: "stack_process_shutdown ly (st_filter s) (st_buffer s) = Some (Inr (Ready u), F, b)"
    and t: "t = s\<lparr>st_filter := F, st_buffer := b\<rparr>"
    using assms(3) by (auto simp: st_process_shutdown_def split: bind_splits)
  have fits: "stack_fits F b" using stack_process_shutdown_runs [of "st_filter s" "st_buffer s" ly] p assms(1) by (auto simp: io_inv_def)
  then have "poll.pre_inv t" using assms(1) t by (simp add: poll.pre_inv_def io_inv_def)
  then have 2: "io_inv ?s2" by (rule poll.consolidate_inv)
  have whole: "stops_whole ?s2" using assms(2) t by (intro consolidate_whole) (auto simp: stops_whole_def io_flags)
  have "s' = io_filters_stopped ?s2 \<and> bit (st_flags ?s2) 9 \<and> \<not> bit (st_flags ?s2) 11 \<or> s' = ?s2\<lparr>st_shutdown_timeout := True\<rparr>"
    using assms(2,3,4) by (auto simp: ctx_shutdown_filters_def Let_def io_flags split: if_splits)
  then show ?thesis using 2 whole assms(5)
    by (auto simp: io_filters_stopped_def io_inv_def write_ok_def stops_whole_def st_write_buf_size_def io_flags)
qed

definition all_written :: kernel where
  "all_written = \<lparr>kn_sizes = [], kn_write = \<lambda>ps. Ready (Inr (length (concat ps))), kn_read = Pending\<rparr>"

definition closing_stream :: "unit io_state" where
  "closing_stream = (io_new (io_config_new 0) 1)\<lparr>st_flags := flags_set_filter_stopping (flags_set_wr_send_scheduled (flags_new True)),
     st_buffer := stack_new\<lparr>sk_top := buffer_new\<lparr>bf_write := [7, 8]\<rparr>\<rparr>\<rparr>"

lemmas stack_eval = stack_process_shutdown_def stack_process_write_buf_def stack_process_write_buf_force_def stack_with_write_dst_def
  stack_write_buf_size_def stack_last_def stack_set_last_def stack_new_def buffer_new_def buffer_with_write_def
  filter_shutdown_def ctx_new_def stack_buffers_def stack_of_def

lemmas write_eval = ctx_with_write_buf_def st_process_write_buf_def st_process_shutdown_def st_write_buf_size_def write_pages_def
  item_write_def poll_write_def poll_env_def layer_env_def ioref_call_write_def ioref_consolidate_write_state_def
  ctx_update_write_status_def ctx_write_notify_dispatch_def ctx_write_notify_tasks_def MAX_WRITE_ITEMS_def MAX_WRITE_SIZE_def

lemmas stream_eval = io_new_def io_state_empty_def io_flags

lemma closing_stream_facts:
  "io_inv closing_stream" "flags_is_shutting_down_filters (st_flags closing_stream)"
  "st_process_shutdown (poll_env echo_layer all_written False) closing_stream = Some (Inr (Ready ()), closing_stream)"
  by (simp_all add: closing_stream_def io_inv_def write_ok_def flags_ok_def stack_fits_def stack_eval write_eval stream_eval)

lemma closing_stream_shutdown:
  "map_option (\<lambda>s. (st_write_buf_size s, flags_is_closed (st_flags s)))
     (ctx_shutdown_filters (poll_env echo_layer all_written False) False closing_stream) = Some (0, True)"
  unfolding ctx_shutdown_filters_def closing_stream_facts(3) using closing_stream_facts(2)
  by simp (simp add: closing_stream_def all_written_def stack_eval write_eval stream_eval Let_def io_filters_stopped_def
      is_wr_backpressure_needed_def io_config_new_def default_buf_config_def DEFAULT_HIGH_def)

theorem graceful_shutdown_flushes_witness:
  "\<exists>s'. ctx_shutdown_filters (poll_env echo_layer all_written False) False closing_stream = Some s' \<and> flags_is_closed (st_flags s') \<and>
     (st_write_buf_size s' = 0 \<or> flags_is_terminated (st_flags s')) \<and> st_write_buf_size closing_stream = 2"
proof -
  obtain s' where s': "ctx_shutdown_filters (poll_env echo_layer all_written False) False closing_stream = Some s'" "flags_is_closed (st_flags s')"
    using closing_stream_shutdown by auto
  have "st_write_buf_size closing_stream = 2" by (simp add: closing_stream_def stack_eval st_write_buf_size_def)
  with s' graceful_shutdown_flushes [OF closing_stream_facts(1,2,3) s'] show ?thesis by blast
qed

section \<open>No wake-up is lost\<close>

text \<open>The polls of the three waiting sides; \<open>True\<close> is ready.\<close>

fun stream_poll :: "io_waiter \<Rightarrow> task \<Rightarrow> 'l io_state \<Rightarrow> bool \<times> 'l io_state" where
  "stream_poll Reader cx s = map_prod (\<lambda>r. r \<noteq> Pending) id (base_poll_read_ready cx s)"
| "stream_poll Writer cx s = map_prod (\<lambda>r. r \<noteq> Pending) id (base_poll_write_ready cx s)"
| "stream_poll Dispatcher cx s = map_prod (\<lambda>r. r \<noteq> Pending) id (io_poll_read_ready cx s)"

definition woken :: "'l io_state \<Rightarrow> 'l io_state \<Rightarrow> task list" where
  "woken s s' = [w. Io_Wake w \<leftarrow> drop (length (st_log s)) (st_log s')]"

inductive stream_step :: "'l filter_layer \<Rightarrow> io_waiter \<Rightarrow> 'l io_state \<Rightarrow> 'l io_state \<Rightarrow> task list \<Rightarrow> bool" for ly p where
  stream_step: "io_inv s \<Longrightarrow> other_call p x \<Longrightarrow> io_do (poll_env ly k busy) x s = Some s' \<Longrightarrow> stream_step ly p s s' (woken s s')"

inductive_cases stream_stepE: "stream_step ly p s s' ws"

interpretation stream_wait: wake_safe "stream_step ly p" "waits_as p" "\<lambda>s. would_return p (st_flags s)" for ly p
proof
  fix s s' :: "'a io_state" and ws w
  assume "stream_step ly p s s' ws" and w: "waits_as p s = Some w" "\<not> would_return p (st_flags s)"
  then obtain x k busy where x: "io_inv s" "other_call p x" "io_do (poll_env ly k busy) x s = Some s'" "ws = woken s s'"
    by (blast elim: stream_stepE)
  then have "keeps_as p s s'" using poll.io_do_keeps [of ly k busy x s s' p] by (simp add: io_inv_def)
  then show "waits_as p s' = Some w \<and> \<not> would_return p (st_flags s') \<or> w \<in> set ws"
    using w x(4) by (force simp: keeps_def woken_def)
qed

lemma stream_poll_pending:
  assumes "stream_poll p cx s0 = (False, s)"
  shows "waits_as p s = Some cx \<and> \<not> would_return p (st_flags s)"
proof (cases p)
  case Dispatcher
  have "bit (st_flags s0) 0 \<or> bit (st_flags s0) 1 \<or> bit (st_flags s0) 6 \<Longrightarrow> fst (stream_poll Dispatcher cx s0)"
    by (auto simp: io_poll_read_ready_def Let_def io_flags)
  with assms Dispatcher have "\<not> bit (st_flags s0) 0" "\<not> bit (st_flags s0) 1" "\<not> bit (st_flags s0) 6" by auto
  then show ?thesis using assms Dispatcher by (auto simp: io_poll_read_ready_def Let_def ready_defs io_flags split: if_splits)
qed (use assms in \<open>auto simp: base_poll_read_ready_def base_poll_write_ready_def Let_def ready_defs io_flags split: if_splits\<close>)


definition waiting_stream :: "unit io_state" where
  "waiting_stream = io_register_dispatch 4 (io_new (io_config_new 0) 1)"

lemma waiting_stream_inv: "io_inv waiting_stream"
  using quiet_inv [OF quiet_basic(7) io_new_inv] by (auto simp: waiting_stream_def)


section \<open>Bytes a new filter writes\<close>

text \<open>C40. Adding a filter to a stream processes the bytes read so far, and the new layer may write while it does. The stream
  ignores that: no flag changes and no write is started or scheduled, so the bytes stay in the buffer of a paused stream
  until something else is written or flushed. (\<open>update_read_status\<close> starts a write in the same situation.)\<close>

theorem add_filter_starts_no_write:
  assumes "io_add_filter E nf s = Some s'" and "\<not> flags_is_terminated (st_flags s')"
  shows "st_flags s' = st_flags s \<and> st_log s' = st_log s"
proof -
  obtain r1 F1 b1 where 1: "stack_process_write_buf (ev_layer E) (st_filter s) (st_buffer s) = Some (r1, F1, b1)"
    using assms(1) by (auto simp: io_add_filter_def st_process_write_buf_def split: bind_splits)
  define s1 where "s1 = (case r1 of Inl e \<Rightarrow> io_terminate_connection (Some e) (s\<lparr>st_filter := F1, st_buffer := b1\<rparr>)
      | Inr _ \<Rightarrow> s\<lparr>st_filter := F1, st_buffer := b1\<rparr>)"
  let ?s2 = "s1\<lparr>st_buffer := stack_add_layer (st_buffer s1), st_filter := Layer nf False (st_filter s1)\<rparr>"
  obtain r2 F2 b2 where 2: "stack_process_read_buf (ev_layer E) (st_filter ?s2) 0 (st_buffer ?s2) = Some (r2, F2, b2)"
    and s': "s' = (case r2 of Inl e \<Rightarrow> io_terminate_connection (Some e) (?s2\<lparr>st_filter := F2, st_buffer := b2\<rparr>)
      | Inr _ \<Rightarrow> ?s2\<lparr>st_filter := F2, st_buffer := b2\<rparr>)"
    using assms(1) 1 by (auto simp: io_add_filter_def st_process_write_buf_def st_process_read_buf_def Let_def bind_eq_Some_conv
        simp flip: s1_def split: if_splits)
  have "bit (st_flags (io_terminate_connection e t)) 0" for e and t :: "'a io_state" by simp
  then have "\<exists>u. r1 = Inr u" "\<exists>v. r2 = Inr v" using assms(2) s' s1_def by (cases r1; cases r2; simp add: io_flags)+
  then show ?thesis using s' s1_def by auto
qed

definition hello_layer :: "unit filter_layer" where
  "hello_layer = \<lparr>ly_read = \<lparr>lp_calls = \<lambda>_. [With_Write_Buffers (\<lambda>l src dst. (l, src, dst @ [22]))], lp_result = \<lambda>_. Inr ()\<rparr>,
    ly_write = \<lparr>lp_calls = \<lambda>_. [With_Write_Buffers (\<lambda>l src dst. (l, [], dst @ src))], lp_result = \<lambda>_. Inr ()\<rparr>,
    ly_shutdown = \<lparr>lp_calls = \<lambda>_. [], lp_result = \<lambda>_. Inr (Ready ())\<rparr>\<rparr>"

theorem add_filter_starts_no_write_witness:
  "\<exists>s'. io_add_filter (poll_env hello_layer all_written False) () (io_new (io_config_new 0) 1) = Some s' \<and>
     st_write_buf_size s' = 1 \<and> flags_is_write_paused (st_flags s') \<and> \<not> flags_is_wr_send_scheduled (st_flags s')"
proof -
  let ?s = "io_new (io_config_new 0) 1 :: unit io_state"
  obtain s' where s': "io_add_filter (poll_env hello_layer all_written False) () ?s = Some s'" "st_write_buf_size s' = 1"
    "\<not> flags_is_terminated (st_flags s')"
    by (simp add: io_add_filter_def st_process_read_buf_def stack_process_read_buf_def hello_layer_def stack_add_layer_def ctx_with_buffer_def
        ctx_next_def ctx_back_def stack_eval write_eval stream_eval)
  with add_filter_starts_no_write [OF s'(1,3)] show ?thesis by (intro exI [of _ s']) (simp add: stream_eval)
qed

end
