(* ===== verification/Io_Manager.thy ===== *)
theory Io_Manager
  imports Io_Sched Io_Timers Io_Props
begin

text \<open>
  The stream manager of \<open>io/ops.rs\<close>: the table of the streams of a thread, their one-second timers and the queue of scheduled
  writes, together with the streams. The table holds references to the streams; here it holds their states. A call on a
  stream leaves its requests in the log of the stream, and they are carried out when it returns. The manager is taken out of
  its cell while it works, so a request that is made then is a panic, the value \<open>None\<close>.
\<close>

section \<open>Data\<close>

record 'l io_manager =
  mg_storage :: "'l io_state option slab"
  mg_timers :: timer_storage
  mg_running :: bool
  mg_ops :: "io_id list"
  mg_effects :: "io_effect list"

text \<open>The first entry is taken by \<open>None\<close>, so that the key of a stream is never zero.\<close>

definition io_manager_new :: "'l io_manager" where
  "io_manager_new = \<lparr>mg_storage = slab_put [] 0 None, mg_timers = timer_storage_new, mg_running = False, mg_ops = [], mg_effects = []\<rparr>"

definition mg_get :: "io_id \<Rightarrow> 'l io_manager \<Rightarrow> 'l io_state option" where
  "mg_get i mg = (case i of None \<Rightarrow> None | Some k \<Rightarrow> (case slab_get (mg_storage mg) k of Some e \<Rightarrow> e | None \<Rightarrow> None))"

definition mg_set :: "nat \<Rightarrow> 'l io_state \<Rightarrow> 'l io_manager \<Rightarrow> 'l io_manager" where
  "mg_set k s mg = mg\<lparr>mg_storage := slab_put (mg_storage mg) k (Some s)\<rparr>"

text \<open>\<open>Io::new\<close> with the key that \<open>vacant_entry\<close> gives, and \<open>unregister\<close>, after which the manager has nothing to do with the stream.\<close>

definition mg_register :: "nat \<Rightarrow> io_config \<Rightarrow> 'l io_manager \<Rightarrow> 'l io_manager" where
  "mg_register k cfg mg = mg_set k (io_new cfg k) mg"

definition mg_unregister :: "io_id \<Rightarrow> 'l io_manager \<Rightarrow> 'l io_manager" where
  "mg_unregister i mg =
     (case i of
        None \<Rightarrow> mg
      | Some k \<Rightarrow> if slab_get (mg_storage mg) k \<noteq> None then mg\<lparr>mg_storage := slab_del (mg_storage mg) k\<rparr> else mg)"

section \<open>Scheduled writes\<close>

text \<open>\<open>mg_running\<close> is set as long as a task that calls \<open>Iops::run\<close> is spawned and has not run.\<close>

definition iops_schedule_write :: "io_id \<Rightarrow> 'l io_manager \<Rightarrow> 'l io_manager" where
  "iops_schedule_write i mg = mg\<lparr>mg_ops := mg_ops mg @ [i], mg_running := True\<rparr>"

fun mg_effect :: "io_effect \<Rightarrow> 'l io_manager \<Rightarrow> 'l io_manager" where
  "mg_effect (Io_Schedule_Write i) mg = iops_schedule_write i mg"
| "mg_effect e mg = mg\<lparr>mg_effects := mg_effects mg @ [e]\<rparr>"

text \<open>The end of a call on stream \<open>k\<close>, outside and inside the manager.\<close>

definition mg_done :: "nat \<Rightarrow> 'l io_state \<Rightarrow> 'l io_manager \<Rightarrow> 'l io_manager" where
  "mg_done k s mg = fold mg_effect (st_log s) (mg_set k (s\<lparr>st_log := []\<rparr>) mg)"

definition schedules :: "'l io_state \<Rightarrow> io_id set" where
  "schedules s = {i. Io_Schedule_Write i \<in> set (st_log s)}"

definition mg_done_inside :: "nat \<Rightarrow> 'l io_state \<Rightarrow> 'l io_manager \<Rightarrow> 'l io_manager option" where
  "mg_done_inside k s mg = (if schedules s \<noteq> {} then None else Some (mg_done k s mg))"

fun iops_each :: "(nat \<Rightarrow> 'l io_env) \<Rightarrow> io_id list \<Rightarrow> 'l io_manager \<Rightarrow> 'l io_manager option" where
  "iops_each E [] mg = Some mg"
| "iops_each E (i # is) mg =
     (case mg_get i mg of
        None \<Rightarrow> iops_each E is mg
      | Some s \<Rightarrow> do { mg \<leftarrow> mg_done_inside (the i) (ioref_ops_send_buf (E (the i)) s) mg; iops_each E is mg })"

definition iops_run :: "(nat \<Rightarrow> 'l io_env) \<Rightarrow> 'l io_manager \<Rightarrow> 'l io_manager option" where
  "iops_run E mg = do {
     let ops = mg_ops mg;
     mg \<leftarrow> iops_each E ops (mg\<lparr>mg_running := False, mg_ops := []\<rparr>);
     Some (mg\<lparr>mg_ops := []\<rparr>) }"

section \<open>Timers\<close>

definition ioref_stop_timer :: "nat \<Rightarrow> 'l io_manager \<Rightarrow> 'l io_manager" where
  "ioref_stop_timer k mg =
     (case mg_get (Some k) mg of
        None \<Rightarrow> mg
      | Some s \<Rightarrow>
          if st_timeout s \<noteq> 0
          then (mg_set k (s\<lparr>st_timeout := 0\<rparr>) mg)\<lparr>mg_timers := ts_unregister (st_timeout s) (st_id s) (mg_timers mg)\<rparr>
          else mg)"

definition ioref_start_timer :: "nat \<Rightarrow> nat \<Rightarrow> nat \<Rightarrow> 'l io_manager \<Rightarrow> 'l io_manager option" where
  "ioref_start_timer elapsed timeout k mg =
     (case mg_get (Some k) mg of
        None \<Rightarrow> Some mg
      | Some s \<Rightarrow>
          if timeout = 0 then Some (ioref_stop_timer k mg)
          else do {
            (hnd, t) \<leftarrow> (if st_timeout s \<noteq> 0 then timer_update (st_timeout s) elapsed timeout (st_id s) (mg_timers mg)
                        else ts_register elapsed timeout (st_id s) (mg_timers mg));
            Some ((mg_set k (s\<lparr>st_timeout := hnd\<rparr>) mg)\<lparr>mg_timers := t\<rparr>) })"

fun mg_notify_each :: "io_id list \<Rightarrow> 'l io_manager \<Rightarrow> 'l io_manager option" where
  "mg_notify_each [] mg = Some mg"
| "mg_notify_each (i # is) mg =
     (case mg_get i mg of
        None \<Rightarrow> mg_notify_each is mg
      | Some s \<Rightarrow> do { mg \<leftarrow> mg_done_inside (the i) (io_notify_timeout s) mg; mg_notify_each is mg })"

definition mg_tick :: "'l io_manager \<Rightarrow> 'l io_manager option" where
  "mg_tick mg = do {
     (fired, t) \<leftarrow> ts_tick (mg_timers mg);
     mg_notify_each fired (mg\<lparr>mg_timers := t\<rparr>) }"

section \<open>Histories\<close>

datatype 'l mg_call =
    Mg_New io_config
  | Mg_Do nat "'l io_op"
  | Mg_Run
  | Mg_Tick
  | Mg_Start nat nat nat
  | Mg_Stop nat
  | Mg_Drop nat

text \<open>\<open>Io::drop\<close> stops the timer, terminates the stream and takes it out of the table.\<close>

definition mg_drop :: "nat \<Rightarrow> 'l io_manager \<Rightarrow> 'l io_manager" where
  "mg_drop k mg =
     (let mg = ioref_stop_timer k mg in
      case mg_get (Some k) mg of
        None \<Rightarrow> mg
      | Some s \<Rightarrow> mg_unregister (st_id s) (mg_done k (io_drop s) mg))"

fun mg_do ::
    "('l io_state option slab \<Rightarrow> nat) \<Rightarrow> (nat \<Rightarrow> 'l io_env) \<Rightarrow> 'l mg_call \<Rightarrow> 'l io_manager \<Rightarrow> 'l io_manager option" where
  "mg_do vac E (Mg_New cfg) mg = Some (mg_register (vac (mg_storage mg)) cfg mg)"
| "mg_do vac E (Mg_Do k x) mg =
     (case mg_get (Some k) mg of
        None \<Rightarrow> Some mg
      | Some s \<Rightarrow> do { s \<leftarrow> io_do (E k) x s; Some (mg_done k s mg) })"
| "mg_do vac E Mg_Run mg = iops_run E mg"
| "mg_do vac E Mg_Tick mg = mg_tick mg"
| "mg_do vac E (Mg_Start elapsed timeout k) mg = ioref_start_timer elapsed timeout k mg"
| "mg_do vac E (Mg_Stop k) mg = Some (ioref_stop_timer k mg)"
| "mg_do vac E (Mg_Drop k) mg = Some (mg_drop k mg)"

fun mg_run ::
    "('l io_state option slab \<Rightarrow> nat) \<Rightarrow> ((nat \<Rightarrow> 'l io_env) \<times> 'l mg_call) list \<Rightarrow> 'l io_manager \<Rightarrow> 'l io_manager option" where
  "mg_run vac [] mg = Some mg"
| "mg_run vac ((E, c) # h) mg = do { mg \<leftarrow> mg_do vac E c mg; mg_run vac h mg }"

section \<open>Calls that request nothing\<close>

lemma schedules_wake [simp]:
  "schedules (io_wake_read_task s) = schedules s" "schedules (io_wake_write_task s) = schedules s" "schedules (io_wake_dispatch_task s) = schedules s"
  "schedules (io_notify_disconnect s) = schedules s"
  by (auto simp: schedules_def io_wake_read_task_def io_wake_write_task_def io_wake_dispatch_task_def io_notify_disconnect_def
      split: prod.splits option.splits)

lemma schedules_updates [simp]:
  "schedules (s\<lparr>st_flags := f\<rparr>) = schedules s" "schedules (s\<lparr>st_buffer := b\<rparr>) = schedules s" "schedules (s\<lparr>st_filter := F\<rparr>) = schedules s"
  "schedules (s\<lparr>st_error := e\<rparr>) = schedules s" "schedules (s\<lparr>st_handle := h\<rparr>) = schedules s"
  by (simp_all add: schedules_def)

lemma schedules_terminate [simp]: "schedules (io_terminate_connection e s) = schedules s" "schedules (ctx_stop e s) = schedules s"
proof -
  have drop: "schedules (x\<lparr>st_handle := h, st_log := st_log x @ [Io_Drop_Handle]\<rparr>) = schedules x" "schedules (x\<lparr>st_handle := h, st_log := st_log x\<rparr>) = schedules x"
    for h and x :: "'a io_state" by (simp_all add: schedules_def)
  show "schedules (io_terminate_connection e s) = schedules s" by (simp add: io_terminate_connection_def Let_def drop)
  then show "schedules (ctx_stop e s) = schedules s" by (simp add: ctx_stop_def)
qed

lemma schedules_write_buf:
  assumes "ctx_with_write_buf E f s = Some (r, s')"
  shows "schedules s' = schedules s"
proof -
  obtain r1 F b where "stack_process_write_buf (ev_layer E) (st_filter s) (st_buffer s) = Some (r1, F, b)"
    using assms by (auto simp: ctx_with_write_buf_def st_process_write_buf_def split: bind_splits)
  then show ?thesis using assms by (cases r1) (auto simp: ctx_with_write_buf_def st_process_write_buf_def split_beta)
qed

lemma schedules_write_status: "ctx_update_write_status res s = (st, s') \<Longrightarrow> schedules s' = schedules s"
  by (auto simp: ctx_update_write_status_def ctx_write_notify_dispatch_def ctx_write_notify_tasks_def Let_def
      split: sum.splits if_splits)

lemma schedules_drv_run: "drv_run E s s' \<Longrightarrow> schedules s' = schedules s"
proof (induction rule: drv_run.induct)
  case (drv_delay s s1)
  then show ?case by (simp add: schedules_def)
qed (simp_all add: schedules_write_buf schedules_write_status ctx_notify_def)

lemma schedules_notify_timeout [simp]: "schedules (io_notify_timeout s) = schedules s"
  by (simp add: io_notify_timeout_def Let_def split_beta)

lemma bit_drv_run:
  assumes "drv_run E s s'" and "flags_ok (st_flags s)" and "stack_fits (st_filter s) (st_buffer s)"
  shows "bit (st_flags s') 11 = bit (st_flags s) 11"
proof -
  have "drv_inv True s" using assms(2,3) by (simp add: drv_inv_def)
  from drv_run_inv [OF assms(1) this] show ?thesis by blast
qed

lemma ops_send_spec:
  assumes "stream_driver E" and "io_inv s"
  shows "schedules (ioref_ops_send_buf E s) = schedules s" and "\<not> bit (st_flags (ioref_ops_send_buf E s)) 11"
proof -
  let ?s1 = "upd_flags flags_unset_wr_send_scheduled s"
  let ?s0 = "upd_flags flags_unset_write_paused (?s1\<lparr>st_handle := False\<rparr>)"
  have d: "drv_run E ?s0 (ev_write E ?s0)" using assms(1) by (simp add: stream_driver_def)
  have "flags_ok (st_flags ?s0)" using assms(2) by (auto simp: io_inv_def flags_ok_def io_flags)
  then have b: "\<not> bit (st_flags (ev_write E ?s0)) 11" using bit_drv_run [OF d] assms(2) by (simp add: io_inv_def io_flags)
  have sc: "schedules (ev_write E ?s0) = schedules s" using schedules_drv_run [OF d] by simp
  define u where "u = snd (ioref_call_write E ?s1)"
  have u: "schedules u = schedules s" "\<not> bit (st_flags u) 11" using b sc by (simp_all add: u_def ioref_call_write_def Let_def io_flags)
  have c: "ioref_call_write E ?s1 = (\<not> flags_is_write_paused (st_flags u), u)" by (simp add: u_def ioref_call_write_def Let_def)
  let ?ok = "\<lambda>x. schedules x = schedules s \<and> \<not> bit (st_flags x) 11"
  have "?ok ?s1" "?ok (io_wake_write_task ?s1)" by (simp_all add: io_flags)
  moreover have "?ok u" "?ok (upd_flags flags_unset_write_paused (io_wake_write_task u))" by (simp_all add: u io_flags)
  moreover have "ioref_ops_send_buf E s = (if bit (st_flags s) 11
      then if bit (st_flags s) 9 then if bit (st_flags u) 9 then u else upd_flags flags_unset_write_paused (io_wake_write_task u)
        else io_wake_write_task ?s1
      else s)" by (cases "bit (st_flags u) 9") (simp_all add: ioref_ops_send_buf_def Let_def c io_flags)
  ultimately show "schedules (ioref_ops_send_buf E s) = schedules s" "\<not> bit (st_flags (ioref_ops_send_buf E s)) 11"
    by (simp_all split del: if_split, simp_all split: if_split)
qed

section \<open>The invariant\<close>

text \<open>A stream that waits for a scheduled write is in the queue, and a task that empties the queue is spawned.\<close>

definition stream_ok :: "io_id list \<Rightarrow> nat \<Rightarrow> 'l io_state \<Rightarrow> bool" where
  "stream_ok q k s \<longleftrightarrow> io_inv s \<and> st_log s = [] \<and> st_id s = Some k \<and> (bit (st_flags s) 11 \<longrightarrow> Some k \<in> set q)"

definition streams_ok :: "io_id list \<Rightarrow> 'l io_manager \<Rightarrow> bool" where
  "streams_ok q mg \<longleftrightarrow> slab_get (mg_storage mg) 0 = Some None \<and> (\<forall>k s. mg_get (Some k) mg = Some s \<longrightarrow> stream_ok q k s)"

definition manager_ok :: "'l io_manager \<Rightarrow> bool" where
  "manager_ok mg \<longleftrightarrow> streams_ok (mg_ops mg) mg \<and> (mg_ops mg \<noteq> [] \<longrightarrow> mg_running mg) \<and> timer_ok (mg_timers mg)"

definition drivers :: "(nat \<Rightarrow> 'l io_env) \<Rightarrow> bool" where
  "drivers E \<longleftrightarrow> (\<forall>k. stream_driver (E k) \<and> layer_ok (ev_layer (E k)))"

definition requests :: "io_effect list \<Rightarrow> io_id list" where
  "requests l = [i. Io_Schedule_Write i \<leftarrow> l]"

lemma requests_simps [simp]:
  "requests [] = []" "requests (Io_Schedule_Write i # l) = i # requests l" "requests (Io_Wake w # l) = requests l"
  "requests (Io_Drop_Handle # l) = requests l" "requests (Io_Delayed_Write # l) = requests l"
  by (simp_all add: requests_def)

lemma set_requests: "set (requests (st_log s)) = schedules s"
  by (auto simp: requests_def schedules_def)

lemma fold_effects:
  "mg_storage (fold mg_effect l mg) = mg_storage mg \<and> mg_timers (fold mg_effect l mg) = mg_timers mg \<and>
   mg_ops (fold mg_effect l mg) = mg_ops mg @ requests l \<and> mg_running (fold mg_effect l mg) = (mg_running mg \<or> requests l \<noteq> [])"
proof (induction l arbitrary: mg)
  case (Cons e l)
  then show ?case by (cases e) (simp_all add: iops_schedule_write_def)
qed simp

lemma mg_done_fields [simp]:
  "mg_storage (mg_done k s mg) = slab_put (mg_storage mg) k (Some (s\<lparr>st_log := []\<rparr>))" "mg_timers (mg_done k s mg) = mg_timers mg"
  "mg_ops (mg_done k s mg) = mg_ops mg @ requests (st_log s)" "mg_running (mg_done k s mg) = (mg_running mg \<or> requests (st_log s) \<noteq> [])"
  by (simp_all add: mg_done_def fold_effects mg_set_def)

lemma mg_get_put:
  "mg_storage mg' = slab_put (mg_storage mg) k (Some s) \<Longrightarrow> mg_get (Some j) mg' = (if j = k then Some s else mg_get (Some j) mg)"
  by (simp add: mg_get_def)

lemma mg_get_done: "mg_get (Some j) (mg_done k s mg) = (if j = k then Some (s\<lparr>st_log := []\<rparr>) else mg_get (Some j) mg)"
  by (simp add: mg_get_def)

lemma mg_get_fields [simp]:
  "mg_get i (mg\<lparr>mg_running := r\<rparr>) = mg_get i mg" "mg_get i (mg\<lparr>mg_ops := q\<rparr>) = mg_get i mg" "mg_get i (mg\<lparr>mg_timers := t\<rparr>) = mg_get i mg"
  by (simp_all add: mg_get_def split: option.split)

lemma streams_okD: "streams_ok q mg \<Longrightarrow> mg_get (Some k) mg = Some s \<Longrightarrow> stream_ok q k s \<and> k \<noteq> 0"
  by (cases "k = 0") (auto simp: streams_ok_def mg_get_def)

lemma streams_ok_put:
  assumes "streams_ok q mg" and "mg_storage mg' = slab_put (mg_storage mg) k (Some s)" and "k \<noteq> 0" and "stream_ok q' k s" and "set q \<subseteq> set q'"
  shows "streams_ok q' mg'"
  using assms by (auto simp: streams_ok_def mg_get_put [OF assms(2)] stream_ok_def split: if_splits)

lemma stream_ok_call:
  assumes "stream_ok q k s" and "io_inv s'" and "sched s s'"
  shows "stream_ok (q @ requests (st_log s')) k (s'\<lparr>st_log := []\<rparr>)"
  using assms set_requests [of s'] by (auto simp: stream_ok_def sched_def schedules_def)

lemma streams_ok_call:
  assumes ok: "streams_ok q mg" and k: "mg_get (Some k) mg = Some s" and "io_inv s'" and "sched s s'"
  shows "streams_ok (q @ requests (st_log s')) (mg_done k s' mg)"
  using streams_okD [OF ok k] by (intro streams_ok_put [OF ok mg_done_fields(1)] stream_ok_call [of q k s] assms) auto

section \<open>The calls keep the invariant\<close>

text \<open>A call inside the manager requests nothing, so the manager is not entered twice.\<close>

lemma done_inside_ok:
  assumes ok: "streams_ok q mg" and k: "mg_get (Some k) mg = Some s" and "io_inv s'" and "sched s s'" and "schedules s' = schedules s"
  shows "mg_done_inside k s' mg = Some (mg_done k s' mg)" and "requests (st_log s') = []"
    and "stream_ok (if bit (st_flags s') 11 then q else q') k (s'\<lparr>st_log := []\<rparr>)"
proof -
  note s = streams_okD [OF ok k]
  then have "schedules s' = {}" using assms(5) by (simp add: stream_ok_def schedules_def)
  then show r: "mg_done_inside k s' mg = Some (mg_done k s' mg)" "requests (st_log s') = []"
    using set_requests [of s'] by (simp_all add: mg_done_inside_def)
  show "stream_ok (if bit (st_flags s') 11 then q else q') k (s'\<lparr>st_log := []\<rparr>)"
    using stream_ok_call [of q k s s'] s assms(3,4) r(2) by (simp add: stream_ok_def)
qed

lemma ops_send_ok:
  assumes "stream_driver E" and "layer_ok (ev_layer E)" and "io_inv s"
  shows "io_inv (ioref_ops_send_buf E s)" and "sched s (ioref_ops_send_buf E s)"
proof -
  obtain s' where "io_do E Ops_Send s = Some s'" "io_inv s'" "advances s s'" using assms by (rule stream_driver.io_do_inv)
  then show "io_inv (ioref_ops_send_buf E s)" by simp
  show "sched s (ioref_ops_send_buf E s)" using assms(1) by (rule stream_driver.sched_writes(3))
qed

lemma iops_each_ok:
  assumes E: "drivers E"
  shows "streams_ok is mg \<Longrightarrow> \<exists>mg'. iops_each E is mg = Some mg' \<and> streams_ok [] mg' \<and> mg_ops mg' = mg_ops mg \<and>
    mg_running mg' = mg_running mg \<and> mg_timers mg' = mg_timers mg"
proof (induction "is" arbitrary: mg)
  case (Cons i "is")
  show ?case
  proof (cases "mg_get i mg")
    case None
    have "Some k \<noteq> i" if "mg_get (Some k) mg = Some s" for k s using that None by auto
    then have "streams_ok is mg" using Cons.prems by (auto simp: streams_ok_def stream_ok_def)
    then show ?thesis using Cons.IH [of mg] None by simp
  next
    case (Some s)
    then obtain k where i: "i = Some k" by (cases i) (auto simp: mg_get_def)
    with Some have k: "mg_get (Some k) mg = Some s" by simp
    note ks = streams_okD [OF Cons.prems k]
    have inv: "io_inv s" using ks by (simp add: stream_ok_def)
    have D: "stream_driver (E k)" "layer_ok (ev_layer (E k))" using E by (simp_all add: drivers_def)
    let ?s = "ioref_ops_send_buf (E k) s"
    note send = ops_send_ok [OF D inv] and spec = ops_send_spec [OF D(1) inv]
    note d = done_inside_ok [OF Cons.prems k send spec(1)]
    have "stream_ok is k (?s\<lparr>st_log := []\<rparr>)" using d(3) [of "is"] spec(2) by simp
    moreover have "stream_ok is j t" if "mg_get (Some j) mg = Some t" "j \<noteq> k" for j t
      using streams_okD [OF Cons.prems that(1)] that(2) i by (auto simp: stream_ok_def)
    ultimately have "streams_ok is (mg_done k ?s mg)"
      using Cons.prems ks by (auto simp: streams_ok_def mg_get_done)
    from Cons.IH [OF this] show ?thesis using k i d(1,2) by auto
  qed
qed simp

lemma iops_run_ok:
  assumes "drivers E" and ok: "manager_ok mg"
  shows "\<exists>mg'. iops_run E mg = Some mg' \<and> manager_ok mg' \<and> mg_ops mg' = [] \<and> mg_timers mg' = mg_timers mg"
proof -
  have "streams_ok (mg_ops mg) (mg\<lparr>mg_running := False, mg_ops := []\<rparr>)" using ok by (simp add: manager_ok_def streams_ok_def)
  from iops_each_ok [OF assms(1) this] obtain mg' where "iops_each E (mg_ops mg) (mg\<lparr>mg_running := False, mg_ops := []\<rparr>) = Some mg'"
    "streams_ok [] mg'" "mg_timers mg' = mg_timers mg" by auto
  then show ?thesis using ok by (simp add: iops_run_def manager_ok_def streams_ok_def)
qed

lemma notify_each_ok:
  "streams_ok (mg_ops mg) mg \<Longrightarrow> \<exists>mg'. mg_notify_each is mg = Some mg' \<and> streams_ok (mg_ops mg') mg' \<and> mg_ops mg' = mg_ops mg \<and>
    mg_running mg' = mg_running mg \<and> mg_timers mg' = mg_timers mg"
proof (induction "is" arbitrary: mg)
  case (Cons i "is")
  show ?case
  proof (cases "mg_get i mg")
    case None
    then show ?thesis using Cons.IH [OF Cons.prems] by simp
  next
    case (Some s)
    then obtain k where i: "i = Some k" by (cases i) (auto simp: mg_get_def)
    with Some have k: "mg_get (Some k) mg = Some s" by simp
    note ks = streams_okD [OF Cons.prems k]
    have inv: "io_inv (io_notify_timeout s)" using ks quiet_inv [OF quiet_notify_timeout] by (auto simp: stream_ok_def)
    note d = done_inside_ok [OF Cons.prems k inv sched_notify_timeout schedules_notify_timeout]
    have "streams_ok (mg_ops (mg_done k (io_notify_timeout s) mg)) (mg_done k (io_notify_timeout s) mg)"
      using streams_ok_call [OF Cons.prems k inv sched_notify_timeout] by simp
    from Cons.IH [OF this] show ?thesis using k i d(1,2) by auto
  qed
qed simp

lemma register_stream_ok:
  fixes mg :: "'a io_manager"
  assumes ok: "manager_ok mg" and k: "slab_get (mg_storage mg) k = None"
  shows "manager_ok (mg_register k cfg mg)"
proof -
  have k0: "k \<noteq> 0"
  proof
    assume "k = 0"
    then show False using ok k by (simp add: manager_ok_def streams_ok_def)
  qed
  have "st_log (io_new cfg k :: 'a io_state) = []" "\<not> bit (st_flags (io_new cfg k :: 'a io_state)) 11" by (simp_all add: io_new_def io_state_empty_def flags_new_def flag_simps)
  moreover have "st_id (io_new cfg k :: 'a io_state) = Some k" using k0 by (simp add: io_new_def)
  ultimately have "stream_ok (mg_ops mg) k (io_new cfg k :: 'a io_state)" by (simp add: stream_ok_def io_new_inv)
  moreover have "streams_ok (mg_ops mg) mg" using ok by (simp add: manager_ok_def)
  ultimately have "streams_ok (mg_ops mg) (mg_register k cfg mg)"
    using k0 streams_ok_put [of "mg_ops mg" mg "mg_register k cfg mg" k] by (simp add: mg_register_def mg_set_def)
  then show ?thesis using ok by (simp add: manager_ok_def mg_register_def mg_set_def)
qed

lemma stream_call_ok:
  assumes E: "drivers E" and ok: "manager_ok mg" and k: "mg_get (Some k) mg = Some s"
  shows "\<exists>s'. io_do (E k) x s = Some s' \<and> manager_ok (mg_done k s' mg)"
proof -
  have D: "stream_driver (E k)" "layer_ok (ev_layer (E k))" using E by (simp_all add: drivers_def)
  have st: "streams_ok (mg_ops mg) mg" using ok by (simp add: manager_ok_def)
  have "io_inv s" using streams_okD [OF st k] by (simp add: stream_ok_def)
  with D obtain s' where s': "io_do (E k) x s = Some s'" "io_inv s'" "advances s s'" by (rule stream_driver.io_do_inv)
  have "sched s s'" using D(1) s'(1) by (rule stream_driver.io_do_sched)
  from streams_ok_call [OF st k s'(2) this] show ?thesis using s'(1) ok by (auto simp: manager_ok_def)
qed

text \<open>The handle of its timer does not matter to the stream.\<close>

lemma set_timeout_ok:
  assumes ok: "manager_ok mg" and k: "mg_get (Some k) mg = Some s" and "timer_ok t"
  shows "manager_ok ((mg_set k (s\<lparr>st_timeout := h\<rparr>) mg)\<lparr>mg_timers := t\<rparr>)"
proof -
  have st: "streams_ok (mg_ops mg) mg" using ok by (simp add: manager_ok_def)
  note sk = streams_okD [OF st k]
  then have "stream_ok (mg_ops mg) k (s\<lparr>st_timeout := h\<rparr>)" by (simp add: stream_ok_def)
  then have "streams_ok (mg_ops mg) ((mg_set k (s\<lparr>st_timeout := h\<rparr>) mg)\<lparr>mg_timers := t\<rparr>)"
    using sk by (intro streams_ok_put [OF st, of _ k "s\<lparr>st_timeout := h\<rparr>"]) (simp_all add: mg_set_def)
  then show ?thesis using ok assms(3) by (simp add: manager_ok_def mg_set_def)
qed

lemma stop_timer_ok:
  assumes ok: "manager_ok mg"
  shows "manager_ok (ioref_stop_timer k mg)" and "ts_current (mg_timers (ioref_stop_timer k mg)) = ts_current (mg_timers mg)"
proof -
  have t: "timer_ok (mg_timers mg)" using ok by (simp add: manager_ok_def)
  show "manager_ok (ioref_stop_timer k mg)"
    using ok set_timeout_ok [OF ok _ unregister_ok(1) [OF t]] by (simp add: ioref_stop_timer_def split: option.split)
  show "ts_current (mg_timers (ioref_stop_timer k mg)) = ts_current (mg_timers mg)"
    using unregister_ok(3) [OF t] by (simp add: ioref_stop_timer_def split: option.split)
qed

lemma start_timer_ok:
  assumes ok: "manager_ok mg" and B: "ts_current (mg_timers mg) \<le> B" "elapsed \<le> B" "timeout < 2 ^ 16" "B + 2 ^ 16 < 2 ^ 32"
  shows "\<exists>mg'. ioref_start_timer elapsed timeout k mg = Some mg' \<and> manager_ok mg' \<and> ts_current (mg_timers mg') \<le> B"
proof (cases "mg_get (Some k) mg")
  case None
  then show ?thesis using ok B(1) by (simp add: ioref_start_timer_def)
next
  case (Some s)
  show ?thesis
  proof (cases "timeout = 0")
    case True
    then show ?thesis using Some stop_timer_ok [OF ok] B(1) by (simp add: ioref_start_timer_def)
  next
    case False
    have t: "timer_ok (mg_timers mg)" using ok by (simp add: manager_ok_def)
    have e: "elapsed mod 2 ^ 32 \<le> B" using B(2) by (metis le_trans mod_less_eq_dividend)
    obtain hnd t' where h: "(if st_timeout s \<noteq> 0 then timer_update (st_timeout s) elapsed timeout (st_id s) (mg_timers mg)
        else ts_register elapsed timeout (st_id s) (mg_timers mg)) = Some (hnd, t')" and t': "timer_ok t'" "ts_current t' \<le> B"
    proof (cases "st_timeout s = 0")
      case True
      obtain hnd t' where r: "ts_register elapsed timeout (st_id s) (mg_timers mg) = Some (hnd, t')" using register_returns [OF B] by blast
      show thesis by (rule that [of hnd t']) (use True r register_spec(1,4) [OF t r] B(1) e in \<open>simp_all\<close>)
    next
      case False
      obtain hnd t' where u: "timer_update (st_timeout s) elapsed timeout (st_id s) (mg_timers mg) = Some (hnd, t')" using update_returns [OF B] by blast
      show thesis by (rule that [of hnd t']) (use False u update_spec(1,4) [OF t u] B(1) e in \<open>auto\<close>)
    qed
    show ?thesis using Some False h t' set_timeout_ok [OF ok Some t'(1)] by (simp add: ioref_start_timer_def)
  qed
qed

lemma drop_ok:
  assumes ok: "manager_ok mg"
  shows "manager_ok (mg_drop k mg)" and "ts_current (mg_timers (mg_drop k mg)) = ts_current (mg_timers mg)"
proof -
  let ?mg = "ioref_stop_timer k mg"
  note st = stop_timer_ok [OF ok, of k]
  have "manager_ok (mg_drop k mg) \<and> mg_timers (mg_drop k mg) = mg_timers ?mg"
  proof (cases "mg_get (Some k) ?mg")
    case None
    then show ?thesis using st by (simp add: mg_drop_def Let_def)
  next
    case (Some s)
    have ss: "streams_ok (mg_ops ?mg) ?mg" using st(1) by (simp add: manager_ok_def)
    note sk = streams_okD [OF ss Some]
    let ?d = "mg_done k (io_drop s) ?mg"
    have dd: "mg_drop k mg = ?d\<lparr>mg_storage := slab_del (mg_storage ?d) k\<rparr>"
      using sk Some by (simp add: mg_drop_def Let_def mg_unregister_def stream_ok_def)
    have "mg_get (Some j) (mg_drop k mg) = (if j = k then None else mg_get (Some j) ?mg)" for j
      unfolding dd by (simp add: mg_get_def)
    then have "streams_ok (mg_ops (mg_drop k mg)) (mg_drop k mg)"
      using ss sk by (auto simp: streams_ok_def stream_ok_def dd split: if_splits)
    then show ?thesis using st(1) by (auto simp: manager_ok_def dd)
  qed
  then show "manager_ok (mg_drop k mg)" "ts_current (mg_timers (mg_drop k mg)) = ts_current (mg_timers mg)" using st(2) by simp_all
qed

lemma mg_tick_ok:
  assumes ok: "manager_ok mg" and "ts_current (mg_timers mg) \<le> B" and "B + 2 ^ 16 < 2 ^ 32"
  shows "\<exists>mg'. mg_tick mg = Some mg' \<and> manager_ok mg' \<and> ts_current (mg_timers mg') \<le> Suc B"
proof -
  have t: "timer_ok (mg_timers mg)" using ok by (simp add: manager_ok_def)
  obtain fired t' where tk: "ts_tick (mg_timers mg) = Some (fired, t')" "timer_ok t'" "ts_current t' \<le> Suc B"
    using timer_do_returns [OF t assms(2) _ assms(3), of Tm_Tick] by (auto simp: ticks_def)
  have "streams_ok (mg_ops (mg\<lparr>mg_timers := t'\<rparr>)) (mg\<lparr>mg_timers := t'\<rparr>)" using ok by (simp add: manager_ok_def streams_ok_def)
  from notify_each_ok [OF this, of fired] show ?thesis using tk ok by (auto simp: mg_tick_def manager_ok_def)
qed

section \<open>Scheduled writes are performed\<close>

fun mg_fits :: "nat \<Rightarrow> 'l mg_call \<Rightarrow> bool" where
  "mg_fits B (Mg_Start elapsed timeout k) \<longleftrightarrow> elapsed \<le> B \<and> timeout < 2 ^ 16"
| "mg_fits B _ = True"

fun tick_of :: "'l mg_call \<Rightarrow> nat" where
  "tick_of Mg_Tick = 1"
| "tick_of _ = 0"

definition mg_ticks :: "((nat \<Rightarrow> 'l io_env) \<times> 'l mg_call) list \<Rightarrow> nat" where
  "mg_ticks h = sum_list (map (tick_of \<circ> snd) h)"

lemma mg_do_ok:
  assumes E: "drivers E" and vac: "\<forall>S. slab_get S (vac S) = None" and ok: "manager_ok mg" and B: "ts_current (mg_timers mg) \<le> B" "mg_fits B c" "B + 2 ^ 16 < 2 ^ 32"
  shows "\<exists>mg'. mg_do vac E c mg = Some mg' \<and> manager_ok mg' \<and> ts_current (mg_timers mg') \<le> B + tick_of c"
proof (cases c)
  case (Mg_New cfg)
  then show ?thesis using register_stream_ok [OF ok] vac B(1) by (simp add: mg_register_def mg_set_def)
next
  case (Mg_Do k x)
  show ?thesis
  proof (cases "mg_get (Some k) mg")
    case None
    then show ?thesis using Mg_Do ok B(1) by simp
  next
    case (Some s)
    then show ?thesis using Mg_Do stream_call_ok [OF E ok Some, of x] B(1) by auto
  qed
next
  case Mg_Run
  then show ?thesis using iops_run_ok [OF E ok] B(1) by fastforce
next
  case Mg_Tick
  then show ?thesis using mg_tick_ok [OF ok B(1,3)] by simp
next
  case (Mg_Start elapsed timeout k)
  then show ?thesis using start_timer_ok [OF ok B(1) _ _ B(3), of elapsed timeout k] B(2) by simp
next
  case (Mg_Stop k)
  then show ?thesis using stop_timer_ok [OF ok, of k] B(1) by simp
next
  case (Mg_Drop k)
  then show ?thesis using drop_ok [OF ok, of k] B(1) by simp
qed

lemma mg_fits_mono: "mg_fits B c \<Longrightarrow> B \<le> B' \<Longrightarrow> mg_fits B' c"
  by (cases c) auto

lemma mg_run_ok:
  assumes "\<forall>(E, c) \<in> set h. drivers E \<and> mg_fits B c" and vac: "\<forall>S. slab_get S (vac S) = None" and "manager_ok mg"
    and "ts_current (mg_timers mg) \<le> B" and "B + mg_ticks h + 2 ^ 16 < 2 ^ 32"
  shows "\<exists>mg'. mg_run vac h mg = Some mg' \<and> manager_ok mg'"
  using assms(1,3,4,5)
proof (induction h arbitrary: mg B)
  case (Cons x h)
  obtain E c where x: "x = (E, c)" by fastforce
  let ?B = "B + tick_of c"
  have b: "B + 2 ^ 16 < 2 ^ 32" "?B + mg_ticks h + 2 ^ 16 < 2 ^ 32" using Cons.prems(4) x by (simp_all add: mg_ticks_def)
  have d: "drivers E" "mg_fits B c" using Cons.prems(1) x by auto
  obtain mg1 where 1: "mg_do vac E c mg = Some mg1" "manager_ok mg1" "ts_current (mg_timers mg1) \<le> ?B"
    using mg_do_ok [OF d(1) vac Cons.prems(2,3) d(2) b(1)] by blast
  have "\<forall>(E, c) \<in> set h. drivers E \<and> mg_fits ?B c" using Cons.prems(1) mg_fits_mono [of B _ ?B] by fastforce
  from Cons.IH [OF this 1(2,3) b(2)] show ?case using 1(1) x by simp
qed simp

lemma manager_new_ok: "manager_ok io_manager_new"
  by (auto simp: io_manager_new_def manager_ok_def streams_ok_def timer_storage_new_def timer_ok_def bt_ok_def mg_get_def split: if_splits)


definition poll_drivers :: "nat \<Rightarrow> unit io_env" where
  "poll_drivers = (\<lambda>k. poll_env echo_layer all_written False)"

lemma poll_drivers_ok: "drivers poll_drivers"
  using poll.stream_driver_axioms echo_layer_ok by (simp add: drivers_def poll_drivers_def)


end
