(* ===== verification/Poll_Stream.thy ===== *)
theory Poll_Stream
  imports Poll_Item
begin

text \<open>
  The table of streams of the polling driver, \<open>StreamOps\<close> of \<open>net/polling/stream.rs\<close>, and the task of a stream, \<open>run\<close> of
  \<open>net/polling/io.rs\<close>. A stream has two controls: \<open>StreamCtl\<close>, owned by its task, and \<open>WeakStreamCtl\<close>, owned by the handle in
  the stream state. Its entry is removed and its socket closed when both have been dropped. While the driver handles an
  event the table is taken, and a control that is dropped or written through then goes to the queue \<open>delayed_feed\<close>.

  The effects that a call leaves in the log of a stream are collected when the call ends: a dropped handle is a dropped
  \<open>WeakStreamCtl\<close>, a delayed write an entry of the queue, and the rest (wake-ups, scheduled writes) leaves the driver.
  \<open>None\<close> is a panic: an index of a vacant entry of the table.
\<close>

section \<open>Data\<close>

datatype id_type = Id_Stream nat | Id_Weak nat | Id_Write nat

datatype api_call = Api_Attach nat nat | Api_Detach nat nat | Api_Modify nat nat poll_event | Sys_Close nat

record 'l stream_ops =
  so_streams :: "'l stream_item slab"
  so_delayed :: "id_type list"
  so_calls :: "api_call list"
  so_effects :: "io_effect list"

definition stream_ops_new :: "'l stream_ops" where
  "stream_ops_new = \<lparr>so_streams = [], so_delayed = [], so_calls = [], so_effects = []\<rparr>"

text \<open>The key is the one \<open>Slab::insert\<close> returns.\<close>

definition ops_register :: "nat \<Rightarrow> nat \<Rightarrow> 'l io_state \<Rightarrow> 'l stream_ops \<Rightarrow> 'l stream_ops" where
  "ops_register key fd ctx tb =
     tb\<lparr>so_streams := slab_put (so_streams tb) key \<lparr>si_fd = fd, si_flags = 0, si_ctx = ctx\<rparr>,
       so_calls := so_calls tb @ [Api_Attach fd key]\<rparr>"

fun feed_of :: "nat \<Rightarrow> io_effect \<Rightarrow> id_type list" where
  "feed_of i Io_Drop_Handle = [Id_Weak i]"
| "feed_of i Io_Delayed_Write = [Id_Write i]"
| "feed_of i _ = []"

text \<open>An entry is put back after the driver worked on it, the table being taken.\<close>

definition put_item :: "nat \<Rightarrow> 'l stream_item \<Rightarrow> 'l stream_ops \<Rightarrow> 'l stream_ops" where
  "put_item i it tb =
     (let log = st_log (si_ctx it) in
      tb\<lparr>so_streams := slab_put (so_streams tb) i (it\<lparr>si_ctx := (si_ctx it)\<lparr>st_log := []\<rparr>\<rparr>),
        so_delayed := so_delayed tb @ concat (map (feed_of i) log), so_effects := so_effects tb @ log\<rparr>)"

section \<open>Events\<close>

definition event_none :: poll_event where
  "event_none = \<lparr>pe_readable = False, pe_writable = False, pe_interrupt = True\<rparr>"

definition item_arm :: "nat \<Rightarrow> poll_event \<Rightarrow> 'l stream_item \<Rightarrow> 'l stream_item \<times> api_call list" where
  "item_arm i ev it =
     (if bit (si_flags it) 2 = pe_readable ev \<and> bit (si_flags it) 3 = pe_writable ev then (it, [])
      else (it\<lparr>si_flags := fl_insert (fl_remove (si_flags it) (ARM_RD OR ARM_WR))
                ((if pe_readable ev then ARM_RD else 0) OR (if pe_writable ev then ARM_WR else 0))\<rparr>,
            [Api_Modify (si_fd it) i ev]))"

text \<open>A read or a write that leaves the stream interested in more sets its flag; the answer is whether it does.\<close>

definition item_do_read :: "'l io_env \<Rightarrow> kernel \<Rightarrow> 'l stream_item \<Rightarrow> (bool \<times> 'l stream_item) option" where
  "item_do_read E k it = do {
     (st, s) \<leftarrow> item_read E k (si_ctx it);
     Some (if st = Task_Io then (True, it\<lparr>si_ctx := s, si_flags := fl_insert (si_flags it) FL_RD\<rparr>)
           else (False, it\<lparr>si_ctx := s, si_flags := fl_remove (si_flags it) FL_RD\<rparr>)) }"

definition item_do_write :: "'l io_env \<Rightarrow> kernel \<Rightarrow> 'l stream_item \<Rightarrow> (bool \<times> 'l stream_item) option" where
  "item_do_write E k it = do {
     (st, s) \<leftarrow> item_write E k (si_ctx it);
     Some (if st = Task_Io then (True, it\<lparr>si_ctx := s, si_flags := fl_insert (si_flags it) FL_WR\<rparr>)
           else (False, it\<lparr>si_ctx := s, si_flags := fl_remove (si_flags it) FL_WR\<rparr>)) }"

definition item_event :: "'l filter_layer \<Rightarrow> kernel \<Rightarrow> nat \<Rightarrow> poll_event \<Rightarrow> 'l stream_item \<Rightarrow> ('l stream_item \<times> api_call list) option" where
  "item_event ly k i ev it = do {
     (rd, it) \<leftarrow> (if pe_readable ev then item_do_read (poll_env ly k True) k it else Some (bit (si_flags it) 0, it));
     (wr, it) \<leftarrow> (if pe_writable ev then item_do_write (poll_env ly k True) k it else Some (bit (si_flags it) 1, it));
     Some (if pe_interrupt ev then (it\<lparr>si_ctx := ctx_stop None (si_ctx it)\<rparr>, [])
           else item_arm i (event_none\<lparr>pe_readable := rd, pe_writable := wr\<rparr>) it) }"

definition ops_event :: "'l filter_layer \<Rightarrow> kernel \<Rightarrow> nat \<Rightarrow> poll_event \<Rightarrow> 'l stream_ops \<Rightarrow> 'l stream_ops option" where
  "ops_event ly k i ev tb =
     (case slab_get (so_streams tb) i of
        None \<Rightarrow> Some tb
      | Some it \<Rightarrow> do { (it, cs) \<leftarrow> item_event ly k i ev it; Some (put_item i it (tb\<lparr>so_calls := so_calls tb @ cs\<rparr>)) })"

definition ops_error :: "nat \<Rightarrow> io_error \<Rightarrow> 'l stream_ops \<Rightarrow> 'l stream_ops" where
  "ops_error i err tb =
     (case slab_get (so_streams tb) i of
        None \<Rightarrow> tb
      | Some it \<Rightarrow> if ctx_is_stopped (si_ctx it) then tb else put_item i (it\<lparr>si_ctx := ctx_stop (Some err) (si_ctx it)\<rparr>) tb)"

text \<open>Per direction: whether the poller's interest changes, the interest wanted, and the item.\<close>

definition interest_read :: "'l io_env \<Rightarrow> kernel \<Rightarrow> bool \<Rightarrow> 'l stream_item \<Rightarrow> (bool \<times> bool \<times> 'l stream_item) option" where
  "interest_read E k rd it =
     (if rd
      then if bit (si_flags it) 0 then Some (False, True, it)
           else do { (st, s) \<leftarrow> item_read E k (si_ctx it);
                     Some (if st = Task_Io then (True, True, it\<lparr>si_ctx := s, si_flags := fl_insert (si_flags it) FL_RD\<rparr>)
                           else (False, False, it\<lparr>si_ctx := s\<rparr>)) }
      else Some (bit (si_flags it) 0, False, it\<lparr>si_flags := fl_remove (si_flags it) FL_RD\<rparr>))"

definition interest_write :: "'l io_env \<Rightarrow> kernel \<Rightarrow> bool \<Rightarrow> 'l stream_item \<Rightarrow> (bool \<times> bool \<times> 'l stream_item) option" where
  "interest_write E k wr it =
     (if wr
      then if bit (si_flags it) 1 then Some (False, True, it)
           else do { (st, s) \<leftarrow> item_write E k (si_ctx it);
                     Some (if st = Task_Io then (True, True, it\<lparr>si_ctx := s, si_flags := fl_insert (si_flags it) FL_WR\<rparr>)
                           else (False, False, it\<lparr>si_ctx := s\<rparr>)) }
      else Some (bit (si_flags it) 1, False, it\<lparr>si_flags := fl_remove (si_flags it) FL_WR\<rparr>))"

definition item_interest ::
    "'l filter_layer \<Rightarrow> kernel \<Rightarrow> nat \<Rightarrow> bool \<Rightarrow> bool \<Rightarrow> 'l stream_item \<Rightarrow> ('l stream_item \<times> api_call list) option" where
  "item_interest ly k i rd wr it = do {
     (want_rd, r, it) \<leftarrow> interest_read (poll_env ly k True) k rd it;
     (want_wr, w, it) \<leftarrow> interest_write (poll_env ly k True) k wr it;
     Some (if want_rd \<or> want_wr then item_arm i (event_none\<lparr>pe_readable := r, pe_writable := w\<rparr>) it else (it, [])) }"

definition ops_interest :: "'l filter_layer \<Rightarrow> kernel \<Rightarrow> nat \<Rightarrow> bool \<Rightarrow> bool \<Rightarrow> 'l stream_ops \<Rightarrow> 'l stream_ops option" where
  "ops_interest ly k i rd wr tb = do {
     it \<leftarrow> slab_get (so_streams tb) i;
     (it, cs) \<leftarrow> item_interest ly k i rd wr it;
     Some (put_item i it (tb\<lparr>so_calls := so_calls tb @ cs\<rparr>)) }"

section \<open>Dropping the controls\<close>

definition drop_stream :: "nat \<Rightarrow> 'l stream_ops \<Rightarrow> 'l stream_ops option" where
  "drop_stream i tb = do {
     it \<leftarrow> slab_get (so_streams tb) i;
     let s = (if ctx_is_stopped (si_ctx it) then si_ctx it else ctx_stop None (si_ctx it));
     let tb = put_item i (it\<lparr>si_ctx := s, si_flags := fl_insert (si_flags it) DROPPED_PRI\<rparr>) (tb\<lparr>so_calls := so_calls tb @ [Api_Detach (si_fd it) i]\<rparr>);
     Some (if bit (si_flags it) 5
           then tb\<lparr>so_streams := slab_del (so_streams tb) i, so_calls := so_calls tb @ [Sys_Close (si_fd it)]\<rparr>
           else tb) }"

definition drop_weak_stream :: "nat \<Rightarrow> 'l stream_ops \<Rightarrow> 'l stream_ops option" where
  "drop_weak_stream i tb = do {
     it \<leftarrow> slab_get (so_streams tb) i;
     Some (if bit (si_flags it) 4
           then tb\<lparr>so_streams := slab_del (so_streams tb) i, so_calls := so_calls tb @ [Sys_Close (si_fd it)]\<rparr>
           else put_item i (it\<lparr>si_flags := fl_insert (si_flags it) DROPPED_SEC\<rparr>) tb) }"

definition stream_ctl_drop :: "bool \<Rightarrow> nat \<Rightarrow> 'l stream_ops \<Rightarrow> 'l stream_ops option" where
  "stream_ctl_drop busy i tb = (if busy then Some (tb\<lparr>so_delayed := so_delayed tb @ [Id_Stream i]\<rparr>) else drop_stream i tb)"

section \<open>The delayed queue\<close>

definition feed_one :: "'l filter_layer \<Rightarrow> (nat \<Rightarrow> kernel) \<Rightarrow> id_type \<Rightarrow> 'l stream_ops \<Rightarrow> 'l stream_ops option" where
  "feed_one ly ks d tb =
     (case d of
        Id_Stream i \<Rightarrow> drop_stream i tb
      | Id_Weak i \<Rightarrow> drop_weak_stream i tb
      | Id_Write i \<Rightarrow>
          (case slab_get (so_streams tb) i of
             Some it \<Rightarrow> if ctx_is_stopped (si_ctx it) then Some tb
                        else do { (_, s) \<leftarrow> item_write (poll_env ly (ks i) True) (ks i) (si_ctx it); Some (put_item i (it\<lparr>si_ctx := s\<rparr>) tb) }
           | None \<Rightarrow> Some tb))"

partial_function (option) check_delayed_feed :: "'l filter_layer \<Rightarrow> (nat \<Rightarrow> kernel) \<Rightarrow> 'l stream_ops \<Rightarrow> 'l stream_ops option" where
  "check_delayed_feed ly ks tb =
     (case so_delayed tb of
        [] \<Rightarrow> Some tb
      | d # ds \<Rightarrow> do { tb \<leftarrow> feed_one ly ks d (tb\<lparr>so_delayed := ds\<rparr>); check_delayed_feed ly ks tb })"

section \<open>The table as a stream of calls\<close>

text \<open>
  A call of the application on a stream, with the table free: a write goes straight to the socket and a dropped handle
  drops its control at once. A stream that has left the table has nothing to do with the driver any more.
\<close>

definition app_put :: "nat \<Rightarrow> 'l stream_item \<Rightarrow> 'l stream_ops \<Rightarrow> 'l stream_ops option" where
  "app_put i it tb =
     (let log = st_log (si_ctx it);
          tb = tb\<lparr>so_streams := slab_put (so_streams tb) i (it\<lparr>si_ctx := (si_ctx it)\<lparr>st_log := []\<rparr>\<rparr>), so_effects := so_effects tb @ log\<rparr>
      in if Io_Drop_Handle \<in> set log then drop_weak_stream i tb else Some tb)"

definition ops_app :: "'l filter_layer \<Rightarrow> kernel \<Rightarrow> nat \<Rightarrow> 'l io_op \<Rightarrow> 'l stream_ops \<Rightarrow> 'l stream_ops option" where
  "ops_app ly k i x tb =
     (case slab_get (so_streams tb) i of
        None \<Rightarrow> Some tb
      | Some it \<Rightarrow> do { s \<leftarrow> io_do (poll_env ly k False) x (si_ctx it); app_put i (it\<lparr>si_ctx := s\<rparr>) tb })"

section \<open>The task of a stream\<close>

datatype run_state = Run_Poll | Run_Close bool | Run_Sys | Run_Done

record 'l poll_world =
  pw_ops :: "'l stream_ops"
  pw_task :: "nat \<Rightarrow> run_state"

text \<open>One poll of the first loop of \<open>run\<close>: the readiness of both sides, the poll interest, and the next state.\<close>

definition run_readiness :: "'l filter_layer \<Rightarrow> kernel \<Rightarrow> bool \<Rightarrow> task \<Rightarrow> nat \<Rightarrow> 'l stream_ops \<Rightarrow> (run_state \<times> 'l stream_ops) option" where
  "run_readiness ly k elapsed cx i tb = do {
     it \<leftarrow> slab_get (so_streams tb) i;
     (r, s) \<leftarrow> ctx_poll_read_ready (poll_env ly k False) elapsed cx (si_ctx it);
     let (w, s) = ctx_poll_write_ready cx s;
     tb \<leftarrow> app_put i (it\<lparr>si_ctx := s\<rparr>) tb;
     let waits = (\<lambda>p. p = Pending \<or> p = Ready Rdy_Ready);
     tb \<leftarrow> (if waits r \<or> waits w then ops_interest ly k i (r = Ready Rdy_Ready) (w = Ready Rdy_Ready) tb else Some tb);
     it \<leftarrow> slab_get (so_streams tb) i;
     Some (if waits r \<and> waits w then Run_Poll
           else if ctx_is_stopped (si_ctx it) then Run_Sys
           else Run_Close (w = Ready Rdy_Shutdown), tb) }"

definition run_close :: "'l filter_layer \<Rightarrow> kernel \<Rightarrow> bool \<Rightarrow> task \<Rightarrow> nat \<Rightarrow> 'l stream_ops \<Rightarrow> (run_state \<times> 'l stream_ops) option" where
  "run_close ly k flush cx i tb = do {
     tb \<leftarrow> ops_interest ly k i True True tb;
     it \<leftarrow> slab_get (so_streams tb) i;
     let (p, s) = ctx_shutdown flush cx (si_ctx it);
     tb \<leftarrow> app_put i (it\<lparr>si_ctx := s\<rparr>) tb;
     Some (if p = Pending then Run_Close flush else Run_Sys, tb) }"

text \<open>
  \<open>StreamCtl::shutdown\<close> owns the control, so the control is dropped when it returns, before \<open>run\<close> looks at the stream
  again. An entry that is gone by then was stopped by the drop.
\<close>

definition run_finish :: "io_error option \<Rightarrow> nat \<Rightarrow> 'l stream_ops \<Rightarrow> (run_state \<times> 'l stream_ops) option" where
  "run_finish res i tb = do {
     tb \<leftarrow> stream_ctl_drop False i tb;
     tb \<leftarrow> (case slab_get (so_streams tb) i of
              None \<Rightarrow> Some tb
            | Some it \<Rightarrow> if ctx_is_stopped (si_ctx it) then Some tb
                         else app_put i (it\<lparr>si_ctx := ctx_stop res (si_ctx it)\<rparr>) tb);
     Some (Run_Done, tb) }"

definition run_task ::
    "'l filter_layer \<Rightarrow> kernel \<Rightarrow> bool \<Rightarrow> io_error option \<Rightarrow> task \<Rightarrow> nat \<Rightarrow> 'l poll_world \<Rightarrow> 'l poll_world option" where
  "run_task ly k elapsed res cx i w = do {
     (t, tb) \<leftarrow> (case pw_task w i of
         Run_Poll \<Rightarrow> run_readiness ly k elapsed cx i (pw_ops w)
       | Run_Close flush \<Rightarrow> run_close ly k flush cx i (pw_ops w)
       | Run_Sys \<Rightarrow> run_finish res i (pw_ops w)
       | Run_Done \<Rightarrow> Some (Run_Done, pw_ops w));
     Some (w\<lparr>pw_ops := tb, pw_task := (pw_task w)(i := t)\<rparr>) }"

section \<open>Histories of the driver\<close>

datatype 'l world_call =
    W_Register nat io_config nat
  | W_Event nat poll_event
  | W_Error nat io_error
  | W_Tick
  | W_App nat "'l io_op"
  | W_Task nat task bool "io_error option"
  | W_Cancel nat bool

text \<open>\<open>vac\<close> is the key \<open>Slab::insert\<close> chooses, \<open>sid\<close> the key of the stream manager; \<open>W_Cancel\<close> drops the task of a stream, inside or outside an event.\<close>

fun world_do ::
    "('l stream_item slab \<Rightarrow> nat) \<Rightarrow> 'l filter_layer \<Rightarrow> (nat \<Rightarrow> kernel) \<Rightarrow> 'l world_call \<Rightarrow> 'l poll_world \<Rightarrow> 'l poll_world option" where
  "world_do vac ly ks (W_Register fd cfg sid) w =
     (let key = vac (so_streams (pw_ops w))
      in Some (w\<lparr>pw_ops := ops_register key fd (io_new cfg sid) (pw_ops w), pw_task := (pw_task w)(key := Run_Poll)\<rparr>))"
| "world_do vac ly ks (W_Event i ev) w = map_option (\<lambda>tb. w\<lparr>pw_ops := tb\<rparr>) (ops_event ly (ks i) i ev (pw_ops w))"
| "world_do vac ly ks (W_Error i e) w = Some (w\<lparr>pw_ops := ops_error i e (pw_ops w)\<rparr>)"
| "world_do vac ly ks W_Tick w = map_option (\<lambda>tb. w\<lparr>pw_ops := tb\<rparr>) (check_delayed_feed ly ks (pw_ops w))"
| "world_do vac ly ks (W_App i x) w = map_option (\<lambda>tb. w\<lparr>pw_ops := tb\<rparr>) (ops_app ly (ks i) i x (pw_ops w))"
| "world_do vac ly ks (W_Task i cx elapsed res) w = run_task ly (ks i) elapsed res cx i w"
| "world_do vac ly ks (W_Cancel i busy) w =
     (if pw_task w i = Run_Done then Some w
      else map_option (\<lambda>tb. w\<lparr>pw_ops := tb, pw_task := (pw_task w)(i := Run_Done)\<rparr>) (stream_ctl_drop busy i (pw_ops w)))"

fun world_run ::
    "('l stream_item slab \<Rightarrow> nat) \<Rightarrow> 'l filter_layer \<Rightarrow> ((nat \<Rightarrow> kernel) \<times> 'l world_call) list \<Rightarrow> 'l poll_world \<Rightarrow> 'l poll_world option" where
  "world_run vac ly [] w = Some w"
| "world_run vac ly ((ks, c) # h) w = do { w \<leftarrow> world_do vac ly ks c w; world_run vac ly h w }"

definition world_new :: "'l poll_world" where
  "world_new = \<lparr>pw_ops = stream_ops_new, pw_task = \<lambda>_. Run_Done\<rparr>"

end
