(* ===== verification/Poll_Safe.thy ===== *)
theory Poll_Safe
  imports Poll_Stream
begin

text \<open>
  The life of the entries of the driver's table. Each of the two controls of a stream is in exactly one place: owned (by the
  task, or by the handle in the stream state), in the delayed queue, or recorded as dropped in the flags of the entry. A
  control being dropped is treated as if it stood at the head of the queue.
\<close>

section \<open>Items\<close>

definition item_step :: "'l stream_item \<Rightarrow> 'l stream_item \<Rightarrow> bool" where
  "item_step it it' \<longleftrightarrow> si_fd it' = si_fd it \<and> bit (si_flags it') 4 = bit (si_flags it) 4 \<and> bit (si_flags it') 5 = bit (si_flags it) 5 \<and>
     io_inv (si_ctx it') \<and> advances (si_ctx it) (si_ctx it')"

lemma item_step_trans: "item_step a b \<Longrightarrow> item_step b c \<Longrightarrow> item_step a c"
  by (auto simp: item_step_def intro: advances_trans)

lemma item_step_ctx: "io_inv s \<Longrightarrow> advances (si_ctx it) s \<Longrightarrow> item_step it (it\<lparr>si_ctx := s\<rparr>)"
  by (simp add: item_step_def)

lemma item_step_flags:
  "item_step it (it\<lparr>si_ctx := s\<rparr>) \<Longrightarrow> x \<in> {FL_RD, FL_WR} \<Longrightarrow> item_step it (it\<lparr>si_ctx := s, si_flags := fl_insert (si_flags it) x\<rparr>)"
  "item_step it (it\<lparr>si_ctx := s\<rparr>) \<Longrightarrow> x \<in> {FL_RD, FL_WR} \<Longrightarrow> item_step it (it\<lparr>si_ctx := s, si_flags := fl_remove (si_flags it) x\<rparr>)"
  by (auto simp: item_step_def flag_simps)

lemma item_arm_step:
  assumes "io_inv (si_ctx it)" and "item_arm i ev it = (it', cs)"
  shows "item_step it it'" and "set cs \<subseteq> range (Api_Modify (si_fd it) i)"
  using assms by (auto simp: item_arm_def item_step_def flag_simps split: if_splits)

lemma item_write_ok:
  assumes "io_inv s"
  obtains st s' where "item_write E k s = Some (st, s')" and "io_inv s'" and "advances s s'"
proof -
  have "stack_fits (st_filter s) (st_buffer s)" using assms by (simp add: io_inv_def)
  then obtain r s1 where 1: "ctx_with_write_buf E (write_pages k) s = Some (r, s1)" by (rule with_write_buf_total)
  then obtain st s' where 2: "item_write E k s = Some (st, s')" by (cases r) (auto simp: item_write_def Let_def intro: prod.exhaust)
  show thesis using that [OF 2] drv_run_io_inv [OF item_write_runs [OF 2 refl] assms] by blast
qed

lemma ctx_stop_quiet: "quiet s (ctx_stop e s)"
  unfolding ctx_stop_def by (rule quiet_basic)

lemma update_read_idle:
  "\<exists>st. ctx_update_read_status E buf (Inr 0) s = Some (st, s\<lparr>st_buffer := stack_set_read_buf buf (st_buffer s)\<rparr>)"
  by (simp add: ctx_update_read_status_def ctx_read_result_def Let_def)

lemma item_read_ok:
  assumes "layer_ok ly" and "io_inv s"
  obtains st s' where "item_read (poll_env ly k b) k' s = Some (st, s')" and "io_inv s'" and "advances s s'"
proof -
  let ?E = "poll_env ly k b"
  have ly: "layer_ok (ev_layer ?E)" using assms(1) by (simp add: poll_env_def)
  have rd: "\<exists>st s'. drv_read ?E xs res s = Some (st, s') \<and> io_inv s' \<and> advances s s'" for xs res
  proof -
    obtain s' where "io_do ?E (Drv_Read xs res) s = Some s'" "io_inv s'" "advances s s'" using ly assms(2) by (rule poll.drv_read_inv)
    then show ?thesis by auto
  qed
  have "\<exists>st s'. item_read ?E k' s = Some (st, s') \<and> io_inv s' \<and> advances s s'"
  proof (cases "kn_read k'")
    case Pending
    then show ?thesis using rd [of "[]" "Inr ()"] by (simp add: item_read_def drv_read_def split_beta)
  next
    case (Ready r)
    show ?thesis
    proof (cases r)
      case (Inl e)
      then show ?thesis using rd [of "[]" "Inl e"] Ready by (simp add: item_read_def drv_read_def split_beta)
    next
      case (Inr xs)
      show ?thesis
      proof (cases "xs = []")
        case False
        then show ?thesis using rd [of xs "Inr ()"] Ready Inr by (simp add: item_read_def drv_read_def split_beta)
      next
        case True
        let ?g = "ctx_get_read_buf s"
        have "quiet s (ctx_stop None (snd ?g))" by (rule quiet_trans [OF poll.get_set_read_quiet(1) ctx_stop_quiet])
        from quiet_trans [OF this poll.get_set_read_quiet(2)]
        have "quiet s ((ctx_stop None (snd ?g))\<lparr>st_buffer := stack_set_read_buf (fst ?g) (st_buffer (ctx_stop None (snd ?g)))\<rparr>)" .
        from quiet_inv [OF this assms(2)] update_read_idle [of ?E "fst ?g" "ctx_stop None (snd ?g)"] show ?thesis
          using Ready Inr True by (auto simp: item_read_def split_beta)
      qed
    qed
  qed
  then show thesis using that by blast
qed

lemma item_do_ok:
  assumes "layer_ok ly" and "io_inv (si_ctx it)"
  shows "\<exists>r it'. item_do_read (poll_env ly k b) k' it = Some (r, it') \<and> item_step it it'"
    and "\<exists>r it'. item_do_write E k' it = Some (r, it') \<and> item_step it it'"
proof -
  obtain st s' where 1: "item_read (poll_env ly k b) k' (si_ctx it) = Some (st, s')" "io_inv s'" "advances (si_ctx it) s'"
    using assms by (rule item_read_ok)
  show "\<exists>r it'. item_do_read (poll_env ly k b) k' it = Some (r, it') \<and> item_step it it'"
    using 1(1) item_step_flags [OF item_step_ctx [OF 1(2,3)]] by (auto simp: item_do_read_def)
  obtain st s' where 2: "item_write E k' (si_ctx it) = Some (st, s')" "io_inv s'" "advances (si_ctx it) s'"
    using assms(2) by (rule item_write_ok)
  show "\<exists>r it'. item_do_write E k' it = Some (r, it') \<and> item_step it it'"
    using 2(1) item_step_flags [OF item_step_ctx [OF 2(2,3)]] by (auto simp: item_do_write_def)
qed

lemma item_step_refl [simp]: "item_step it it \<longleftrightarrow> io_inv (si_ctx it)"
  by (simp add: item_step_def)

lemma item_step_inv: "item_step it it' \<Longrightarrow> io_inv (si_ctx it')"
  by (simp add: item_step_def)

definition quiet_calls :: "api_call list \<Rightarrow> bool" where
  "quiet_calls cs \<longleftrightarrow> (\<forall>fd i. Api_Attach fd i \<notin> set cs \<and> Sys_Close fd \<notin> set cs)"

lemma item_event_ok:
  assumes ly: "layer_ok ly" and inv: "io_inv (si_ctx it)"
  obtains it' cs where "item_event ly k i ev it = Some (it', cs)" and "item_step it it'" and "quiet_calls cs"
proof -
  obtain rd it1 where 1: "(if pe_readable ev then item_do_read (poll_env ly k True) k it else Some (bit (si_flags it) 0, it)) = Some (rd, it1)"
    "item_step it it1" using item_do_ok(1) [OF ly inv, of k True k] inv by (cases "pe_readable ev") auto
  obtain wr it2 where 2: "(if pe_writable ev then item_do_write (poll_env ly k True) k it1 else Some (bit (si_flags it1) 1, it1)) = Some (wr, it2)"
    "item_step it1 it2"
    using item_do_ok(2) [OF ly item_step_inv [OF 1(2)], of "poll_env ly k True" k] item_step_inv [OF 1(2)] by (cases "pe_writable ev") auto
  note 3 = item_step_trans [OF 1(2) 2(2)]
  obtain it3 cs where a: "item_arm i (event_none\<lparr>pe_readable := rd, pe_writable := wr\<rparr>) it2 = (it3, cs)" by fastforce
  note arm = item_arm_step [OF item_step_inv [OF 3] a]
  let ?stop = "it2\<lparr>si_ctx := ctx_stop None (si_ctx it2)\<rparr>"
  have "item_step it2 ?stop" using quiet_inv [OF ctx_stop_quiet item_step_inv [OF 3]] by (intro item_step_ctx) auto
  with 3 have st: "item_step it ?stop" by (rule item_step_trans)
  have "item_event ly k i ev it = Some (if pe_interrupt ev then (?stop, []) else (it3, cs))"
    using 1(1) 2(1) a by (simp add: item_event_def)
  moreover have "quiet_calls cs" using arm(2) by (auto simp: quiet_calls_def)
  ultimately show thesis using that st item_step_trans [OF 3 arm(1)] by (cases "pe_interrupt ev") (auto simp: quiet_calls_def)
qed

lemma interest_ok:
  assumes "layer_ok ly" and inv: "io_inv (si_ctx it)"
  shows "\<exists>x y it'. interest_read (poll_env ly k b) k' rd it = Some (x, y, it') \<and> item_step it it'"
    and "\<exists>x y it'. interest_write E k' wr it = Some (x, y, it') \<and> item_step it it'"
proof -
  have rm: "item_step it (it\<lparr>si_flags := fl_remove (si_flags it) x\<rparr>)" if "x \<in> {FL_RD, FL_WR}" for x
    using inv that by (auto simp: item_step_def flag_simps)
  obtain st s where r: "item_read (poll_env ly k b) k' (si_ctx it) = Some (st, s)" "io_inv s" "advances (si_ctx it) s"
    using assms by (rule item_read_ok)
  note rs = item_step_ctx [OF r(2,3)]
  show "\<exists>x y it'. interest_read (poll_env ly k b) k' rd it = Some (x, y, it') \<and> item_step it it'"
    using r(1) rs item_step_flags(1) [OF rs, of FL_RD] rm [of FL_RD] inv
    by (cases rd; cases "bit (si_flags it) 0"; cases "st = Task_Io") (auto simp: interest_read_def)
  obtain st s where w: "item_write E k' (si_ctx it) = Some (st, s)" "io_inv s" "advances (si_ctx it) s"
    using inv by (rule item_write_ok)
  note ws = item_step_ctx [OF w(2,3)]
  show "\<exists>x y it'. interest_write E k' wr it = Some (x, y, it') \<and> item_step it it'"
    using w(1) ws item_step_flags(1) [OF ws, of FL_WR] rm [of FL_WR] inv
    by (cases wr; cases "bit (si_flags it) 1"; cases "st = Task_Io") (auto simp: interest_write_def)
qed

lemma item_interest_ok:
  assumes ly: "layer_ok ly" and inv: "io_inv (si_ctx it)"
  obtains it' cs where "item_interest ly k i rd wr it = Some (it', cs)" and "item_step it it'" and "quiet_calls cs"
proof -
  obtain want_rd r it1 where 1: "interest_read (poll_env ly k True) k rd it = Some (want_rd, r, it1)" "item_step it it1"
    using interest_ok(1) [OF ly inv] by blast
  obtain want_wr w it2 where 2: "interest_write (poll_env ly k True) k wr it1 = Some (want_wr, w, it2)" "item_step it1 it2"
    using interest_ok(2) [OF ly item_step_inv [OF 1(2)]] by blast
  note 3 = item_step_trans [OF 1(2) 2(2)]
  obtain it3 cs where a: "item_arm i (event_none\<lparr>pe_readable := r, pe_writable := w\<rparr>) it2 = (it3, cs)" by fastforce
  note arm = item_arm_step [OF item_step_inv [OF 3] a]
  have "item_interest ly k i rd wr it = Some (if want_rd \<or> want_wr then (it3, cs) else (it2, []))"
    using 1(1) 2(1) a by (simp add: item_interest_def)
  moreover have "quiet_calls cs" using arm(2) by (auto simp: quiet_calls_def)
  ultimately show thesis using that 3 item_step_trans [OF 3 arm(1)] by (cases "want_rd \<or> want_wr") (auto simp: quiet_calls_def)
qed

section \<open>The table\<close>

text \<open>An entry is there exactly as long as one of the two controls is; each control is owned, queued or recorded as dropped.\<close>

fun slot_ok :: "run_state \<Rightarrow> id_type list \<Rightarrow> nat \<Rightarrow> 'l stream_item option \<Rightarrow> bool" where
  "slot_ok t d i None \<longleftrightarrow> t = Run_Done \<and> count_list d (Id_Stream i) = 0 \<and> count_list d (Id_Weak i) = 0"
| "slot_ok t d i (Some it) \<longleftrightarrow> io_inv (si_ctx it) \<and> st_log (si_ctx it) = [] \<and>
     of_bool (t \<noteq> Run_Done) + count_list d (Id_Stream i) + of_bool (bit (si_flags it) 4) = (1::nat) \<and>
     of_bool (st_handle (si_ctx it)) + count_list d (Id_Weak i) + of_bool (bit (si_flags it) 5) = (1::nat) \<and>
     \<not> (bit (si_flags it) 4 \<and> bit (si_flags it) 5)"

text \<open>A descriptor that was attached to the poller is in the table or was closed, once.\<close>

definition attached :: "nat \<Rightarrow> api_call list \<Rightarrow> nat" where
  "attached fd cs = length (filter (\<lambda>c. case c of Api_Attach f _ \<Rightarrow> f = fd | _ \<Rightarrow> False) cs)"

definition fd_of :: "'l stream_item slab \<Rightarrow> nat \<Rightarrow> nat option" where
  "fd_of S i = map_option si_fd (slab_get S i)"

definition fds_ok :: "'l stream_item slab \<Rightarrow> api_call list \<Rightarrow> bool" where
  "fds_ok S cs \<longleftrightarrow> (\<forall>fd. attached fd cs = count_list cs (Sys_Close fd) + card {i. fd_of S i = Some fd})"

definition table_ok :: "(nat \<Rightarrow> run_state) \<Rightarrow> 'l stream_ops \<Rightarrow> bool" where
  "table_ok T tb \<longleftrightarrow> (\<forall>i. slot_ok (T i) (so_delayed tb) i (slab_get (so_streams tb) i)) \<and> fds_ok (so_streams tb) (so_calls tb)"

text \<open>A stream that is terminated and still has its handle.\<close>

definition leaked :: "'l stream_ops \<Rightarrow> nat \<Rightarrow> nat \<Rightarrow> bool" where
  "leaked tb i fd \<longleftrightarrow>
     (\<exists>it. slab_get (so_streams tb) i = Some it \<and> si_fd it = fd \<and> st_handle (si_ctx it) \<and> bit (st_flags (si_ctx it)) 0)"

definition table_next :: "(nat \<Rightarrow> run_state) \<Rightarrow> 'l stream_ops \<Rightarrow> 'l stream_ops \<Rightarrow> bool" where
  "table_next T tb tb' \<longleftrightarrow> table_ok T tb' \<and> (\<forall>i fd. leaked tb i fd \<longrightarrow> leaked tb' i fd)"

lemma table_next_trans: "table_next T a b \<Longrightarrow> table_next T' b c \<Longrightarrow> table_next T' a c"
  by (simp add: table_next_def)

lemma leaked_cong [simp]:
  "leaked (tb\<lparr>so_delayed := d\<rparr>) = leaked tb" "leaked (tb\<lparr>so_calls := c\<rparr>) = leaked tb" "leaked (tb\<lparr>so_effects := e\<rparr>) = leaked tb"
  by (simp_all add: leaked_def fun_eq_iff)

lemma table_slot: "table_ok T tb \<Longrightarrow> slab_get (so_streams tb) i = Some it \<Longrightarrow> slot_ok (T i) (so_delayed tb) i (Some it)"
  by (metis table_ok_def)

lemma table_alive:
  assumes "table_ok T tb" and "T i \<noteq> Run_Done \<or> count_list (so_delayed tb) (Id_Stream i) > 0 \<or> count_list (so_delayed tb) (Id_Weak i) > 0"
  obtains it where "slab_get (so_streams tb) i = Some it" and "slot_ok (T i) (so_delayed tb) i (Some it)"
proof (cases "slab_get (so_streams tb) i")
  case None
  then have "slot_ok (T i) (so_delayed tb) i (None :: 'a stream_item option)" using assms(1) by (metis table_ok_def)
  then show thesis using assms(2) by auto
qed (use that assms(1) table_slot in blast)

section \<open>Descriptors\<close>

lemma attached_append [simp]: "attached fd (a @ b) = attached fd a + attached fd b"
  by (simp add: attached_def)

lemma attached_simps [simp]:
  "attached fd [] = 0" "attached fd [Sys_Close f] = 0" "attached fd [Api_Detach f i] = 0" "attached fd [Api_Attach f i] = of_bool (f = fd)"
  by (simp_all add: attached_def)

lemma quiet_calls_counts: "quiet_calls cs \<Longrightarrow> attached fd cs = 0" "quiet_calls cs \<Longrightarrow> count_list cs (Sys_Close fd) = 0"
  by (auto simp: quiet_calls_def attached_def filter_empty_conv count_list_0_iff split: api_call.splits)

lemma fd_of_finite: "finite {i. fd_of S i = Some fd}"
  by (rule finite_subset [of _ "{..< length S}"]) (auto simp: fd_of_def slab_get_def split: if_splits)

lemma fds_quiet: "fds_ok S cs \<Longrightarrow> quiet_calls ds \<Longrightarrow> fd_of S' = fd_of S \<Longrightarrow> fds_ok S' (cs @ ds)"
  by (simp add: fds_ok_def quiet_calls_counts)

lemma fds_close:
  assumes "fds_ok S cs" and "slab_get S i = Some it"
  shows "fds_ok (slab_del S i) (cs @ [Sys_Close (si_fd it)])"
proof -
  have "{j. fd_of (slab_del S i) j = Some fd} = {j. fd_of S j = Some fd} - {i}" for fd by (auto simp: fd_of_def)
  moreover have "fd_of S i = Some (si_fd it)" using assms(2) by (simp add: fd_of_def)
  moreover have "card {j. fd_of S j = Some (si_fd it)} > 0" using fd_of_finite calculation(2) by (auto simp: card_gt_0_iff)
  ultimately show ?thesis using assms(1) by (auto simp: fds_ok_def card_Diff_singleton_if)
qed

lemma fds_open:
  assumes "fds_ok S cs" and "slab_get S i = None"
  shows "fds_ok (slab_put S i it) (cs @ [Api_Attach (si_fd it) i])"
proof -
  have "{j. fd_of (slab_put S i it) j = Some fd} = (if fd = si_fd it then insert i else id) {j. fd_of S j = Some fd}" for fd
    using assms(2) by (auto simp: fd_of_def)
  moreover have "i \<notin> {j. fd_of S j = Some fd}" for fd using assms(2) by (simp add: fd_of_def)
  ultimately show ?thesis using assms(1) fd_of_finite [of S] by (auto simp: fds_ok_def)
qed

section \<open>Putting an entry back\<close>

lemma feed_counts [simp]:
  "count_list (concat (map (feed_of i) l)) (Id_Stream j) = 0"
  "count_list (concat (map (feed_of i) l)) (Id_Weak j) = (if j = i then count_list l Io_Drop_Handle else 0)"
proof (induction l)
  case (Cons a l)
  { case 1 show ?case using Cons(1) by (cases a) auto }
  { case 2 show ?case using Cons(2) by (cases a) auto }
qed auto

text \<open>An entry after one step, its log collected; \<open>d\<close> is the queue with the controls it dropped.\<close>

definition cleared :: "'l stream_item \<Rightarrow> 'l stream_item" where
  "cleared it = it\<lparr>si_ctx := (si_ctx it)\<lparr>st_log := []\<rparr>\<rparr>"

lemma cleared_simps [simp]:
  "si_fd (cleared it) = si_fd it" "si_flags (cleared it) = si_flags it" "st_log (si_ctx (cleared it)) = []"
  "io_inv (si_ctx (cleared it)) = io_inv (si_ctx it)" "st_handle (si_ctx (cleared it)) = st_handle (si_ctx it)"
  "st_flags (si_ctx (cleared it)) = st_flags (si_ctx it)"
  by (simp_all add: cleared_def)

lemma slot_step:
  assumes "slot_ok t d i (Some it)" and "item_step it it'"
    and "count_list d' (Id_Stream i) = count_list d (Id_Stream i)"
    and "count_list d' (Id_Weak i) = count_list d (Id_Weak i) + count_list (st_log (si_ctx it')) Io_Drop_Handle"
  shows "slot_ok t d' i (Some (cleared it'))"
proof -
  have "handles (si_ctx it') = handles (si_ctx it)" using assms(2) by (simp add: item_step_def advances_def)
  then show ?thesis using assms by (auto simp: item_step_def handles_def split: if_splits)
qed

text \<open>A call works on one entry; \<open>tb0\<close> is the table with the control being dropped in front of the queue.\<close>

lemma table_set:
  assumes ok: "table_ok T tb0" and S: "so_streams tb0 = so_streams tb"
    and other: "\<And>j. j \<noteq> i \<Longrightarrow> slab_get (so_streams tb') j = slab_get (so_streams tb) j" "\<And>j. j \<noteq> i \<Longrightarrow> T' j = T j"
      "\<And>j. j \<noteq> i \<Longrightarrow> count_list (so_delayed tb') (Id_Stream j) = count_list (so_delayed tb0) (Id_Stream j)"
      "\<And>j. j \<noteq> i \<Longrightarrow> count_list (so_delayed tb') (Id_Weak j) = count_list (so_delayed tb0) (Id_Weak j)"
    and slot: "slot_ok (T' i) (so_delayed tb') i (slab_get (so_streams tb') i)"
    and fds: "fds_ok (so_streams tb') (so_calls tb')"
    and leak: "\<And>fd. leaked tb i fd \<Longrightarrow> leaked tb' i fd"
  shows "table_next T' tb tb'"
proof -
  have "slot_ok (T' j) (so_delayed tb') j (slab_get (so_streams tb') j)" for j
  proof (cases "j = i")
    case False
    have "slot_ok (T j) (so_delayed tb0) j (slab_get (so_streams tb) j)" using ok S by (metis table_ok_def)
    then show ?thesis using other [OF False] by (cases "slab_get (so_streams tb) j") auto
  qed (simp add: slot)
  moreover have "leaked tb j fd \<Longrightarrow> leaked tb' j fd" for j fd
    using leak other(1) by (cases "j = i") (auto simp: leaked_def)
  ultimately show ?thesis using fds by (simp add: table_next_def table_ok_def)
qed

lemma table_put:
  assumes ok: "table_ok T tb" and it: "slab_get (so_streams tb) i = Some it" and step: "item_step it it'" and cs: "quiet_calls cs"
    and d: "\<And>j. count_list d (Id_Stream j) = count_list (so_delayed tb) (Id_Stream j)"
      "\<And>j. count_list d (Id_Weak j) = count_list (so_delayed tb) (Id_Weak j) + (if j = i then count_list (st_log (si_ctx it')) Io_Drop_Handle else 0)"
  shows "table_next T tb (tb\<lparr>so_calls := so_calls tb @ cs, so_streams := slab_put (so_streams tb) i (cleared it'), so_delayed := d, so_effects := e\<rparr>)"
proof (rule table_set [OF ok refl, of i])
  have "fd_of (slab_put (so_streams tb) i (cleared it')) = fd_of (so_streams tb)"
    using it step by (auto simp: fd_of_def fun_eq_iff item_step_def)
  then show "fds_ok (so_streams (tb\<lparr>so_calls := so_calls tb @ cs, so_streams := slab_put (so_streams tb) i (cleared it'), so_delayed := d, so_effects := e\<rparr>))
      (so_calls (tb\<lparr>so_calls := so_calls tb @ cs, so_streams := slab_put (so_streams tb) i (cleared it'), so_delayed := d, so_effects := e\<rparr>))"
    using ok cs by (auto simp: table_ok_def intro: fds_quiet)
qed (use it step d slot_step [OF table_slot [OF ok it] step, of d] in \<open>auto simp: leaked_def item_step_def advances_def simp del: slot_ok.simps\<close>)

lemma put_item_ok:
  assumes "table_ok T tb" and "slab_get (so_streams tb) i = Some it" and "item_step it it'" and "quiet_calls cs"
  shows "table_next T tb (put_item i it' (tb\<lparr>so_calls := so_calls tb @ cs\<rparr>))"
  using table_put [OF assms, of "so_delayed tb @ concat (map (feed_of i) (st_log (si_ctx it')))" "so_effects tb @ st_log (si_ctx it')"]
  by (simp add: put_item_def cleared_def Let_def)

section \<open>Dropping a control\<close>

lemma drop_weak_ok:
  assumes ok: "table_ok T (tb\<lparr>so_delayed := Id_Weak i # so_delayed tb\<rparr>)"
  obtains tb' where "drop_weak_stream i tb = Some tb'" and "table_next T tb tb'" and "so_delayed tb' = so_delayed tb"
proof -
  obtain it where it: "slab_get (so_streams tb) i = Some it" "slot_ok (T i) (Id_Weak i # so_delayed tb) i (Some it)"
    using table_alive [OF ok, of i] by auto
  have h: "\<not> st_handle (si_ctx it)" "\<not> bit (si_flags it) 5" "count_list (so_delayed tb) (Id_Weak i) = 0" "st_log (si_ctx it) = []"
    using it(2) by auto
  let ?gone = "tb\<lparr>so_streams := slab_del (so_streams tb) i, so_calls := so_calls tb @ [Sys_Close (si_fd it)]\<rparr>"
  let ?kept = "put_item i (it\<lparr>si_flags := fl_insert (si_flags it) DROPPED_SEC\<rparr>) tb"
  have fds: "fds_ok (so_streams tb) (so_calls tb)" using ok by (simp add: table_ok_def)
  have r: "drop_weak_stream i tb = Some (if bit (si_flags it) 4 then ?gone else ?kept)" using it(1) by (simp add: drop_weak_stream_def)
  have "table_next T tb (if bit (si_flags it) 4 then ?gone else ?kept)"
  proof (cases "bit (si_flags it) 4")
    case True
    have "table_next T tb ?gone"
      by (rule table_set [OF ok, of _ i]) (use it h True fds_close [OF fds it(1)] in \<open>auto simp: leaked_def\<close>)
    then show ?thesis using True by simp
  next
    case False
    have "fd_of (so_streams ?kept) = fd_of (so_streams tb)" using it(1) by (auto simp: fd_of_def fun_eq_iff put_item_def Let_def)
    then have "fds_ok (so_streams ?kept) (so_calls ?kept)" using fds_quiet [OF fds, of "[]"] by (simp add: put_item_def Let_def quiet_calls_def)
    then have "table_next T tb ?kept"
      by (intro table_set [OF ok, of _ i]) (use it h False in \<open>auto simp: leaked_def put_item_def Let_def flag_simps\<close>)
    then show ?thesis using False by simp
  qed
  moreover have "so_delayed (if bit (si_flags it) 4 then ?gone else ?kept) = so_delayed tb" using h by (simp add: put_item_def Let_def)
  ultimately show thesis using that r by blast
qed

text \<open>What a step leaves for the queue: a dropped handle weighs one, a delayed write and a dropped stream two.\<close>

fun weight :: "id_type \<Rightarrow> nat" where
  "weight (Id_Weak i) = 1"
| "weight _ = 2"

definition feed_weight :: "id_type list \<Rightarrow> nat" where
  "feed_weight d = sum_list (map weight d)"

definition delays :: "'l io_state \<Rightarrow> nat" where
  "delays s = count_list (st_log s) Io_Delayed_Write"

lemma feed_weight_simps [simp]:
  "feed_weight [] = 0" "feed_weight (x # d) = weight x + feed_weight d" "feed_weight (a @ b) = feed_weight a + feed_weight b"
  by (simp_all add: feed_weight_def)

lemma feed_weight_log: "feed_weight (concat (map (feed_of i) l)) = count_list l Io_Drop_Handle + 2 * count_list l Io_Delayed_Write"
proof (induction l)
  case (Cons a l)
  then show ?case by (cases a) simp_all
qed simp

lemma delays_wake [simp]:
  "delays (io_wake_read_task s) = delays s" "delays (io_wake_write_task s) = delays s" "delays (io_wake_dispatch_task s) = delays s"
  by (auto simp: delays_def io_wake_read_task_def io_wake_write_task_def io_wake_dispatch_task_def count_list_0_iff split: prod.splits)

lemma delays_updates [simp]:
  "delays (s\<lparr>st_flags := f\<rparr>) = delays s" "delays (s\<lparr>st_buffer := b\<rparr>) = delays s" "delays (s\<lparr>st_filter := F\<rparr>) = delays s"
  "delays (s\<lparr>st_error := e\<rparr>) = delays s" "delays (s\<lparr>st_handle := h\<rparr>) = delays s"
  by (simp_all add: delays_def)

lemma delays_notify_disconnect [simp]: "delays (io_notify_disconnect s) = delays s"
  by (auto simp: delays_def io_notify_disconnect_def count_list_0_iff split: option.splits)

lemma delays_terminate [simp]: "delays (io_terminate_connection e s) = delays s" "delays (ctx_stop e s) = delays s"
proof -
  have drop: "delays (x\<lparr>st_handle := h, st_log := st_log x @ [Io_Drop_Handle]\<rparr>) = delays x" "delays (x\<lparr>st_handle := h, st_log := st_log x\<rparr>) = delays x"
    for h and x :: "'a io_state" by (simp_all add: delays_def)
  show "delays (io_terminate_connection e s) = delays s" by (simp add: io_terminate_connection_def Let_def drop)
  then show "delays (ctx_stop e s) = delays s" by (simp add: ctx_stop_def)
qed

lemma delays_write_buf:
  assumes "ctx_with_write_buf E f s = Some (r, s')"
  shows "delays s' = delays s"
proof -
  obtain r1 F b where "stack_process_write_buf (ev_layer E) (st_filter s) (st_buffer s) = Some (r1, F, b)"
    using assms by (auto simp: ctx_with_write_buf_def st_process_write_buf_def split: bind_splits)
  then show ?thesis using assms by (cases r1) (auto simp: ctx_with_write_buf_def st_process_write_buf_def split_beta)
qed

lemma delays_write_status: "ctx_update_write_status res s = (st, s') \<Longrightarrow> delays s' = delays s"
  by (auto simp: ctx_update_write_status_def ctx_write_notify_dispatch_def ctx_write_notify_tasks_def Let_def
      split: sum.splits if_splits)

lemma delays_item_write:
  assumes "item_write E k s = Some (st, s')"
  shows "delays s' = delays s"
proof -
  obtain res stop s1 where 1: "ctx_with_write_buf E (write_pages k) s = Some ((res, stop), s1)"
    "ctx_update_write_status res (if stop then ctx_stop None s1 else s1) = (st, s')"
    using assms by (auto simp: item_write_def split: bind_splits)
  show ?thesis using delays_write_status [OF 1(2)] delays_write_buf [OF 1(1)] by (simp split: if_splits)
qed

lemma put_item_weight:
  assumes "slot_ok t d i (Some it)" and "item_step it it'" and "delays (si_ctx it') = delays (si_ctx it)"
  shows "feed_weight (so_delayed (put_item i it' tb)) \<le> feed_weight (so_delayed tb) + 1"
proof -
  have "handles (si_ctx it') = handles (si_ctx it)" using assms(2) by (simp add: item_step_def advances_def)
  then have "count_list (st_log (si_ctx it')) Io_Drop_Handle \<le> 1" using assms(1) by (auto simp: handles_def split: if_splits)
  then show ?thesis using assms by (simp add: put_item_def Let_def feed_weight_log delays_def)
qed

lemma drop_stream_ok:
  assumes ok: "table_ok T (tb\<lparr>so_delayed := Id_Stream i # so_delayed tb\<rparr>)"
  obtains tb' where "drop_stream i tb = Some tb'" and "table_next T tb tb'" and "feed_weight (so_delayed tb') \<le> feed_weight (so_delayed tb) + 1"
proof -
  let ?tb0 = "tb\<lparr>so_delayed := Id_Stream i # so_delayed tb\<rparr>"
  obtain it where it: "slab_get (so_streams tb) i = Some it" "slot_ok (T i) (Id_Stream i # so_delayed tb) i (Some it)"
    using table_alive [OF ok, of i] by auto
  have inv: "io_inv (si_ctx it)" and b4: "\<not> bit (si_flags it) 4" using it(2) by auto
  define s where "s = (if ctx_is_stopped (si_ctx it) then si_ctx it else ctx_stop None (si_ctx it))"
  have s: "io_inv s" "advances (si_ctx it) s" "delays s = delays (si_ctx it)" using inv quiet_inv [OF ctx_stop_quiet inv] by (auto simp: s_def)
  have hs: "handles s = handles (si_ctx it)" using s(2) by (simp add: advances_def)
  define it' where "it' = it\<lparr>si_ctx := s, si_flags := fl_insert (si_flags it) DROPPED_PRI\<rparr>"
  define tb1 where "tb1 = put_item i it' (tb\<lparr>so_calls := so_calls tb @ [Api_Detach (si_fd it) i]\<rparr>)"
  have tb1: "so_streams tb1 = slab_put (so_streams tb) i (cleared it')" "so_calls tb1 = so_calls tb @ [Api_Detach (si_fd it) i]"
    "so_delayed tb1 = so_delayed tb @ concat (map (feed_of i) (st_log s))"
    by (simp_all add: tb1_def put_item_def Let_def cleared_def it'_def)
  have "fd_of (so_streams tb1) = fd_of (so_streams tb)" using it(1) by (auto simp: tb1 fd_of_def fun_eq_iff it'_def)
  then have fds: "fds_ok (so_streams tb1) (so_calls tb1)"
    using ok by (auto simp: tb1(2) table_ok_def quiet_calls_def intro!: fds_quiet)
  define gone where "gone = tb1\<lparr>so_streams := slab_del (so_streams tb1) i, so_calls := so_calls tb1 @ [Sys_Close (si_fd it)]\<rparr>"
  have r: "drop_stream i tb = Some (if bit (si_flags it) 5 then gone else tb1)"
    using it(1) by (simp add: drop_stream_def tb1_def it'_def s_def gone_def Let_def)
  have leak: "leaked tb i fd \<Longrightarrow> leaked tb1 i fd" for fd using it(1) s(2) by (auto simp: leaked_def tb1 it'_def advances_def)
  have "table_next T tb (if bit (si_flags it) 5 then gone else tb1)"
  proof (cases "bit (si_flags it) 5")
    case True
    then have "count_list (st_log s) Io_Drop_Handle = 0" "\<not> st_handle (si_ctx it)" using hs it(2) by (auto simp: handles_def split: if_splits)
    moreover have "fds_ok (so_streams gone) (so_calls gone)" using fds_close [OF fds, of i "cleared it'"] by (simp add: gone_def tb1 it'_def)
    ultimately have "table_next T tb gone"
      by (intro table_set [OF ok, of _ i]) (use it True in \<open>auto simp: leaked_def gone_def tb1\<close>)
    then show ?thesis using True by simp
  next
    case False
    then have "slot_ok (T i) (so_delayed tb1) i (Some (cleared it'))"
      using it(2) s(1) hs by (auto simp: tb1 it'_def handles_def flag_simps split: if_splits)
    then have "table_next T tb tb1"
      by (intro table_set [OF ok, of _ i] leak fds) (auto simp: tb1)
    then show ?thesis using False by simp
  qed
  moreover have "feed_weight (so_delayed tb1) \<le> feed_weight (so_delayed tb) + 1"
    using it(2) hs s(3) by (auto simp: tb1 feed_weight_log delays_def handles_def split: if_splits)
  ultimately show thesis using that r by (auto simp: gone_def split: if_splits)
qed

section \<open>The calls\<close>

lemma app_put_ok:
  assumes ok: "table_ok T tb" and it: "slab_get (so_streams tb) i = Some it" and step: "item_step it it'"
  obtains tb' where "app_put i it' tb = Some tb'" and "table_next T tb tb'"
proof -
  let ?log = "st_log (si_ctx it')"
  let ?tb1 = "tb\<lparr>so_streams := slab_put (so_streams tb) i (cleared it'), so_effects := so_effects tb @ ?log\<rparr>"
  have h: "count_list ?log Io_Drop_Handle \<le> 1"
    using table_slot [OF ok it] step by (auto simp: item_step_def advances_def handles_def split: if_splits)
  have r: "app_put i it' tb = (if Io_Drop_Handle \<in> set ?log then drop_weak_stream i ?tb1 else Some ?tb1)"
    by (simp add: app_put_def cleared_def Let_def)
  have e: "(tb\<lparr>so_calls := so_calls tb @ [], so_streams := S, so_delayed := d, so_effects := x\<rparr>) = tb\<lparr>so_streams := S, so_effects := x, so_delayed := d\<rparr>" for S d x
    by simp
  have q: "quiet_calls []" by (simp add: quiet_calls_def)
  note put = table_put [OF ok it step q, unfolded e]
  show thesis
  proof (cases "Io_Drop_Handle \<in> set ?log")
    case True
    then have 1: "count_list ?log Io_Drop_Handle = 1" using h by (metis count_list_0_iff le_neq_implies_less less_one)
    have n: "table_next T tb (?tb1\<lparr>so_delayed := Id_Weak i # so_delayed tb\<rparr>)" by (rule put) (use 1 in auto)
    then have "table_ok T (?tb1\<lparr>so_delayed := Id_Weak i # so_delayed ?tb1\<rparr>)" by (simp add: table_next_def)
    then obtain tb' where d: "drop_weak_stream i ?tb1 = Some tb'" "table_next T ?tb1 tb'" by (rule drop_weak_ok)
    show thesis using that [of tb'] r True d n by (auto simp: table_next_def)
  next
    case False
    then have "table_next T tb (?tb1\<lparr>so_delayed := so_delayed tb\<rparr>)" by (intro put) auto
    then show thesis using that [of ?tb1] r False by simp
  qed
qed

lemma feed_one_ok:
  assumes ok: "table_ok T (tb\<lparr>so_delayed := x # so_delayed tb\<rparr>)"
  obtains tb' where "feed_one ly ks x tb = Some tb'" and "table_next T tb tb'"
    and "feed_weight (so_delayed tb') < weight x + feed_weight (so_delayed tb)"
proof (cases x)
  case (Id_Stream i)
  obtain tb' where "drop_stream i tb = Some tb'" "table_next T tb tb'" "feed_weight (so_delayed tb') \<le> feed_weight (so_delayed tb) + 1"
    using ok unfolding Id_Stream by (rule drop_stream_ok)
  then show thesis using that [of tb'] Id_Stream by (simp add: feed_one_def)
next
  case (Id_Weak i)
  obtain tb' where "drop_weak_stream i tb = Some tb'" "table_next T tb tb'" "so_delayed tb' = so_delayed tb"
    using ok unfolding Id_Weak by (rule drop_weak_ok)
  then show thesis using that [of tb'] Id_Weak by (simp add: feed_one_def)
next
  case (Id_Write i)
  have tb: "table_ok T tb"
  proof -
    have "slot_ok t (Id_Write i # d) j v = slot_ok t d j v" for t d j and v :: "'a stream_item option" by (cases v) auto
    then show ?thesis using ok Id_Write by (simp add: table_ok_def)
  qed
  show thesis
  proof (cases "slab_get (so_streams tb) i")
    case None
    then show thesis using that [of tb] Id_Write tb by (simp add: feed_one_def table_next_def)
  next
    case (Some it)
    note slot = table_slot [OF tb Some]
    have inv: "io_inv (si_ctx it)" using slot by simp
    obtain st s where w: "item_write (poll_env ly (ks i) True) (ks i) (si_ctx it) = Some (st, s)" "io_inv s" "advances (si_ctx it) s"
      using inv by (rule item_write_ok)
    let ?it = "it\<lparr>si_ctx := s\<rparr>"
    have step: "item_step it ?it" using w(2,3) by (rule item_step_ctx)
    have "table_next T tb (put_item i ?it tb)" using put_item_ok [OF tb Some step, of "[]"] by (simp add: quiet_calls_def)
    moreover have "feed_weight (so_delayed (put_item i ?it tb)) \<le> feed_weight (so_delayed tb) + 1"
      using slot step by (rule put_item_weight) (simp add: delays_item_write [OF w(1)])
    ultimately show thesis using that [of "if ctx_is_stopped (si_ctx it) then tb else put_item i ?it tb"] Id_Write Some w(1) tb
      by (auto simp: feed_one_def table_next_def)
  qed
qed

lemma check_delayed_feed_ok:
  "table_ok T tb \<Longrightarrow> \<exists>tb'. check_delayed_feed ly ks tb = Some tb' \<and> table_next T tb tb' \<and> so_delayed tb' = []"
proof (induction "feed_weight (so_delayed tb)" arbitrary: tb rule: less_induct)
  case less
  show ?case
  proof (cases "so_delayed tb")
    case Nil
    then show ?thesis using less(2) by (simp add: check_delayed_feed.simps table_next_def)
  next
    case (Cons x d)
    let ?tb = "tb\<lparr>so_delayed := d\<rparr>"
    have "table_ok T (?tb\<lparr>so_delayed := x # so_delayed ?tb\<rparr>)" using less(2) Cons by (metis (no_types, lifting) stream_ops.surjective stream_ops.update_convs(2) stream_ops.select_convs(2))
    then obtain tb1 where 1: "feed_one ly ks x ?tb = Some tb1" "table_next T ?tb tb1" "feed_weight (so_delayed tb1) < weight x + feed_weight (so_delayed ?tb)"
      by (rule feed_one_ok)
    then obtain tb' where 2: "check_delayed_feed ly ks tb1 = Some tb'" "table_next T tb1 tb'" "so_delayed tb' = []"
      using less(1) [of tb1] Cons by (auto simp: table_next_def)
    have "table_next T ?tb tb'" using 1(2) 2(2) by (rule table_next_trans)
    then show ?thesis using 1(1) 2 Cons by (simp add: check_delayed_feed.simps [of ly ks tb] table_next_def)
  qed
qed

lemma table_next_refl: "table_ok T tb \<Longrightarrow> table_next T tb tb"
  by (simp add: table_next_def)

lemma table_next_ok: "table_next T tb tb' \<Longrightarrow> table_ok T tb'"
  by (simp add: table_next_def)

lemma ops_event_ok:
  assumes "layer_ok ly" and ok: "table_ok T tb"
  shows "\<exists>tb'. ops_event ly k i ev tb = Some tb' \<and> table_next T tb tb'"
proof (cases "slab_get (so_streams tb) i")
  case (Some it)
  then have "io_inv (si_ctx it)" using table_slot [OF ok Some] by simp
  with assms(1) obtain it' cs where "item_event ly k i ev it = Some (it', cs)" "item_step it it'" "quiet_calls cs" by (rule item_event_ok)
  then show ?thesis using put_item_ok [OF ok Some] Some by (simp add: ops_event_def)
qed (simp add: ops_event_def table_next_refl ok)

lemma ops_error_ok:
  assumes ok: "table_ok T tb"
  shows "table_next T tb (ops_error i e tb)"
proof (cases "slab_get (so_streams tb) i")
  case (Some it)
  then have "io_inv (si_ctx it)" using table_slot [OF ok Some] by simp
  then have "item_step it (it\<lparr>si_ctx := ctx_stop (Some e) (si_ctx it)\<rparr>)" using quiet_inv [OF ctx_stop_quiet] by (intro item_step_ctx) blast+
  then show ?thesis using put_item_ok [OF ok Some, of _ "[]"] Some table_next_refl [OF ok] by (simp add: ops_error_def quiet_calls_def)
qed (simp add: ops_error_def table_next_refl ok)

lemma ops_interest_ok:
  assumes "layer_ok ly" and ok: "table_ok T tb" and "T i \<noteq> Run_Done"
  obtains tb' where "ops_interest ly k i rd wr tb = Some tb'" and "table_next T tb tb'"
proof -
  obtain it where it: "slab_get (so_streams tb) i = Some it" using table_alive [OF ok] assms(3) by metis
  then have "io_inv (si_ctx it)" using table_slot [OF ok it] by simp
  with assms(1) obtain it' cs where "item_interest ly k i rd wr it = Some (it', cs)" "item_step it it'" "quiet_calls cs" by (rule item_interest_ok)
  then show thesis using that put_item_ok [OF ok it] it by (simp add: ops_interest_def)
qed

lemma io_do_step:
  assumes "layer_ok ly" and "io_inv (si_ctx it)"
  obtains s where "io_do (poll_env ly k b) x (si_ctx it) = Some s" and "item_step it (it\<lparr>si_ctx := s\<rparr>)"
proof -
  have "layer_ok (ev_layer (poll_env ly k b))" using assms(1) by (simp add: poll_env_def)
  from this assms(2) obtain s where "io_do (poll_env ly k b) x (si_ctx it) = Some s" "io_inv s" "advances (si_ctx it) s" by (rule poll.io_do_inv)
  then show thesis using that item_step_ctx by blast
qed

lemma ops_app_ok:
  assumes "layer_ok ly" and ok: "table_ok T tb"
  shows "\<exists>tb'. ops_app ly k i x tb = Some tb' \<and> table_next T tb tb'"
proof (cases "slab_get (so_streams tb) i")
  case (Some it)
  then have "io_inv (si_ctx it)" using table_slot [OF ok Some] by simp
  with assms(1) obtain s where s: "io_do (poll_env ly k False) x (si_ctx it) = Some s" "item_step it (it\<lparr>si_ctx := s\<rparr>)" by (rule io_do_step)
  from ok Some s(2) obtain tb' where "app_put i (it\<lparr>si_ctx := s\<rparr>) tb = Some tb'" "table_next T tb tb'" by (rule app_put_ok)
  then show ?thesis using s(1) Some by (simp add: ops_app_def)
qed (simp add: ops_app_def table_next_refl ok)

section \<open>The task\<close>

lemma release_ok:
  assumes ok: "table_ok T tb" and "T i \<noteq> Run_Done"
  shows "table_ok (T(i := Run_Done)) (tb\<lparr>so_delayed := Id_Stream i # so_delayed tb\<rparr>)"
    and "table_ok (T(i := Run_Done)) (tb\<lparr>so_delayed := so_delayed tb @ [Id_Stream i]\<rparr>)"
proof -
  have "slot_ok ((T(i := Run_Done)) j) d j v"
    if "slot_ok (T j) (so_delayed tb) j v" "count_list d (Id_Stream j) = count_list (so_delayed tb) (Id_Stream j) + of_bool (j = i)"
      "count_list d (Id_Weak j) = count_list (so_delayed tb) (Id_Weak j)" for d j and v :: "'a stream_item option"
    using that assms(2) by (cases v) (auto split: if_splits)
  then show "table_ok (T(i := Run_Done)) (tb\<lparr>so_delayed := Id_Stream i # so_delayed tb\<rparr>)"
    and "table_ok (T(i := Run_Done)) (tb\<lparr>so_delayed := so_delayed tb @ [Id_Stream i]\<rparr>)"
    using ok by (auto simp: table_ok_def)
qed

lemma stream_ctl_drop_ok:
  assumes "table_ok T tb" and "T i \<noteq> Run_Done"
  obtains tb' where "stream_ctl_drop busy i tb = Some tb'" and "table_next (T(i := Run_Done)) tb tb'"
proof (cases busy)
  case True
  then show thesis using that release_ok(2) [OF assms] by (simp add: stream_ctl_drop_def table_next_def)
next
  case False
  obtain tb' where "drop_stream i tb = Some tb'" "table_next (T(i := Run_Done)) tb tb'" using release_ok(1) [OF assms] by (rule drop_stream_ok)
  then show thesis using that False by (simp add: stream_ctl_drop_def)
qed

lemma slot_alive: "t \<noteq> Run_Done \<Longrightarrow> t' \<noteq> Run_Done \<Longrightarrow> slot_ok t d i v = slot_ok t' d i v"
  by (cases v) auto

lemma table_alive_cong: "t \<noteq> Run_Done \<Longrightarrow> T i \<noteq> Run_Done \<Longrightarrow> table_next (T(i := t)) tb tb' = table_next T tb tb'"
  using slot_alive [of t "T i"] by (auto simp: table_next_def table_ok_def)

lemma table_item:
  assumes "table_ok T tb" and "T i \<noteq> Run_Done"
  obtains it where "slab_get (so_streams tb) i = Some it" and "io_inv (si_ctx it)"
  using table_alive [OF assms(1), of i] assms(2) by auto

lemma task_steps:
  assumes ly: "layer_ok ly" and inv: "io_inv (si_ctx it)"
  shows "\<exists>r s. ctx_poll_read_ready (poll_env ly k b) elapsed cx (si_ctx it) = Some (r, s) \<and> item_step it (it\<lparr>si_ctx := s\<rparr>)"
    and "item_step it (it\<lparr>si_ctx := snd (ctx_poll_write_ready cx (si_ctx it))\<rparr>)"
    and "item_step it (it\<lparr>si_ctx := snd (ctx_shutdown flush cx (si_ctx it))\<rparr>)"
proof -
  obtain s where "io_do (poll_env ly k b) (Drv_Poll_Read elapsed cx) (si_ctx it) = Some s" "item_step it (it\<lparr>si_ctx := s\<rparr>)"
    using ly inv by (rule io_do_step)
  then show "\<exists>r s. ctx_poll_read_ready (poll_env ly k b) elapsed cx (si_ctx it) = Some (r, s) \<and> item_step it (it\<lparr>si_ctx := s\<rparr>)" by auto
  obtain s where "io_do (poll_env ly k b) (Drv_Poll_Write cx) (si_ctx it) = Some s" "item_step it (it\<lparr>si_ctx := s\<rparr>)"
    using ly inv by (rule io_do_step)
  then show "item_step it (it\<lparr>si_ctx := snd (ctx_poll_write_ready cx (si_ctx it))\<rparr>)" by simp
  obtain s where "io_do (poll_env ly k b) (Drv_Shutdown flush cx) (si_ctx it) = Some s" "item_step it (it\<lparr>si_ctx := s\<rparr>)"
    using ly inv by (rule io_do_step)
  then show "item_step it (it\<lparr>si_ctx := snd (ctx_shutdown flush cx (si_ctx it))\<rparr>)" by simp
qed

lemma run_readiness_ok:
  assumes ly: "layer_ok ly" and ok: "table_ok T tb" and t: "T i \<noteq> Run_Done"
  obtains t' tb' where "run_readiness ly k elapsed cx i tb = Some (t', tb')" and "t' \<noteq> Run_Done" and "table_next T tb tb'"
proof -
  let ?E = "poll_env ly k False"
  obtain it where it: "slab_get (so_streams tb) i = Some it" "io_inv (si_ctx it)" using ok t by (rule table_item)
  obtain r s1 where 1: "ctx_poll_read_ready ?E elapsed cx (si_ctx it) = Some (r, s1)" "item_step it (it\<lparr>si_ctx := s1\<rparr>)"
    using task_steps(1) [OF ly it(2)] by blast
  have "io_inv (si_ctx (it\<lparr>si_ctx := s1\<rparr>))" using 1(2) by (rule item_step_inv)
  from task_steps(2) [OF ly this] obtain w s2
    where 2: "ctx_poll_write_ready cx s1 = (w, s2)" "item_step (it\<lparr>si_ctx := s1\<rparr>) (it\<lparr>si_ctx := s2\<rparr>)" by (metis stream_item.select_convs(3) stream_item.update_convs(3) stream_item.surjective surjective_pairing)
  from app_put_ok [OF ok it(1) item_step_trans [OF 1(2) 2(2)]] obtain tb1
    where 3: "app_put i (it\<lparr>si_ctx := s2\<rparr>) tb = Some tb1" "table_next T tb tb1" .
  let ?waits = "\<lambda>p. p = Pending \<or> p = Ready Rdy_Ready"
  obtain tb2 where 4: "(if ?waits r \<or> ?waits w then ops_interest ly k i (r = Ready Rdy_Ready) (w = Ready Rdy_Ready) tb1 else Some tb1) = Some tb2"
    "table_next T tb1 tb2"
    using ops_interest_ok [OF ly table_next_ok [OF 3(2)] t] table_next_refl [OF table_next_ok [OF 3(2)]] by metis
  obtain it2 where 5: "slab_get (so_streams tb2) i = Some it2" using table_next_ok [OF 4(2)] t by (rule table_item)
  have "run_readiness ly k elapsed cx i tb = Some (if ?waits r \<and> ?waits w then Run_Poll
      else if ctx_is_stopped (si_ctx it2) then Run_Sys else Run_Close (w = Ready Rdy_Shutdown), tb2)"
    unfolding run_readiness_def Let_def using it(1) 1(1) 2(1) 3(1) 4(1) 5 by (simp del: if_split)
  then show thesis by (rule that) (use table_next_trans [OF 3(2) 4(2)] in auto)
qed

lemma run_close_ok:
  assumes ly: "layer_ok ly" and ok: "table_ok T tb" and t: "T i \<noteq> Run_Done"
  obtains t' tb' where "run_close ly k flush cx i tb = Some (t', tb')" and "t' \<noteq> Run_Done" and "table_next T tb tb'"
proof -
  obtain tb1 where 1: "ops_interest ly k i True True tb = Some tb1" "table_next T tb tb1" using ly ok t by (rule ops_interest_ok)
  note ok1 = table_next_ok [OF 1(2)]
  obtain it where it: "slab_get (so_streams tb1) i = Some it" "io_inv (si_ctx it)" using ok1 t by (rule table_item)
  obtain p s where 2: "ctx_shutdown flush cx (si_ctx it) = (p, s)" "item_step it (it\<lparr>si_ctx := s\<rparr>)"
    using task_steps(3) [OF ly it(2), of flush cx] by (cases "ctx_shutdown flush cx (si_ctx it)") simp
  obtain tb2 where 3: "app_put i (it\<lparr>si_ctx := s\<rparr>) tb1 = Some tb2" "table_next T tb1 tb2" using ok1 it(1) 2(2) by (rule app_put_ok)
  have "run_close ly k flush cx i tb = Some (if p = Pending then Run_Close flush else Run_Sys, tb2)"
    using 1(1) it(1) 2(1) 3(1) by (simp add: run_close_def)
  then show thesis by (rule that) (use table_next_trans [OF 1(2) 3(2)] in auto)
qed

text \<open>The control is dropped first, and that stops the stream: the result of \<open>shutdown(2)\<close> is never looked at.\<close>

lemma drop_stream_stops:
  assumes "drop_stream i tb = Some tb'" and "slab_get (so_streams tb') i = Some it"
  shows "ctx_is_stopped (si_ctx it)"
  using assms by (auto simp: drop_stream_def put_item_def Let_def bind_eq_Some_conv ctx_is_stopped_def ctx_stop_def io_flags split: if_splits)

lemma run_finish_drops: "run_finish res i tb = map_option (Pair Run_Done) (stream_ctl_drop False i tb)"
proof (cases "drop_stream i tb")
  case (Some tb')
  then show ?thesis using drop_stream_stops [OF Some]
    by (cases "slab_get (so_streams tb') i") (auto simp: run_finish_def stream_ctl_drop_def)
qed (simp add: run_finish_def stream_ctl_drop_def)

lemma run_finish_ok:
  assumes ok: "table_ok T tb" and t: "T i \<noteq> Run_Done"
  obtains tb' where "run_finish res i tb = Some (Run_Done, tb')" and "table_next (T(i := Run_Done)) tb tb'"
proof -
  obtain tb' where "stream_ctl_drop False i tb = Some tb'" "table_next (T(i := Run_Done)) tb tb'" using ok t by (rule stream_ctl_drop_ok)
  then show thesis using that by (simp add: run_finish_drops)
qed

section \<open>Histories\<close>

abbreviation world_ok :: "'l poll_world \<Rightarrow> bool" where
  "world_ok w \<equiv> table_ok (pw_task w) (pw_ops w)"

definition world_next :: "'l poll_world \<Rightarrow> 'l poll_world \<Rightarrow> bool" where
  "world_next w w' \<longleftrightarrow> table_next (pw_task w') (pw_ops w) (pw_ops w')"

lemma run_task_ok:
  assumes ly: "layer_ok ly" and ok: "world_ok w"
  shows "\<exists>w'. run_task ly k elapsed res cx i w = Some w' \<and> world_next w w'"
proof -
  let ?T = "pw_task w" and ?tb = "pw_ops w"
  have alive: thesis if "?T i \<noteq> Run_Done" "t \<noteq> Run_Done" "table_next ?T ?tb tb" "table_next (?T(i := t)) ?tb tb \<Longrightarrow> thesis" for t tb thesis
    using that table_alive_cong by metis
  show ?thesis
  proof (cases "?T i")
    case Run_Poll
    then have t: "?T i \<noteq> Run_Done" by simp
    obtain t' tb where "run_readiness ly k elapsed cx i ?tb = Some (t', tb)" "t' \<noteq> Run_Done" "table_next ?T ?tb tb" using ly ok t by (rule run_readiness_ok)
    then show ?thesis using alive [OF t, of t' tb] Run_Poll by (simp add: run_task_def world_next_def)
  next
    case (Run_Close flush)
    then have t: "?T i \<noteq> Run_Done" by simp
    obtain t' tb where "run_close ly k flush cx i ?tb = Some (t', tb)" "t' \<noteq> Run_Done" "table_next ?T ?tb tb" using ly ok t by (rule run_close_ok)
    then show ?thesis using alive [OF t, of t' tb] Run_Close by (simp add: run_task_def world_next_def)
  next
    case Run_Sys
    then have t: "?T i \<noteq> Run_Done" by simp
    obtain tb where "run_finish res i ?tb = Some (Run_Done, tb)" "table_next (?T(i := Run_Done)) ?tb tb" using ok t by (rule run_finish_ok)
    then show ?thesis using Run_Sys by (simp add: run_task_def world_next_def)
  next
    case Run_Done
    have u: "?T(i := Run_Done) = ?T" using Run_Done by (metis fun_upd_triv)
    show ?thesis using Run_Done table_next_refl [OF ok] by (simp add: run_task_def world_next_def u)
  qed
qed

lemma register_ok:
  assumes ok: "table_ok T tb" and key: "slab_get (so_streams tb) key = None"
  shows "table_next (T(key := Run_Poll)) tb (ops_register key fd (io_new cfg sid) tb)"
proof (rule table_set [OF ok refl, of key])
  have "slot_ok (T key) (so_delayed tb) key (None :: 'a stream_item option)" using ok key by (metis table_ok_def)
  then show "slot_ok ((T(key := Run_Poll)) key) (so_delayed (ops_register key fd (io_new cfg sid) tb)) key
      (slab_get (so_streams (ops_register key fd (io_new cfg sid) tb)) key)"
    using io_new_inv [of cfg sid] by (simp add: ops_register_def io_new_def io_state_empty_def)
  have "fds_ok (so_streams tb) (so_calls tb)" using ok by (simp add: table_ok_def)
  from fds_open [OF this key, of "\<lparr>si_fd = fd, si_flags = 0, si_ctx = io_new cfg sid\<rparr>"]
  show "fds_ok (so_streams (ops_register key fd (io_new cfg sid) tb)) (so_calls (ops_register key fd (io_new cfg sid) tb))"
    by (simp add: ops_register_def)
qed (use key in \<open>auto simp: ops_register_def leaked_def\<close>)

lemma world_do_ok:
  assumes ly: "layer_ok ly" and vac: "\<forall>S. slab_get S (vac S) = None" and ok: "world_ok w"
  shows "\<exists>w'. world_do vac ly ks c w = Some w' \<and> world_next w w'"
proof (cases c)
  case (W_Register fd cfg sid)
  then show ?thesis using register_ok [OF ok] vac by (simp add: Let_def world_next_def)
next
  case (W_Event i ev)
  then show ?thesis using ops_event_ok [OF ly ok, of "ks i" i ev] by (auto simp: world_next_def)
next
  case (W_Error i e)
  then show ?thesis using ops_error_ok [OF ok] by (simp add: world_next_def)
next
  case W_Tick
  then show ?thesis using check_delayed_feed_ok [OF ok, of ly ks] by (auto simp: world_next_def)
next
  case (W_App i x)
  then show ?thesis using ops_app_ok [OF ly ok, of "ks i" i x] by (auto simp: world_next_def)
next
  case (W_Task i cx elapsed res)
  then show ?thesis using run_task_ok [OF ly ok] by simp
next
  case (W_Cancel i busy)
  show ?thesis
  proof (cases "pw_task w i = Run_Done")
    case True
    then show ?thesis using W_Cancel table_next_refl [OF ok] by (simp add: world_next_def)
  next
    case False
    obtain tb where "stream_ctl_drop busy i (pw_ops w) = Some tb" "table_next ((pw_task w)(i := Run_Done)) (pw_ops w) tb"
      using ok False by (rule stream_ctl_drop_ok)
    then show ?thesis using W_Cancel False by (simp add: world_next_def)
  qed
qed

lemma world_run_ok:
  assumes ly: "layer_ok ly" and vac: "\<forall>S. slab_get S (vac S) = None" and "world_ok w"
  shows "\<exists>w'. world_run vac ly h w = Some w' \<and> world_next w w'"
  using assms(3)
proof (induction h arbitrary: w)
  case Nil
  then show ?case by (simp add: world_next_def table_next_refl)
next
  case (Cons x h)
  obtain ks c where x: "x = (ks, c)" by fastforce
  obtain w1 where 1: "world_do vac ly ks c w = Some w1" "world_next w w1" using world_do_ok [OF ly vac Cons.prems] by blast
  then have "world_ok w1" by (simp add: world_next_def table_next_def)
  from Cons.IH [OF this] obtain w2 where 2: "world_run vac ly h w1 = Some w2" "world_next w1 w2" by blast
  have "world_next w w2" using 1(2) 2(2) table_next_trans by (auto simp: world_next_def)
  then show ?case using x 1(1) 2(1) by simp
qed

lemma world_new_ok: "world_ok world_new"
  by (simp add: world_new_def stream_ops_new_def table_ok_def fds_ok_def fd_of_def attached_def)

end
