(* ===== verification/Poll_Props.thy ===== *)
theory Poll_Props
  imports Io_Props Poll_Safe
begin

text \<open>
  What the polling driver promises of its table, for every history of registrations, events, errors, ticks, calls of the
  applications, polls and cancellations of the tasks, with every answer of the kernel and every filter.
\<close>

section \<open>The table\<close>

text \<open>C5. No history of the polling driver panics: it never indexes an entry of its table that is gone. And no
  descriptor is lost or closed twice: those attached to the poller are the ones in the table and the ones closed. An entry is
  in the table exactly as long as one of the two controls of its stream is owned or waits in the delayed queue.\<close>

theorem poll_table_safe:
  assumes "layer_ok ly" and "\<forall>S. slab_get S (vac S) = None"
  shows "\<exists>w. world_run vac ly h world_new = Some w \<and> table_ok (pw_task w) (pw_ops w)"
  using world_run_ok [OF assms world_new_ok, of h] by (auto simp: world_next_def table_next_def)

lemma slab_get_length: "\<forall>S. slab_get S (length S) = None"
  by (simp add: slab_get_def)

text \<open>A stream that the application terminates, while its task still runs and then ends.\<close>

definition closing_history :: "((nat \<Rightarrow> kernel) \<times> unit world_call) list" where
  "closing_history = [(\<lambda>_. all_written, W_Register 7 (io_config_new 0) 1), (\<lambda>_. all_written, W_App 0 Terminate),
     (\<lambda>_. all_written, W_Cancel 0 True), (\<lambda>_. all_written, W_Tick)]"

lemmas wake_eval = io_wake_read_task_def io_wake_write_task_def io_wake_dispatch_task_def io_notify_disconnect_def lw_new_def
  io_terminate_connection_def ctx_stop_def ctx_is_stopped_def

lemmas table_eval = ops_register_def ops_app_def app_put_def drop_weak_stream_def drop_stream_def stream_ctl_drop_def put_item_def feed_one_def
  world_new_def stream_ops_new_def slab_get_def slab_put_def slab_del_def

lemma closing_history_calls:
  "map_option (\<lambda>w. so_calls (pw_ops w)) (world_run length echo_layer closing_history world_new) =
     Some [Api_Attach 7 0, Api_Detach 7 0, Sys_Close 7]"
  by (simp add: closing_history_def table_eval check_delayed_feed.simps ioref_terminate_def wake_eval stream_eval Let_def flag_simps)

theorem poll_table_safe_witness:
  "\<exists>w. world_run length echo_layer closing_history world_new = Some w \<and> table_ok (pw_task w) (pw_ops w) \<and>
     so_calls (pw_ops w) = [Api_Attach 7 0, Api_Detach 7 0, Sys_Close 7]"
  using poll_table_safe [OF echo_layer_ok slab_get_length, of closing_history] closing_history_calls by auto

section \<open>The delayed queue\<close>


text \<open>The handle and the task of a stream are dropped while the driver handles an event that ends it.\<close>

definition hangup_history :: "((nat \<Rightarrow> kernel) \<times> unit world_call) list" where
  "hangup_history = [(\<lambda>_. all_written, W_Register 7 (io_config_new 0) 1),
     (\<lambda>_. all_written, W_Event 0 \<lparr>pe_readable = False, pe_writable = False, pe_interrupt = True\<rparr>),
     (\<lambda>_. all_written, W_Cancel 0 True)]"

lemma hangup_history_queue:
  "map_option (\<lambda>w. so_delayed (pw_ops w)) (world_run length echo_layer hangup_history world_new) = Some [Id_Weak 0, Id_Stream 0]"
  by (simp add: hangup_history_def table_eval ops_event_def item_event_def wake_eval stream_eval Let_def)


section \<open>A failed direct write\<close>


definition broken :: kernel where
  "broken = \<lparr>kn_sizes = [], kn_write = \<lambda>_. Ready (Inl (IoError NotConnected [])), kn_read = Pending\<rparr>"

definition direct_config :: io_config where
  "direct_config = (io_config_new 0)\<lparr>cf_write_buf_threshold := 1\<rparr>"

definition broken_history :: "((nat \<Rightarrow> kernel) \<times> unit world_call) list" where
  "broken_history = [(\<lambda>_. broken, W_Register 7 direct_config 1), (\<lambda>_. broken, W_App 0 (With_Write (\<lambda>b. b @ [1, 2, 3])))]"

lemma broken_write:
  assumes "st_filter s = Base" and "st_buffer s = stack_new\<lparr>sk_top := b\<rparr>" and "bf_write b \<noteq> []"
  shows "bit (st_flags (poll_write ly broken False s)) 0"
  using assms by (simp add: poll_write_def item_write_def ctx_with_write_buf_def st_process_write_buf_def write_pages_def broken_def stack_eval
      ctx_update_write_status_def MAX_WRITE_ITEMS_def MAX_WRITE_SIZE_def Let_def)

lemma broken_call:
  "\<exists>s. io_do (poll_env echo_layer broken False) (With_Write (\<lambda>b. b @ [1, 2, 3])) (io_new direct_config 1) = Some s \<and>
     st_handle s \<and> bit (st_flags s) 0 \<and> Io_Drop_Handle \<notin> set (st_log s)"
proof -
  let ?E = "poll_env echo_layer broken False"
  define s0 where "s0 = (io_new direct_config 1 :: unit io_state)\<lparr>st_buffer := stack_new\<lparr>sk_top := buffer_new\<lparr>bf_write := [1, 2, 3]\<rparr>\<rparr>\<rparr>"
  define s1 where "s1 = poll_write echo_layer broken False (upd_flags flags_unset_write_paused (s0\<lparr>st_handle := False\<rparr>))"
  have s1: "bit (st_flags s1) 0" unfolding s1_def by (rule broken_write [of _ "buffer_new\<lparr>bf_write := [1, 2, 3]\<rparr>"]) (simp_all add: s0_def stream_eval)
  let ?s2 = "s1\<lparr>st_handle := True\<rparr>"
  have call: "ioref_call_write ?E s0 = (\<not> flags_is_write_paused (st_flags s1), ?s2)"
    by (simp add: ioref_call_write_def Let_def s1_def poll_env_def s0_def stream_eval)
  have big: "st_write_buf_size s0 = 3" "flags_is_write_paused (st_flags s0)" "flags_is_direct_wr_enabled (st_flags s0)" "cf_write_buf_threshold (st_cfg s0) = 1"
    by (simp_all add: s0_def st_write_buf_size_def stack_eval stream_eval direct_config_def)
  let ?s = "ioref_consolidate_write_state ?E False s0"
  have "st_handle ?s \<and> bit (st_flags ?s) 0"
    using call big s1 unfolding ioref_consolidate_write_state_def
    by (cases "bit (st_flags s1) 9") (simp_all add: Let_def ioref_schedule_write_def io_flags)
  moreover have do: "io_do ?E (With_Write (\<lambda>b. b @ [1, 2, 3])) (io_new direct_config 1) = Some ?s"
    by (simp add: ioref_with_write_buf_def stack_with_write_src_def buffer_with_write_def s0_def stack_eval stream_eval)
  moreover have "handles ?s = handles (io_new direct_config 1 :: unit io_state)"
  proof -
    have "layer_ok (ev_layer ?E)" using echo_layer_ok by simp
    from this io_new_inv obtain t where "io_do ?E (With_Write (\<lambda>b. b @ [1, 2, 3])) (io_new direct_config 1) = Some t"
      "io_inv t" "advances (io_new direct_config 1) t" by (rule poll.io_do_inv)
    then show ?thesis using do by (simp add: advances_def del: io_do.simps)
  qed
  ultimately show ?thesis by (auto simp: handles_def stream_eval count_list_0_iff split: if_splits)
qed

lemma broken_history_leaks: "\<exists>w. world_run length echo_layer broken_history world_new = Some w \<and> leaked (pw_ops w) 0 7"
  using broken_call by (auto simp: broken_history_def table_eval leaked_def)


end
