(* ===== verification/Spec2Isabelle.thy ===== *)
theory Spec2Isabelle
  imports Time_Types Local_Waker Timers Oneshot Mpsc Condition Pool Bstream Counter Inflight Io_Flags Bytes_Props Pages_Props Io_Config Io_Filters Io_Manager Poll_Props
begin

text \<open>
  A verification development for geario, an asynchronous networking framework in Rust: a single-threaded runtime in which
  tasks share state through reference-counted cells, sleep on wakers and are woken by hand. Paths below are relative to
  \<open>src/geario/src/\<close>.

  \<^bold>\<open>The program and how its parts interact.\<close>
  A network driver (\<open>net/\<close>) owns a socket and moves bytes between the kernel and a stream (\<open>io/\<close>). A stream is a state
  shared by the application, a dispatcher, the driver's task and a manager of scheduled writes; between the application and
  the driver lies a stack of buffers, one per filter layer. Buffers are reference-counted byte vectors and chains of pages
  (\<open>bytes/\<close>). Timeouts come from a hashed hierarchical timer wheel (\<open>util/time/\<close>). Tasks talk over channels
  (\<open>util/channel/\<close>), and services are guarded by readiness arbitration, counters and an in-flight limiter (\<open>service/\<close>,
  \<open>util/services/\<close>).

  \<^bold>\<open>How the model is written.\<close>
  A struct is a record, an enum a datatype, a bitflags type a word of its width, a slab a list of optional entries, and an
  operation a function from the old state to the new one. \<open>None\<close> is a panic, an assertion or an access the code does not
  check; \<open>Inl\<close> is \<open>Err\<close>. A poll is \<open>Pending\<close> or \<open>Ready v\<close>, a task is a number, and an operation that wakes tasks
  returns them or appends them to a log. Whatever is not in the sources is an argument: the clock, the answers of the
  kernel, the programs of the filter layers, the key a slab chooses. What is relied on of them is a hypothesis with a name,
  and each theorem with hypotheses is followed by a witness that meets them.

  \<^bold>\<open>The theories.\<close>
  \<^item> \<open>Prelude\<close>: words, flags, slabs, polls and the lemma collections. \<open>Wakeup\<close>: the locale \<open>wake_safe\<close>, in which the absence of
    lost wake-ups is proved once from a one-step law; the channels, the counter and the stream interpret it.
  \<^item> \<open>Time_Types\<close> (\<open>util/time/types.rs\<close>): \<open>Millis\<close> and \<open>Seconds\<close> with their saturating arithmetic and conversions.
  \<^item> \<open>Timer_Wheel\<close> (\<open>util/time/wheel.rs\<close>): the wheel, its occupancy bits, the timer entries, the low-resolution clock and
    the driver's poll. \<open>Wheel_Arith\<close>, \<open>Wheel_Inv\<close>, \<open>Wheel_Next\<close>,
    \<open>Wheel_Steps\<close>, \<open>Wheel_Fire\<close>, \<open>Wheel_Driver\<close>, \<open>Wheel_Timer\<close> and \<open>Wheel_Props\<close> show that the search for
    the next bucket equals the least expiry, that the structure is consistent in every reachable state, that no timer fires
    early, by how much it may be late, and that a turn of the driver fires exactly what is due.
  \<^item> \<open>Timers\<close> (\<open>util/time/mod.rs\<close>): \<open>Sleep\<close>, \<open>Deadline\<close>, \<open>Interval\<close> and the timeout futures over the locale
    \<open>timer_source\<close>, which the wheel interprets.
  \<^item> \<open>Local_Waker\<close> (\<open>util/task.rs\<close>), \<open>Oneshot\<close>, \<open>Mpsc\<close>, \<open>Condition\<close>, \<open>Pool\<close>, \<open>Bstream\<close> (\<open>util/channel/\<close>): one theory per
    channel, with order and delivery over arbitrary histories, safety of the unchecked accesses and the absence of lost
    wake-ups, and the places where a wake-up is missing.
  \<^item> \<open>Counter\<close>, \<open>Readiness\<close>, \<open>Inflight\<close> (\<open>util/services/\<close>, \<open>service/ctx.rs\<close>): the counter, the arbitration of readiness
    among the bindings of a pipeline, and their composition in the in-flight limiter, whose limit is never exceeded.
  \<^item> \<open>Bytes_Mem\<close>, \<open>Bytes_Storage\<close> (\<open>bytes/stvec.rs\<close>, \<open>storage.rs\<close>, \<open>bytes.rs\<close>, \<open>bvec.rs\<close>): a heap of reference-counted blocks
    with the page cache, and \<open>Bytes\<close> and \<open>BytesMut\<close> as tagged views of it. \<open>Bytes_Own\<close>, \<open>Bytes_Ops\<close>, \<open>Bytes_Share\<close>,
    \<open>Bytes_Api\<close>, \<open>Bytes_World\<close>, \<open>Bytes_Refine\<close>, \<open>Bytes_Tags\<close> and \<open>Bytes_Props\<close> show that every admissible sequence of
    operations refines a store of independent byte lists, without interference and without leaks.
  \<^item> \<open>Byte_Pages\<close>, \<open>Pages_Spec\<close>, \<open>Pages_Queue\<close>, \<open>Pages_Split\<close>, \<open>Pages_Props\<close> (\<open>bytes/pages.rs\<close>): the paged buffer over the same heap, its round trip
    and its split.
  \<^item> \<open>Io_Config\<close> (\<open>io/cfg.rs\<close>): the settings and the thread-local pool of read buffers.
  \<^item> \<open>Io_Flags\<close> (\<open>io/flags.rs\<close>): the sixteen flag bits of a stream and every query and update of them.
  \<^item> \<open>Io_Buf\<close>, \<open>Io_Filters\<close>, \<open>Io_Sizes\<close> (\<open>io/buf.rs\<close>, \<open>io/filter.rs\<close>): the stack of buffers and the chain of filters. A layer is a
    program of calls on its two buffers. For layers that are codecs nothing is lost, duplicated or reordered, and what one
    side writes the other reads.
  \<^item> \<open>Io_State\<close> (\<open>io/io.rs\<close>, \<open>ioref.rs\<close>, \<open>ctx.rs\<close>): the state of a stream and the calls of \<open>Io\<close>, \<open>IoRef\<close> and \<open>IoContext\<close>.
    \<open>Io_Ops\<close> makes one datatype of the calls, so that a history is a list of them in any order. \<open>Io_Inv\<close> and \<open>Io_Write\<close>
    hold the invariant; the locale \<open>stream_driver\<close> says what a driver may do inside \<open>Handle::write\<close>. \<open>Io_Wake\<close> holds the
    wake-up laws and \<open>Io_Props\<close> the properties: no call panics, written bytes are never forgotten, a graceful shutdown
    flushes, no wake-up is lost.
  \<^item> \<open>Io_Timers\<close>, \<open>Io_Manager\<close> (\<open>io/ops.rs\<close>): the one-second timers of the streams, and the manager that owns the table of streams,
    the timers and the queue of scheduled writes, composed with the streams. \<open>Io_Sched\<close> shows that a stream sets its flag of
    a scheduled write only with a request to the manager. A timer fires at its tick and not before; a scheduled write is
    always performed, and the manager is never entered while it works.
  \<^item> \<open>Poll_Item\<close>, \<open>Poll_Stream\<close> (\<open>net/polling/stream.rs\<close>, \<open>net/polling/io.rs\<close>): the polling driver, which interprets
    \<open>stream_driver\<close>: its reads and writes, its table of streams, the delayed queue and the task of a stream. \<open>Poll_Safe\<close> and
    \<open>Poll_Props\<close> show that the table is never indexed out of place, that no descriptor is lost or closed twice in any history,
    that the loop over the delayed queue ends, and the one way in which a descriptor stays open.

  \<^bold>\<open>Bounds, fuel and termination.\<close>
  Recursion is structural or has a termination proof, with two exceptions, both \<open>partial_function (option)\<close>: the loop of
  \<open>resize_min\<close>, shown to return exactly when the high watermark is positive or there is room already, and the loop over the
  delayed queue, shown to return in every reachable state by a weight that each step decreases. The loops of the wheel run
  over its levels and the bits of a level. Integers have the width of the source where it can be reached:
  the 64-bit clock of the wheel, 32-bit lengths and reference counts, the offsets packed into a word,
  the 32-bit seconds of the stream timers, which are assumed not to run over. The sequences of byte operations are those
  within the bounds of the machine (\<open>buf_admissible\<close>): an allocation has a 32-bit size.

  \<^bold>\<open>Not modelled.\<close>
  \<^item> The io_uring and IOCP drivers, the reactors, the connector and the poller crate: system calls, completion structures and
    unsafe ownership of kernel memory; only the results of system calls would remain, as parameters. What they may do to a
    stream is the locale \<open>stream_driver\<close>.
  \<^item> The runtime, the server and the worker pool: threads, atomics and signals, outside a sequential model.
  \<^item> The service combinators: generic futures composed by the compiler, with no state of their own beyond the arbitration
    modelled in \<open>Readiness\<close>. Error types, formatting, serde, macros and benchmarks: no behaviour to verify.
  \<^item> The TLS filters: thin calls of rustls, which is not in the sources. A TLS layer is an instance of the parameter \<open>'l\<close> of
    the filter chain.
  \<^item> Of the modelled components: the async wrappers around poll functions, queries by type, and memory layout below the
    level of blocks and byte offsets. Wakers are tasks; that waking a task leads to a poll is the executor's promise.
\<close>

end
